(* ===== verification/Prelude.thy ===== *)
theory Prelude
  imports Complex_Main
    "HOL-Library.AList"
    "HOL-Library.Char_ord"
    "HOL-Library.List_Lexorder"
    "HOL-Library.Product_Lexorder"
begin

text \<open>
  Shared vocabulary of the MiniDB development.

  \<^item> Python dictionaries are association lists with insertion order: an assignment to a
    present key keeps its position, an assignment to a new key appends, deletion removes
    the key. These are exactly the library operations \<open>AList.update\<close> and
    \<open>AList.delete\<close>; the interface the components rely on is the locale
    \<open>py_dict\<close>, interpreted on them at the end of this theory.
  \<^item> Timestamps and other Python floats are exact rationals (\<open>time = rat\<close>); every
    finite float is one, rounding of sums is not modelled.
  \<^item> Python strings are \<open>string\<close>s compared lexicographically, tuples are compared
    lexicographically (the orders of \<open>List_Lexorder\<close> and \<open>Product_Lexorder\<close>).
  \<^item> Raised exceptions are values of \<open>py_error\<close>, results that may raise are sums
    with the error on the left.
\<close>

type_synonym time = rat
type_synonym node_id = string
type_synonym ('k, 'v) dict = "('k \<times> 'v) list"

datatype py_error =
    KeyError
  | ValueError
  | TypeError
  | IndexError
  | JSONDecodeError
  | AttributeError

type_synonym 'a res = "py_error + 'a"

text \<open>The facts the component proofs share: rules about dictionaries, and the unfolding of
  the small wrappers.\<close>

named_theorems dict_simps \<open>lookup, update and deletion on dictionaries\<close>
named_theorems dict_wf \<open>operations that keep the keys of a dictionary distinct\<close>

abbreviation dget :: "('k, 'v) dict \<Rightarrow> 'k \<Rightarrow> 'v option" where
  "dget d k \<equiv> map_of d k"

abbreviation dset :: "'k \<Rightarrow> 'v \<Rightarrow> ('k, 'v) dict \<Rightarrow> ('k, 'v) dict" where
  "dset k v d \<equiv> AList.update k v d"

abbreviation ddel :: "'k \<Rightarrow> ('k, 'v) dict \<Rightarrow> ('k, 'v) dict" where
  "ddel k d \<equiv> AList.delete k d"

abbreviation dkeys :: "('k, 'v) dict \<Rightarrow> 'k list" where
  "dkeys d \<equiv> map fst d"

abbreviation dwf :: "('k, 'v) dict \<Rightarrow> bool" where
  "dwf d \<equiv> distinct (map fst d)"

text \<open>The truth value of an optional float: \<^verbatim>\<open>None\<close> and \<^verbatim>\<open>0.0\<close> are false.\<close>

definition truthy_time :: "time option \<Rightarrow> bool" where
  "truthy_time e = (case e of None \<Rightarrow> False | Some t \<Rightarrow> t \<noteq> 0)"

text \<open>Decimal text of a number, as \<^verbatim>\<open>str(n)\<close> prints it.\<close>

fun str_nat :: "nat \<Rightarrow> string" where
  "str_nat n = (if n < 10 then [char_of (48 + n)] else str_nat (n div 10) @ [char_of (48 + n mod 10)])"

declare str_nat.simps [simp del]

definition str_int :: "int \<Rightarrow> string" where
  "str_int i = (if i < 0 then CHR ''-'' # str_nat (nat (- i)) else str_nat (nat i))"

text \<open>\<^verbatim>\<open>int()\<close> of a float drops its fractional part.\<close>

definition py_trunc :: "rat \<Rightarrow> int" where
  "py_trunc r = (if r \<ge> 0 then \<lfloor>r\<rfloor> else \<lceil>r\<rceil>)"

section \<open>Python sequences\<close>

text \<open>\<^verbatim>\<open>xs[i]\<close> and \<^verbatim>\<open>xs[:i]\<close>: a negative index counts from the end; indexing out of range raises,
  slicing never does.\<close>

definition py_nth :: "'a list \<Rightarrow> int \<Rightarrow> 'a res" where
  "py_nth xs i =
     (let n = int (length xs); j = (if i < 0 then i + n else i)
      in if 0 \<le> j \<and> j < n then Inr (xs ! nat j) else Inl IndexError)"

definition py_take :: "'a list \<Rightarrow> int \<Rightarrow> 'a list" where
  "py_take xs i = (let n = int (length xs) in take (nat (if i < 0 then i + n else i)) xs)"

lemma py_nth_inside [simp]: "0 \<le> i \<Longrightarrow> i < int (length xs) \<Longrightarrow> py_nth xs i = Inr (xs ! nat i)"
  by (simp add: py_nth_def)

lemma length_py_take: "length (py_take xs i) \<le> length xs"
  by (simp add: py_take_def Let_def)

section \<open>The dictionary interface\<close>

locale py_dict =
  fixes empty :: 'd
    and get :: "'d \<Rightarrow> 'k \<Rightarrow> 'v option"
    and upd :: "'k \<Rightarrow> 'v \<Rightarrow> 'd \<Rightarrow> 'd"
    and del :: "'k \<Rightarrow> 'd \<Rightarrow> 'd"
    and inv :: "'d \<Rightarrow> bool"
  assumes get_empty: "get empty k = None"
    and inv_empty: "inv empty"
    and get_upd: "inv d \<Longrightarrow> get (upd k v d) k' = (if k' = k then Some v else get d k')"
    and inv_upd: "inv d \<Longrightarrow> inv (upd k v d)"
    and get_del: "inv d \<Longrightarrow> get (del k d) k' = (if k' = k then None else get d k')"
    and inv_del: "inv d \<Longrightarrow> inv (del k d)"
begin

text \<open>A loop of assignments keeps, for every key, the last value assigned to it.\<close>

lemma inv_fold_upd: "inv d \<Longrightarrow> inv (fold (\<lambda>(k, v). upd k v) kvs d)"
  by (induction kvs arbitrary: d) (auto simp: inv_upd)

lemma get_fold_upd:
  "inv d \<Longrightarrow>
   get (fold (\<lambda>(k, v). upd k v) kvs d) k =
     (case map_of (rev kvs) k of None \<Rightarrow> get d k | Some v \<Rightarrow> Some v)"
proof (induction kvs arbitrary: d)
  case Nil
  then show ?case by simp
next
  case (Cons p kvs)
  obtain a b where p: "p = (a, b)" by fastforce
  from Cons.prems have "inv (upd a b d)" by (rule inv_upd)
  from Cons.IH [OF this] show ?case
    using Cons.prems by (auto simp: p get_upd map_add_def split: option.splits)
qed

text \<open>A loop of deletions removes exactly the listed keys.\<close>

lemma inv_fold_del: "inv d \<Longrightarrow> inv (fold del ks d)"
  by (induction ks arbitrary: d) (auto simp: inv_del)

lemma get_fold_del:
  "inv d \<Longrightarrow> get (fold del ks d) k = (if k \<in> set ks then None else get d k)"
  by (induction ks arbitrary: d) (auto simp: inv_del get_del)

end

interpretation pyd: py_dict "[]" map_of AList.update AList.delete "\<lambda>d. distinct (map fst d)"
  by unfold_locales
    (auto simp: update_conv' delete_conv' distinct_update distinct_delete)

lemmas dict_lookup [dict_simps] = update_conv' delete_conv' pyd.get_fold_upd pyd.get_fold_del
lemmas dict_distinct [dict_wf] = distinct_update distinct_delete pyd.inv_fold_upd pyd.inv_fold_del

section \<open>Lists and dictionaries\<close>

lemma dict_filter_get:
  "dwf d \<Longrightarrow> dget (filter (\<lambda>(k, v). P k v) d) k =
     (case dget d k of None \<Rightarrow> None | Some v \<Rightarrow> if P k v then Some v else None)"
  by (induction d) (auto split: option.splits dest: map_of_SomeD intro: rev_image_eqI)

lemma dict_wf_filter [dict_wf]: "dwf d \<Longrightarrow> dwf (filter P d)"
  by (induction d) auto

lemma dict_filter_keys_iff:
  assumes "dwf d" and "(k, v) \<in> set d"
  shows "k \<in> set (map fst (filter (\<lambda>(k, v). P v) d)) \<longleftrightarrow> P v"
proof
  assume "k \<in> set (map fst (filter (\<lambda>(k, v). P v) d))"
  then obtain w where "(k, w) \<in> set d" and "P w" by auto
  with eq_key_imp_eq_value [OF assms(1,2)] show "P v" by metis
next
  assume "P v"
  with assms(2) have "(k, v) \<in> set (filter (\<lambda>(k, v). P v) d)" by simp
  then show "k \<in> set (map fst (filter (\<lambda>(k, v). P v) d))" by force
qed

lemma dict_get_map_snd: "dget (map (\<lambda>(k, v). (k, f k v)) d) k = map_option (f k) (dget d k)"
  by (induction d) auto

lemma dict_keys_map_snd [simp]: "dkeys (map (\<lambda>(k, v). (k, f k v)) d) = dkeys d"
  by (induction d) auto

lemma dict_get_in_keys: "dget d k \<noteq> None \<longleftrightarrow> k \<in> set (dkeys d)"
  by (induction d) auto

lemma fold_del_filter: "fold AList.delete ks d = filter (\<lambda>(k, v). k \<notin> set ks) d"
proof (induction ks arbitrary: d)
  case Nil
  have "filter (\<lambda>(k, v). k \<notin> {}) d = d" by (induction d) auto
  then show ?case by simp
next
  case (Cons a ks)
  then show ?case
    by (auto simp: AList.delete_eq case_prod_unfold intro!: filter_cong)
qed

lemma dict_update_append: "dget d k = None \<Longrightarrow> dset k v d = d @ [(k, v)]"
  by (induction d) auto

lemma fold_upd_fresh:
  "distinct (map fst d @ map fst kvs) \<Longrightarrow> fold (\<lambda>(k, v). AList.update k v) kvs d = d @ kvs"
proof (induction kvs arbitrary: d)
  case Nil
  then show ?case by simp
next
  case (Cons p kvs)
  obtain a b where p: "p = (a, b)" by fastforce
  from Cons.prems have "dget d a = None" by (auto simp: p map_of_eq_None_iff)
  then show ?case using Cons.IH [of "d @ [(a, b)]"] Cons.prems
    by (simp add: p dict_update_append)
qed

end
