(* ===== verification/Json.thy ===== *)
theory Json
  imports Prelude
begin

text \<open>
  The values that pass through \<^verbatim>\<open>json.dumps\<close> and \<^verbatim>\<open>json.loads\<close>, and the two functions of
  Python's standard library themselves, with the default separators and ASCII escaping: every
  value a client can store is such a value (command arguments are strings, forwarded values are
  parsed JSON), and the append-only file, the snapshots and the wire protocol are JSON text.

  \<^item> Characters are code points below 256; an escape \<^verbatim>\<open>\uXXXX\<close> beyond that and the non-standard
    tokens \<^verbatim>\<open>NaN\<close> and \<^verbatim>\<open>Infinity\<close> denote no value of the model and are rejected.
  \<^item> How Python prints and reads a float is the one thing left open: a \<open>float_codec\<close> holds which
    rationals are floats, \<^verbatim>\<open>float.__repr__\<close> and \<^verbatim>\<open>float()\<close>. Their documented contract, and that
    \<open>loads\<close> undoes \<open>dumps\<close> under it, are in the theory Json_Roundtrip.
  \<^item> The parser is a recursive descent over the text with fuel; \<open>loads\<close> gives it
    \<open>2 * length s + 1\<close> units, and \<open>loads_decides\<close> shows that this never runs out.
\<close>

datatype json =
    JNull
  | JBool bool
  | JInt int
  | JFloat rat
  | JStr string
  | JList "json list"
  | JDict "(string \<times> json) list"

record float_codec =
  fc_float :: "rat \<Rightarrow> bool"
  fc_repr :: "rat \<Rightarrow> string"
  fc_read :: "string \<Rightarrow> rat"

abbreviation code :: "char \<Rightarrow> nat" where
  "code c \<equiv> of_char c"

definition is_digit :: "char \<Rightarrow> bool" where
  "is_digit c \<longleftrightarrow> 48 \<le> code c \<and> code c \<le> 57"

section \<open>Printing\<close>

definition hex_digit :: "nat \<Rightarrow> char" where
  "hex_digit n = (if n < 10 then char_of (48 + n) else char_of (87 + n))"

definition esc_char :: "char \<Rightarrow> string" where
  "esc_char c =
     (let n = code c in
      if n = 34 then [CHR 0x5C, CHR 0x22]
      else if n = 92 then [CHR 0x5C, CHR 0x5C]
      else if n = 10 then [CHR 0x5C, CHR ''n'']
      else if n = 13 then [CHR 0x5C, CHR ''r'']
      else if n = 9 then [CHR 0x5C, CHR ''t'']
      else if n = 12 then [CHR 0x5C, CHR ''f'']
      else if n = 8 then [CHR 0x5C, CHR ''b'']
      else if 32 \<le> n \<and> n \<le> 126 then [c]
      else [CHR 0x5C, CHR ''u'', CHR ''0'', CHR ''0'', hex_digit (n div 16), hex_digit (n mod 16)])"

definition quote :: "string \<Rightarrow> string" where
  "quote s = CHR 0x22 # concat (map esc_char s) @ [CHR 0x22]"

fun join :: "string \<Rightarrow> string list \<Rightarrow> string" where
  "join sep [] = []"
| "join sep [x] = x"
| "join sep (x # y # ys) = x @ sep @ join sep (y # ys)"

fun dumps :: "float_codec \<Rightarrow> json \<Rightarrow> string" where
  "dumps fc JNull = ''null''"
| "dumps fc (JBool b) = (if b then ''true'' else ''false'')"
| "dumps fc (JInt i) = str_int i"
| "dumps fc (JFloat x) = fc_repr fc x"
| "dumps fc (JStr s) = quote s"
| "dumps fc (JList vs) = ''['' @ join '', '' (map (dumps fc) vs) @ '']''"
| "dumps fc (JDict kvs) =
     ''{'' @ join '', '' (map (\<lambda>kv. quote (fst kv) @ '': '' @ dumps fc (snd kv)) kvs) @ ''}''"

section \<open>Reading\<close>

datatype 'a presult = NoFuel | Bad | Got 'a string

definition skip_ws :: "string \<Rightarrow> string" where
  "skip_ws s = dropWhile (\<lambda>c. code c \<in> {32, 9, 10, 13}) s"

definition hex_value :: "char \<Rightarrow> nat option" where
  "hex_value c =
     (let n = code c in
      if 48 \<le> n \<and> n \<le> 57 then Some (n - 48)
      else if 97 \<le> n \<and> n \<le> 102 then Some (n - 87)
      else if 65 \<le> n \<and> n \<le> 70 then Some (n - 55)
      else None)"

definition hex4 :: "char \<Rightarrow> char \<Rightarrow> char \<Rightarrow> char \<Rightarrow> char option" where
  "hex4 a b c d =
     (case (hex_value a, hex_value b, hex_value c, hex_value d) of
        (Some w, Some x, Some y, Some z) \<Rightarrow>
          (let n = 4096 * w + 256 * x + 16 * y + z in if n < 256 then Some (char_of n) else None)
      | _ \<Rightarrow> None)"

definition unesc_char :: "char \<Rightarrow> char option" where
  "unesc_char e =
     (let n = code e in
      if n = 34 then Some (CHR 0x22)
      else if n = 92 then Some (CHR 0x5C)
      else if n = 47 then Some (CHR ''/'')
      else if n = 98 then Some (CHR 0x08)
      else if n = 102 then Some (CHR 0x0C)
      else if n = 110 then Some (CHR 0x0A)
      else if n = 114 then Some (CHR 0x0D)
      else if n = 116 then Some (CHR 0x09)
      else None)"

fun scanstring :: "string \<Rightarrow> (string \<times> string) option" where
  "scanstring [] = None"
| "scanstring (c # cs) =
     (if code c = 34 then Some ([], cs)
      else if code c = 92
      then (case cs of
              [] \<Rightarrow> None
            | e # es \<Rightarrow>
                if code e = 117
                then (case es of
                        a # b # x # y # r \<Rightarrow>
                          (case hex4 a b x y of
                             None \<Rightarrow> None
                           | Some ch \<Rightarrow> map_option (\<lambda>(t, r'). (ch # t, r')) (scanstring r))
                      | _ \<Rightarrow> None)
                else (case unesc_char e of
                        None \<Rightarrow> None
                      | Some ch \<Rightarrow> map_option (\<lambda>(t, r'). (ch # t, r')) (scanstring es)))
      else if code c < 32 then None
      else map_option (\<lambda>(t, r'). (c # t, r')) (scanstring cs))"

declare scanstring.simps(2) [simp del]

definition digits_value :: "string \<Rightarrow> int" where
  "digits_value ds = fold (\<lambda>c n. 10 * n + (int (code c) - 48)) ds 0"

text \<open>The number pattern of the decoder,
  \<^verbatim>\<open>(-?(?:0|[1-9][0-9]*))(\.[0-9]+)?([eE][-+]?[0-9]+)?\<close>, matched greedily.\<close>

definition int_part :: "string \<Rightarrow> string" where
  "int_part s =
     (case s of
        [] \<Rightarrow> []
      | c # cs \<Rightarrow> if code c = 48 then [c] else takeWhile is_digit s)"

definition frac_part :: "string \<Rightarrow> string" where
  "frac_part s =
     (case s of
        [] \<Rightarrow> []
      | c # cs \<Rightarrow> if code c = 46 \<and> takeWhile is_digit cs \<noteq> [] then c # takeWhile is_digit cs else [])"

definition exp_part :: "string \<Rightarrow> string" where
  "exp_part s =
     (case s of
        [] \<Rightarrow> []
      | e # cs \<Rightarrow>
          if code e = 101 \<or> code e = 69
          then let sign = (case cs of c # _ \<Rightarrow> if code c = 43 \<or> code c = 45 then [c] else [] | [] \<Rightarrow> []);
                   ds = takeWhile is_digit (drop (length sign) cs)
               in if ds \<noteq> [] then e # sign @ ds else []
          else [])"

definition pnum :: "float_codec \<Rightarrow> string \<Rightarrow> json presult" where
  "pnum fc s =
     (let sign = (case s of c # _ \<Rightarrow> if code c = 45 then [c] else [] | [] \<Rightarrow> []);
          s1 = drop (length sign) s;
          ip = int_part s1;
          s2 = drop (length ip) s1;
          fp = frac_part s2;
          s3 = drop (length fp) s2;
          ep = exp_part s3;
          s4 = drop (length ep) s3
      in if ip = [] then Bad
         else if fp = [] \<and> ep = []
         then Got (JInt (if sign = [] then digits_value ip else - digits_value ip)) s4
         else Got (JFloat (fc_read fc (sign @ ip @ fp @ ep))) s4)"

definition dict_of_pairs :: "(string \<times> json) list \<Rightarrow> (string \<times> json) list" where
  "dict_of_pairs kvs = fold (\<lambda>(k, v). AList.update k v) kvs []"

fun pval :: "float_codec \<Rightarrow> nat \<Rightarrow> string \<Rightarrow> json presult"
  and pelems :: "float_codec \<Rightarrow> nat \<Rightarrow> json list \<Rightarrow> string \<Rightarrow> json presult"
  and pmembers :: "float_codec \<Rightarrow> nat \<Rightarrow> (string \<times> json) list \<Rightarrow> string \<Rightarrow> json presult" where
  "pval fc 0 s = NoFuel"
| "pval fc (Suc n) s =
     (case s of
        [] \<Rightarrow> Bad
      | c # cs \<Rightarrow>
          if code c = 34
          then (case scanstring cs of None \<Rightarrow> Bad | Some (t, r) \<Rightarrow> Got (JStr t) r)
          else if code c = 123
          then (let t = skip_ws cs
                in if t \<noteq> [] \<and> code (hd t) = 125 then Got (JDict []) (tl t) else pmembers fc n [] t)
          else if code c = 91
          then (let t = skip_ws cs
                in if t \<noteq> [] \<and> code (hd t) = 93 then Got (JList []) (tl t) else pelems fc n [] t)
          else if take 4 s = ''null'' then Got JNull (drop 4 s)
          else if take 4 s = ''true'' then Got (JBool True) (drop 4 s)
          else if take 5 s = ''false'' then Got (JBool False) (drop 5 s)
          else pnum fc s)"
| "pelems fc 0 acc s = NoFuel"
| "pelems fc (Suc n) acc s =
     (case pval fc n s of
        NoFuel \<Rightarrow> NoFuel
      | Bad \<Rightarrow> Bad
      | Got v r \<Rightarrow>
          (case skip_ws r of
             [] \<Rightarrow> Bad
           | c # r' \<Rightarrow>
               if code c = 93 then Got (JList (acc @ [v])) r'
               else if code c = 44 then pelems fc n (acc @ [v]) (skip_ws r')
               else Bad))"
| "pmembers fc 0 acc s = NoFuel"
| "pmembers fc (Suc n) acc s =
     (case s of
        [] \<Rightarrow> Bad
      | q # cs \<Rightarrow>
          if code q \<noteq> 34 then Bad
          else (case scanstring cs of
                  None \<Rightarrow> Bad
                | Some (k, r) \<Rightarrow>
                    (case skip_ws r of
                       [] \<Rightarrow> Bad
                     | c # r1 \<Rightarrow>
                         if code c \<noteq> 58 then Bad
                         else (case pval fc n (skip_ws r1) of
                                 NoFuel \<Rightarrow> NoFuel
                               | Bad \<Rightarrow> Bad
                               | Got v r2 \<Rightarrow>
                                   (case skip_ws r2 of
                                      [] \<Rightarrow> Bad
                                    | d # r3 \<Rightarrow>
                                        if code d = 125 then Got (JDict (dict_of_pairs (acc @ [(k, v)]))) r3
                                        else if code d = 44 then pmembers fc n (acc @ [(k, v)]) (skip_ws r3)
                                        else Bad)))))"

definition loads :: "float_codec \<Rightarrow> string \<Rightarrow> json res" where
  "loads fc s =
     (case pval fc (2 * length s + 1) (skip_ws s) of
        Got v r \<Rightarrow> if skip_ws r = [] then Inr v else Inl JSONDecodeError
      | _ \<Rightarrow> Inl JSONDecodeError)"

section \<open>The parser makes progress and never runs out of fuel\<close>

lemma length_skip_ws: "length (skip_ws s) \<le> length s"
  by (simp add: skip_ws_def length_dropWhile_le)

lemma scanstring_shorter: "scanstring s = Some (t, r) \<Longrightarrow> length r < length s"
proof (induction s arbitrary: t r rule: scanstring.induct)
  case (2 c cs)
  then show ?case
    by (auto simp: scanstring.simps(2) split: if_splits list.splits option.splits) fastforce+
qed simp

lemma length_int_part: "length (int_part s) \<le> length s"
  by (auto simp: int_part_def length_takeWhile_le split: list.splits)

lemma pnum_shorter: "pnum fc s = Got v r \<Longrightarrow> length r < length s"
  by (cases "int_part (drop (length (case s of c # _ \<Rightarrow> if code c = 45 then [c] else [] | [] \<Rightarrow> [])) s)")
    (auto simp: pnum_def Let_def int_part_def split: if_splits list.splits)

lemma pnum_fuel [simp]: "pnum fc s \<noteq> NoFuel"
  by (simp add: pnum_def Let_def)

text \<open>One step of each of the three functions, with the calls abstracted: the conclusions only
  need what the calls promise.\<close>

lemma pval_step_shorter:
  assumes "\<And>acc s v r. pelems fc n acc s = Got v r \<Longrightarrow> length r < length s"
    and "\<And>acc s v r. pmembers fc n acc s = Got v r \<Longrightarrow> length r < length s"
    and "pval fc (Suc n) s = Got v r"
  shows "length r < length s"
proof (cases s)
  case Nil
  with assms(3) show ?thesis by simp
next
  case (Cons c cs)
  let ?t = "skip_ws cs"
  have sk: "length ?t \<le> length cs" by (rule length_skip_ws)
  have el: "length r \<le> length cs" if "pelems fc n [] ?t = Got v r \<or> pmembers fc n [] ?t = Got v r"
    using that assms(1,2) [of "[]" ?t v r] sk by auto
  show ?thesis
    using assms(3) el sk scanstring_shorter [of cs] pnum_shorter [of fc s v r]
    by (auto simp: Cons Let_def split: if_splits option.splits)
qed

lemma pelems_step_shorter:
  assumes "\<And>s v r. pval fc n s = Got v r \<Longrightarrow> length r < length s"
    and "\<And>acc s v r. pelems fc n acc s = Got v r \<Longrightarrow> length r < length s"
    and "pelems fc (Suc n) acc s = Got v r"
  shows "length r < length s"
proof -
  from assms(3) obtain w r1 c r2 where w: "pval fc n s = Got w r1" and c: "skip_ws r1 = c # r2"
    and or: "r = r2 \<or> pelems fc n (acc @ [w]) (skip_ws r2) = Got v r"
    by (auto split: presult.splits list.splits if_splits)
  have "length (c # r2) \<le> length r1" using length_skip_ws [of r1] c by simp
  with assms(1) [OF w] have "length r2 < length s" by simp
  with or assms(2) [of "acc @ [w]" "skip_ws r2" v r] length_skip_ws [of r2] show ?thesis by auto
qed

lemma pmembers_stepE:
  assumes "pmembers fc (Suc n) acc s = Got v r"
  obtains q cs k r1 c r2 w r3 d r4 where "s = q # cs" "scanstring cs = Some (k, r1)"
    "skip_ws r1 = c # r2" "pval fc n (skip_ws r2) = Got w r3" "skip_ws r3 = d # r4"
    "r = r4 \<or> pmembers fc n (acc @ [(k, w)]) (skip_ws r4) = Got v r"
  using assms by (auto split: presult.splits list.splits if_splits option.splits)

lemma pmembers_step_shorter:
  assumes "\<And>s v r. pval fc n s = Got v r \<Longrightarrow> length r < length s"
    and "\<And>acc s v r. pmembers fc n acc s = Got v r \<Longrightarrow> length r < length s"
    and "pmembers fc (Suc n) acc s = Got v r"
  shows "length r < length s"
  using assms(3)
proof (rule pmembers_stepE)
  fix q cs k r1 c r2 w r3 d r4
  assume s: "s = q # cs" and k: "scanstring cs = Some (k, r1)" and c: "skip_ws r1 = c # r2"
    and w: "pval fc n (skip_ws r2) = Got w r3" and d: "skip_ws r3 = d # r4"
    and or: "r = r4 \<or> pmembers fc n (acc @ [(k, w)]) (skip_ws r4) = Got v r"
  have "length r4 < length s"
    using scanstring_shorter [OF k] length_skip_ws [of r1] length_skip_ws [of r2]
      length_skip_ws [of r3] assms(1) [OF w] by (simp add: s c d)
  with or assms(2) [of "acc @ [(k, w)]" "skip_ws r4" v r] length_skip_ws [of r4]
  show "length r < length s" by auto
qed

lemma parse_shorter:
  "pval fc n s = Got v r \<Longrightarrow> length r < length s"
  "pelems fc n acc s = Got v r \<Longrightarrow> length r < length s"
  "pmembers fc n acc' s = Got v r \<Longrightarrow> length r < length s"
proof (induction n arbitrary: s v r acc acc')
  case 0
  { case 1 then show ?case by simp next case 2 then show ?case by simp next case 3 then show ?case by simp }
next
  case (Suc n)
  { case 1 show ?case by (rule pval_step_shorter [OF _ _ 1]) (erule Suc.IH)+
  next case 2 show ?case by (rule pelems_step_shorter [OF _ _ 2]) (erule Suc.IH)+
  next case 3 show ?case by (rule pmembers_step_shorter [OF _ _ 3]) (erule Suc.IH)+ }
qed

lemma parse_enough:
  "2 * length s < n \<Longrightarrow> pval fc n s \<noteq> NoFuel"
  "2 * length s + 1 < n \<Longrightarrow> pelems fc n acc s \<noteq> NoFuel"
  "2 * length s + 1 < n \<Longrightarrow> pmembers fc n acc' s \<noteq> NoFuel"
proof (induction n arbitrary: s acc acc')
  case 0
  { case 1 then show ?case by simp next case 2 then show ?case by simp next case 3 then show ?case by simp }
next
  case (Suc n)
  { case 1
    show ?case
    proof (cases s)
      case (Cons c cs)
      with 1 length_skip_ws [of cs] have "2 * length (skip_ws cs) + 1 < n" by simp
      from Suc.IH(2,3) [OF this] show ?thesis
        by (auto simp: Cons Let_def split: if_splits option.splits)
    qed simp
  next
    case 2
    then have p: "pval fc n s \<noteq> NoFuel" using Suc.IH(1) by simp
    have "pelems fc n (acc @ [v]) (skip_ws r') \<noteq> NoFuel"
      if "pval fc n s = Got v r" and "skip_ws r = c # r'" for v r c r'
      using parse_shorter(1) [OF that(1)] length_skip_ws [of r] length_skip_ws [of r'] that(2) 2
      by (intro Suc.IH(2)) simp
    with p show ?case by (auto split: presult.splits list.splits if_splits)
  next
    case 3
    have v: "pval fc n (skip_ws r1) \<noteq> NoFuel"
      if "s = q # cs" and "scanstring cs = Some (k, r)" and "skip_ws r = c # r1" for q cs k r c r1
      using scanstring_shorter [OF that(2)] length_skip_ws [of r] length_skip_ws [of r1] that 3
      by (intro Suc.IH(1)) simp
    have m: "pmembers fc n (acc' @ [(k, w)]) (skip_ws r3) \<noteq> NoFuel"
      if "s = q # cs" and "scanstring cs = Some (k, r)" and "skip_ws r = c # r1"
        and "pval fc n (skip_ws r1) = Got w r2" and "skip_ws r2 = d # r3" for q cs k r c r1 w r2 d r3
      using scanstring_shorter [OF that(2)] parse_shorter(1) [OF that(4)] length_skip_ws [of r]
        length_skip_ws [of r1] length_skip_ws [of r2] length_skip_ws [of r3] that 3
      by (intro Suc.IH(3)) simp
    show ?case
      by (auto split: presult.splits list.splits if_splits option.splits) (metis v m)+
  }
qed

text \<open>So a rejected text is rejected by the grammar, never for lack of fuel.\<close>

lemma loads_decides: "pval fc (2 * length s + 1) (skip_ws s) \<noteq> NoFuel"
  using length_skip_ws [of s] by (intro parse_enough) simp

section \<open>Truth and white space\<close>

text \<open>Python's truth value of a JSON value.\<close>

fun truthy :: "json \<Rightarrow> bool" where
  "truthy JNull = False"
| "truthy (JBool b) = b"
| "truthy (JInt i) = (i \<noteq> 0)"
| "truthy (JFloat x) = (x \<noteq> 0)"
| "truthy (JStr s) = (s \<noteq> [])"
| "truthy (JList vs) = (vs \<noteq> [])"
| "truthy (JDict kvs) = (kvs \<noteq> [])"

text \<open>\<^verbatim>\<open>str.strip()\<close> removes the white space of the text's ends.\<close>

definition is_space :: "char \<Rightarrow> bool" where
  "is_space c \<longleftrightarrow> code c \<in> {9, 10, 11, 12, 13, 28, 29, 30, 31, 32, 133, 160}"

definition py_strip :: "string \<Rightarrow> string" where
  "py_strip s = rev (dropWhile is_space (rev (dropWhile is_space s)))"

section \<open>Python text of values\<close>

text \<open>\<^verbatim>\<open>repr\<close>, as f-strings use it for the elements of lists.\<close>

definition hex_escape :: "char \<Rightarrow> string" where
  "hex_escape c = [CHR 0x5C, CHR ''x'', hex_digit (code c div 16), hex_digit (code c mod 16)]"

definition repr_char :: "char \<Rightarrow> char \<Rightarrow> string" where
  "repr_char q c =
     (let n = code c in
      if c = q \<or> n = 92 then [CHR 0x5C, c]
      else if n = 10 then [CHR 0x5C, CHR ''n'']
      else if n = 13 then [CHR 0x5C, CHR ''r'']
      else if n = 9 then [CHR 0x5C, CHR ''t'']
      else if n < 32 \<or> (127 \<le> n \<and> n \<le> 160) \<or> n = 173 then hex_escape c
      else [c])"

text \<open>A string is quoted by apostrophes unless it contains one and no double quote.\<close>

definition repr_str :: "string \<Rightarrow> string" where
  "repr_str s =
     (let q = (if CHR 0x27 \<in> set s \<and> CHR 0x22 \<notin> set s then CHR 0x22 else CHR 0x27)
      in q # concat (map (repr_char q) s) @ [q])"

fun py_repr :: "float_codec \<Rightarrow> json \<Rightarrow> string" where
  "py_repr fc JNull = ''None''"
| "py_repr fc (JBool b) = (if b then ''True'' else ''False'')"
| "py_repr fc (JInt i) = str_int i"
| "py_repr fc (JFloat x) = fc_repr fc x"
| "py_repr fc (JStr s) = repr_str s"
| "py_repr fc (JList vs) = ''['' @ join '', '' (map (py_repr fc) vs) @ '']''"
| "py_repr fc (JDict kvs) =
     ''{'' @ join '', '' (map (\<lambda>kv. repr_str (fst kv) @ '': '' @ py_repr fc (snd kv)) kvs) @ ''}''"

definition repr_list :: "string list \<Rightarrow> string" where
  "repr_list xs = ''['' @ join '', '' (map repr_str xs) @ '']''"

end
