(* ===== verification/Json_Roundtrip.thy ===== *)
theory Json_Roundtrip
  imports Json
begin

text \<open>
  \<^verbatim>\<open>json.loads (json.dumps v) = v\<close>: for strings character by character, for numbers by the tokens of
  the number pattern, for lists and objects by induction on the parser's fuel. \<open>float_codec_ok\<close> is
  what Python documents of \<^verbatim>\<open>repr\<close> and \<^verbatim>\<open>float()\<close> (the text of a finite float is a JSON number with a
  fraction or an exponent, and reading it back gives the same float); \<open>whole_codec\<close> is a concrete
  codec that meets it, and prints a whole number as Python does (\<^verbatim>\<open>5.0\<close>).
\<close>

section \<open>Reading back what was printed\<close>

subsection \<open>Strings\<close>

lemma code_char_of [simp]: "n < 256 \<Longrightarrow> code (char_of n) = n"
  by (simp add: of_char_of)

lemma char_of_code: "code c = n \<Longrightarrow> c = char_of n"
  by auto

lemma code_less: "code c < 256"
  by (cases c) simp

lemma hex_value_hex_digit: "n < 16 \<Longrightarrow> hex_value (hex_digit n) = Some n"
  by (auto simp: hex_value_def hex_digit_def Let_def)

lemma hex4_digits:
  "hex4 (CHR ''0'') (CHR ''0'') (hex_digit (code c div 16)) (hex_digit (code c mod 16)) = Some c"
proof -
  have "hex_value (CHR ''0'') = Some 0" by (simp add: hex_value_def)
  moreover have "16 * (code c div 16) + code c mod 16 = code c" by simp
  moreover have "code c div 16 < 16" using code_less [of c] by (simp add: less_mult_imp_div_less)
  ultimately show ?thesis using code_less [of c] by (simp add: hex4_def hex_value_hex_digit Let_def)
qed

lemma code_inject: "code c = code d \<Longrightarrow> c = d"
  by simp

lemma named_escapes:
  "code c = 34 \<Longrightarrow> c = CHR 0x22" "code c = 92 \<Longrightarrow> c = CHR 0x5C" "code c = 10 \<Longrightarrow> c = CHR 0x0A"
  "code c = 13 \<Longrightarrow> c = CHR 0x0D" "code c = 9 \<Longrightarrow> c = CHR 0x09" "code c = 12 \<Longrightarrow> c = CHR 0x0C"
  "code c = 8 \<Longrightarrow> c = CHR 0x08"
  by (rule code_inject, simp)+

lemma scanstring_esc:
  "scanstring (esc_char c @ t) = map_option (\<lambda>(x, r). (c # x, r)) (scanstring t)"
proof (cases "code c \<in> {34, 92, 10, 13, 9, 12, 8}")
  case True
  then show ?thesis
    by (auto dest!: named_escapes simp: esc_char_def scanstring.simps(2) unesc_char_def)
next
  case False
  then show ?thesis
    by (simp add: esc_char_def Let_def scanstring.simps(2) hex4_digits)
qed

lemma scanstring_quote: "scanstring (concat (map esc_char s) @ CHR 0x22 # r) = Some (s, r)"
  by (induction s) (simp_all add: scanstring_esc scanstring.simps(2) del: append_assoc add: append_assoc)

subsection \<open>Numbers\<close>

lemma is_digit_char_of: "n < 10 \<Longrightarrow> is_digit (char_of (48 + n :: nat))"
  by (simp add: is_digit_def)

lemma str_nat_digits: "list_all is_digit (str_nat n) \<and> str_nat n \<noteq> []"
proof (induction n rule: str_nat.induct)
  case (1 n)
  show ?case
    using 1 by (subst (1 2) str_nat.simps) (auto simp: is_digit_char_of)
qed

lemma digits_value_snoc: "digits_value (ds @ [c]) = 10 * digits_value ds + (int (code c) - 48)"
  by (simp add: digits_value_def)

lemma digits_value_str_nat: "digits_value (str_nat n) = int n"
proof (induction n rule: str_nat.induct)
  case (1 n)
  have "int (n div 10) * 10 + int (n mod 10) = int n"
    by (metis of_nat_add of_nat_mult of_nat_numeral div_mult_mod_eq)
  with 1 show ?case
    by (subst str_nat.simps) (auto simp: digits_value_snoc, simp add: digits_value_def)
qed

lemma str_nat_head: "0 < n \<Longrightarrow> code (hd (str_nat n)) \<noteq> 48"
proof (induction n rule: str_nat.induct)
  case (1 n)
  show ?case
  proof (cases "n < 10")
    case True
    with 1 show ?thesis by (subst str_nat.simps) simp
  next
    case False
    with 1 str_nat_digits [of "n div 10"] show ?thesis by (subst str_nat.simps) simp
  qed
qed

definition int_token :: "string \<Rightarrow> bool" where
  "int_token ip \<longleftrightarrow> ip = ''0'' \<or> (ip \<noteq> [] \<and> list_all is_digit ip \<and> code (hd ip) \<noteq> 48)"

definition frac_token :: "string \<Rightarrow> bool" where
  "frac_token fp \<longleftrightarrow> (\<exists>ds. fp = CHR ''.'' # ds \<and> ds \<noteq> [] \<and> list_all is_digit ds)"

definition exp_token :: "string \<Rightarrow> bool" where
  "exp_token ep \<longleftrightarrow>
     (\<exists>e sg ds. ep = e # sg @ ds \<and> (e = CHR ''e'' \<or> e = CHR ''E'') \<and>
        (sg = [] \<or> sg = ''+'' \<or> sg = ''-'') \<and> ds \<noteq> [] \<and> list_all is_digit ds)"

definition float_token :: "string \<Rightarrow> bool" where
  "float_token s \<longleftrightarrow>
     (\<exists>sg ip fp ep. s = sg @ ip @ fp @ ep \<and> (sg = [] \<or> sg = ''-'') \<and> int_token ip \<and>
        (fp = [] \<or> frac_token fp) \<and> (ep = [] \<or> exp_token ep) \<and> (fp \<noteq> [] \<or> ep \<noteq> []))"

definition float_codec_ok :: "float_codec \<Rightarrow> bool" where
  "float_codec_ok fc \<longleftrightarrow> (\<forall>x. fc_float fc x \<longrightarrow> float_token (fc_repr fc x) \<and> fc_read fc (fc_repr fc x) = x)"

text \<open>What may follow a number inside printed JSON: nothing, or a closing or separating
  character.\<close>

definition delimited :: "string \<Rightarrow> bool" where
  "delimited r \<longleftrightarrow> r = [] \<or> code (hd r) \<in> {44, 93, 125}"

definition no_digit_next :: "string \<Rightarrow> bool" where
  "no_digit_next r \<longleftrightarrow> r = [] \<or> \<not> is_digit (hd r)"

lemma takeWhile_digits:
  "list_all is_digit ds \<Longrightarrow> no_digit_next r \<Longrightarrow> takeWhile is_digit (ds @ r) = ds"
  by (cases r) (auto simp: no_digit_next_def list_all_iff takeWhile_append2)

lemma int_part_token: "int_token ip \<Longrightarrow> no_digit_next r \<Longrightarrow> int_part (ip @ r) = ip"
  using takeWhile_digits [of ip r] by (cases ip) (auto simp: int_token_def int_part_def)

lemma frac_part_token: "frac_token fp \<Longrightarrow> no_digit_next r \<Longrightarrow> frac_part (fp @ r) = fp"
  by (auto simp: frac_token_def frac_part_def takeWhile_digits)

lemma frac_part_none: "r = [] \<or> code (hd r) \<noteq> 46 \<Longrightarrow> frac_part r = []"
  by (cases r) (auto simp: frac_part_def)

lemma digit_not_sign: "is_digit c \<Longrightarrow> code c \<noteq> 43 \<and> code c \<noteq> 45"
  by (auto simp: is_digit_def)

lemma exp_part_token:
  assumes "exp_token ep" and "no_digit_next r"
  shows "exp_part (ep @ r) = ep"
proof -
  from assms(1) obtain e sg d ds where ep: "ep = e # sg @ d # ds"
    and e: "e = CHR ''e'' \<or> e = CHR ''E''" and sg: "sg = [] \<or> sg = ''+'' \<or> sg = ''-''"
    and ds: "is_digit d" "list_all is_digit ds"
    unfolding exp_token_def by (metis list.pred_inject(2) list.exhaust)
  from e sg digit_not_sign [OF ds(1)] show ?thesis
    by (auto simp: ep exp_part_def Let_def takeWhile_digits [OF ds(2) assms(2)] ds(1))
qed

lemma exp_part_none: "r = [] \<or> code (hd r) \<notin> {101, 69} \<Longrightarrow> exp_part r = []"
  by (cases r) (auto simp: exp_part_def)

lemma drop_length_append: "drop (length xs) (xs @ ys) = ys"
  by simp

lemma int_token_head: "int_token ip \<Longrightarrow> \<exists>d ds. ip = d # ds \<and> is_digit d"
  by (cases ip) (auto simp: int_token_def is_digit_def)

lemma int_token_str_nat: "int_token (str_nat n)"
  using str_nat_digits [of n] str_nat_head [of n]
  by (cases "n = 0") (auto simp: int_token_def str_nat.simps [of 0] intro: code_inject)

lemma delimited_next:
  "delimited r \<Longrightarrow> no_digit_next r \<and> (r = [] \<or> code (hd r) \<noteq> 46) \<and> (r = [] \<or> code (hd r) \<notin> {101, 69})"
  by (auto simp: delimited_def no_digit_next_def is_digit_def)

lemma exp_token_next: "exp_token ep \<Longrightarrow> no_digit_next (ep @ r) \<and> code (hd (ep @ r)) \<noteq> 46"
  by (auto simp: exp_token_def no_digit_next_def is_digit_def)

lemma frac_token_next: "frac_token fp \<Longrightarrow> no_digit_next (fp @ r)"
  by (auto simp: frac_token_def no_digit_next_def is_digit_def)

lemma pnum_parts:
  assumes sg: "sg = [] \<or> sg = ''-''" and ip: "int_token ip" and fp: "fp = [] \<or> frac_token fp"
    and ep: "ep = [] \<or> exp_token ep" and r: "delimited r"
  shows "pnum fc (sg @ ip @ fp @ ep @ r) =
    (if fp = [] \<and> ep = [] then Got (JInt (if sg = [] then digits_value ip else - digits_value ip)) r
     else Got (JFloat (fc_read fc (sg @ ip @ fp @ ep))) r)"
proof -
  note r' = delimited_next [OF r]
  from int_token_head [OF ip] obtain d ds where d: "ip = d # ds" "is_digit d" by blast
  have sign: "(case sg @ ip @ fp @ ep @ r of c # _ \<Rightarrow> if code c = 45 then [c] else [] | [] \<Rightarrow> []) = sg"
    using sg d digit_not_sign by auto
  have nx: "no_digit_next (ep @ r)" and nx': "ep @ r = [] \<or> code (hd (ep @ r)) \<noteq> 46"
    using ep r' exp_token_next [of ep r] by auto
  have "no_digit_next (fp @ ep @ r)" using fp nx frac_token_next [of fp "ep @ r"] by auto
  from int_part_token [OF ip this] have i: "int_part (ip @ fp @ ep @ r) = ip" by simp
  have f: "frac_part (fp @ ep @ r) = fp"
    using fp frac_part_token [OF _ nx] frac_part_none [OF nx'] by auto
  have e: "exp_part (ep @ r) = ep"
    using ep exp_part_token [of ep r] exp_part_none [of r] r' by auto
  show ?thesis
    unfolding pnum_def Let_def sign drop_length_append i f e by (simp add: d)
qed

lemma pnum_int: "delimited r \<Longrightarrow> pnum fc (str_int i @ r) = Got (JInt i) r"
  using pnum_parts [of "[]" "str_nat (nat i)" "[]" "[]" r fc]
    pnum_parts [of "''-''" "str_nat (nat (- i))" "[]" "[]" r fc]
  by (auto simp: str_int_def int_token_str_nat digits_value_str_nat)

lemma pnum_float: "float_token s \<Longrightarrow> delimited r \<Longrightarrow> pnum fc (s @ r) = Got (JFloat (fc_read fc s)) r"
  using pnum_parts [of _ _ _ _ r fc] unfolding float_token_def by fastforce

subsection \<open>Values\<close>

fun json_wf :: "float_codec \<Rightarrow> json \<Rightarrow> bool" where
  "json_wf fc (JFloat x) = fc_float fc x"
| "json_wf fc (JList vs) = list_all (json_wf fc) vs"
| "json_wf fc (JDict kvs) = (distinct (map fst kvs) \<and> list_all (\<lambda>kv. json_wf fc (snd kv)) kvs)"
| "json_wf fc _ = True"

text \<open>The first character of a printed value is no white space and closes or separates nothing.\<close>

definition value_start :: "string \<Rightarrow> bool" where
  "value_start s \<longleftrightarrow> s \<noteq> [] \<and> 32 < code (hd s) \<and> code (hd s) \<notin> {44, 58, 93, 125}"

lemma value_start_append [simp]: "value_start s \<Longrightarrow> value_start (s @ r)"
  by (simp add: value_start_def)

lemma digit_start: "is_digit d \<Longrightarrow> value_start (d # s)"
  by (auto simp: is_digit_def value_start_def)

lemma number_start: "int_token ip \<Longrightarrow> sg = [] \<or> sg = ''-'' \<Longrightarrow> value_start (sg @ ip @ r)"
  using int_token_head [of ip] digit_start by (auto simp: value_start_def)

lemma str_int_start: "value_start (str_int i)"
  using number_start [OF int_token_str_nat, of "[]" _ "[]"] number_start [OF int_token_str_nat, of "''-''" _ "[]"]
  by (auto simp: str_int_def)

lemma float_start: "float_token s \<Longrightarrow> value_start s"
  unfolding float_token_def using number_start by blast

lemma dumps_start: "float_codec_ok fc \<Longrightarrow> json_wf fc v \<Longrightarrow> value_start (dumps fc v)"
  by (cases v) (auto simp: str_int_start float_start float_codec_ok_def, auto simp: value_start_def quote_def)

lemma skip_ws_start: "value_start s \<Longrightarrow> skip_ws (s @ r) = s @ r"
  by (cases s) (auto simp: value_start_def skip_ws_def)

lemma skip_ws_nonblank [simp]:
  "skip_ws [] = []" "32 < code c \<Longrightarrow> skip_ws (c # r) = c # r" "skip_ws (CHR '' '' # r) = skip_ws r"
  by (auto simp: skip_ws_def)

lemma pval_number:
  assumes "c = CHR ''-'' \<or> is_digit c"
  shows "pval fc (Suc n) (c # s) = pnum fc (c # s)"
proof -
  have "code c \<notin> {34, 123, 91}" using assms by (auto simp: is_digit_def)
  moreover have "c \<noteq> CHR ''n'' \<and> c \<noteq> CHR ''t'' \<and> c \<noteq> CHR ''f''" using assms by (auto simp: is_digit_def)
  ultimately show ?thesis by (simp add: take_Cons' )
qed

lemma pval_int: "delimited r \<Longrightarrow> pval fc (Suc n) (str_int i @ r) = Got (JInt i) r"
proof -
  assume r: "delimited r"
  obtain c s where cs: "str_int i = c # s" and "c = CHR ''-'' \<or> is_digit c"
    using int_token_head [OF int_token_str_nat] unfolding str_int_def by (metis (full_types))
  then show ?thesis using pval_number [of c fc n "s @ r"] pnum_int [OF r, of fc i] by simp
qed

lemma pval_float: "float_token s \<Longrightarrow> delimited r \<Longrightarrow> pval fc (Suc n) (s @ r) = Got (JFloat (fc_read fc s)) r"
proof -
  assume s: "float_token s" and r: "delimited r"
  obtain c t where cs: "s = c # t" and "c = CHR ''-'' \<or> is_digit c"
    using s int_token_head unfolding float_token_def by fastforce
  then show ?thesis using pval_number [of c fc n "t @ r"] pnum_float [OF s r, of fc] by simp
qed

lemma pval_string: "pval fc (Suc n) (quote s @ r) = Got (JStr s) r"
  by (simp add: quote_def scanstring_quote)

definition reads_back :: "float_codec \<Rightarrow> json \<Rightarrow> bool" where
  "reads_back fc v \<longleftrightarrow>
     value_start (dumps fc v) \<and>
     (\<forall>n r. length (dumps fc v) \<le> n \<longrightarrow> delimited r \<longrightarrow> pval fc n (dumps fc v @ r) = Got v r)"

lemma reads_backD:
  "reads_back fc v \<Longrightarrow> length (dumps fc v) \<le> n \<Longrightarrow> delimited r \<Longrightarrow> pval fc n (dumps fc v @ r) = Got v r"
  by (simp add: reads_back_def)

lemma delimitedI [simp]: "code c \<in> {44, 93, 125} \<Longrightarrow> delimited (c # r)" "delimited []"
  by (simp_all add: delimited_def)

lemma join_Cons: "ys \<noteq> [] \<Longrightarrow> join sep (x # ys) = x @ sep @ join sep ys"
  by (cases ys) simp_all

lemma join_start: "value_start x \<Longrightarrow> value_start (join sep (x # ys))"
  by (cases ys) simp_all

lemma pelems_join:
  assumes "vs \<noteq> []" and "list_all (reads_back fc) vs" and "length (join '', '' (map (dumps fc) vs)) < n"
  shows "pelems fc n acc (join '', '' (map (dumps fc) vs) @ CHR '']'' # r) = Got (JList (acc @ vs)) r"
  using assms
proof (induction vs arbitrary: n acc)
  case (Cons v vs)
  then obtain m where n: "n = Suc m" by (cases n) auto
  show ?case
  proof (cases "vs = []")
    case True
    with Cons.prems n show ?thesis by (simp add: reads_backD)
  next
    case False
    then obtain w ws where vs: "vs = w # ws" by (cases vs) auto
    let ?j = "join '', '' (map (dumps fc) vs)"
    have "value_start ?j"
      using Cons.prems(2) by (simp add: vs reads_back_def join_start)
    then have sk: "skip_ws (?j @ CHR '']'' # r) = ?j @ CHR '']'' # r" by (rule skip_ws_start)
    have "pelems fc m (acc @ [v]) (?j @ CHR '']'' # r) = Got (JList ((acc @ [v]) @ vs)) r"
      using Cons.prems False n by (intro Cons.IH) (simp_all add: join_Cons)
    then show ?thesis
      using Cons.prems n False sk by (simp add: join_Cons reads_backD)
  qed
qed simp

abbreviation print_member :: "float_codec \<Rightarrow> string \<times> json \<Rightarrow> string" where
  "print_member fc kv \<equiv> quote (fst kv) @ '': '' @ dumps fc (snd kv)"

lemma quote_start: "value_start (quote s @ t)"
  by (simp add: quote_def value_start_def)

lemma pmembers_join:
  assumes "kvs \<noteq> []" and "list_all (\<lambda>kv. reads_back fc (snd kv)) kvs"
    and "length (join '', '' (map (print_member fc) kvs)) < n"
  shows "pmembers fc n acc (join '', '' (map (print_member fc) kvs) @ CHR ''}'' # r)
    = Got (JDict (dict_of_pairs (acc @ kvs))) r"
  using assms
proof (induction kvs arbitrary: n acc)
  case (Cons kv kvs)
  obtain k v where kv: "kv = (k, v)" by fastforce
  from Cons.prems(3) obtain m where n: "n = Suc m" by (cases n) auto
  have rb: "reads_back fc v" using Cons.prems(2) by (simp add: kv)
  then have skv: "skip_ws (dumps fc v @ t) = dumps fc v @ t" for t
    by (simp add: reads_back_def skip_ws_start)
  show ?case
  proof (cases "kvs = []")
    case True
    with Cons.prems n rb skv show ?thesis
      by (simp add: kv reads_backD quote_def scanstring_quote)
  next
    case False
    then obtain w ws where kvs: "kvs = w # ws" by (cases kvs) auto
    let ?j = "join '', '' (map (print_member fc) kvs)"
    have "value_start ?j"
      by (simp only: kvs list.map) (rule join_start, rule quote_start)
    then have sk: "skip_ws (?j @ CHR ''}'' # r) = ?j @ CHR ''}'' # r" by (rule skip_ws_start)
    have "pmembers fc m (acc @ [(k, v)]) (?j @ CHR ''}'' # r) = Got (JDict (dict_of_pairs ((acc @ [(k, v)]) @ kvs))) r"
      using Cons.prems False n by (intro Cons.IH) (simp_all add: join_Cons)
    then show ?thesis
      using Cons.prems n False sk skv rb by (simp add: kv join_Cons reads_backD quote_def scanstring_quote)
  qed
qed simp

lemma dict_of_pairs_distinct: "distinct (map fst kvs) \<Longrightarrow> dict_of_pairs kvs = kvs"
  using fold_upd_fresh [of "[]" kvs] by (simp add: dict_of_pairs_def)

lemma scalar_reads_back:
  assumes "value_start (dumps fc v)"
    and "\<And>n r. delimited r \<Longrightarrow> pval fc (Suc n) (dumps fc v @ r) = Got v r"
  shows "reads_back fc v"
  unfolding reads_back_def
proof (intro conjI allI impI)
  fix n r
  assume n: "length (dumps fc v) \<le> n" and r: "delimited r"
  from assms(1) n obtain m where "n = Suc m" by (cases n) (auto simp: value_start_def)
  with assms(2) r show "pval fc n (dumps fc v @ r) = Got v r" by simp
qed (rule assms(1))

lemma list_reads_back:
  assumes "list_all (reads_back fc) vs"
  shows "reads_back fc (JList vs)"
  unfolding reads_back_def
proof (intro conjI allI impI)
  fix n r
  assume "length (dumps fc (JList vs)) \<le> n" and "delimited r"
  then obtain m where n: "n = Suc m" and m: "length (join '', '' (map (dumps fc) vs)) < m"
    by (cases n) auto
  show "pval fc n (dumps fc (JList vs) @ r) = Got (JList vs) r"
  proof (cases vs)
    case Nil
    then show ?thesis by (simp add: n)
  next
    case (Cons v ws)
    let ?j = "join '', '' (map (dumps fc) vs)"
    have js: "value_start ?j" using assms by (simp add: Cons reads_back_def join_start)
    then have "skip_ws (?j @ CHR '']'' # r) = ?j @ CHR '']'' # r" by (rule skip_ws_start)
    moreover have "pelems fc m [] (?j @ CHR '']'' # r) = Got (JList ([] @ vs)) r"
      using Cons assms m by (intro pelems_join) simp_all
    ultimately show ?thesis using js by (simp add: n value_start_def)
  qed
qed (simp add: value_start_def)

lemma dict_reads_back:
  assumes "list_all (\<lambda>kv. reads_back fc (snd kv)) kvs" and "distinct (map fst kvs)"
  shows "reads_back fc (JDict kvs)"
  unfolding reads_back_def
proof (intro conjI allI impI)
  fix n r
  assume "length (dumps fc (JDict kvs)) \<le> n" and "delimited r"
  then obtain m where n: "n = Suc m" and m: "length (join '', '' (map (print_member fc) kvs)) < m"
    by (cases n) auto
  show "pval fc n (dumps fc (JDict kvs) @ r) = Got (JDict kvs) r"
  proof (cases kvs)
    case Nil
    then show ?thesis by (simp add: n)
  next
    case (Cons kv ws)
    let ?j = "join '', '' (map (print_member fc) kvs)"
    have js: "value_start ?j" by (simp only: Cons list.map) (rule join_start, rule quote_start)
    then have "skip_ws (?j @ CHR ''}'' # r) = ?j @ CHR ''}'' # r" by (rule skip_ws_start)
    moreover have "pmembers fc m [] (?j @ CHR ''}'' # r) = Got (JDict (dict_of_pairs ([] @ kvs))) r"
      using Cons assms m by (intro pmembers_join) simp_all
    ultimately show ?thesis using js by (simp add: n value_start_def dict_of_pairs_distinct assms(2))
  qed
qed (simp add: value_start_def)

lemma wf_reads_back: "float_codec_ok fc \<Longrightarrow> json_wf fc v \<Longrightarrow> reads_back fc v"
proof (induction v)
  case (JInt i)
  then show ?case by (intro scalar_reads_back) (simp_all add: str_int_start pval_int del: pval.simps)
next
  case (JFloat x)
  then show ?case
    by (intro scalar_reads_back) (simp_all add: float_codec_ok_def float_start pval_float del: pval.simps)
next
  case (JStr s)
  then show ?case
    using quote_start [of s "[]"] by (intro scalar_reads_back) (simp_all add: pval_string del: pval.simps)
next
  case (JList vs)
  then show ?case by (intro list_reads_back) (simp add: list_all_iff)
next
  case (JDict kvs)
  then show ?case by (intro dict_reads_back) (fastforce simp: list_all_iff)+
qed (intro scalar_reads_back, simp_all add: value_start_def)+

text \<open>Whatever the program prints with \<^verbatim>\<open>json.dumps\<close> it reads back with \<^verbatim>\<open>json.loads\<close>, white space
  such as the line's newline included.\<close>

lemma loads_dumps:
  assumes "float_codec_ok fc" and "json_wf fc v"
  shows "loads fc (dumps fc v) = Inr v"
proof -
  from wf_reads_back [OF assms] have st: "value_start (dumps fc v)" by (simp add: reads_back_def)
  have "pval fc (2 * length (dumps fc v) + 1) (dumps fc v @ []) = Got v []"
    by (rule reads_backD [OF wf_reads_back [OF assms]]) simp_all
  then show ?thesis using skip_ws_start [OF st, of "[]"] by (simp add: loads_def del: pval.simps)
qed

lemma loads_empty: "loads fc [] = Inl JSONDecodeError"
  by (simp add: loads_def)

text \<open>Printed text is printable ASCII: in particular it holds no line break, which is what makes a
  file with one entry per line readable.\<close>

definition printable :: "char \<Rightarrow> bool" where
  "printable c \<longleftrightarrow> 32 \<le> code c \<and> code c \<le> 126"

lemma esc_char_printable: "list_all printable (esc_char c)"
proof -
  have h: "printable (hex_digit n)" if "n < 16" for n
    using that by (auto simp: hex_digit_def printable_def)
  have "code c div 16 < 16" using code_less [of c] by (simp add: less_mult_imp_div_less)
  with h [of "code c div 16"] h [of "code c mod 16"] show ?thesis
    by (auto simp: esc_char_def Let_def printable_def)
qed

lemma join_printable:
  "list_all printable sep \<Longrightarrow> list_all (list_all printable) xs \<Longrightarrow> list_all printable (join sep xs)"
  by (induction sep xs rule: join.induct) auto

lemma digits_printable: "list_all is_digit ds \<Longrightarrow> list_all printable ds"
  by (auto simp: list_all_iff is_digit_def printable_def)

lemma int_token_printable: "int_token ip \<Longrightarrow> list_all printable ip"
  by (auto simp: int_token_def digits_printable printable_def)

lemma float_token_printable: "float_token s \<Longrightarrow> list_all printable s"
  by (auto simp: float_token_def frac_token_def exp_token_def int_token_printable digits_printable printable_def)

lemma quote_printable: "list_all printable (quote s)"
  using esc_char_printable by (induction s) (auto simp: quote_def printable_def)

lemma dumps_printable: "float_codec_ok fc \<Longrightarrow> json_wf fc v \<Longrightarrow> list_all printable (dumps fc v)"
proof (induction v)
  case (JInt i)
  have "printable (CHR ''-'')" by (simp add: printable_def)
  then show ?case using int_token_printable [OF int_token_str_nat] by (simp add: str_int_def)
next
  case (JFloat x)
  then show ?case by (simp add: float_codec_ok_def float_token_printable)
next
  case (JStr s)
  then show ?case by (simp add: quote_printable)
next
  case (JList vs)
  have "list_all printable (join '', '' (map (dumps fc) vs))"
    using JList by (intro join_printable) (auto simp: list_all_iff printable_def)
  then show ?case by (auto simp: list_all_iff printable_def)
next
  case (JDict kvs)
  have "list_all printable (join '', '' (map (print_member fc) kvs))"
    using JDict quote_printable by (intro join_printable) (fastforce simp: list_all_iff printable_def)+
  then show ?case by (auto simp: list_all_iff printable_def)
qed (auto simp: printable_def)

subsection \<open>A codec\<close>

definition whole_codec :: float_codec where
  "whole_codec =
     \<lparr>fc_float = (\<lambda>x. of_int \<lfloor>x\<rfloor> = x),
      fc_repr = (\<lambda>x. str_int \<lfloor>x\<rfloor> @ ''.0''),
      fc_read = (\<lambda>s. let ip = takeWhile (\<lambda>c. c \<noteq> CHR ''.'') s
                     in of_int (if ip \<noteq> [] \<and> hd ip = CHR ''-'' then - digits_value (tl ip) else digits_value ip))\<rparr>"

lemma str_int_no_dot: "takeWhile (\<lambda>c. c \<noteq> CHR ''.'') (str_int i @ ''.0'') = str_int i"
proof -
  have "c \<noteq> CHR ''.''" if "c \<in> set (str_int i)" for c
    using that str_nat_digits [of "nat i"] str_nat_digits [of "nat (- i)"]
    by (auto simp: str_int_def list_all_iff is_digit_def split: if_splits)
  then show ?thesis by (simp add: takeWhile_append2)
qed

lemma float_tokenI: "int_token ip \<Longrightarrow> sg = [] \<or> sg = ''-'' \<Longrightarrow> frac_token fp \<Longrightarrow> float_token (sg @ ip @ fp)"
  unfolding float_token_def by (rule exI [of _ sg], rule exI [of _ ip], rule exI [of _ fp]) (auto simp: frac_token_def)

lemma whole_codec_ok: "float_codec_ok whole_codec"
  unfolding float_codec_ok_def
proof (intro allI impI conjI)
  fix x
  assume x: "fc_float whole_codec x"
  have "frac_token ''.0''" by (simp add: frac_token_def is_digit_def)
  then show "float_token (fc_repr whole_codec x)"
    using float_tokenI [OF int_token_str_nat, of "[]" "''.0''"] float_tokenI [OF int_token_str_nat, of "''-''" "''.0''"]
    by (simp add: whole_codec_def str_int_def)
  have "hd (str_nat n) \<noteq> CHR ''-''" for n
    using str_nat_digits [of n] by (cases "str_nat n") (auto simp: is_digit_def)
  moreover have "str_nat n \<noteq> []" for n using str_nat_digits [of n] by simp
  ultimately show "fc_read whole_codec (fc_repr whole_codec x) = x"
    using x by (simp add: whole_codec_def Let_def str_int_no_dot)
      (auto simp: str_int_def digits_value_str_nat)
qed

section \<open>A cut-off object is never accepted\<close>

text \<open>A value that does not end in a number is recognised wherever the text goes on, and more fuel
  changes nothing. So a strict prefix of a printed object, as a crash leaves it, is rejected.\<close>

definition stops_number :: "string \<Rightarrow> bool" where
  "stops_number r \<longleftrightarrow> r \<noteq> [] \<and> code (hd r) \<notin> {46, 69, 101}"

lemma skip_ws_append: "skip_ws s \<noteq> [] \<Longrightarrow> skip_ws (s @ t) = skip_ws s @ t"
  by (induction s) (auto simp: skip_ws_def)

lemma skip_ws_Cons_append: "skip_ws s = c # r \<Longrightarrow> skip_ws (s @ t) = c # r @ t"
  using skip_ws_append [of s t] by simp

lemma skip_ws_stops:
  assumes "skip_ws r = c # r'" and "code c \<in> {44, 93, 125}"
  shows "stops_number r"
  using assms by (cases r) (auto simp: skip_ws_def stops_number_def split: if_splits)

lemma scanstring_append: "scanstring s = Some (x, r) \<Longrightarrow> scanstring (s @ t) = Some (x, r @ t)"
proof (induction s arbitrary: x r rule: length_induct)
  case (1 s)
  have IH: "length s' < length s \<Longrightarrow> scanstring s' = Some (x', r') \<Longrightarrow> scanstring (s' @ t) = Some (x', r' @ t)"
    for s' x' r' using 1(1) by blast
  from 1(2) obtain c cs where s: "s = c # cs" by (cases s) auto
  note eq = 1(2) [unfolded s scanstring.simps(2)]
  consider (quote) "code c = 34" | (plain) "code c \<noteq> 34" "code c \<noteq> 92"
    | (uni) a b d e w where "code c = 92" "cs = CHR ''u'' # a # b # d # e # w"
    | (esc) e es where "code c = 92" "cs = e # es" "code e \<noteq> 117"
    using eq code_inject [of _ "CHR ''u''"] by (auto split: list.splits if_splits)
  then show ?case
  proof cases
    case quote
    with eq show ?thesis by (simp add: s scanstring.simps(2))
  next
    case plain
    with eq IH [of cs] show ?thesis by (auto simp: s scanstring.simps(2) split: if_splits)
  next
    case uni
    with eq IH [of w] show ?thesis by (auto simp: s scanstring.simps(2) split: option.splits)
  next
    case esc
    with eq IH [of es] show ?thesis by (auto simp: s scanstring.simps(2) split: option.splits)
  qed
qed

lemma takeWhile_stop: "takeWhile P s \<noteq> s \<Longrightarrow> takeWhile P (s @ t) = takeWhile P s"
  by (induction s) auto

lemma takeWhile_drop_stop: "drop (length (takeWhile P s)) s \<noteq> [] \<Longrightarrow> takeWhile P (s @ t) = takeWhile P s"
  by (induction s) (auto split: if_splits)

lemma int_part_append: "drop (length (int_part s)) s \<noteq> [] \<Longrightarrow> int_part (s @ t) = int_part s"
  using takeWhile_drop_stop [of is_digit s t] by (cases s) (auto simp: int_part_def split: if_splits)

lemma frac_part_append:
  "drop (length (frac_part s)) s \<noteq> [] \<Longrightarrow> frac_part s \<noteq> [] \<or> code (hd s) \<noteq> 46 \<Longrightarrow> frac_part (s @ t) = frac_part s"
  using takeWhile_drop_stop [of is_digit "tl s" t] by (cases s) (auto simp: frac_part_def split: if_splits)

lemma exp_part_append:
  assumes "drop (length (exp_part s)) s \<noteq> []" and "exp_part s \<noteq> [] \<or> code (hd s) \<notin> {69, 101}"
  shows "exp_part (s @ t) = exp_part s"
proof (cases s)
  case (Cons e cs)
  show ?thesis
  proof (cases "code e = 101 \<or> code e = 69")
    case True
    with assms(2) have ne: "exp_part s \<noteq> []" by (auto simp: Cons)
    then obtain c cs' where cs: "cs = c # cs'" by (cases cs) (auto simp: Cons exp_part_def split: if_splits)
    let ?sg = "if code c = 43 \<or> code c = 45 then [c] else []"
    let ?w = "drop (length ?sg) cs"
    have e: "exp_part s = e # ?sg @ takeWhile is_digit ?w"
      using ne True by (auto simp: Cons cs exp_part_def Let_def split: if_splits)
    then have "drop (length (takeWhile is_digit ?w)) ?w \<noteq> []"
      using assms(1) by (auto simp: Cons cs split: if_splits)
    from takeWhile_drop_stop [OF this, of t] ne e True show ?thesis
      by (auto simp: Cons cs exp_part_def Let_def split: if_splits)
  qed (simp add: Cons exp_part_def)
qed (use assms in simp)

lemma pnum_append:
  assumes "pnum fc s = Got v r" and "stops_number r"
  shows "pnum fc (s @ t) = Got v (r @ t)"
proof -
  define sg where "sg = (case s of c # _ \<Rightarrow> if code c = 45 then [c] else [] | [] \<Rightarrow> [])"
  define s1 where "s1 = drop (length sg) s"
  define s2 where "s2 = drop (length (int_part s1)) s1"
  define s3 where "s3 = drop (length (frac_part s2)) s2"
  define s4 where "s4 = drop (length (exp_part s3)) s3"
  have r: "r = s4" and ip: "int_part s1 \<noteq> []"
    using assms(1) unfolding pnum_def Let_def sg_def [symmetric] s1_def [symmetric] s2_def [symmetric]
      s3_def [symmetric] s4_def [symmetric] by (auto split: if_splits)
  have ne: "s4 \<noteq> []" "s3 \<noteq> []" "s2 \<noteq> []" "s \<noteq> []"
    using assms(2) r ip by (auto simp: stops_number_def s4_def s3_def s2_def s1_def int_part_def)
  have 4: "code (hd s4) \<notin> {46, 69, 101}" using assms(2) r by (simp add: stops_number_def)
  have sg: "(case s @ t of c # _ \<Rightarrow> if code c = 45 then [c] else [] | [] \<Rightarrow> []) = sg"
    using ne by (cases s) (auto simp: sg_def)
  have l1: "length sg \<le> length s" using ne by (cases s) (auto simp: sg_def)
  have d1: "drop (length sg) (s @ t) = s1 @ t" using l1 by (simp add: s1_def)
  have i: "int_part (s1 @ t) = int_part s1" using ne by (intro int_part_append) (simp add: s2_def)
  have d2: "drop (length (int_part s1)) (s1 @ t) = s2 @ t" using length_int_part [of s1] by (simp add: s2_def)
  have fn: "frac_part s2 = [] \<longrightarrow> s3 = s2" by (simp add: s3_def)
  have en: "exp_part s3 = [] \<longrightarrow> s4 = s3" by (simp add: s4_def)
  have f46: "frac_part s2 \<noteq> [] \<or> code (hd s2) \<noteq> 46"
  proof (rule ccontr)
    assume "\<not> ?thesis"
    then have "s3 = s2" "code (hd s3) = 46" using fn by auto
    moreover then have "exp_part s3 = []" by (cases s3) (auto simp: exp_part_def)
    ultimately show False using 4 en by simp
  qed
  have f: "frac_part (s2 @ t) = frac_part s2" using ne f46 by (intro frac_part_append) (simp_all add: s3_def)
  have d3: "drop (length (frac_part s2)) (s2 @ t) = s3 @ t" using ne by (simp add: s3_def)
  have e: "exp_part (s3 @ t) = exp_part s3" using ne 4 en by (intro exp_part_append) (auto simp: s4_def)
  have d4: "drop (length (exp_part s3)) (s3 @ t) = s4 @ t" using ne by (simp add: s4_def)
  show ?thesis
    using assms(1) unfolding pnum_def Let_def sg d1 i d2 f d3 e d4
    unfolding sg_def [symmetric] s1_def [symmetric] s2_def [symmetric] s3_def [symmetric] s4_def [symmetric]
    by (auto split: if_splits)
qed

lemma pnum_head: "pnum fc s = Got v r \<Longrightarrow> code (hd s) = 45 \<or> is_digit (hd s)"
  by (cases s) (auto simp: pnum_def Let_def int_part_def is_digit_def split: if_splits)

definition open_ended :: "string \<Rightarrow> bool" where
  "open_ended s \<longleftrightarrow> s \<noteq> [] \<and> code (hd s) \<in> {34, 91, 123}"

lemma pval_append_step:
  assumes el: "\<And>acc s v r. pelems fc n acc s = Got v r \<Longrightarrow> pelems fc m acc (s @ t) = Got v (r @ t)"
    and mem: "\<And>acc s v r. pmembers fc n acc s = Got v r \<Longrightarrow> pmembers fc m acc (s @ t) = Got v (r @ t)"
    and ne: "\<And>acc. pelems fc n acc [] \<noteq> Got v r" "\<And>acc. pmembers fc n acc [] \<noteq> Got v r"
    and p: "pval fc (Suc n) s = Got v r" and st: "stops_number r \<or> open_ended s"
  shows "pval fc (Suc m) (s @ t) = Got v (r @ t)"
proof -
  from p obtain c cs where s: "s = c # cs" by (cases s) auto
  consider (str) "code c = 34" | (obj) "code c = 123" | (arr) "code c = 91" | (lit) "code c \<notin> {34, 91, 123}"
    by auto
  then show ?thesis
  proof cases
    case str
    with p scanstring_append [of cs _ _ t] show ?thesis by (auto simp: s split: option.splits)
  next
    case obj
    with p ne(2) have "skip_ws cs \<noteq> []" by (auto simp: s)
    with obj p mem skip_ws_append [of cs t] show ?thesis
      by (auto simp: s Let_def split: if_splits)
  next
    case arr
    with p ne(1) have "skip_ws cs \<noteq> []" by (auto simp: s)
    with arr p el skip_ws_append [of cs t] show ?thesis
      by (auto simp: s Let_def split: if_splits)
  next
    case lit
    with st have stop: "stops_number r" by (auto simp: s open_ended_def)
    show ?thesis
    proof (cases "pnum fc s = Got v r")
      case True
      from pnum_append [OF this stop] have q: "pnum fc (c # cs @ t) = Got v (r @ t)" by (simp add: s)
      from pnum_head [OF True] have "c = CHR ''-'' \<or> is_digit c"
        using code_inject [of c "CHR ''-''"] by (auto simp: s)
      from pval_number [OF this, of fc m "cs @ t"] q show ?thesis by (simp add: s del: pval.simps)
    next
      case False
      with lit p have l: "take 4 s = ''null'' \<or> take 4 s = ''true'' \<or> take 5 s = ''false''"
        by (auto simp: s split: if_splits)
      have ap: "k \<le> length s" if "length (take k s) = k" for k using that by simp
      from l lit p ap [of 4] ap [of 5] show ?thesis
        by (auto simp: s split: if_splits)
    qed
  qed
qed

lemma pelems_append_step:
  assumes pv: "\<And>s v r. pval fc n s = Got v r \<Longrightarrow> stops_number r \<Longrightarrow> pval fc m (s @ t) = Got v (r @ t)"
    and el: "\<And>acc s v r. pelems fc n acc s = Got v r \<Longrightarrow> pelems fc m acc (s @ t) = Got v (r @ t)"
    and ne: "\<And>acc. pelems fc n acc [] \<noteq> Got v r"
    and p: "pelems fc (Suc n) acc s = Got v r"
  shows "pelems fc (Suc m) acc (s @ t) = Got v (r @ t)"
proof -
  from p obtain w r1 c r2 where w: "pval fc n s = Got w r1" and c: "skip_ws r1 = c # r2"
    and or: "code c = 93 \<and> v = JList (acc @ [w]) \<and> r = r2 \<or>
      code c = 44 \<and> pelems fc n (acc @ [w]) (skip_ws r2) = Got v r"
    by (auto split: presult.splits list.splits if_splits)
  have "stops_number r1" using skip_ws_stops [OF c] or by auto
  from pv [OF w this] have w': "pval fc m (s @ t) = Got w (r1 @ t)" .
  from or show ?thesis
  proof (elim disjE conjE)
    assume c44: "code c = 44" and e: "pelems fc n (acc @ [w]) (skip_ws r2) = Got v r"
    then have "skip_ws r2 \<noteq> []" using ne by auto
    with el [OF e] w' c44 skip_ws_Cons_append [OF c, of t] show ?thesis by (simp add: skip_ws_append)
  qed (use w' skip_ws_Cons_append [OF c, of t] in simp)
qed

lemma pmembers_append_step:
  assumes pv: "\<And>s v r. pval fc n s = Got v r \<Longrightarrow> stops_number r \<Longrightarrow> pval fc m (s @ t) = Got v (r @ t)"
    and mem: "\<And>acc s v r. pmembers fc n acc s = Got v r \<Longrightarrow> pmembers fc m acc (s @ t) = Got v (r @ t)"
    and ne: "\<And>acc. pmembers fc n acc [] \<noteq> Got v r" "\<And>w r. pval fc n [] \<noteq> Got w r"
    and p: "pmembers fc (Suc n) acc s = Got v r"
  shows "pmembers fc (Suc m) acc (s @ t) = Got v (r @ t)"
proof -
  from p obtain q cs k r1 c r2 w r3 d r4 where s: "s = q # cs" "code q = 34" and k: "scanstring cs = Some (k, r1)"
    and c: "skip_ws r1 = c # r2" "code c = 58" and w: "pval fc n (skip_ws r2) = Got w r3"
    and d: "skip_ws r3 = d # r4"
    and or: "code d = 125 \<and> v = JDict (dict_of_pairs (acc @ [(k, w)])) \<and> r = r4 \<or>
      code d = 44 \<and> pmembers fc n (acc @ [(k, w)]) (skip_ws r4) = Got v r"
    by (auto split: presult.splits list.splits if_splits option.splits)
  have "stops_number r3" using skip_ws_stops [OF d] or by auto
  from pv [OF w this] have w': "pval fc m (skip_ws r2 @ t) = Got w (r3 @ t)" .
  have "skip_ws r2 \<noteq> []" using w ne(2) by auto
  note rw = skip_ws_append [OF this, of t] scanstring_append [OF k, of t]
    skip_ws_Cons_append [OF c(1), of t] skip_ws_Cons_append [OF d, of t]
  from or show ?thesis
  proof (elim disjE conjE)
    assume d44: "code d = 44" and e: "pmembers fc n (acc @ [(k, w)]) (skip_ws r4) = Got v r"
    then have "skip_ws r4 \<noteq> []" using ne(1) by auto
    with mem [OF e] w' d44 show ?thesis by (simp add: s c(2) rw skip_ws_append)
  qed (use w' in \<open>simp add: s c(2) rw\<close>)
qed

lemma parse_nil: "pval fc n [] \<noteq> Got v r" "pelems fc n acc [] \<noteq> Got v r" "pmembers fc n acc' [] \<noteq> Got v r"
  using parse_shorter [where s = "[]"] by fastforce+

lemma parse_append:
  "pval fc n s = Got v r \<Longrightarrow> stops_number r \<or> open_ended s \<Longrightarrow> n \<le> m \<Longrightarrow> pval fc m (s @ t) = Got v (r @ t)"
  "pelems fc n acc s = Got v r \<Longrightarrow> n \<le> m \<Longrightarrow> pelems fc m acc (s @ t) = Got v (r @ t)"
  "pmembers fc n acc' s = Got v r \<Longrightarrow> n \<le> m \<Longrightarrow> pmembers fc m acc' (s @ t) = Got v (r @ t)"
proof (induction n arbitrary: s v r acc acc' m)
  case 0
  { case 1 then show ?case by simp next case 2 then show ?case by simp next case 3 then show ?case by simp }
next
  case (Suc n)
  have m: "\<exists>m'. m = Suc m' \<and> n \<le> m'" if "Suc n \<le> m" for m using that by (cases m) auto
  { case 1
    from m [OF 1(3)] obtain m' where m': "m = Suc m'" "n \<le> m'" by blast
    show ?case unfolding m'(1)
      by (rule pval_append_step [OF _ _ parse_nil(2,3) 1(1,2)]) (rule Suc.IH, assumption, rule m')+
  next
    case 2
    from m [OF 2(2)] obtain m' where m': "m = Suc m'" "n \<le> m'" by blast
    show ?case unfolding m'(1)
      by (rule pelems_append_step [OF _ _ parse_nil(2) 2(1)]) (simp_all add: Suc.IH m' del: pval.simps pelems.simps)
  next
    case 3
    from m [OF 3(2)] obtain m' where m': "m = Suc m'" "n \<le> m'" by blast
    show ?case unfolding m'(1)
      by (rule pmembers_append_step [OF _ _ parse_nil(3,1) 3(1)]) (simp_all add: Suc.IH m' del: pval.simps pmembers.simps)
  }
qed

lemma loads_torn:
  assumes ok: "float_codec_ok fc" "json_wf fc (JDict d)" and p: "dumps fc (JDict d) = p @ q" and q: "q \<noteq> []"
  shows "loads fc p = Inl JSONDecodeError"
proof (rule ccontr)
  assume "loads fc p \<noteq> Inl JSONDecodeError"
  then obtain v r where v: "pval fc (2 * length p + 1) (skip_ws p) = Got v r"
    by (auto simp: loads_def simp del: pval.simps split: presult.splits if_splits)
  then have "p \<noteq> []" by auto
  with p obtain p' where p': "p = CHR ''{'' # p'" by (cases p) auto
  let ?m = "max (2 * length p + 1) (length (p @ q))"
  from v p' parse_append(1) [of fc "2 * length p + 1" p v r ?m q]
  have "pval fc ?m (p @ q) = Got v (r @ q)" by (simp add: open_ended_def del: pval.simps)
  moreover have "pval fc ?m (p @ q) = Got (JDict d) []"
    using reads_backD [OF wf_reads_back [OF ok], of ?m "[]"] by (simp add: p del: dumps.simps pval.simps)
  ultimately show False using q by simp
qed

end
