(* ===== verification/KVStore.thy ===== *)
theory KVStore
  imports Json
begin

text \<open>
  The in-memory key-value store (\<^verbatim>\<open>src/minidb/storage/kv_store.py\<close>): the metadata record,
  the statistics, the class \<^verbatim>\<open>KVStore\<close> and all its operations.

  Every public method runs under one re-entrant lock, so an operation is one atomic state
  transformer; each takes the value \<^verbatim>\<open>time.time()\<close> returns inside it as an argument
  \<open>now\<close>. The private \<^verbatim>\<open>_lock\<close> and \<^verbatim>\<open>_running\<close> fields carry no data. The optional arguments
  of \<^verbatim>\<open>set\<close> are options; the method always returns \<^verbatim>\<open>True\<close>, so the model returns the new state.
\<close>

section \<open>State\<close>

record key_metadata =
  md_value :: json
  md_created_at :: time
  md_updated_at :: time
  md_expires_at :: "time option"
  md_version :: int
  md_coordinator_id :: node_id

record store_stats =
  st_hits :: int
  st_misses :: int
  st_sets :: int
  st_deletes :: int
  st_expired :: int
  st_start_time :: time

record kvstore =
  kv_store :: "(string, key_metadata) dict"
  kv_stats :: store_stats
  kv_ttl_index :: "(time, string list) dict"

definition stats_uptime :: "store_stats \<Rightarrow> time \<Rightarrow> time" where
  "stats_uptime s now = now - st_start_time s"

definition stats_hit_rate :: "store_stats \<Rightarrow> rat" where
  "stats_hit_rate s =
     (let total = st_hits s + st_misses s
      in if total > 0 then of_int (st_hits s) / of_int total else 0)"

definition stats_to_dict :: "store_stats \<Rightarrow> time \<Rightarrow> (string, json) dict" where
  "stats_to_dict s now =
     [(''hits'', JInt (st_hits s)),
      (''misses'', JInt (st_misses s)),
      (''sets'', JInt (st_sets s)),
      (''deletes'', JInt (st_deletes s)),
      (''expired'', JInt (st_expired s)),
      (''uptime_seconds'', JFloat (stats_uptime s now)),
      (''hit_rate'', JFloat (stats_hit_rate s))]"

definition kv_init :: "time \<Rightarrow> kvstore" where
  "kv_init now =
     \<lparr>kv_store = [],
      kv_stats = \<lparr>st_hits = 0, st_misses = 0, st_sets = 0, st_deletes = 0, st_expired = 0,
                  st_start_time = now\<rparr>,
      kv_ttl_index = []\<rparr>"

section \<open>Operations\<close>

text \<open>The expiry test the read operations share:
  \<^verbatim>\<open>metadata.expires_at and time.time() > metadata.expires_at\<close>.\<close>

definition md_is_expired :: "time \<Rightarrow> key_metadata \<Rightarrow> bool" where
  "md_is_expired now m =
     (case md_expires_at m of None \<Rightarrow> False | Some t \<Rightarrow> t \<noteq> 0 \<and> now > t)"

definition kv_set ::
  "kvstore \<Rightarrow> time \<Rightarrow> string \<Rightarrow> json \<Rightarrow> int option \<Rightarrow> int option \<Rightarrow> time option \<Rightarrow>
   time option \<Rightarrow> time option \<Rightarrow> node_id option \<Rightarrow> kvstore" where
  "kv_set st now key value ttl version expires_at created_at updated_at coordinator_id =
     (let effective_updated_at = (case updated_at of Some u \<Rightarrow> u | None \<Rightarrow> now);
          effective_expires_at =
            (case expires_at of
               Some e \<Rightarrow> Some e
             | None \<Rightarrow> (case ttl of None \<Rightarrow> None | Some n \<Rightarrow> Some (effective_updated_at + of_int n)));
          existing = dget (kv_store st) key;
          new_version =
            (if version \<noteq> None \<and> version \<noteq> Some 0 then the version
             else (case existing of Some m \<Rightarrow> md_version m + 1 | None \<Rightarrow> 1));
          effective_created_at =
            (case created_at of Some c \<Rightarrow> c
             | None \<Rightarrow> (case existing of Some m \<Rightarrow> md_created_at m | None \<Rightarrow> effective_updated_at));
          effective_coordinator_id =
            (case coordinator_id of Some c \<Rightarrow> c
             | None \<Rightarrow> (case existing of Some m \<Rightarrow> md_coordinator_id m | None \<Rightarrow> ''''));
          meta = \<lparr>md_value = value,
                  md_created_at = effective_created_at,
                  md_updated_at = effective_updated_at,
                  md_expires_at = effective_expires_at,
                  md_version = new_version,
                  md_coordinator_id = effective_coordinator_id\<rparr>
      in st\<lparr>kv_store := dset key meta (kv_store st),
            kv_ttl_index :=
              (case effective_expires_at of
                 Some e \<Rightarrow>
                   (if e \<noteq> 0
                    then dset e ((case dget (kv_ttl_index st) e of None \<Rightarrow> [] | Some ks \<Rightarrow> ks) @ [key])
                           (kv_ttl_index st)
                    else kv_ttl_index st)
               | None \<Rightarrow> kv_ttl_index st),
            kv_stats := (kv_stats st)\<lparr>st_sets := st_sets (kv_stats st) + 1\<rparr>\<rparr>)"

definition kv_delete_internal :: "kvstore \<Rightarrow> string \<Rightarrow> kvstore" where
  "kv_delete_internal st key =
     (if dget (kv_store st) key \<noteq> None then st\<lparr>kv_store := ddel key (kv_store st)\<rparr> else st)"

definition kv_get :: "kvstore \<Rightarrow> time \<Rightarrow> string \<Rightarrow> (json \<times> bool) \<times> kvstore" where
  "kv_get st now key =
     (case dget (kv_store st) key of
        None \<Rightarrow>
          ((JNull, False), st\<lparr>kv_stats := (kv_stats st)\<lparr>st_misses := st_misses (kv_stats st) + 1\<rparr>\<rparr>)
      | Some metadata \<Rightarrow>
          if md_is_expired now metadata
          then ((JNull, False),
                (kv_delete_internal st key)
                  \<lparr>kv_stats := (kv_stats st)
                     \<lparr>st_misses := st_misses (kv_stats st) + 1,
                      st_expired := st_expired (kv_stats st) + 1\<rparr>\<rparr>)
          else ((md_value metadata, True),
                st\<lparr>kv_stats := (kv_stats st)\<lparr>st_hits := st_hits (kv_stats st) + 1\<rparr>\<rparr>))"

definition kv_get_with_metadata :: "kvstore \<Rightarrow> time \<Rightarrow> string \<Rightarrow> key_metadata option \<times> kvstore" where
  "kv_get_with_metadata st now key =
     (case dget (kv_store st) key of
        None \<Rightarrow> (None, st)
      | Some metadata \<Rightarrow>
          if md_is_expired now metadata then (None, kv_delete_internal st key)
          else (Some metadata, st))"

definition kv_delete :: "kvstore \<Rightarrow> string \<Rightarrow> bool \<times> kvstore" where
  "kv_delete st key =
     (if dget (kv_store st) key \<noteq> None
      then (True, (kv_delete_internal st key)
              \<lparr>kv_stats := (kv_stats st)\<lparr>st_deletes := st_deletes (kv_stats st) + 1\<rparr>\<rparr>)
      else (False, st))"

definition kv_exists :: "kvstore \<Rightarrow> time \<Rightarrow> string \<Rightarrow> bool \<times> kvstore" where
  "kv_exists st now key =
     (case dget (kv_store st) key of
        None \<Rightarrow> (False, st)
      | Some metadata \<Rightarrow>
          if md_is_expired now metadata then (False, kv_delete_internal st key) else (True, st))"

text \<open>\<^verbatim>\<open>_cleanup_expired\<close> first collects the expired keys, then deletes them one by one.\<close>

definition kv_expired_keys :: "kvstore \<Rightarrow> time \<Rightarrow> string list" where
  "kv_expired_keys st now = map fst (filter (\<lambda>(k, m). md_is_expired now m) (kv_store st))"

fun kv_delete_expired :: "kvstore \<Rightarrow> string list \<Rightarrow> kvstore" where
  "kv_delete_expired st [] = st"
| "kv_delete_expired st (k # ks) =
     (let st' = kv_delete_internal st k
      in kv_delete_expired
           (st'\<lparr>kv_stats := (kv_stats st')\<lparr>st_expired := st_expired (kv_stats st') + 1\<rparr>\<rparr>) ks)"

definition kv_cleanup_expired :: "kvstore \<Rightarrow> time \<Rightarrow> kvstore" where
  "kv_cleanup_expired st now = kv_delete_expired st (kv_expired_keys st now)"

text \<open>\<^verbatim>\<open>keys\<close>: \<^verbatim>\<open>*\<close> matches everything, \<^verbatim>\<open>prefix*\<close> matches by prefix, anything else only
  itself. \<open>prefix_match\<close> is \<^verbatim>\<open>str.startswith\<close>.\<close>

definition prefix_match :: "string \<Rightarrow> string \<Rightarrow> bool" where
  "prefix_match p s = (take (length p) s = p)"

definition match_keys :: "string \<Rightarrow> string list \<Rightarrow> string list" where
  "match_keys pattern ks =
     (if pattern = ''*'' then ks
      else if pattern \<noteq> [] \<and> last pattern = CHR ''*''
      then filter (prefix_match (butlast pattern)) ks
      else filter (\<lambda>k. k = pattern) ks)"

definition kv_keys :: "kvstore \<Rightarrow> time \<Rightarrow> string \<Rightarrow> string list \<times> kvstore" where
  "kv_keys st now pattern =
     (let st' = kv_cleanup_expired st now in (match_keys pattern (dkeys (kv_store st')), st'))"

definition kv_get_stats :: "kvstore \<Rightarrow> time \<Rightarrow> (string, json) dict" where
  "kv_get_stats st now =
     dset ''memory_keys'' (JInt (sum_list (map (int \<circ> length) (dkeys (kv_store st)))))
       (dset ''key_count'' (JInt (int (length (kv_store st))))
         (stats_to_dict (kv_stats st) now))"

text \<open>The persistence tuples. \<^verbatim>\<open>load_data\<close> accepts a tuple of six fields or more, or of three to
  five (the older format); shorter tuples raise. The two accepted shapes are the
  constructors of \<open>data_item\<close>.\<close>

datatype data_item =
    Full json "time option" int time time node_id
  | Short json "time option" int

definition item_of_meta :: "key_metadata \<Rightarrow> data_item" where
  "item_of_meta m =
     Full (md_value m) (md_expires_at m) (md_version m) (md_created_at m) (md_updated_at m)
       (md_coordinator_id m)"

definition kv_get_all_data :: "kvstore \<Rightarrow> time \<Rightarrow> (string, data_item) dict \<times> kvstore" where
  "kv_get_all_data st now =
     (let st' = kv_cleanup_expired st now
      in (map (\<lambda>(k, m). (k, item_of_meta m)) (kv_store st'), st'))"

fun item_meta :: "time \<Rightarrow> data_item \<Rightarrow> key_metadata" where
  "item_meta now (Full v e ver c u coord) =
     \<lparr>md_value = v, md_created_at = c, md_updated_at = u, md_expires_at = e, md_version = ver,
      md_coordinator_id = coord\<rparr>"
| "item_meta now (Short v e ver) =
     \<lparr>md_value = v, md_created_at = now, md_updated_at = now, md_expires_at = e, md_version = ver,
      md_coordinator_id = ''''\<rparr>"

definition kv_load_item :: "time \<Rightarrow> string \<times> data_item \<Rightarrow> kvstore \<Rightarrow> kvstore" where
  "kv_load_item now ki st =
     (let m = item_meta now (snd ki)
      in if md_is_expired now m then st else st\<lparr>kv_store := dset (fst ki) m (kv_store st)\<rparr>)"

definition kv_load_data :: "kvstore \<Rightarrow> time \<Rightarrow> (string, data_item) dict \<Rightarrow> kvstore" where
  "kv_load_data st now data = fold (kv_load_item now) data st"

definition kv_clear :: "kvstore \<Rightarrow> kvstore" where
  "kv_clear st = st\<lparr>kv_store := [], kv_ttl_index := []\<rparr>"

definition kv_size :: "kvstore \<Rightarrow> nat" where
  "kv_size st = length (kv_store st)"

definition kv_get_version :: "kvstore \<Rightarrow> string \<Rightarrow> int option" where
  "kv_get_version st key = map_option md_version (dget (kv_store st) key)"

definition kv_get_keys_for_shard :: "kvstore \<Rightarrow> string set \<Rightarrow> (string, key_metadata) dict" where
  "kv_get_keys_for_shard st shard_keys = filter (\<lambda>(k, v). k \<in> shard_keys) (kv_store st)"

section \<open>Well-formedness\<close>

text \<open>The keys of the store are distinct (it is a dictionary) and the counters are not
  negative.\<close>

definition kv_wf :: "kvstore \<Rightarrow> bool" where
  "kv_wf st \<longleftrightarrow> dwf (kv_store st) \<and> dwf (kv_ttl_index st) \<and>
     0 \<le> st_hits (kv_stats st) \<and> 0 \<le> st_misses (kv_stats st) \<and> 0 \<le> st_sets (kv_stats st) \<and>
     0 \<le> st_deletes (kv_stats st) \<and> 0 \<le> st_expired (kv_stats st)"

lemma kv_wf_init: "kv_wf (kv_init now)"
  by (simp add: kv_wf_def kv_init_def)

lemma kv_wf_set: "kv_wf st \<Longrightarrow> kv_wf (kv_set st now k v ttl ver e c u coord)"
  by (auto simp: kv_wf_def kv_set_def Let_def dict_wf split: option.splits)

lemma kv_wf_delete_internal: "kv_wf st \<Longrightarrow> kv_wf (kv_delete_internal st k)"
  by (auto simp: kv_wf_def kv_delete_internal_def dict_wf)

lemma kv_delete_internal_frame [simp]:
  "kv_stats (kv_delete_internal st k) = kv_stats st"
  "kv_ttl_index (kv_delete_internal st k) = kv_ttl_index st"
  by (simp_all add: kv_delete_internal_def)

lemma kv_delete_internal_store [simp]:
  "kv_store (kv_delete_internal st k) = ddel k (kv_store st)"
  by (auto simp: kv_delete_internal_def map_of_eq_None_iff)

lemma kv_wf_get: "kv_wf st \<Longrightarrow> kv_wf (snd (kv_get st now k))"
  by (auto simp: kv_wf_def kv_get_def dict_wf split: option.splits)

lemma kv_wf_get_with_metadata: "kv_wf st \<Longrightarrow> kv_wf (snd (kv_get_with_metadata st now k))"
  by (auto simp: kv_get_with_metadata_def kv_wf_delete_internal split: option.splits)

lemma kv_wf_delete: "kv_wf st \<Longrightarrow> kv_wf (snd (kv_delete st k))"
  by (auto simp: kv_wf_def kv_delete_def dict_wf)

lemma kv_wf_exists: "kv_wf st \<Longrightarrow> kv_wf (snd (kv_exists st now k))"
  by (auto simp: kv_exists_def kv_wf_delete_internal split: option.splits)

lemma kv_delete_expired_fold:
  "kv_store (kv_delete_expired st ks) = fold AList.delete ks (kv_store st)"
  by (induction ks arbitrary: st) (simp_all add: Let_def)

lemma kv_delete_expired_store:
  "kv_store (kv_delete_expired st ks) = filter (\<lambda>(k, m). k \<notin> set ks) (kv_store st)"
  by (simp only: kv_delete_expired_fold fold_del_filter)

lemma kv_delete_expired_stats:
  "kv_stats (kv_delete_expired st ks) =
     (kv_stats st)\<lparr>st_expired := st_expired (kv_stats st) + int (length ks)\<rparr>"
  by (induction ks arbitrary: st) (simp_all add: Let_def)

lemma kv_delete_expired_ttl [simp]: "kv_ttl_index (kv_delete_expired st ks) = kv_ttl_index st"
  by (induction ks arbitrary: st) (simp_all add: Let_def)

lemma kv_cleanup_store:
  assumes "kv_wf st"
  shows "kv_store (kv_cleanup_expired st now) =
           filter (\<lambda>(k, m). \<not> md_is_expired now m) (kv_store st)"
proof -
  have d: "dwf (kv_store st)" using assms by (simp add: kv_wf_def)
  have "k \<in> set (kv_expired_keys st now) \<longleftrightarrow> md_is_expired now m"
    if "(k, m) \<in> set (kv_store st)" for k m
    unfolding kv_expired_keys_def by (rule dict_filter_keys_iff [OF d that])
  then show ?thesis
    by (auto simp: kv_cleanup_expired_def kv_delete_expired_store intro!: filter_cong)
qed

lemma kv_wf_cleanup: "kv_wf st \<Longrightarrow> kv_wf (kv_cleanup_expired st now)"
  unfolding kv_cleanup_expired_def kv_wf_def
  by (auto simp: kv_delete_expired_store kv_delete_expired_stats dict_wf)

lemma kv_wf_keys: "kv_wf st \<Longrightarrow> kv_wf (snd (kv_keys st now p))"
  by (simp add: kv_keys_def Let_def kv_wf_cleanup)

lemma kv_wf_get_all_data: "kv_wf st \<Longrightarrow> kv_wf (snd (kv_get_all_data st now))"
  by (simp add: kv_get_all_data_def Let_def kv_wf_cleanup)

lemma kv_wf_load_data: "kv_wf st \<Longrightarrow> kv_wf (kv_load_data st now data)"
  unfolding kv_load_data_def
  by (induction data arbitrary: st) (auto simp: kv_load_item_def kv_wf_def Let_def dict_wf)

lemma kv_wf_clear: "kv_wf st \<Longrightarrow> kv_wf (kv_clear st)"
  by (simp add: kv_wf_def kv_clear_def)

section \<open>The abstract view\<close>

text \<open>What the store promises is a map from keys to metadata that forgets an entry once its
  expiry lies in the past. \<open>entry_view\<close> and \<open>map_view\<close> read a (physical or abstract) map at a
  time; \<open>kv_view\<close> is the abstraction function of a store.\<close>

definition entry_view :: "time \<Rightarrow> key_metadata option \<Rightarrow> key_metadata option" where
  "entry_view now e = (case e of None \<Rightarrow> None | Some m \<Rightarrow> if md_is_expired now m then None else Some m)"

definition map_view :: "time \<Rightarrow> (string \<rightharpoonup> key_metadata) \<Rightarrow> (string \<rightharpoonup> key_metadata)" where
  "map_view now s = (\<lambda>k. entry_view now (s k))"

definition kv_view :: "time \<Rightarrow> kvstore \<Rightarrow> (string \<rightharpoonup> key_metadata)" where
  "kv_view now st = map_view now (dget (kv_store st))"

text \<open>The operations a client sees, and the machine that runs a timed list of them on a store.
  A write carries the whole metadata record, as every write of the node does.\<close>

datatype kv_op =
    OpSet string key_metadata
  | OpGet string
  | OpGetMeta string
  | OpExists string
  | OpDelete string
  | OpCleanup

datatype kv_out = OutUnit | OutGet json bool | OutMeta "key_metadata option" | OutBool bool | OutEither

definition kv_put :: "kvstore \<Rightarrow> time \<Rightarrow> string \<Rightarrow> key_metadata \<Rightarrow> kvstore" where
  "kv_put st now k m =
     kv_set st now k (md_value m) None (Some (md_version m)) (md_expires_at m)
       (Some (md_created_at m)) (Some (md_updated_at m)) (Some (md_coordinator_id m))"

fun kv_step :: "time \<Rightarrow> kv_op \<Rightarrow> kvstore \<Rightarrow> kv_out \<times> kvstore" where
  "kv_step now (OpSet k m) st = (OutUnit, kv_put st now k m)"
| "kv_step now (OpGet k) st = (let (r, st') = kv_get st now k in (OutGet (fst r) (snd r), st'))"
| "kv_step now (OpGetMeta k) st = (let (r, st') = kv_get_with_metadata st now k in (OutMeta r, st'))"
| "kv_step now (OpExists k) st = (let (r, st') = kv_exists st now k in (OutBool r, st'))"
| "kv_step now (OpDelete k) st = (let (r, st') = kv_delete st k in (OutBool r, st'))"
| "kv_step now OpCleanup st = (OutUnit, kv_cleanup_expired st now)"

fun kv_run :: "kvstore \<Rightarrow> (time \<times> kv_op) list \<Rightarrow> kv_out list" where
  "kv_run st [] = []"
| "kv_run st ((now, a) # ops) = (let (out, st') = kv_step now a st in out # kv_run st' ops)"

text \<open>The specification: a plain map that is never purged, read through \<open>map_view\<close>. What DELETE answers for an expired entry depends on
  whether something purged it before; the specification leaves it open (\<open>OutEither\<close>).\<close>

fun spec_step :: "time \<Rightarrow> kv_op \<Rightarrow> (string \<rightharpoonup> key_metadata) \<Rightarrow> kv_out \<times> (string \<rightharpoonup> key_metadata)" where
  "spec_step now (OpSet k m) s = (OutUnit, s(k \<mapsto> m))"
| "spec_step now (OpGet k) s =
     (case map_view now s k of None \<Rightarrow> OutGet JNull False | Some m \<Rightarrow> OutGet (md_value m) True, s)"
| "spec_step now (OpGetMeta k) s = (OutMeta (map_view now s k), s)"
| "spec_step now (OpExists k) s = (OutBool (map_view now s k \<noteq> None), s)"
| "spec_step now (OpDelete k) s =
     (if s k = None then OutBool False else if map_view now s k = None then OutEither else OutBool True, s(k := None))"
| "spec_step now OpCleanup s = (OutUnit, s)"

fun spec_run :: "(string \<rightharpoonup> key_metadata) \<Rightarrow> (time \<times> kv_op) list \<Rightarrow> kv_out list" where
  "spec_run s [] = []"
| "spec_run s ((now, a) # ops) = (let (out, s') = spec_step now a s in out # spec_run s' ops)"

fun allows :: "kv_out \<Rightarrow> kv_out \<Rightarrow> bool" where
  "allows OutEither out = (case out of OutBool b \<Rightarrow> True | _ \<Rightarrow> False)"
| "allows spec out = (out = spec)"

fun op_versioned :: "kv_op \<Rightarrow> bool" where
  "op_versioned (OpSet k m) = (md_version m \<noteq> 0)"
| "op_versioned _ = True"

subsection \<open>How each operation acts on the view\<close>

lemma entry_view_simps [simp]:
  "entry_view now None = None"
  "entry_view now (Some m) = (if md_is_expired now m then None else Some m)"
  by (simp_all add: entry_view_def)

lemma md_is_expired_mono: "md_is_expired now m \<Longrightarrow> now \<le> t \<Longrightarrow> md_is_expired t m"
  by (auto simp: md_is_expired_def split: option.splits)

lemma kv_view_apply: "kv_view now st k = entry_view now (dget (kv_store st) k)"
  by (simp add: kv_view_def map_view_def)

lemma kv_view_upd:
  "map_view t (s(k \<mapsto> m)) = (map_view t s)(k := (if md_is_expired t m then None else Some m))"
  by (auto simp: map_view_def)

lemma map_view_del: "map_view t (s(k := None)) = (map_view t s)(k := None)"
  by (auto simp: map_view_def)

lemma kv_put_store:
  "md_version m \<noteq> 0 \<Longrightarrow> kv_store (kv_put st now k m) = dset k m (kv_store st)"
  by (cases m; cases "md_expires_at m") (simp_all add: kv_put_def kv_set_def Let_def)

lemma kv_view_put:
  "md_version m \<noteq> 0 \<Longrightarrow>
   kv_view t (kv_put st now k m) = (kv_view t st)(k := (if md_is_expired t m then None else Some m))"
  by (auto simp: kv_view_def map_view_def kv_put_store update_conv')

lemma kv_view_purge:
  assumes "now \<le> t" and "dget (kv_store st) k = Some m" and "md_is_expired now m"
  shows "kv_view t (kv_delete_internal st k) = kv_view t st"
  using assms md_is_expired_mono [OF assms(3,1)]
  by (auto simp: kv_view_def map_view_def delete_conv')

lemma kv_view_stats_update [simp]: "kv_view t (st\<lparr>kv_stats := s\<rparr>) = kv_view t st"
  by (simp add: kv_view_def)

lemma kv_view_get: "now \<le> t \<Longrightarrow> kv_view t (snd (kv_get st now k)) = kv_view t st"
  by (auto simp: kv_get_def kv_view_purge split: option.splits)

lemma kv_view_get_with_metadata:
  "now \<le> t \<Longrightarrow> kv_view t (snd (kv_get_with_metadata st now k)) = kv_view t st"
  by (auto simp: kv_get_with_metadata_def kv_view_purge split: option.splits)

lemma kv_view_exists: "now \<le> t \<Longrightarrow> kv_view t (snd (kv_exists st now k)) = kv_view t st"
  by (auto simp: kv_exists_def kv_view_purge split: option.splits)

lemma kv_view_delete: "kv_view t (snd (kv_delete st k)) = (kv_view t st)(k := None)"
  by (auto simp: kv_delete_def kv_view_def map_view_def delete_conv')

lemma kv_view_cleanup:
  assumes "kv_wf st" and "now \<le> t"
  shows "kv_view t (kv_cleanup_expired st now) = kv_view t st"
proof
  fix k
  have "dwf (kv_store st)" using assms(1) by (simp add: kv_wf_def)
  then show "kv_view t (kv_cleanup_expired st now) k = kv_view t st k"
    using md_is_expired_mono [OF _ assms(2)]
    by (auto simp: kv_view_apply kv_cleanup_store [OF assms(1)] dict_filter_get split: option.splits)
qed

lemma fst_kv_get:
  "fst (kv_get st now k) =
     (case kv_view now st k of None \<Rightarrow> (JNull, False) | Some m \<Rightarrow> (md_value m, True))"
  by (auto simp: kv_get_def kv_view_apply split: option.splits)

lemma fst_kv_get_with_metadata: "fst (kv_get_with_metadata st now k) = kv_view now st k"
  by (auto simp: kv_get_with_metadata_def kv_view_apply split: option.splits)

lemma fst_kv_exists: "fst (kv_exists st now k) = (kv_view now st k \<noteq> None)"
  by (auto simp: kv_exists_def kv_view_apply split: option.splits)

subsection \<open>The store refines the map\<close>

text \<open>The simulation relation at time \<open>now\<close>: the physical and the abstract map look the same
  from \<open>now\<close> on.\<close>

definition kv_sim :: "time \<Rightarrow> kvstore \<Rightarrow> (string \<rightharpoonup> key_metadata) \<Rightarrow> bool" where
  "kv_sim now st s \<longleftrightarrow> kv_wf st \<and> (\<forall>t\<ge>now. kv_view t st = map_view t s) \<and> (\<forall>k. dget (kv_store st) k \<in> {None, s k})"

lemma kv_wf_step: "kv_wf st \<Longrightarrow> kv_wf (snd (kv_step now a st))"
  by (cases a)
    (auto simp: kv_put_def kv_wf_set kv_wf_delete kv_wf_cleanup Let_def split_def kv_wf_get
      kv_wf_get_with_metadata kv_wf_exists)

lemma kv_step_view:
  assumes "kv_sim t0 st s" and "t0 \<le> now" and "op_versioned a" and "now \<le> t"
  shows "kv_view t (snd (kv_step now a st)) = map_view t (snd (spec_step now a s))"
proof -
  from assms have v: "kv_view t st = map_view t s" and w: "kv_wf st"
    by (auto simp: kv_sim_def)
  show ?thesis using assms v w
    by (cases a)
      (auto simp: kv_view_put kv_view_upd kv_view_get kv_view_get_with_metadata kv_view_exists
        kv_view_delete map_view_del kv_view_cleanup Let_def split_def)
qed

lemma kv_step_output:
  assumes "kv_sim t0 st s" and "t0 \<le> now"
  shows "allows (fst (spec_step now a s)) (fst (kv_step now a st))"
proof (cases a)
  case (OpDelete k)
  from assms have "kv_view now st k = map_view now s k" "dget (kv_store st) k \<in> {None, s k}" by (auto simp: kv_sim_def)
  then show ?thesis by (cases "s k") (auto simp: OpDelete kv_delete_def kv_view_apply map_view_def split: if_splits)
next
  case (OpGet k)
  from assms have "kv_view now st = map_view now s" by (simp add: kv_sim_def)
  then show ?thesis by (auto simp: OpGet Let_def split_def fst_kv_get split: option.splits)
qed (use assms in \<open>auto simp: kv_sim_def Let_def split_def fst_kv_get_with_metadata fst_kv_exists split: option.splits\<close>)

lemma kv_step_part:
  assumes "kv_sim t0 st s" and "op_versioned a"
  shows "dget (kv_store (snd (kv_step now a st))) k \<in> {None, snd (spec_step now a s) k}"
proof -
  have "dget (kv_store st) k = None \<or> dget (kv_store st) k = s k" using assms(1) by (auto simp: kv_sim_def)
  moreover have wf: "kv_wf st" using assms(1) by (simp add: kv_sim_def)
  moreover have "dget (kv_store (kv_cleanup_expired st now)) k = None \<or> dget (kv_store (kv_cleanup_expired st now)) k = dget (kv_store st) k"
    using wf unfolding kv_cleanup_store [OF wf] kv_wf_def by (simp add: dict_filter_get split: option.splits)
  ultimately show ?thesis using assms(2)
    by (cases a) (auto simp: kv_put_store kv_get_def kv_get_with_metadata_def kv_exists_def kv_delete_def kv_delete_internal_def
      update_conv' delete_conv' Let_def split_def simp del: map_of_eq_Some_iff split: option.splits if_splits)
qed

lemma kv_step_sim:
  "kv_sim t0 st s \<Longrightarrow> t0 \<le> now \<Longrightarrow> op_versioned a \<Longrightarrow>
   kv_sim now (snd (kv_step now a st)) (snd (spec_step now a s))"
  unfolding kv_sim_def [of now] using kv_step_view [of t0 st s now a] kv_wf_step [of st now a] kv_step_part [of t0 st s a now]
  by (auto simp: kv_sim_def)

lemma kv_run_sim:
  "kv_sim t0 st s \<Longrightarrow> sorted (t0 # map fst ops) \<Longrightarrow> list_all (\<lambda>p. op_versioned (snd p)) ops \<Longrightarrow>
   list_all2 allows (spec_run s ops) (kv_run st ops)"
proof (induction ops arbitrary: t0 st s)
  case Nil
  then show ?case by simp
next
  case (Cons p ops)
  obtain now a where p: "p = (now, a)" by fastforce
  from Cons.prems have le: "t0 \<le> now" and ov: "op_versioned a" and so: "sorted (now # map fst ops)"
    and rest: "list_all (\<lambda>p. op_versioned (snd p)) ops"
    by (auto simp: p)
  have "list_all2 allows (spec_run (snd (spec_step now a s)) ops) (kv_run (snd (kv_step now a st)) ops)"
    using Cons.IH [OF kv_step_sim [OF Cons.prems(1) le ov] so rest] .
  then show ?case
    using kv_step_output [OF Cons.prems(1) le, of a] by (simp add: p Let_def split_def)
qed

text \<open>C3: Trace refinement of the store. For every list of set, get, get_with_metadata, exists, delete and cleanup operations with
  non-decreasing clock readings whose writes carry an explicit non-zero version (as every write of a node does), a
  store started empty answers exactly as a map that is never purged and only hides expired
  entries: lazy purging inside \<open>get\<close>, \<open>exists\<close>, \<open>get_with_metadata\<close> and the cleanup
  pass is not observable by any of them. The one exception is the boolean that DELETE answers for an expired
  entry, which the map leaves open; for every other key it is exactly whether the key is shown.\<close>

theorem kv_trace_refinement:
  assumes "sorted (t0 # map fst ops)" and "list_all (\<lambda>p. op_versioned (snd p)) ops"
  shows "list_all2 allows (spec_run Map.empty ops) (kv_run (kv_init t0) ops)"
proof (rule kv_run_sim [OF _ assms])
  show "kv_sim t0 (kv_init t0) Map.empty"
    using kv_wf_init [of t0] by (auto simp: kv_sim_def kv_init_def kv_view_def)
qed

definition sample_meta :: "json \<Rightarrow> time option \<Rightarrow> int \<Rightarrow> key_metadata" where
  "sample_meta v e ver =
     \<lparr>md_value = v, md_created_at = 1, md_updated_at = 1, md_expires_at = e, md_version = ver,
      md_coordinator_id = ''n1''\<rparr>"

theorem kv_trace_refinement_witness:
  "list_all2 allows
     [OutUnit, OutGet (JInt 7) True, OutGet JNull False, OutBool False, OutEither, OutBool False]
     (kv_run (kv_init 1)
       [(1, OpSet ''a'' (sample_meta (JInt 7) (Some 3) 1)), (2, OpGet ''a''), (4, OpGet ''a''),
        (4, OpExists ''a''), (4, OpDelete ''a''), (5, OpDelete ''a'')])"
  using kv_trace_refinement [of 1 "[(1, OpSet ''a'' (sample_meta (JInt 7) (Some 3) 1)), (2, OpGet ''a''), (4, OpGet ''a''),
        (4, OpExists ''a''), (4, OpDelete ''a''), (5, OpDelete ''a'')]"]
  by (simp add: sample_meta_def map_view_def md_is_expired_def)

text \<open>What DELETE answers for an expired key shows whether it was purged.\<close>

lemma delete_shows_purging:
  "kv_run (kv_init 1) [(1, OpSet ''a'' (sample_meta (JInt 7) (Some 3) 1)), (4, OpDelete ''a'')] = [OutUnit, OutBool True]"
  "kv_run (kv_init 1) [(1, OpSet ''a'' (sample_meta (JInt 7) (Some 3) 1)), (4, OpGet ''a''), (4, OpDelete ''a'')] =
     [OutUnit, OutGet JNull False, OutBool False]"
  by (simp_all add: sample_meta_def kv_init_def kv_put_def kv_set_def kv_delete_def kv_get_def kv_delete_internal_def md_is_expired_def Let_def)

section \<open>Persistence images and key listings\<close>

lemma item_meta_item_of_meta [simp]: "item_meta now (item_of_meta m) = m"
  by (cases m) (simp add: item_of_meta_def)

lemma kv_load_store:
  "list_all (\<lambda>(k, m). \<not> md_is_expired now m) kms \<Longrightarrow>
   kv_store (kv_load_data st now (map (\<lambda>(k, m). (k, item_of_meta m)) kms)) =
     fold (\<lambda>(k, v). AList.update k v) kms (kv_store st)"
  unfolding kv_load_data_def
  by (induction kms arbitrary: st) (auto simp: kv_load_item_def Let_def)

lemma kv_get_all_data_live:
  "kv_wf st \<Longrightarrow> list_all (\<lambda>(k, m). \<not> md_is_expired now m) (kv_store (kv_cleanup_expired st now))"
  by (auto simp: kv_cleanup_store list_all_iff)

text \<open>Dump and load. Loading the image \<open>get_all_data\<close> takes of a store into a fresh store
  gives a store with the same entries in the same order as the (purged) original, and the same
  visible contents from then on; no metadata field is lost.\<close>

theorem kv_dump_load:
  assumes "kv_wf st"
  shows "kv_store (kv_load_data (kv_init t0) now (fst (kv_get_all_data st now))) =
           kv_store (kv_cleanup_expired st now) \<and>
         (\<forall>t\<ge>now. kv_view t (kv_load_data (kv_init t0) now (fst (kv_get_all_data st now))) = kv_view t st)"
proof -
  let ?c = "kv_store (kv_cleanup_expired st now)"
  have "dwf ?c" using kv_wf_cleanup [OF assms, of now] by (simp add: kv_wf_def)
  then have "kv_store (kv_load_data (kv_init t0) now (fst (kv_get_all_data st now))) = ?c"
    by (simp add: kv_get_all_data_def Let_def kv_load_store [OF kv_get_all_data_live [OF assms]]
        kv_init_def fold_upd_fresh)
  then show ?thesis
    using kv_view_cleanup [OF assms] by (simp add: kv_view_def)
qed

definition sample_store :: kvstore where
  "sample_store =
     kv_put (kv_put (kv_init 1) 1 ''user:1'' (sample_meta (JStr ''Alice'') None 2))
       1 ''tmp'' (sample_meta (JStr ''x'') (Some 5) 1)"

lemma kv_wf_sample_store: "kv_wf sample_store"
  by (simp add: sample_store_def kv_put_def kv_wf_set kv_wf_init)

theorem kv_dump_load_witness:
  "kv_view 9 (kv_load_data (kv_init 0) 9 (fst (kv_get_all_data sample_store 9))) ''user:1'' =
     Some (sample_meta (JStr ''Alice'') None 2)"
proof -
  have "kv_view 9 (kv_load_data (kv_init 0) 9 (fst (kv_get_all_data sample_store 9))) =
          kv_view 9 sample_store"
    using kv_dump_load [OF kv_wf_sample_store, of 0 9] by blast
  then show ?thesis by (simp add: sample_store_def kv_view_put sample_meta_def md_is_expired_def)
qed

text \<open>A reference definition of the pattern language of \<open>keys\<close>.\<close>

definition key_matches :: "string \<Rightarrow> string \<Rightarrow> bool" where
  "key_matches pattern k \<longleftrightarrow> pattern = k \<or> (\<exists>p r. pattern = p @ ''*'' \<and> k = p @ r)"

lemma prefix_match_iff: "prefix_match p s \<longleftrightarrow> (\<exists>r. s = p @ r)"
  unfolding prefix_match_def by (metis append_eq_conv_conj append_take_drop_id)

lemma match_keys_distinct: "distinct ks \<Longrightarrow> distinct (match_keys pattern ks)"
  by (simp add: match_keys_def)

lemma match_keys_set: "set (match_keys pattern ks) = {k \<in> set ks. key_matches pattern k}"
proof (cases "\<exists>p. pattern = p @ ''*''")
  case True
  then obtain p where p: "pattern = p @ ''*''" ..
  then show ?thesis by (cases "p = []") (auto simp: match_keys_def key_matches_def prefix_match_iff)
next
  case False
  then have "pattern \<noteq> ''*''" and "pattern = [] \<or> last pattern \<noteq> CHR ''*''"
    by (auto, metis append_butlast_last_id)
  then have "match_keys pattern ks = filter (\<lambda>k. k = pattern) ks" by (auto simp: match_keys_def)
  with False show ?thesis by (auto simp: key_matches_def)
qed

lemma kv_cleanup_keys:
  assumes "kv_wf st"
  shows "set (dkeys (kv_store (kv_cleanup_expired st now))) = {k. kv_view now st k \<noteq> None}"
proof -
  have "dwf (kv_store st)" using assms by (simp add: kv_wf_def)
  then have "k \<in> set (dkeys (kv_store (kv_cleanup_expired st now))) \<longleftrightarrow> kv_view now st k \<noteq> None" for k
    unfolding dict_get_in_keys [symmetric] kv_cleanup_store [OF assms]
    by (auto simp: dict_filter_get kv_view_apply split: option.splits)
  then show ?thesis by blast
qed

text \<open>Key listing. \<open>keys\<close> returns, without duplicates, exactly the visible keys the
  pattern matches: every key for \<open>*\<close>, the keys with the given prefix for \<open>prefix*\<close>, and
  otherwise only the key equal to the pattern.\<close>

theorem kv_keys_spec:
  assumes "kv_wf st"
  shows "distinct (fst (kv_keys st now pattern)) \<and>
         set (fst (kv_keys st now pattern)) = {k. kv_view now st k \<noteq> None \<and> key_matches pattern k}"
proof -
  have "distinct (dkeys (kv_store (kv_cleanup_expired st now)))"
    using kv_wf_cleanup [OF assms, of now] by (simp add: kv_wf_def)
  then show ?thesis
    using kv_cleanup_keys [OF assms, of now]
    by (auto simp del: set_map simp: kv_keys_def Let_def match_keys_distinct match_keys_set)
qed

theorem kv_keys_spec_witness: "set (fst (kv_keys sample_store 2 ''user:*'')) = {''user:1''}"
proof -
  have "{k. kv_view 2 sample_store k \<noteq> None \<and> key_matches ''user:*'' k} = {''user:1''}"
    by (auto simp: kv_view_apply sample_store_def kv_put_store sample_meta_def kv_init_def
        md_is_expired_def key_matches_def prefix_match_iff split: if_splits)
  then show ?thesis using kv_keys_spec [OF kv_wf_sample_store, of 2 "''user:*''"] by simp
qed

end
