(* ===== verification/Config.thy ===== *)
theory Config
  imports Prelude
begin

text \<open>
  The configuration module (\<^verbatim>\<open>src/minidb/config.py\<close>): the consistency levels, node roles and
  node states, and the configuration records with their defaults. \<^verbatim>\<open>__post_init__\<close> creates a
  directory; the model keeps the path it computes (\<open>os.path.join\<close>).
\<close>

datatype consistency_level = ONE | QUORUM | ALL_REPLICAS | ANY | STRONG

datatype node_role = LEADER | FOLLOWER | CANDIDATE

datatype node_state = ALIVE | SUSPECT | DEAD

fun consistency_value :: "consistency_level \<Rightarrow> string" where
  "consistency_value ONE = ''ONE''"
| "consistency_value QUORUM = ''QUORUM''"
| "consistency_value ALL_REPLICAS = ''ALL''"
| "consistency_value ANY = ''ANY''"
| "consistency_value STRONG = ''STRONG''"

text \<open>\<^verbatim>\<open>ConsistencyLevel(s)\<close>: the member with that value, or \<^verbatim>\<open>ValueError\<close>.\<close>

definition consistency_of :: "string \<Rightarrow> consistency_level res" where
  "consistency_of s =
     (if s = ''ONE'' then Inr ONE
      else if s = ''QUORUM'' then Inr QUORUM
      else if s = ''ALL'' then Inr ALL_REPLICAS
      else if s = ''ANY'' then Inr ANY
      else if s = ''STRONG'' then Inr STRONG
      else Inl ValueError)"

fun role_value :: "node_role \<Rightarrow> string" where
  "role_value LEADER = ''LEADER''"
| "role_value FOLLOWER = ''FOLLOWER''"
| "role_value CANDIDATE = ''CANDIDATE''"

definition role_of :: "string \<Rightarrow> node_role res" where
  "role_of s =
     (if s = ''LEADER'' then Inr LEADER
      else if s = ''FOLLOWER'' then Inr FOLLOWER
      else if s = ''CANDIDATE'' then Inr CANDIDATE
      else Inl ValueError)"

fun state_value :: "node_state \<Rightarrow> string" where
  "state_value ALIVE = ''ALIVE''"
| "state_value SUSPECT = ''SUSPECT''"
| "state_value DEAD = ''DEAD''"

definition state_of :: "string \<Rightarrow> node_state res" where
  "state_of s =
     (if s = ''ALIVE'' then Inr ALIVE
      else if s = ''SUSPECT'' then Inr SUSPECT
      else if s = ''DEAD'' then Inr DEAD
      else Inl ValueError)"

lemma enum_roundtrip [simp]:
  "consistency_of (consistency_value c) = Inr c"
  "role_of (role_value r) = Inr r"
  "state_of (state_value s) = Inr s"
  subgoal by (cases c) (simp_all add: consistency_of_def)
  subgoal by (cases r) (simp_all add: role_of_def)
  subgoal by (cases s) (simp_all add: state_of_def)
  done

section \<open>Node configuration\<close>

record node_config =
  cf_node_id :: node_id
  cf_host :: string
  cf_client_port :: int
  cf_cluster_port :: int
  cf_data_dir :: string
  cf_aof_enabled :: bool
  cf_aof_fsync_interval :: time
  cf_snapshot_enabled :: bool
  cf_snapshot_interval :: time
  cf_heartbeat_interval :: time
  cf_failure_timeout :: time
  cf_dead_timeout :: time
  cf_election_timeout_min :: time
  cf_election_timeout_max :: time
  cf_replication_factor :: int
  cf_default_consistency :: consistency_level
  cf_virtual_nodes :: int
  cf_ttl_check_interval :: time
  cf_repair_interval :: time

definition default_node_config :: "node_id \<Rightarrow> node_config" where
  "default_node_config node =
     \<lparr>cf_node_id = node, cf_host = ''localhost'', cf_client_port = 7001, cf_cluster_port = 8001,
      cf_data_dir = ''./data'', cf_aof_enabled = True, cf_aof_fsync_interval = 1,
      cf_snapshot_enabled = True, cf_snapshot_interval = 300, cf_heartbeat_interval = 1,
      cf_failure_timeout = 5, cf_dead_timeout = 15, cf_election_timeout_min = 3 / 2,
      cf_election_timeout_max = 3, cf_replication_factor = 3, cf_default_consistency = QUORUM,
      cf_virtual_nodes = 150, cf_ttl_check_interval = 1, cf_repair_interval = 60\<rparr>"

definition path_join :: "string \<Rightarrow> string \<Rightarrow> string" where
  "path_join a b =
     (if b \<noteq> [] \<and> hd b = CHR ''/'' then b
      else if a = [] \<or> last a = CHR ''/'' then a @ b
      else a @ ''/'' @ b)"

definition node_data_dir :: "node_config \<Rightarrow> string" where
  "node_data_dir c = path_join (cf_data_dir c) (cf_node_id c)"

definition get_default_config :: "node_id \<Rightarrow> int \<Rightarrow> int \<Rightarrow> node_config" where
  "get_default_config node port cluster_port =
     (default_node_config node)
       \<lparr>cf_client_port := port, cf_cluster_port := cluster_port, cf_data_dir := ''./data_'' @ node\<rparr>"

record cluster_config =
  cc_seed_nodes :: "string list"
  cc_min_nodes_for_quorum :: int

definition add_seed_node :: "cluster_config \<Rightarrow> string \<Rightarrow> cluster_config" where
  "add_seed_node c address =
     (if address \<notin> set (cc_seed_nodes c) then c\<lparr>cc_seed_nodes := cc_seed_nodes c @ [address]\<rparr> else c)"

section \<open>Quorum arithmetic\<close>

text \<open>The number of copies, the local one included, that a write must reach and a quorum read must
  hear from, as the write path and the read path compute it from the replication factor.\<close>

definition required_total :: "int \<Rightarrow> consistency_level \<Rightarrow> int" where
  "required_total rf c =
     (if c = ALL_REPLICAS \<or> c = STRONG then rf else if c = QUORUM then rf div 2 + 1 else 1)"

definition read_quorum_size :: "int \<Rightarrow> int" where
  "read_quorum_size rf = max 1 (rf div 2 + 1)"

end
