(* ===== verification/Log.thy ===== *)
theory Log
  imports Json Config
begin

text \<open>
  The log entry that leaders send to followers (\<^verbatim>\<open>LogEntry\<close> of \<^verbatim>\<open>src/minidb/cluster/election.py\<close>) and
  its dictionary form. The decoder is total on dictionaries: a missing required field is a
  \<^verbatim>\<open>KeyError\<close>. A field whose type is not the declared one is reported as a \<^verbatim>\<open>TypeError\<close> here, where
  Python keeps the value until it is used.
\<close>

record log_entry =
  le_term :: int
  le_index :: int
  le_command :: string
  le_key :: string
  le_value :: json
  le_ttl :: "int option"
  le_timestamp :: time
  le_version :: int
  le_expires_at :: "time option"
  le_created_at :: "time option"
  le_coordinator_id :: node_id

definition of_opt :: "('a \<Rightarrow> json) \<Rightarrow> 'a option \<Rightarrow> json" where
  "of_opt f x = (case x of None \<Rightarrow> JNull | Some a \<Rightarrow> f a)"

definition log_to_dict :: "log_entry \<Rightarrow> (string \<times> json) list" where
  "log_to_dict e =
     [(''term'', JInt (le_term e)),
      (''index'', JInt (le_index e)),
      (''command'', JStr (le_command e)),
      (''key'', JStr (le_key e)),
      (''value'', le_value e),
      (''ttl'', of_opt JInt (le_ttl e)),
      (''timestamp'', JFloat (le_timestamp e)),
      (''version'', JInt (le_version e)),
      (''expires_at'', of_opt JFloat (le_expires_at e)),
      (''created_at'', of_opt JFloat (le_created_at e)),
      (''coordinator_id'', JStr (le_coordinator_id e))]"

section \<open>Typed access to JSON values\<close>

definition dict_get :: "(string \<times> json) list \<Rightarrow> string \<Rightarrow> json \<Rightarrow> json" where
  "dict_get d k dflt = (case dget d k of Some v \<Rightarrow> v | None \<Rightarrow> dflt)"

definition dict_item :: "(string \<times> json) list \<Rightarrow> string \<Rightarrow> json res" where
  "dict_item d k = (case dget d k of Some v \<Rightarrow> Inr v | None \<Rightarrow> Inl KeyError)"

fun json_number :: "json \<Rightarrow> rat option" where
  "json_number (JInt i) = Some (of_int i)"
| "json_number (JFloat x) = Some x"
| "json_number (JBool b) = Some (if b then 1 else 0)"
| "json_number _ = None"

definition as_time :: "json \<Rightarrow> time res" where
  "as_time j = (case json_number j of Some t \<Rightarrow> Inr t | None \<Rightarrow> Inl TypeError)"

definition as_int :: "json \<Rightarrow> int res" where
  "as_int j = (case j of JInt i \<Rightarrow> Inr i | _ \<Rightarrow> Inl TypeError)"

definition as_str :: "json \<Rightarrow> string res" where
  "as_str j = (case j of JStr s \<Rightarrow> Inr s | _ \<Rightarrow> Inl TypeError)"

definition as_opt :: "(json \<Rightarrow> 'a res) \<Rightarrow> json \<Rightarrow> 'a option res" where
  "as_opt f j = (if j = JNull then Inr None else map_sum id Some (f j))"

text \<open>Sequencing of fallible steps.\<close>

definition bind_res :: "'a res \<Rightarrow> ('a \<Rightarrow> 'b res) \<Rightarrow> 'b res" where
  "bind_res r f = (case r of Inl e \<Rightarrow> Inl e | Inr x \<Rightarrow> f x)"

lemma bind_res_simps [simp]: "bind_res (Inr x) f = f x" "bind_res (Inl e) f = Inl e"
  by (simp_all add: bind_res_def)

lemma as_simps [simp]:
  "as_time (JFloat t) = Inr t" "as_time (JInt i) = Inr (of_int i)" "as_int (JInt i) = Inr i" "as_str (JStr s) = Inr s"
  "as_opt as_time (of_opt JFloat to) = Inr to" "as_opt as_int (of_opt JInt io) = Inr io"
  "as_opt as_time (JFloat t) = Inr (Some t)" "as_opt as_int (JInt i) = Inr (Some i)"
  "as_opt f JNull = Inr None" "as_opt as_str (JStr s) = Inr (Some s)"
  by (simp_all add: as_time_def as_int_def as_str_def as_opt_def of_opt_def split: option.splits)

definition log_from_dict :: "(string \<times> json) list \<Rightarrow> log_entry res" where
  "log_from_dict d =
     bind_res (bind_res (dict_item d ''term'') as_int) (\<lambda>term.
     bind_res (bind_res (dict_item d ''index'') as_int) (\<lambda>index.
     bind_res (bind_res (dict_item d ''command'') as_str) (\<lambda>command.
     bind_res (bind_res (dict_item d ''key'') as_str) (\<lambda>key.
     bind_res (as_opt as_int (dict_get d ''ttl'' JNull)) (\<lambda>ttl.
     bind_res (as_time (dict_get d ''timestamp'' (JFloat 0))) (\<lambda>timestamp.
     bind_res (as_int (dict_get d ''version'' (JInt 1))) (\<lambda>version.
     bind_res (as_opt as_time (dict_get d ''expires_at'' JNull)) (\<lambda>expires_at.
     bind_res (as_opt as_time (dict_get d ''created_at'' JNull)) (\<lambda>created_at.
     bind_res (as_str (dict_get d ''coordinator_id'' (JStr []))) (\<lambda>coordinator_id.
       Inr \<lparr>le_term = term, le_index = index, le_command = command, le_key = key,
            le_value = dict_get d ''value'' JNull, le_ttl = ttl, le_timestamp = timestamp,
            le_version = version, le_expires_at = expires_at, le_created_at = created_at,
            le_coordinator_id = coordinator_id\<rparr>))))))))))"

lemma log_from_to_dict: "log_from_dict (log_to_dict e) = Inr e"
  by (cases e) (simp add: log_from_dict_def log_to_dict_def dict_item_def dict_get_def)

end
