(* ===== verification/AOF.thy ===== *)
theory AOF
  imports Json_Roundtrip KVStore Log "HOL-Library.Sublist"
begin

text \<open>
  The append-only file (\<^verbatim>\<open>src/minidb/storage/aof.py\<close>): the entries and their JSON lines, the
  file with its unsynced tail, \<^verbatim>\<open>append\<close>, \<^verbatim>\<open>_do_fsync\<close>, the background fsync, \<^verbatim>\<open>replay\<close>, \<^verbatim>\<open>compact\<close>,
  \<^verbatim>\<open>close\<close>, and what a crash leaves.

  \<^item> An entry's fields are JSON values: the dataclass checks no types and \<^verbatim>\<open>from_line\<close> takes
    whatever the line holds. \<open>JNull\<close> is \<^verbatim>\<open>None\<close>.
  \<^item> The directory holds up to three files (the log, its backup, the temporary file of a
    compaction). Text written to the handle but not yet synced is \<open>aof_buffer\<close>; a crash keeps an
    arbitrary prefix of it, because the runtime and the kernel may write any part of it early.
  \<^item> \<^verbatim>\<open>compact\<close> is the sequence of file-system calls it makes, so that a crash may fall between
    any two of them.
  \<^item> Every method runs under one lock; \<open>now\<close> arguments are the values \<^verbatim>\<open>time.time()\<close> returns.
\<close>

section \<open>Entries\<close>

datatype aof_command = SET_CMD | DELETE_CMD | EXPIRE_CMD

fun aof_command_value :: "aof_command \<Rightarrow> string" where
  "aof_command_value SET_CMD = ''SET''"
| "aof_command_value DELETE_CMD = ''DELETE''"
| "aof_command_value EXPIRE_CMD = ''EXPIRE''"

definition aof_command_of :: "json \<Rightarrow> aof_command res" where
  "aof_command_of j =
     (if j = JStr ''SET'' then Inr SET_CMD
      else if j = JStr ''DELETE'' then Inr DELETE_CMD
      else if j = JStr ''EXPIRE'' then Inr EXPIRE_CMD
      else Inl ValueError)"

record aof_entry =
  ae_timestamp :: json
  ae_command :: aof_command
  ae_key :: json
  ae_value :: json
  ae_ttl :: json
  ae_expires_at :: json
  ae_version :: json
  ae_created_at :: json
  ae_coordinator_id :: json

definition opt_field :: "bool \<Rightarrow> string \<Rightarrow> json \<Rightarrow> (string \<times> json) list" where
  "opt_field b name v = (if b then [(name, v)] else [])"

definition entry_data :: "aof_entry \<Rightarrow> (string \<times> json) list" where
  "entry_data e =
     [(''ts'', ae_timestamp e),
      (''cmd'', JStr (aof_command_value (ae_command e))),
      (''key'', ae_key e),
      (''ver'', ae_version e)]
     @ opt_field (ae_value e \<noteq> JNull) ''val'' (ae_value e)
     @ opt_field (ae_ttl e \<noteq> JNull) ''ttl'' (ae_ttl e)
     @ opt_field (ae_expires_at e \<noteq> JNull) ''exp'' (ae_expires_at e)
     @ opt_field (ae_created_at e \<noteq> JNull) ''cts'' (ae_created_at e)
     @ opt_field (truthy (ae_coordinator_id e)) ''coord'' (ae_coordinator_id e)"

definition to_line :: "float_codec \<Rightarrow> aof_entry \<Rightarrow> string" where
  "to_line fc e = dumps fc (JDict (entry_data e))"

definition entry_of_data :: "(string \<times> json) list \<Rightarrow> aof_entry res" where
  "entry_of_data d =
     (case dget d ''ts'' of
        None \<Rightarrow> Inl KeyError
      | Some ts \<Rightarrow>
          (case dget d ''cmd'' of
             None \<Rightarrow> Inl KeyError
           | Some cmd \<Rightarrow>
               (case aof_command_of cmd of
                  Inl err \<Rightarrow> Inl err
                | Inr c \<Rightarrow>
                    (case dget d ''key'' of
                       None \<Rightarrow> Inl KeyError
                     | Some k \<Rightarrow>
                         Inr \<lparr>ae_timestamp = ts, ae_command = c, ae_key = k,
                              ae_value = dict_get d ''val'' JNull,
                              ae_ttl = dict_get d ''ttl'' JNull,
                              ae_expires_at = dict_get d ''exp'' JNull,
                              ae_version = dict_get d ''ver'' (JInt 1),
                              ae_created_at = dict_get d ''cts'' JNull,
                              ae_coordinator_id = dict_get d ''coord'' (JStr [])\<rparr>))))"

text \<open>Subscripting a parsed value that is no object with a string raises \<^verbatim>\<open>TypeError\<close>.\<close>

definition from_line :: "float_codec \<Rightarrow> string \<Rightarrow> aof_entry res" where
  "from_line fc line =
     (case loads fc (py_strip line) of
        Inl e \<Rightarrow> Inl e
      | Inr (JDict d) \<Rightarrow> entry_of_data d
      | Inr _ \<Rightarrow> Inl TypeError)"

section \<open>The file\<close>

record aof_dir =
  dir_main :: "string option"
  dir_bak :: "string option"
  dir_tmp :: "string option"

record aof =
  aof_dir :: aof_dir
  aof_fsync_interval :: time
  aof_handle :: bool
  aof_buffer :: string
  aof_last_fsync :: time
  aof_running :: bool
  aof_entries_since_compact :: nat
  aof_compact_threshold :: nat

definition aof_open_file :: "aof \<Rightarrow> aof" where
  "aof_open_file st =
     st\<lparr>aof_dir := (aof_dir st)\<lparr>dir_main := Some (case dir_main (aof_dir st) of None \<Rightarrow> [] | Some s \<Rightarrow> s)\<rparr>,
        aof_handle := True,
        aof_buffer := []\<rparr>"

definition aof_init :: "aof_dir \<Rightarrow> time \<Rightarrow> time \<Rightarrow> aof" where
  "aof_init d fsync_interval now =
     aof_open_file
       \<lparr>aof_dir = d, aof_fsync_interval = fsync_interval, aof_handle = False, aof_buffer = [],
        aof_last_fsync = now, aof_running = True, aof_entries_since_compact = 0,
        aof_compact_threshold = 10000\<rparr>"

definition aof_do_fsync :: "aof \<Rightarrow> time \<Rightarrow> aof" where
  "aof_do_fsync st now =
     (if aof_handle st
      then st\<lparr>aof_dir := (aof_dir st)\<lparr>dir_main := map_option (\<lambda>s. s @ aof_buffer st) (dir_main (aof_dir st))\<rparr>,
              aof_buffer := [],
              aof_last_fsync := now\<rparr>
      else st)"

definition append_entry ::
  "time \<Rightarrow> aof_command \<Rightarrow> string \<Rightarrow> json \<Rightarrow> int option \<Rightarrow> int \<Rightarrow> time option \<Rightarrow> time option \<Rightarrow>
   time option \<Rightarrow> string \<Rightarrow> aof_entry" where
  "append_entry now command key value ttl version expires_at created_at updated_at coordinator_id =
     \<lparr>ae_timestamp = JFloat (case updated_at of Some u \<Rightarrow> u | None \<Rightarrow> now),
      ae_command = command,
      ae_key = JStr key,
      ae_value = value,
      ae_ttl = of_opt JInt ttl,
      ae_expires_at = of_opt JFloat expires_at,
      ae_version = JInt version,
      ae_created_at = of_opt JFloat created_at,
      ae_coordinator_id = JStr coordinator_id\<rparr>"

text \<open>The locked part of \<^verbatim>\<open>append\<close>. After \<^verbatim>\<open>close\<close> the handle is \<^verbatim>\<open>None\<close> and the write raises.\<close>

definition aof_append :: "float_codec \<Rightarrow> aof \<Rightarrow> time \<Rightarrow> time \<Rightarrow> aof_entry \<Rightarrow> bool \<Rightarrow> py_error option \<times> aof" where
  "aof_append fc st now now' entry sync =
     (if \<not> aof_handle st then (Some AttributeError, st)
      else
        let line = to_line fc entry @ [CHR 0x0A];
            st1 = st\<lparr>aof_buffer := aof_buffer st @ line,
                     aof_entries_since_compact := aof_entries_since_compact st + 1\<rparr>
        in (None, if sync \<or> now - aof_last_fsync st1 > aof_fsync_interval st1
                  then aof_do_fsync st1 now' else st1))"

definition aof_fsync_tick :: "aof \<Rightarrow> time \<Rightarrow> aof" where
  "aof_fsync_tick st now = (if aof_running st \<and> aof_handle st then aof_do_fsync st now else st)"

definition aof_should_compact :: "aof \<Rightarrow> bool" where
  "aof_should_compact st = (aof_entries_since_compact st \<ge> aof_compact_threshold st)"

definition aof_close :: "aof \<Rightarrow> time \<Rightarrow> aof" where
  "aof_close st now =
     (let st1 = st\<lparr>aof_running := False\<rparr>
      in if aof_handle st1 then (aof_do_fsync st1 now)\<lparr>aof_handle := False\<rparr> else st1)"

section \<open>Replay\<close>

text \<open>Iterating over a text file yields its lines; universal newlines also end a line at a
  carriage return. Empty pieces are skipped by \<^verbatim>\<open>replay\<close>.\<close>

definition is_newline :: "char \<Rightarrow> bool" where
  "is_newline c \<longleftrightarrow> code c = 10 \<or> code c = 13"

fun text_lines :: "string \<Rightarrow> string list" where
  "text_lines [] = [[]]"
| "text_lines (c # cs) =
     (if is_newline c then [] # text_lines cs
      else (case text_lines cs of [] \<Rightarrow> [[c]] | l # ls \<Rightarrow> (c # l) # ls))"

definition replay_caught :: "py_error \<Rightarrow> bool" where
  "replay_caught e \<longleftrightarrow> e \<in> {JSONDecodeError, KeyError, ValueError}"

type_synonym 's apply_func = "aof_entry \<Rightarrow> 's \<Rightarrow> py_error option \<times> 's"

record 's replay_result =
  rr_error :: "py_error option"
  rr_count :: nat
  rr_corrupted :: nat
  rr_state :: 's

fun replay_lines :: "float_codec \<Rightarrow> 's apply_func \<Rightarrow> string list \<Rightarrow> nat \<Rightarrow> nat \<Rightarrow> 's \<Rightarrow> 's replay_result" where
  "replay_lines fc apply_func [] n bad s =
     \<lparr>rr_error = None, rr_count = n, rr_corrupted = bad, rr_state = s\<rparr>"
| "replay_lines fc apply_func (l # ls) n bad s =
     (let line = py_strip l
      in if line = [] then replay_lines fc apply_func ls n bad s
         else (case from_line fc line of
                 Inl e \<Rightarrow>
                   if replay_caught e then replay_lines fc apply_func ls n (bad + 1) s
                   else \<lparr>rr_error = Some e, rr_count = n, rr_corrupted = bad, rr_state = s\<rparr>
               | Inr entry \<Rightarrow>
                   (case apply_func entry s of
                      (None, s') \<Rightarrow> replay_lines fc apply_func ls (n + 1) bad s'
                    | (Some e, s') \<Rightarrow>
                        if replay_caught e then replay_lines fc apply_func ls n (bad + 1) s'
                        else \<lparr>rr_error = Some e, rr_count = n, rr_corrupted = bad, rr_state = s'\<rparr>)))"

definition aof_replay :: "float_codec \<Rightarrow> aof_dir \<Rightarrow> 's apply_func \<Rightarrow> 's \<Rightarrow> 's replay_result" where
  "aof_replay fc d apply_func s =
     (case dir_main d of
        None \<Rightarrow> \<lparr>rr_error = None, rr_count = 0, rr_corrupted = 0, rr_state = s\<rparr>
      | Some text \<Rightarrow> replay_lines fc apply_func (text_lines text) 0 0 s)"

section \<open>Compaction\<close>

datatype fs_call = WriteTmp string | RemoveBak | RenameMainBak | RenameTmpMain

fun fs_do :: "fs_call \<Rightarrow> aof_dir \<Rightarrow> aof_dir" where
  "fs_do (WriteTmp s) d = d\<lparr>dir_tmp := Some s\<rparr>"
| "fs_do RemoveBak d = d\<lparr>dir_bak := None\<rparr>"
| "fs_do RenameMainBak d = d\<lparr>dir_bak := dir_main d, dir_main := None\<rparr>"
| "fs_do RenameTmpMain d = d\<lparr>dir_main := dir_tmp d, dir_tmp := None\<rparr>"

definition compact_entry :: "time \<Rightarrow> string \<times> data_item \<Rightarrow> aof_entry" where
  "compact_entry now ki =
     (let m = item_meta now (snd ki)
      in \<lparr>ae_timestamp = JFloat (md_updated_at m), ae_command = SET_CMD, ae_key = JStr (fst ki),
          ae_value = md_value m, ae_ttl = JNull, ae_expires_at = of_opt JFloat (md_expires_at m),
          ae_version = JInt (md_version m), ae_created_at = JFloat (md_created_at m),
          ae_coordinator_id = JStr (md_coordinator_id m)\<rparr>)"

definition compact_entries :: "time \<Rightarrow> (string, data_item) dict \<Rightarrow> aof_entry list" where
  "compact_entries now current_state =
     map (compact_entry now) (filter (\<lambda>ki. \<not> md_is_expired now (item_meta now (snd ki))) current_state)"

definition lines_text :: "float_codec \<Rightarrow> aof_entry list \<Rightarrow> string" where
  "lines_text fc es = concat (map (\<lambda>e. to_line fc e @ [CHR 0x0A]) es)"

definition compact_calls :: "float_codec \<Rightarrow> time \<Rightarrow> aof_dir \<Rightarrow> (string, data_item) dict \<Rightarrow> fs_call list" where
  "compact_calls fc now d current_state =
     [WriteTmp (lines_text fc (compact_entries now current_state))]
     @ (if dir_bak d \<noteq> None then [RemoveBak] else [])
     @ (if dir_main d \<noteq> None then [RenameMainBak] else [])
     @ [RenameTmpMain]"

text \<open>The first half of \<^verbatim>\<open>compact\<close>: sync and close the old handle.\<close>

definition compact_begin :: "aof \<Rightarrow> time \<Rightarrow> aof" where
  "compact_begin st now = (if aof_handle st then (aof_do_fsync st now)\<lparr>aof_handle := False\<rparr> else st)"

definition aof_compact :: "float_codec \<Rightarrow> aof \<Rightarrow> time \<Rightarrow> (string, data_item) dict \<Rightarrow> aof" where
  "aof_compact fc st now current_state =
     (let st1 = compact_begin st now;
          st2 = st1\<lparr>aof_dir := fold fs_do (compact_calls fc now (aof_dir st1) current_state) (aof_dir st1)\<rparr>
      in (aof_open_file st2)\<lparr>aof_entries_since_compact := 0\<rparr>)"

section \<open>Crashes\<close>

text \<open>What is on disk after a crash that kept \<open>n\<close> characters of the unsynced text.\<close>

definition aof_crash :: "aof \<Rightarrow> nat \<Rightarrow> aof_dir" where
  "aof_crash st n = (aof_dir st)\<lparr>dir_main := map_option (\<lambda>s. s @ take n (aof_buffer st)) (dir_main (aof_dir st))\<rparr>"

section \<open>Entries read back\<close>

definition entry_ok :: "float_codec \<Rightarrow> aof_entry \<Rightarrow> bool" where
  "entry_ok fc e \<longleftrightarrow>
     list_all (json_wf fc)
       [ae_timestamp e, ae_key e, ae_value e, ae_ttl e, ae_expires_at e, ae_version e, ae_created_at e,
        ae_coordinator_id e] \<and>
     (ae_coordinator_id e = JStr [] \<or> truthy (ae_coordinator_id e))"

lemma entry_data_wf: "entry_ok fc e \<Longrightarrow> json_wf fc (JDict (entry_data e))"
  by (auto simp: entry_ok_def entry_data_def opt_field_def)

lemma aof_command_of_value [simp]: "aof_command_of (JStr (aof_command_value c)) = Inr c"
  by (cases c) (simp_all add: aof_command_of_def)

lemma entry_of_entry_data: "entry_ok fc e \<Longrightarrow> entry_of_data (entry_data e) = Inr e"
  by (cases e) (auto simp: entry_ok_def entry_of_data_def entry_data_def opt_field_def dict_get_def)

lemma to_line_shape: "\<exists>s. to_line fc e = CHR ''{'' # s @ ''}''"
  by (simp add: to_line_def)

lemma py_strip_braces: "py_strip (CHR ''{'' # s @ ''}'') = CHR ''{'' # s @ ''}''"
  by (simp add: py_strip_def is_space_def)

lemma py_strip_to_line [simp]: "py_strip (to_line fc e) = to_line fc e"
  using to_line_shape [of fc e] py_strip_braces by auto

lemma to_line_nonempty [simp]: "to_line fc e \<noteq> []"
  using to_line_shape [of fc e] by auto

lemma from_line_to_line:
  assumes "float_codec_ok fc" and "entry_ok fc e"
  shows "from_line fc (to_line fc e) = Inr e"
proof -
  have "loads fc (to_line fc e) = Inr (JDict (entry_data e))"
    unfolding to_line_def by (rule loads_dumps [OF assms(1) entry_data_wf [OF assms(2)]])
  then show ?thesis by (simp add: from_line_def entry_of_entry_data [OF assms(2)])
qed

lemma to_line_one_line:
  assumes "float_codec_ok fc" and "entry_ok fc e"
  shows "list_all (\<lambda>c. \<not> is_newline c) (to_line fc e)"
  using dumps_printable [OF assms(1) entry_data_wf [OF assms(2)]]
  by (auto simp: to_line_def list_all_iff printable_def is_newline_def simp del: dumps.simps)

text \<open>A cut-off line is rejected, and only as a JSON error, which \<^verbatim>\<open>replay\<close> catches. Stripping it
  may remove blanks at its end, which leaves a shorter cut-off line.\<close>

lemma py_strip_prefix:
  assumes "p = [] \<or> \<not> is_space (hd p)"
  shows "prefix (py_strip p) p"
proof -
  have "dropWhile is_space p = p" using assms by (cases p) auto
  then have "py_strip p = rev (dropWhile is_space (rev p))" by (simp add: py_strip_def)
  moreover have "suffix (dropWhile is_space (rev p)) (rev p)" by (rule suffix_dropWhile)
  ultimately show ?thesis by (simp add: suffix_to_prefix)
qed

lemma torn_line_rejected:
  assumes ok: "float_codec_ok fc" "entry_ok fc e" and p: "strict_prefix p (to_line fc e)"
  shows "py_strip p = [] \<or> from_line fc (py_strip p) = Inl JSONDecodeError"
proof -
  have "p = [] \<or> \<not> is_space (hd p)"
    using p to_line_shape [of fc e] by (cases p) (auto simp: strict_prefix_def is_space_def)
  from prefix_order.le_less_trans [OF py_strip_prefix [OF this] p]
  have sp: "strict_prefix (py_strip p) (to_line fc e)" .
  have hp: "py_strip p = [] \<or> \<not> is_space (hd (py_strip p))"
    using sp to_line_shape [of fc e] by (cases "py_strip p") (auto simp: strict_prefix_def is_space_def)
  from prefix_order.le_less_trans [OF py_strip_prefix [OF hp] sp]
  obtain q where "dumps fc (JDict (entry_data e)) = py_strip (py_strip p) @ q" and "q \<noteq> []"
    unfolding to_line_def by (auto simp: strict_prefix_def prefix_def simp del: dumps.simps)
  from loads_torn [OF ok(1) entry_data_wf [OF ok(2)] this] show ?thesis by (simp add: from_line_def)
qed

section \<open>Replaying a log\<close>

text \<open>What replaying a list of entries should do: apply them in order, skipping those whose
  application fails with a caught error.\<close>

fun replay_entries :: "'s apply_func \<Rightarrow> aof_entry list \<Rightarrow> nat \<Rightarrow> nat \<Rightarrow> 's \<Rightarrow> 's replay_result" where
  "replay_entries f [] n bad s = \<lparr>rr_error = None, rr_count = n, rr_corrupted = bad, rr_state = s\<rparr>"
| "replay_entries f (e # es) n bad s =
     (case f e s of
        (None, s') \<Rightarrow> replay_entries f es (n + 1) bad s'
      | (Some err, s') \<Rightarrow>
          if replay_caught err then replay_entries f es n (bad + 1) s'
          else \<lparr>rr_error = Some err, rr_count = n, rr_corrupted = bad, rr_state = s'\<rparr>)"

definition same_outcome :: "'s replay_result \<Rightarrow> 's replay_result \<Rightarrow> bool" where
  "same_outcome a b \<longleftrightarrow> rr_error a = rr_error b \<and> rr_count a = rr_count b \<and> rr_state a = rr_state b"

lemma text_lines_line:
  "list_all (\<lambda>c. \<not> is_newline c) l \<Longrightarrow> text_lines (l @ CHR 0x0A # t) = l # text_lines t"
  by (induction l) (auto simp: is_newline_def)

lemma text_lines_last: "list_all (\<lambda>c. \<not> is_newline c) l \<Longrightarrow> text_lines l = [l]"
  by (induction l) auto

lemma text_lines_log:
  assumes "float_codec_ok fc" and "list_all (entry_ok fc) es" and "list_all (\<lambda>c. \<not> is_newline c) p"
  shows "text_lines (lines_text fc es @ p) = map (to_line fc) es @ [p]"
  using assms(2)
  by (induction es)
    (simp_all add: lines_text_def text_lines_last assms(3) text_lines_line to_line_one_line [OF assms(1)])

lemma replay_lines_log:
  assumes "float_codec_ok fc" and "list_all (entry_ok fc) es"
    and "py_strip p = [] \<or> from_line fc (py_strip p) = Inl JSONDecodeError"
  shows "same_outcome (replay_lines fc f (map (to_line fc) es @ [p]) n bad s) (replay_entries f es n bad s)"
  using assms(2)
proof (induction es arbitrary: n bad s)
  case Nil
  with assms(3) show ?case by (auto simp: same_outcome_def replay_caught_def Let_def)
next
  case (Cons e es)
  then show ?case
    by (auto simp: same_outcome_def from_line_to_line [OF assms(1)] split: prod.splits option.splits)
qed

section \<open>Durability\<close>

text \<open>A run of the file between two openings: appends, each with its clock readings and its
  \<^verbatim>\<open>sync\<close> flag, and ticks of the background fsync.\<close>

datatype aof_op = Append time time aof_entry bool | FsyncTick time

fun aof_step :: "float_codec \<Rightarrow> aof_op \<Rightarrow> aof \<Rightarrow> aof" where
  "aof_step fc (Append now now' e sync) st = snd (aof_append fc st now now' e sync)"
| "aof_step fc (FsyncTick now) st = aof_fsync_tick st now"

fun op_entries :: "aof_op list \<Rightarrow> aof_entry list" where
  "op_entries [] = []"
| "op_entries (Append _ _ e _ # ops) = e # op_entries ops"
| "op_entries (FsyncTick _ # ops) = op_entries ops"

text \<open>The entries appended up to the last append with \<^verbatim>\<open>sync=True\<close>.\<close>

fun is_synced_append :: "aof_op \<Rightarrow> bool" where
  "is_synced_append (Append _ _ _ sync) = sync"
| "is_synced_append (FsyncTick _) = False"

definition synced_entries :: "aof_op list \<Rightarrow> aof_entry list" where
  "synced_entries ops = op_entries (rev (dropWhile (\<lambda>op. \<not> is_synced_append op) (rev ops)))"

lemma op_entries_append [simp]: "op_entries (xs @ ys) = op_entries xs @ op_entries ys"
  by (induction xs rule: op_entries.induct) simp_all

lemma synced_snoc:
  "synced_entries (ops @ [op]) = (if is_synced_append op then op_entries (ops @ [op]) else synced_entries ops)"
  by (simp add: synced_entries_def)

lemma lines_text_append: "lines_text fc (xs @ ys) = lines_text fc xs @ lines_text fc ys"
  by (simp add: lines_text_def)

text \<open>The file holds whole lines of the log, the buffer the rest, and everything up to the last
  synced append is in the file.\<close>

definition log_inv :: "float_codec \<Rightarrow> aof_entry list \<Rightarrow> aof_op list \<Rightarrow> aof \<Rightarrow> bool" where
  "log_inv fc es0 ops st \<longleftrightarrow>
     aof_handle st \<and>
     (\<exists>a b. dir_main (aof_dir st) = Some (lines_text fc (es0 @ a)) \<and> aof_buffer st = lines_text fc b \<and>
        a @ b = op_entries ops \<and> prefix (synced_entries ops) a)"

lemma log_invI:
  "aof_handle st \<Longrightarrow> dir_main (aof_dir st) = Some (lines_text fc (es0 @ a)) \<Longrightarrow> aof_buffer st = lines_text fc b \<Longrightarrow>
   a @ b = op_entries ops \<Longrightarrow> prefix (synced_entries ops) a \<Longrightarrow> log_inv fc es0 ops st"
  unfolding log_inv_def by blast

lemma log_inv_init: "dir_main d = Some (lines_text fc es0) \<Longrightarrow> log_inv fc es0 [] (aof_init d iv now)"
  by (auto simp: log_inv_def aof_init_def aof_open_file_def lines_text_def synced_entries_def)

lemma log_inv_fsync:
  assumes "log_inv fc es0 ops st"
  shows "log_inv fc es0 (ops @ [FsyncTick now]) (aof_do_fsync st now)"
proof -
  from assms obtain a b where "dir_main (aof_dir st) = Some (lines_text fc (es0 @ a))" "aof_handle st"
    "aof_buffer st = lines_text fc b" and ab: "a @ b = op_entries ops" "prefix (synced_entries ops) a"
    unfolding log_inv_def by blast
  from this(1-3) have "dir_main (aof_dir (aof_do_fsync st now)) = Some (lines_text fc (es0 @ a @ b))"
    "aof_buffer (aof_do_fsync st now) = lines_text fc []" "aof_handle (aof_do_fsync st now)"
    by (simp_all add: aof_do_fsync_def lines_text_append) (simp add: lines_text_def)
  moreover have "prefix (synced_entries (ops @ [FsyncTick now])) (a @ b)"
    using prefix_prefix [OF ab(2), of b] by (simp add: synced_snoc)
  ultimately show ?thesis using ab(1) by (intro log_invI [of _ _ _ "a @ b" "[]"]) simp_all
qed

lemma log_inv_write:
  assumes "log_inv fc es0 ops st"
  shows "log_inv fc es0 (ops @ [Append now now' e False])
    (st\<lparr>aof_buffer := aof_buffer st @ to_line fc e @ [CHR 0x0A], aof_entries_since_compact := n\<rparr>)"
proof -
  from assms obtain a b where "dir_main (aof_dir st) = Some (lines_text fc (es0 @ a))" "aof_handle st"
    "aof_buffer st = lines_text fc b" and ab: "a @ b = op_entries ops" "prefix (synced_entries ops) a"
    unfolding log_inv_def by blast
  then have "a @ (b @ [e]) = op_entries (ops @ [Append now now' e False])"
    "aof_buffer st @ to_line fc e @ [CHR 0x0A] = lines_text fc (b @ [e])"
    by (simp_all flip: append_assoc) (simp add: lines_text_def)
  with \<open>dir_main (aof_dir st) = _\<close> \<open>aof_handle st\<close> ab(2) show ?thesis
    by (intro log_invI [of _ _ _ a "b @ [e]"]) (simp_all add: synced_snoc)
qed

text \<open>An fsync right after the write makes the append a synced one.\<close>

lemma log_inv_synced:
  assumes "log_inv fc es0 (ops @ [Append now now' e False]) st"
  shows "log_inv fc es0 (ops @ [Append now now' e sync]) (aof_do_fsync st t)"
proof -
  from log_inv_fsync [OF assms] have i: "log_inv fc es0 ((ops @ [Append now now' e False]) @ [FsyncTick t]) (aof_do_fsync st t)" .
  moreover have "aof_buffer (aof_do_fsync st t) = []"
    using assms by (simp add: log_inv_def aof_do_fsync_def)
  ultimately obtain a where "dir_main (aof_dir (aof_do_fsync st t)) = Some (lines_text fc (es0 @ a))"
    "aof_handle (aof_do_fsync st t)" and a: "a = op_entries ops @ [e]"
    unfolding log_inv_def by (auto simp: lines_text_def)
  moreover have "prefix (synced_entries (ops @ [Append now now' e sync])) a"
  proof -
    have "prefix (synced_entries ops) (op_entries ops)"
      unfolding synced_entries_def
      by (metis op_entries_append prefixI rev_append rev_rev_ident takeWhile_dropWhile_id)
    then show ?thesis by (simp add: a synced_snoc prefix_prefix)
  qed
  ultimately show ?thesis
    using \<open>aof_buffer _ = []\<close>
    by (intro log_invI [of _ _ _ a "[]"]) (simp_all add: lines_text_def)
qed

lemma log_inv_step:
  assumes "log_inv fc es0 ops st"
  shows "log_inv fc es0 (ops @ [op]) (aof_step fc op st)"
proof (cases op)
  case (Append now now' e sync)
  have h: "aof_handle st" using assms by (simp add: log_inv_def)
  note w = log_inv_write [OF assms, of now now' e "aof_entries_since_compact st + 1"]
  from w log_inv_synced [OF w] h show ?thesis
    by (auto simp: Append aof_append_def Let_def)
next
  case (FsyncTick now)
  have "log_inv fc es0 (ops @ [FsyncTick now]) st"
    using assms by (simp add: log_inv_def synced_snoc)
  with log_inv_fsync [OF assms, of now] show ?thesis
    by (simp add: FsyncTick aof_fsync_tick_def)
qed

lemma log_inv_run:
  "log_inv fc es0 ops0 st \<Longrightarrow> log_inv fc es0 (ops0 @ ops) (fold (aof_step fc) ops st)"
proof (induction ops arbitrary: ops0 st)
  case (Cons op ops)
  from Cons.IH [OF log_inv_step [OF Cons.prems, of op]] show ?case by simp
qed simp

text \<open>A prefix of a log's text is the text of a prefix of the log and a piece of the next line.\<close>

lemma take_lines_text:
  "\<exists>b1 p. take n (lines_text fc b) = lines_text fc b1 @ p \<and> prefix b1 b \<and>
     (p = [] \<or> (\<exists>e. prefix (b1 @ [e]) b \<and> prefix p (to_line fc e)))"
proof (induction b arbitrary: n)
  case Nil
  then show ?case by (auto simp: lines_text_def)
next
  case (Cons e b)
  let ?l = "to_line fc e @ [CHR 0x0A]"
  show ?case
  proof (cases "n < length ?l")
    case True
    then have "take n (lines_text fc (e # b)) = take n (to_line fc e)" by (simp add: lines_text_def)
    then show ?thesis
      by (intro exI [of _ "[]"] exI [of _ "take n (to_line fc e)"]) (auto simp: lines_text_def take_is_prefix)
  next
    case False
    from Cons.IH [of "n - length ?l"] obtain b1 p where
      "take (n - length ?l) (lines_text fc b) = lines_text fc b1 @ p" "prefix b1 b"
      "p = [] \<or> (\<exists>e. prefix (b1 @ [e]) b \<and> prefix p (to_line fc e))" by blast
    moreover have "lines_text fc (e # b) = ?l @ lines_text fc b" "lines_text fc (e # b1) = ?l @ lines_text fc b1"
      by (simp_all add: lines_text_def)
    moreover have "take n ?l = ?l" using False by simp
    ultimately have "take n (lines_text fc (e # b)) = lines_text fc (e # b1) @ p \<and> prefix (e # b1) (e # b) \<and>
      (p = [] \<or> (\<exists>e'. prefix ((e # b1) @ [e']) (e # b) \<and> prefix p (to_line fc e')))"
      by (simp only: take_append) simp
    then show ?thesis by blast
  qed
qed

lemma replay_text:
  assumes "float_codec_ok fc" and "list_all (entry_ok fc) es" and "dir_main d = Some (lines_text fc es @ p)"
    and "p = [] \<or> (\<exists>e. entry_ok fc e \<and> strict_prefix p (to_line fc e))"
  shows "same_outcome (aof_replay fc d f s) (replay_entries f es 0 0 s)"
proof -
  have p: "list_all (\<lambda>c. \<not> is_newline c) p \<and> (py_strip p = [] \<or> from_line fc (py_strip p) = Inl JSONDecodeError)"
  proof (cases "p = []")
    case True
    then show ?thesis by (simp add: py_strip_def)
  next
    case False
    with assms(4) obtain e where e: "entry_ok fc e" "strict_prefix p (to_line fc e)" by blast
    with to_line_one_line [OF assms(1) e(1)] torn_line_rejected [OF assms(1) e]
    show ?thesis by (auto simp: strict_prefix_def prefix_def)
  qed
  with text_lines_log [OF assms(1,2), of p] replay_lines_log [OF assms(1,2), of p f 0 0 s] assms(3)
  show ?thesis by (simp only: aof_replay_def option.case)
qed

lemma replay_whole_lines:
  assumes "float_codec_ok fc" and "list_all (entry_ok fc) es"
  shows "replay_lines fc f (map (to_line fc) es) n bad s = replay_entries f es n bad s"
  using assms(2)
  by (induction es arbitrary: n bad s)
    (auto simp: from_line_to_line [OF assms(1)] split: prod.splits option.splits)

lemma replay_crashed:
  assumes ok: "float_codec_ok fc" "list_all (entry_ok fc) (es0 @ op_entries ops)" and inv: "log_inv fc es0 ops st"
  shows "\<exists>kept. prefix (synced_entries ops) kept \<and> prefix kept (op_entries ops) \<and>
    same_outcome (aof_replay fc (aof_crash st n) f s) (replay_entries f (es0 @ kept) 0 0 s)"
proof -
  from inv obtain a b where m: "dir_main (aof_dir st) = Some (lines_text fc (es0 @ a))" "aof_buffer st = lines_text fc b"
    and ab: "a @ b = op_entries ops" "prefix (synced_entries ops) a" unfolding log_inv_def by blast
  obtain b1 p where t: "take n (lines_text fc b) = lines_text fc b1 @ p" "prefix b1 b"
    and p: "p = [] \<or> (\<exists>e. prefix (b1 @ [e]) b \<and> prefix p (to_line fc e))" using take_lines_text by blast
  have d: "dir_main (aof_crash st n) = Some (lines_text fc (es0 @ a @ b1) @ p)"
    by (simp add: aof_crash_def m t(1) lines_text_append)
  have pre: "list_all (entry_ok fc) (es0 @ a @ k) \<and> prefix (synced_entries ops) (a @ k) \<and> prefix (a @ k) (op_entries ops)"
    if "prefix k b" for k
  proof -
    from that obtain b2 where b: "b = k @ b2" by (auto simp: prefix_def)
    with ab(1) have e: "op_entries ops = (a @ k) @ b2" by simp
    then show ?thesis using ok(2) ab(2) by (simp add: prefix_prefix)
  qed
  from p consider (whole) e where "prefix (b1 @ [e]) b" "p = to_line fc e"
    | (torn) "p = [] \<or> (\<exists>e. entry_ok fc e \<and> strict_prefix p (to_line fc e))"
  proof (elim disjE exE conjE)
    fix e
    assume e: "prefix (b1 @ [e]) b" "prefix p (to_line fc e)"
    show ?thesis
    proof (cases "p = to_line fc e")
      case False
      with e(2) pre [OF e(1)] have "entry_ok fc e \<and> strict_prefix p (to_line fc e)" by (simp add: strict_prefix_def)
      with that(2) show ?thesis by blast
    qed (use e(1) that(1) in blast)
  qed (use that(2) in blast)
  then show ?thesis
  proof cases
    case torn
    note k = pre [OF t(2)]
    have "same_outcome (aof_replay fc (aof_crash st n) f s) (replay_entries f (es0 @ a @ b1) 0 0 s)"
      by (rule replay_text [OF ok(1) conjunct1 [OF k] d torn])
    with k show ?thesis by (intro exI [of _ "a @ b1"]) simp
  next
    case whole
    note k = pre [OF whole(1)]
    have "text_lines (lines_text fc (es0 @ a @ b1) @ p) = map (to_line fc) (es0 @ a @ b1 @ [e])"
      using k text_lines_log [OF ok(1), of "es0 @ a @ b1" p] to_line_one_line [OF ok(1), of e] by (simp add: whole(2))
    then have "aof_replay fc (aof_crash st n) f s = replay_entries f (es0 @ a @ b1 @ [e]) 0 0 s"
      by (simp only: aof_replay_def d option.case replay_whole_lines [OF ok(1) conjunct1 [OF k]])
    with k show ?thesis by (intro exI [of _ "a @ b1 @ [e]"]) (simp add: same_outcome_def)
  qed
qed

definition sample_entry :: "string \<Rightarrow> time \<Rightarrow> aof_entry" where
  "sample_entry k t = append_entry t SET_CMD k (JStr ''v'') None 1 None None None ''node1''"

lemma sample_entry_ok: "of_int \<lfloor>t\<rfloor> = t \<Longrightarrow> entry_ok whole_codec (sample_entry k t)"
  by (simp add: entry_ok_def sample_entry_def append_entry_def of_opt_def whole_codec_def)

section \<open>Properties\<close>

text \<open>C10: Crash recovery of the log. Starting from a log of whole entries, after any run of appends and
  background fsyncs and a crash that keeps any part of the unsynced text, \<^verbatim>\<open>replay\<close> applies exactly the
  old entries and then a prefix of the appended ones, in order, and that prefix contains every entry
  up to the last append made with \<^verbatim>\<open>sync=True\<close>. The line cut by the crash is never applied in part.\<close>

theorem aof_crash_recovery:
  assumes "float_codec_ok fc" and "dir_main d = Some (lines_text fc es0)"
    and "list_all (entry_ok fc) (es0 @ op_entries ops)"
  shows "\<exists>kept. prefix (synced_entries ops) kept \<and> prefix kept (op_entries ops) \<and>
    same_outcome
      (aof_replay fc (aof_crash (fold (aof_step fc) ops (aof_init d iv now)) n) apply_func s)
      (replay_entries apply_func (es0 @ kept) 0 0 s)"
  using log_inv_run [OF log_inv_init [OF assms(2)], of ops iv now]
  by (intro replay_crashed [OF assms(1,3)]) simp

theorem aof_crash_recovery_witness:
  "\<exists>kept. prefix [sample_entry ''a'' 1] kept \<and> prefix kept [sample_entry ''a'' 1, sample_entry ''b'' 2] \<and>
    same_outcome
      (aof_replay whole_codec
        (aof_crash
          (fold (aof_step whole_codec) [Append 1 1 (sample_entry ''a'' 1) True, Append 2 2 (sample_entry ''b'' 2) False]
            (aof_init \<lparr>dir_main = Some [], dir_bak = None, dir_tmp = None\<rparr> 10 0)) 7)
        (\<lambda>e s. (None, s @ [ae_key e])) [])
      (replay_entries (\<lambda>e s. (None, s @ [ae_key e])) ([] @ kept) 0 0 [])"
  using aof_crash_recovery [OF whole_codec_ok, of "\<lparr>dir_main = Some [], dir_bak = None, dir_tmp = None\<rparr>" "[]"
      "[Append 1 1 (sample_entry ''a'' 1) True, Append 2 2 (sample_entry ''b'' 2) False]"]
  by (simp add: lines_text_def sample_entry_ok synced_entries_def del: fold.simps)

text \<open>The file is reopened for appending without looking at its last line, so the first entry
  appended after a crash that tore a line lands on that line: although it is synced, the next replay
  applies nothing.\<close>

theorem aof_torn_tail_swallows_append:
  "\<exists>d e. strict_prefix (the (dir_main d)) (to_line whole_codec (sample_entry ''a'' 1)) \<and>
     entry_ok whole_codec e \<and>
     rr_count (aof_replay whole_codec
       (aof_dir (snd (aof_append whole_codec (aof_init d 1 0) 2 2 e True)))
       (\<lambda>e s. (None, s @ [ae_key e])) []) = 0"
proof -
  let ?p = "take 20 (to_line whole_codec (sample_entry ''a'' 1))"
  let ?d = "\<lparr>dir_main = Some ?p, dir_bak = None, dir_tmp = None\<rparr>"
  have "strict_prefix ?p (to_line whole_codec (sample_entry ''a'' 1))" by code_simp
  moreover have "rr_count (aof_replay whole_codec
       (aof_dir (snd (aof_append whole_codec (aof_init ?d 1 0) 2 2 (sample_entry ''b'' 2) True)))
       (\<lambda>e s. (None, s @ [ae_key e])) []) = 0" by code_simp
  moreover have "entry_ok whole_codec (sample_entry ''b'' 2)" by (simp add: sample_entry_ok)
  ultimately show ?thesis by (intro exI [of _ ?d] exI [of _ "sample_entry ''b'' 2"]) simp
qed

text \<open>A crash between any two file-system calls of \<^verbatim>\<open>compact\<close> leaves as the log either the old
  text, or the compacted text, or no log at all while the old text is in the backup and the
  compacted text in the temporary file: nothing is lost from the directory, but in that window the
  two renames are not atomic.\<close>

theorem compact_crash_points:
  assumes "dir_main d = Some old"
  shows "let new = lines_text fc (compact_entries now current_state);
             d' = fold fs_do (take k (compact_calls fc now d current_state)) d
         in dir_main d' = Some old \<or> dir_main d' = Some new \<or>
            (dir_main d' = None \<and> dir_bak d' = Some old \<and> dir_tmp d' = Some new)"
proof -
  consider "k = 0" | "k = 1" | "k = 2" | "k = 3" | "4 \<le> k" by linarith
  then show ?thesis
    using assms
    by cases (auto simp: compact_calls_def Let_def numeral_2_eq_2 numeral_3_eq_3)
qed

theorem compact_crash_points_witness:
  "let new = lines_text whole_codec (compact_entries 5 [(''a'', Full (JStr ''v'') None 1 1 1 ''n'')]);
       d = \<lparr>dir_main = Some ''old'', dir_bak = None, dir_tmp = None\<rparr>;
       d' = fold fs_do (take 2 (compact_calls whole_codec 5 d [(''a'', Full (JStr ''v'') None 1 1 1 ''n'')])) d
   in dir_main d' = None \<and> (dir_main d' = Some ''old'' \<or> dir_main d' = Some new \<or>
      (dir_main d' = None \<and> dir_bak d' = Some ''old'' \<and> dir_tmp d' = Some new))"
  using compact_crash_points [of "\<lparr>dir_main = Some ''old'', dir_bak = None, dir_tmp = None\<rparr>" "''old''"
      whole_codec 5 "[(''a'', Full (JStr ''v'') None 1 1 1 ''n'')]" 2]
  by (simp add: Let_def compact_calls_def numeral_2_eq_2)

end
