(* ===== verification/Snapshot.thy ===== *)
theory Snapshot
  imports AOF
begin

text \<open>
  Snapshots (\<^verbatim>\<open>src/minidb/storage/snapshot.py\<close>): \<^verbatim>\<open>save\<close>, \<^verbatim>\<open>load\<close>, the metadata file and the timing
  test.

  \<^item> A compressed file either is the gzip of a text or is not readable as one (a write that was
    cut off); \<^verbatim>\<open>gzip\<close> itself is the identity on texts, and \<open>gz_size\<close> gives the compressed size.
  \<^item> \<^verbatim>\<open>save\<close> is the sequence of file-system calls it makes. Any of them may raise; \<open>fail\<close> is the
    position of the one that does (a position past the end: none does), and the handler that
    removes the temporary file then runs.
  \<^item> \<^verbatim>\<open>load\<close> calls itself after it has restored the backup; the recursion limit of the interpreter
    is the fuel, and running out of it is caught like any other exception and gives \<^verbatim>\<open>None\<close>.
\<close>

section \<open>State\<close>

datatype gz_file = Gz string | Unreadable

record snapshot_dir =
  sn_main :: "gz_file option"
  sn_bak :: "gz_file option"
  sn_tmp :: "gz_file option"
  sn_meta :: "string option"

record snapshot =
  sn_dir :: snapshot_dir
  sn_interval :: time
  sn_last_snapshot :: time

record snapshot_metadata =
  sm_timestamp :: json
  sm_key_count :: json
  sm_compressed_size :: json
  sm_checksum :: string

definition snapshot_init :: "snapshot_dir \<Rightarrow> time \<Rightarrow> snapshot" where
  "snapshot_init d interval = \<lparr>sn_dir = d, sn_interval = interval, sn_last_snapshot = 0\<rparr>"

section \<open>Saving\<close>

definition snapshot_item :: "time \<Rightarrow> data_item \<Rightarrow> json" where
  "snapshot_item ts item =
     (let m = item_meta ts item
      in JDict
           [(''v'', md_value m),
            (''e'', of_opt JFloat (md_expires_at m)),
            (''ver'', JInt (md_version m)),
            (''created_at'', JFloat (md_created_at m)),
            (''updated_at'', JFloat (md_updated_at m)),
            (''coordinator_id'', JStr (md_coordinator_id m))])"

definition snapshot_json :: "time \<Rightarrow> (string, data_item) dict \<Rightarrow> json" where
  "snapshot_json ts data =
     JDict
       [(''version'', JInt 1),
        (''timestamp'', JFloat ts),
        (''data'', JDict (map (\<lambda>(key, item). (key, snapshot_item ts item)) data))]"

definition metadata_json :: "time \<Rightarrow> nat \<Rightarrow> nat \<Rightarrow> json" where
  "metadata_json ts n sz =
     JDict [(''timestamp'', JFloat ts), (''key_count'', JInt (int n)), (''compressed_size'', JInt (int sz))]"

datatype snap_call = SWriteTmp string | SRemoveBak | SRenameMainBak | SRenameTmpMain | SWriteMeta string

fun snap_do :: "snap_call \<Rightarrow> snapshot_dir \<Rightarrow> snapshot_dir" where
  "snap_do (SWriteTmp s) d = d\<lparr>sn_tmp := Some (Gz s)\<rparr>"
| "snap_do SRemoveBak d = d\<lparr>sn_bak := None\<rparr>"
| "snap_do SRenameMainBak d = d\<lparr>sn_bak := sn_main d, sn_main := None\<rparr>"
| "snap_do SRenameTmpMain d = d\<lparr>sn_main := sn_tmp d, sn_tmp := None\<rparr>"
| "snap_do (SWriteMeta s) d = d\<lparr>sn_meta := Some s\<rparr>"

definition save_calls ::
  "float_codec \<Rightarrow> (string \<Rightarrow> nat) \<Rightarrow> time \<Rightarrow> snapshot_dir \<Rightarrow> (string, data_item) dict \<Rightarrow> snap_call list" where
  "save_calls fc gz_size ts d data =
     (let text = dumps fc (snapshot_json ts data)
      in [SWriteTmp text]
         @ (if sn_main d \<noteq> None
            then (if sn_bak d \<noteq> None then [SRemoveBak] else []) @ [SRenameMainBak]
            else [])
         @ [SRenameTmpMain, SWriteMeta (dumps fc (metadata_json ts (length data) (gz_size text)))])"

definition snapshot_save ::
  "float_codec \<Rightarrow> (string \<Rightarrow> nat) \<Rightarrow> snapshot \<Rightarrow> time \<Rightarrow> time \<Rightarrow> nat \<Rightarrow> (string, data_item) dict \<Rightarrow>
   bool \<times> snapshot" where
  "snapshot_save fc gz_size st ts now fail data =
     (let calls = save_calls fc gz_size ts (sn_dir st) data;
          d = fold snap_do (take fail calls) (sn_dir st)
      in if length calls \<le> fail
         then (True, st\<lparr>sn_dir := d, sn_last_snapshot := now\<rparr>)
         else (False, st\<lparr>sn_dir := d\<lparr>sn_tmp := None\<rparr>\<rparr>))"

text \<open>Nothing is flushed to the disk explicitly, so a power failure may leave the renamed file without all of its data.\<close>

definition snapshot_crash :: "bool \<Rightarrow> snapshot \<Rightarrow> snapshot" where
  "snapshot_crash torn st =
     (if torn then st\<lparr>sn_dir := (sn_dir st)\<lparr>sn_main := map_option (\<lambda>_. Unreadable) (sn_main (sn_dir st))\<rparr>\<rparr> else st)"

section \<open>Loading\<close>

record snap_item =
  si_value :: json
  si_expires_at :: json
  si_version :: json
  si_created_at :: json
  si_updated_at :: json
  si_coordinator_id :: json

text \<open>\<^verbatim>\<open>expires_at and expires_at < now\<close>: comparing anything but a number with a float raises.\<close>

definition json_expired :: "json \<Rightarrow> time \<Rightarrow> bool res" where
  "json_expired e now =
     (if truthy e
      then (case json_number e of None \<Rightarrow> Inl TypeError | Some t \<Rightarrow> Inr (t < now))
      else Inr False)"

definition load_snap_item :: "time \<Rightarrow> json \<Rightarrow> json \<Rightarrow> snap_item option res" where
  "load_snap_item now dflt item =
     (case item of
        JDict d \<Rightarrow>
          (case json_expired (dict_get d ''e'' JNull) now of
             Inl err \<Rightarrow> Inl err
           | Inr True \<Rightarrow> Inr None
           | Inr False \<Rightarrow>
               (case dget d ''v'' of
                  None \<Rightarrow> Inl KeyError
                | Some v \<Rightarrow>
                    Inr (Some \<lparr>si_value = v,
                               si_expires_at = dict_get d ''e'' JNull,
                               si_version = dict_get d ''ver'' (JInt 1),
                               si_created_at = dict_get d ''created_at'' dflt,
                               si_updated_at = dict_get d ''updated_at'' dflt,
                               si_coordinator_id = dict_get d ''coordinator_id'' (JStr [])\<rparr>)))
      | _ \<Rightarrow> Inl AttributeError)"

fun load_snap_items ::
  "time \<Rightarrow> json \<Rightarrow> (string \<times> json) list \<Rightarrow> (string, snap_item) dict \<Rightarrow> (string, snap_item) dict res" where
  "load_snap_items now dflt [] result = Inr result"
| "load_snap_items now dflt ((key, item) # items) result =
     (case load_snap_item now dflt item of
        Inl err \<Rightarrow> Inl err
      | Inr None \<Rightarrow> load_snap_items now dflt items result
      | Inr (Some si) \<Rightarrow> load_snap_items now dflt items (dset key si result))"

definition load_file :: "float_codec \<Rightarrow> time \<Rightarrow> gz_file \<Rightarrow> (string, snap_item) dict res" where
  "load_file fc now f =
     (case f of
        Unreadable \<Rightarrow> Inl ValueError
      | Gz text \<Rightarrow>
          (case loads fc text of
             Inl err \<Rightarrow> Inl err
           | Inr (JDict body) \<Rightarrow>
               (case dget body ''data'' of
                  None \<Rightarrow> Inl KeyError
                | Some (JDict items) \<Rightarrow>
                    load_snap_items now (dict_get body ''timestamp'' (JFloat now)) items []
                | Some _ \<Rightarrow> Inl AttributeError)
           | Inr _ \<Rightarrow> Inl TypeError))"

fun snapshot_load ::
  "nat \<Rightarrow> float_codec \<Rightarrow> time \<Rightarrow> snapshot_dir \<Rightarrow> (string, snap_item) dict option \<times> snapshot_dir" where
  "snapshot_load 0 fc now d = (None, d)"
| "snapshot_load (Suc depth) fc now d =
     (case sn_main d of
        None \<Rightarrow> (None, d)
      | Some f \<Rightarrow>
          (case load_file fc now f of
             Inr result \<Rightarrow> (Some result, d)
           | Inl err \<Rightarrow>
               (case sn_bak d of
                  None \<Rightarrow> (None, d)
                | Some b \<Rightarrow> snapshot_load depth fc now (d\<lparr>sn_main := Some b\<rparr>))))"

section \<open>Metadata and timing\<close>

definition snapshot_get_metadata :: "float_codec \<Rightarrow> snapshot_dir \<Rightarrow> snapshot_metadata option" where
  "snapshot_get_metadata fc d =
     (case sn_meta d of
        None \<Rightarrow> None
      | Some text \<Rightarrow>
          (case loads fc text of
             Inr (JDict m) \<Rightarrow>
               (case (dget m ''timestamp'', dget m ''key_count'', dget m ''compressed_size'') of
                  (Some t, Some n, Some sz) \<Rightarrow>
                    Some \<lparr>sm_timestamp = t, sm_key_count = n, sm_compressed_size = sz, sm_checksum = []\<rparr>
                | _ \<Rightarrow> None)
           | _ \<Rightarrow> None))"

definition snapshot_should_snapshot :: "snapshot \<Rightarrow> time \<Rightarrow> bool" where
  "snapshot_should_snapshot st now = (now - sn_last_snapshot st \<ge> sn_interval st)"

definition snapshot_get_time :: "float_codec \<Rightarrow> snapshot_dir \<Rightarrow> json" where
  "snapshot_get_time fc d =
     (case snapshot_get_metadata fc d of Some m \<Rightarrow> sm_timestamp m | None \<Rightarrow> JFloat 0)"

section \<open>What is saved is what is loaded\<close>

definition item_ok :: "float_codec \<Rightarrow> time \<Rightarrow> data_item \<Rightarrow> bool" where
  "item_ok fc ts item \<longleftrightarrow> json_wf fc (snapshot_item ts item)"

definition snap_of_meta :: "key_metadata \<Rightarrow> snap_item" where
  "snap_of_meta m =
     \<lparr>si_value = md_value m, si_expires_at = of_opt JFloat (md_expires_at m), si_version = JInt (md_version m),
      si_created_at = JFloat (md_created_at m), si_updated_at = JFloat (md_updated_at m),
      si_coordinator_id = JStr (md_coordinator_id m)\<rparr>"

definition live_items :: "time \<Rightarrow> time \<Rightarrow> (string, data_item) dict \<Rightarrow> (string, snap_item) dict" where
  "live_items ts now data =
     map (\<lambda>(k, item). (k, snap_of_meta (item_meta ts item)))
       (filter (\<lambda>(k, item). \<not> md_is_expired now (item_meta ts item)) data)"

lemma json_expired_meta:
  "json_expired (of_opt JFloat (md_expires_at m)) now = Inr (md_is_expired now m)"
  by (auto simp: json_expired_def of_opt_def md_is_expired_def split: option.splits)

lemma load_snapshot_item:
  "load_snap_item now dflt (snapshot_item ts item) =
     Inr (if md_is_expired now (item_meta ts item) then None else Some (snap_of_meta (item_meta ts item)))"
  by (simp add: load_snap_item_def snapshot_item_def Let_def dict_get_def json_expired_meta snap_of_meta_def)

lemma load_snapshot_items:
  "distinct (map fst acc @ map fst data) \<Longrightarrow>
   load_snap_items now dflt (map (\<lambda>(k, item). (k, snapshot_item ts item)) data) acc =
     Inr (acc @ live_items ts now data)"
proof (induction data arbitrary: acc)
  case Nil
  then show ?case by (simp add: live_items_def)
next
  case (Cons ki data)
  obtain k item where ki: "ki = (k, item)" by fastforce
  show ?case
  proof (cases "md_is_expired now (item_meta ts item)")
    case True
    with Cons show ?thesis by (simp add: ki load_snapshot_item live_items_def)
  next
    case False
    have "dget acc k = None" using Cons.prems by (auto simp: ki map_of_eq_None_iff)
    with False Cons.prems Cons.IH [of "acc @ [(k, snap_of_meta (item_meta ts item))]"] show ?thesis
      by (simp add: ki load_snapshot_item live_items_def dict_update_append)
  qed
qed

lemma load_saved_file:
  assumes "float_codec_ok fc" and "json_wf fc (snapshot_json ts data)"
  shows "load_file fc now (Gz (dumps fc (snapshot_json ts data))) = Inr (live_items ts now data)"
proof -
  have "distinct (map fst data)" using assms(2) by (simp add: snapshot_json_def del: map_map)
  with loads_dumps [OF assms] load_snapshot_items [of "[]" data now "JFloat ts" ts] show ?thesis
    by (simp add: load_file_def snapshot_json_def dict_get_def del: dumps.simps)
qed

lemma save_success_dir:
  assumes "length (save_calls fc gz_size ts d data) \<le> fail"
  shows "sn_main (fold snap_do (take fail (save_calls fc gz_size ts d data)) d) = Some (Gz (dumps fc (snapshot_json ts data)))"
    and "sn_bak (fold snap_do (take fail (save_calls fc gz_size ts d data)) d) =
      (if sn_main d \<noteq> None then sn_main d else sn_bak d)"
  using assms by (auto simp: save_calls_def Let_def simp del: dumps.simps)

section \<open>Properties\<close>

text \<open>A snapshot that was saved without an error is what the next load returns: at any later time
  \<open>now\<close> and with any recursion limit, exactly the saved keys that have not expired by then, each with
  all six fields, and the file that was the snapshot before is the backup.\<close>

theorem snapshot_save_load:
  assumes "float_codec_ok fc" and "json_wf fc (snapshot_json ts data)"
    and "length (save_calls fc gz_size ts (sn_dir st) data) \<le> fail"
  shows "fst (snapshot_save fc gz_size st ts t fail data) \<and>
    snapshot_load (Suc depth) fc now (sn_dir (snd (snapshot_save fc gz_size st ts t fail data))) =
      (Some (live_items ts now data), sn_dir (snd (snapshot_save fc gz_size st ts t fail data))) \<and>
    (sn_main (sn_dir st) \<noteq> None \<longrightarrow>
      sn_bak (sn_dir (snd (snapshot_save fc gz_size st ts t fail data))) = sn_main (sn_dir st))"
proof -
  let ?d = "fold snap_do (take fail (save_calls fc gz_size ts (sn_dir st) data)) (sn_dir st)"
  have s: "snapshot_save fc gz_size st ts t fail data = (True, st\<lparr>sn_dir := ?d, sn_last_snapshot := t\<rparr>)"
    using assms(3) by (simp add: snapshot_save_def)
  show ?thesis
    unfolding s using save_success_dir [OF assms(3)] load_saved_file [OF assms(1,2), of now] by simp
qed

definition sample_data :: "(string, data_item) dict" where
  "sample_data =
     [(''a'', Full (JStr ''x'') (Some 10) 1 1 2 ''node1''), (''b'', Full (JList [JInt 1]) None 3 2 2 ''node2'')]"

abbreviation empty_snapshot_dir :: snapshot_dir where
  "empty_snapshot_dir \<equiv> \<lparr>sn_main = None, sn_bak = None, sn_tmp = None, sn_meta = None\<rparr>"

theorem snapshot_save_load_witness:
  "fst (snapshot_save whole_codec length (snapshot_init empty_snapshot_dir 300) 5 6 9 sample_data) \<and>
   fst (snapshot_load 1000 whole_codec 20
     (sn_dir (snd (snapshot_save whole_codec length (snapshot_init empty_snapshot_dir 300) 5 6 9 sample_data)))) =
   Some (live_items 5 20 sample_data) \<and> dkeys (live_items 5 20 sample_data) = [''b'']"
proof -
  have w: "json_wf whole_codec (snapshot_json 5 sample_data)"
    by (simp add: snapshot_json_def sample_data_def snapshot_item_def Let_def whole_codec_def of_opt_def)
  have l: "length (save_calls whole_codec length 5 (sn_dir (snapshot_init empty_snapshot_dir 300)) sample_data) \<le> 9"
    by (simp add: save_calls_def Let_def snapshot_init_def)
  have "dkeys (live_items 5 20 sample_data) = [''b'']"
    by (simp add: live_items_def sample_data_def md_is_expired_def)
  with snapshot_save_load [OF whole_codec_ok w l, of 6 999 20] show ?thesis by (simp del: snapshot_load.simps)
qed

text \<open>When the snapshot file cannot be read, \<^verbatim>\<open>load\<close> falls back to the backup: it puts the backup in
  the snapshot's place and returns what the backup holds.\<close>

theorem snapshot_load_backup:
  assumes "sn_main d = Some f" and "load_file fc now f = Inl err" and "sn_bak d = Some b"
    and "load_file fc now b = Inr result"
  shows "snapshot_load (Suc (Suc depth)) fc now d = (Some result, d\<lparr>sn_main := Some b\<rparr>)"
  using assms by simp

theorem snapshot_load_backup_witness:
  "snapshot_load 1000 whole_codec 20
     \<lparr>sn_main = Some Unreadable, sn_bak = Some (Gz (dumps whole_codec (snapshot_json 5 sample_data))),
      sn_tmp = None, sn_meta = None\<rparr> =
   (Some (live_items 5 20 sample_data),
    \<lparr>sn_main = Some (Gz (dumps whole_codec (snapshot_json 5 sample_data))),
     sn_bak = Some (Gz (dumps whole_codec (snapshot_json 5 sample_data))), sn_tmp = None, sn_meta = None\<rparr>)"
proof -
  have w: "json_wf whole_codec (snapshot_json 5 sample_data)"
    by (simp add: snapshot_json_def sample_data_def snapshot_item_def Let_def whole_codec_def of_opt_def)
  show ?thesis
    using snapshot_load_backup [of "\<lparr>sn_main = Some Unreadable,
        sn_bak = Some (Gz (dumps whole_codec (snapshot_json 5 sample_data))), sn_tmp = None, sn_meta = None\<rparr>",
        OF _ _ _ load_saved_file [OF whole_codec_ok w, of 20], of Unreadable ValueError 998]
    by (simp add: load_file_def del: snapshot_load.simps)
qed

text \<open>A save that fails after the old snapshot has been moved to the backup and before the new one
  has taken its place removes the new one too, and from then on \<^verbatim>\<open>load\<close> finds no snapshot: it looks
  at the backup only when the main file exists and is damaged.\<close>

theorem snapshot_failed_save_hides_backup:
  assumes "sn_main (sn_dir st) = Some f" and "fail = (if sn_bak (sn_dir st) \<noteq> None then 3 else 2)"
  shows "\<exists>d. snapshot_save fc gz_size st ts t fail data = (False, st\<lparr>sn_dir := d\<rparr>) \<and>
    sn_bak d = Some f \<and> sn_main d = None \<and> sn_tmp d = None \<and>
    snapshot_load depth fc now d = (None, d)"
  using assms
  by (cases depth)
    (auto simp: snapshot_save_def save_calls_def Let_def numeral_2_eq_2 numeral_3_eq_3 simp del: dumps.simps)

theorem snapshot_failed_save_hides_backup_witness:
  "\<exists>d. snapshot_save whole_codec length
        (snapshot_init \<lparr>sn_main = Some (Gz ''x''), sn_bak = None, sn_tmp = None, sn_meta = None\<rparr> 300) 5 6 2 sample_data =
       (False, (snapshot_init \<lparr>sn_main = Some (Gz ''x''), sn_bak = None, sn_tmp = None, sn_meta = None\<rparr> 300)\<lparr>sn_dir := d\<rparr>) \<and>
    sn_bak d = Some (Gz ''x'') \<and> sn_main d = None \<and> sn_tmp d = None \<and>
    snapshot_load 1000 whole_codec 7 d = (None, d)"
  by (rule snapshot_failed_save_hides_backup) (simp_all add: snapshot_init_def)

end
