(* ===== verification/LWW.thy ===== *)
theory LWW
  imports Prelude
begin

text \<open>
  Last-writer-wins registers: the contract that replica writes, key imports and repairs share, and
  what follows from it. A value carries an order key; applying an update leaves whichever of the
  current and the incoming value has the greater key (\<open>newest_register\<close>; the rule for equal keys is
  open). The winner of any sequence of updates is a value with the greatest key, so replicas that
  received the same updates, in whatever order and however often, agree. \<open>lww_register\<close> fixes the rule
  for equal keys the way the replica handlers do.
\<close>

locale newest_register =
  fixes key :: "'m \<Rightarrow> 'k::linorder"
    and val :: "'u \<Rightarrow> 'm"
    and ok :: "'u \<Rightarrow> bool"
    and inv :: "'s \<Rightarrow> bool"
    and get :: "'s \<Rightarrow> 'm option"
    and app :: "'u \<Rightarrow> 's \<Rightarrow> 's"
  assumes get_newest: "inv s \<Longrightarrow> ok u \<Longrightarrow>
      \<exists>w. get (app u s) = Some w \<and> (w = val u \<or> get s = Some w) \<and> key (val u) \<le> key w \<and>
        (\<forall>c. get s = Some c \<longrightarrow> key c \<le> key w)"
    and inv_app: "inv s \<Longrightarrow> ok u \<Longrightarrow> inv (app u s)"
begin

lemma inv_fold: "inv s \<Longrightarrow> list_all ok us \<Longrightarrow> inv (fold app us s)"
  by (induction us arbitrary: s) (auto simp: inv_app)

text \<open>The candidates for the final value: what was there and what arrived.\<close>

definition candidates :: "'u list \<Rightarrow> 's \<Rightarrow> 'm set" where
  "candidates us s = val ` set us \<union> set_option (get s)"

lemma candidates_app:
  assumes "inv s" and "ok u"
  shows "candidates us (app u s) \<subseteq> candidates (u # us) s"
    and "m \<in> candidates (u # us) s \<Longrightarrow> \<exists>m' \<in> candidates us (app u s). key m \<le> key m'"
  using get_newest [OF assms] by (auto simp: candidates_def)

lemma winner:
  assumes "inv s" and "list_all ok us" and "candidates us s \<noteq> {}"
  shows "\<exists>w \<in> candidates us s. get (fold app us s) = Some w \<and> (\<forall>m \<in> candidates us s. key m \<le> key w)"
  using assms
proof (induction us arbitrary: s)
  case Nil
  then show ?case by (auto simp: candidates_def)
next
  case (Cons u us)
  then have s: "inv s" and u: "ok u" and us: "list_all ok us" by simp_all
  have "candidates us (app u s) \<noteq> {}"
    using get_newest [OF s u] by (auto simp: candidates_def)
  from Cons.IH [OF inv_app [OF s u] us this] obtain w where w: "w \<in> candidates us (app u s)"
    and g: "get (fold app us (app u s)) = Some w" and mx: "\<forall>m \<in> candidates us (app u s). key m \<le> key w" by blast
  have "key m \<le> key w" if "m \<in> candidates (u # us) s" for m
    using candidates_app(2) [OF s u that] mx order_trans by blast
  with w g candidates_app(1) [OF s u, of us] show ?case by auto
qed

text \<open>When different candidates have different keys the winner is determined by the set of
  candidates.\<close>

lemma convergence:
  assumes "inv s" "list_all ok us" "inv s'" "list_all ok us'"
    and "candidates us s = candidates us' s'" and "inj_on key (candidates us s)"
  shows "get (fold app us s) = get (fold app us' s')"
proof (cases "candidates us s = {}")
  case True
  then show ?thesis using assms(5) by (auto simp: candidates_def)
next
  case False
  from winner [OF assms(1,2) False] winner [OF assms(3,4)] False assms(5)
  obtain w w' where "w \<in> candidates us s" "get (fold app us s) = Some w" "\<forall>m \<in> candidates us s. key m \<le> key w"
    "w' \<in> candidates us s" "get (fold app us' s') = Some w'" "\<forall>m \<in> candidates us s. key m \<le> key w'" by metis
  with assms(6) show ?thesis by (metis antisym inj_onD)
qed

end

text \<open>The exact rule of the replica handlers: among equal keys the incoming value wins.\<close>

locale lww_register =
  fixes key :: "'m \<Rightarrow> 'k::linorder"
    and val :: "'u \<Rightarrow> 'm"
    and ok :: "'u \<Rightarrow> bool"
    and inv :: "'s \<Rightarrow> bool"
    and get :: "'s \<Rightarrow> 'm option"
    and app :: "'u \<Rightarrow> 's \<Rightarrow> 's"
  assumes get_app: "inv s \<Longrightarrow> ok u \<Longrightarrow>
      get (app u s) =
        (case get s of None \<Rightarrow> Some (val u) | Some c \<Rightarrow> if key (val u) < key c then Some c else Some (val u))"
    and keeps_inv: "inv s \<Longrightarrow> ok u \<Longrightarrow> inv (app u s)"

sublocale lww_register \<subseteq> newest_register
  by unfold_locales (auto simp: get_app keeps_inv split: option.splits)

end
