(* ===== verification/NodeStore.thy ===== *)
theory NodeStore
  imports Snapshot LWW
begin

text \<open>
  What a node does with its store, its log file and its snapshots (the data half of
  \<^verbatim>\<open>src/minidb/node.py\<close>): applying a committed entry, applying replica, migration and repair values
  under last-writer-wins, deleting migrated keys, recovering at start-up, the persistence part of
  the maintenance loop, and stopping.

  \<^item> The clock readings made inside one handler are one value \<open>now\<close>.
  \<^item> A handler that raises returns the exception together with the state it left behind; the only
    one possible is an append to a closed log file.
  \<^item> \<^verbatim>\<open>int()\<close> and \<^verbatim>\<open>float()\<close> on command arguments are the parameters \<open>parse_int\<close> and \<open>parse_float\<close>
    (\<^verbatim>\<open>None\<close> for \<^verbatim>\<open>ValueError\<close>).
\<close>

section \<open>State\<close>

record storage =
  sg_node_id :: node_id
  sg_store :: kvstore
  sg_aof :: "aof option"
  sg_snapshot :: "snapshot option"

datatype response = Success json | Failure string

type_synonym order_key = "int \<times> time \<times> string"

text \<open>\<^verbatim>\<open>_metadata_sort_key\<close>; Python compares the tuples lexicographically.\<close>

definition metadata_sort_key :: "key_metadata \<Rightarrow> order_key" where
  "metadata_sort_key m = (md_version m, md_updated_at m, md_coordinator_id m)"

section \<open>Writing to store and log\<close>

definition aof_write :: "float_codec \<Rightarrow> storage \<Rightarrow> time \<Rightarrow> aof_entry \<Rightarrow> bool \<Rightarrow> py_error option \<times> storage" where
  "aof_write fc s now entry sync =
     (case sg_aof s of
        None \<Rightarrow> (None, s)
      | Some a \<Rightarrow> (let (err, a') = aof_append fc a now now entry sync in (err, s\<lparr>sg_aof := Some a'\<rparr>)))"

text \<open>\<^verbatim>\<open>store.set\<close> with all metadata given, followed by the matching \<^verbatim>\<open>aof.append\<close>.\<close>

definition set_and_append ::
  "float_codec \<Rightarrow> storage \<Rightarrow> time \<Rightarrow> string \<Rightarrow> json \<Rightarrow> int option \<Rightarrow> int \<Rightarrow> time option \<Rightarrow> time option \<Rightarrow> time \<Rightarrow>
   node_id \<Rightarrow> bool \<Rightarrow> py_error option \<times> storage" where
  "set_and_append fc s now key value ttl version expires_at created_at updated_at coordinator_id sync =
     aof_write fc
       (s\<lparr>sg_store := kv_set (sg_store s) now key value None (Some version) expires_at created_at
                        (Some updated_at) (Some coordinator_id)\<rparr>)
       now
       (append_entry now SET_CMD key value ttl version expires_at created_at (Some updated_at) coordinator_id)
       sync"

definition apply_log_entry :: "float_codec \<Rightarrow> storage \<Rightarrow> time \<Rightarrow> log_entry \<Rightarrow> py_error option \<times> storage" where
  "apply_log_entry fc s now e =
     (if le_command e = ''SET''
      then set_and_append fc s now (le_key e) (le_value e) (le_ttl e) (le_version e) (le_expires_at e)
             (le_created_at e) (le_timestamp e) (le_coordinator_id e) True
      else if le_command e = ''DELETE''
      then aof_write fc (s\<lparr>sg_store := snd (kv_delete (sg_store s) (le_key e))\<rparr>) now
             (append_entry now DELETE_CMD (le_key e) JNull None (le_version e) None None
               (Some (le_timestamp e)) (le_coordinator_id e)) True
      else (None, s))"

text \<open>The last-writer-wins step that \<^verbatim>\<open>_handle_replica_set\<close>, \<^verbatim>\<open>_handle_import_keys\<close> and
  \<^verbatim>\<open>_apply_repair_data\<close> share; the boolean says whether the value was stored.\<close>

definition lww_apply ::
  "float_codec \<Rightarrow> storage \<Rightarrow> time \<Rightarrow> string \<Rightarrow> json \<Rightarrow> int \<Rightarrow> time option \<Rightarrow> time \<Rightarrow> time \<Rightarrow> node_id \<Rightarrow>
   (py_error option \<times> bool) \<times> storage" where
  "lww_apply fc s now key value version expires_at created_at updated_at coordinator_id =
     (let (current, store1) = kv_get_with_metadata (sg_store s) now key;
          s1 = s\<lparr>sg_store := store1\<rparr>;
          incoming_order = (version, updated_at, coordinator_id)
      in if current \<noteq> None \<and> incoming_order < metadata_sort_key (the current)
         then ((None, False), s1)
         else (let (err, s2) = set_and_append fc s1 now key value None version expires_at
                                 (Some created_at) updated_at coordinator_id False
               in ((err, True), s2)))"

section \<open>Replica, repair and migration handlers\<close>

definition handle_replica_set ::
  "(string \<Rightarrow> int option) \<Rightarrow> (string \<Rightarrow> time option) \<Rightarrow> float_codec \<Rightarrow> storage \<Rightarrow> time \<Rightarrow> string list \<Rightarrow>
   (py_error + response) \<times> storage" where
  "handle_replica_set parse_int parse_float fc s now args =
     (if length args < 6
      then (Inr (Failure ''__REPLICA_SET requires key, value, version, updated_at, created_at, and coordinator_id''), s)
      else
        let key = args ! 0;
            value = (case loads fc (args ! 1) of Inr v \<Rightarrow> v | Inl e \<Rightarrow> JStr (args ! 1))
        in (case parse_int (args ! 2) of
              None \<Rightarrow> (Inr (Failure ''Version must be an integer''), s)
            | Some version \<Rightarrow>
                let expires_at = (if args ! 3 \<in> {'''', ''None'', ''null''} then None else parse_float (args ! 3))
                in (case (parse_float (args ! 4), parse_float (args ! 5)) of
                      (Some updated_at, Some created_at) \<Rightarrow>
                        let coordinator_id = (if length args > 6 then args ! 6 else '''')
                        in (case lww_apply fc s now key value version expires_at created_at updated_at coordinator_id of
                              ((Some err, _), s') \<Rightarrow> (Inl err, s')
                            | ((None, stored), s') \<Rightarrow> (Inr (Success (JStr (if stored then ''OK'' else ''IGNORED''))), s'))
                    | _ \<Rightarrow> (Inr (Failure ''Timestamps must be numeric''), s))))"

text \<open>The metadata dictionary of a repair: \<^verbatim>\<open>x or default\<close> replaces a missing or zero timestamp.\<close>

record repair_metadata =
  rm_updated_at :: "time option"
  rm_created_at :: "time option"
  rm_expires_at :: "time option"
  rm_coordinator_id :: "node_id option"

definition or_time :: "time option \<Rightarrow> time \<Rightarrow> time" where
  "or_time t dflt = (if truthy_time t then the t else dflt)"

definition apply_repair_data ::
  "float_codec \<Rightarrow> storage \<Rightarrow> time \<Rightarrow> string \<Rightarrow> json \<Rightarrow> int \<Rightarrow> repair_metadata \<Rightarrow> py_error option \<times> storage" where
  "apply_repair_data fc s now key value version metadata =
     (let updated_at = or_time (rm_updated_at metadata) now;
          created_at = or_time (rm_created_at metadata) updated_at;
          coordinator_id = (case rm_coordinator_id metadata of Some c \<Rightarrow> c | None \<Rightarrow> sg_node_id s);
          (r, s') = lww_apply fc s now key value version (rm_expires_at metadata) created_at updated_at coordinator_id
      in (fst r, s'))"

text \<open>One item of the payload of \<^verbatim>\<open>__IMPORT_KEYS\<close>, its fields decoded.\<close>

record import_item =
  im_value :: json
  im_version :: int
  im_updated_at :: "time option"
  im_created_at :: "time option"
  im_expires_at :: "time option"
  im_coordinator_id :: node_id

record import_counts =
  ic_imported :: nat
  ic_skipped :: nat
  ic_fanout :: "(string \<times> json \<times> int \<times> repair_metadata) list"

definition import_key ::
  "(string \<Rightarrow> node_id option) \<Rightarrow> float_codec \<Rightarrow> time \<Rightarrow> string \<times> import_item \<Rightarrow> import_counts \<times> storage \<Rightarrow>
   py_error option \<times> import_counts \<times> storage" where
  "import_key ring_owner fc now ki cs =
     (let (key, item) = ki;
          (c, s) = cs;
          updated_at = or_time (im_updated_at item) now;
          created_at = or_time (im_created_at item) updated_at
      in (case lww_apply fc s now key (im_value item) (im_version item) (im_expires_at item) created_at updated_at
                 (im_coordinator_id item) of
            ((Some err, _), s') \<Rightarrow> (Some err, c, s')
          | ((None, False), s') \<Rightarrow> (None, c\<lparr>ic_skipped := ic_skipped c + 1\<rparr>, s')
          | ((None, True), s') \<Rightarrow>
              (None,
               (let c' = c\<lparr>ic_imported := ic_imported c + 1\<rparr>
                in if ring_owner key = Some (sg_node_id s)
                   then c'\<lparr>ic_fanout := ic_fanout c' @
                             [(key, im_value item, im_version item,
                               \<lparr>rm_updated_at = Some updated_at, rm_created_at = Some created_at,
                                rm_expires_at = im_expires_at item, rm_coordinator_id = Some (im_coordinator_id item)\<rparr>)]\<rparr>
                   else c'),
               s')))"

fun import_loop ::
  "(string \<Rightarrow> node_id option) \<Rightarrow> float_codec \<Rightarrow> time \<Rightarrow> (string \<times> import_item) list \<Rightarrow> import_counts \<times> storage \<Rightarrow>
   py_error option \<times> import_counts \<times> storage" where
  "import_loop ring_owner fc now [] (c, s) = (None, c, s)"
| "import_loop ring_owner fc now (ki # items) (c, s) =
     (case import_key ring_owner fc now ki (c, s) of
        (Some err, c', s') \<Rightarrow> (Some err, c', s')
      | (None, c', s') \<Rightarrow> import_loop ring_owner fc now items (c', s'))"

definition import_keys ::
  "(string \<Rightarrow> node_id option) \<Rightarrow> float_codec \<Rightarrow> storage \<Rightarrow> time \<Rightarrow> (string \<times> import_item) list \<Rightarrow>
   py_error option \<times> import_counts \<times> storage" where
  "import_keys ring_owner fc s now items =
     import_loop ring_owner fc now items (\<lparr>ic_imported = 0, ic_skipped = 0, ic_fanout = []\<rparr>, s)"

text \<open>\<^verbatim>\<open>_receive_migration_keys\<close> writes unconditionally; the two shapes of an item are those of
  \<open>data_item\<close> (an older tuple keeps only its value).\<close>

fun receive_migration_keys ::
  "float_codec \<Rightarrow> storage \<Rightarrow> time \<Rightarrow> (string, data_item) dict \<Rightarrow> py_error option \<times> storage" where
  "receive_migration_keys fc s now [] = (None, s)"
| "receive_migration_keys fc s now ((key, item) # rest) =
     (let (err, s') =
        (case item of
           Full v e ver c u coord \<Rightarrow> set_and_append fc s now key v None ver e (Some c) u coord False
         | Short v e ver \<Rightarrow>
             aof_write fc (s\<lparr>sg_store := kv_set (sg_store s) now key v None None None None None None\<rparr>) now
               (append_entry now SET_CMD key v None 1 None None None []) False)
      in if err \<noteq> None then (err, s') else receive_migration_keys fc s' now rest)"

fun delete_migrated_keys :: "float_codec \<Rightarrow> storage \<Rightarrow> time \<Rightarrow> string list \<Rightarrow> py_error option \<times> storage" where
  "delete_migrated_keys fc s now [] = (None, s)"
| "delete_migrated_keys fc s now (key # keys) =
     (let (metadata, store1) = kv_get_with_metadata (sg_store s) now key;
          s1 = s\<lparr>sg_store := snd (kv_delete store1 key)\<rparr>;
          version = (case metadata of Some m \<Rightarrow> md_version m | None \<Rightarrow> 1);
          coordinator_id = (case metadata of Some m \<Rightarrow> md_coordinator_id m | None \<Rightarrow> sg_node_id s);
          (err, s2) = aof_write fc s1 now
            (append_entry now DELETE_CMD key JNull None version None None (Some now) coordinator_id) False
      in if err \<noteq> None then (err, s2) else delete_migrated_keys fc s2 now keys)"

definition revert_partition_write :: "storage \<Rightarrow> time \<Rightarrow> string \<Rightarrow> string \<Rightarrow> key_metadata option \<Rightarrow> storage" where
  "revert_partition_write s now key operation previous =
     (case previous of
        None \<Rightarrow> if operation = ''SET'' then s\<lparr>sg_store := snd (kv_delete (sg_store s) key)\<rparr> else s
      | Some p \<Rightarrow>
          s\<lparr>sg_store := kv_set (sg_store s) now key (md_value p) None (Some (md_version p)) (md_expires_at p)
                          (Some (md_created_at p)) (Some (md_updated_at p)) (Some (md_coordinator_id p))\<rparr>)"

section \<open>Local reads\<close>

record read_metadata =
  rd_updated_at :: time
  rd_coordinator_id :: node_id
  rd_created_at :: time
  rd_expires_at :: "time option"

definition no_metadata :: read_metadata where
  "no_metadata = \<lparr>rd_updated_at = 0, rd_coordinator_id = [], rd_created_at = 0, rd_expires_at = None\<rparr>"

definition get_local_value_for_read ::
  "storage \<Rightarrow> time \<Rightarrow> string \<Rightarrow> (json \<times> int \<times> bool \<times> read_metadata) \<times> storage" where
  "get_local_value_for_read s now key =
     (let (metadata, store1) = kv_get_with_metadata (sg_store s) now key
      in ((case metadata of
             None \<Rightarrow> (JNull, 0, False, no_metadata)
           | Some m \<Rightarrow>
               (md_value m, md_version m, True,
                \<lparr>rd_updated_at = md_updated_at m, rd_coordinator_id = md_coordinator_id m,
                 rd_created_at = md_created_at m, rd_expires_at = md_expires_at m\<rparr>)),
          s\<lparr>sg_store := store1\<rparr>))"

definition handle_local_read :: "storage \<Rightarrow> time \<Rightarrow> string list \<Rightarrow> response \<times> storage" where
  "handle_local_read s now args =
     (if args = [] then (Failure ''__LOCAL_READ requires key'', s)
      else
        let (metadata, store1) = kv_get_with_metadata (sg_store s) now (hd args)
        in ((case metadata of
               None \<Rightarrow>
                 Success (JDict [(''found'', JBool False), (''value'', JNull), (''version'', JInt 0),
                   (''expires_at'', JNull), (''updated_at'', JFloat 0), (''created_at'', JFloat 0),
                   (''coordinator_id'', JStr [])])
             | Some m \<Rightarrow>
                 Success (JDict [(''found'', JBool True), (''value'', md_value m), (''version'', JInt (md_version m)),
                   (''expires_at'', of_opt JFloat (md_expires_at m)), (''updated_at'', JFloat (md_updated_at m)),
                   (''created_at'', JFloat (md_created_at m)), (''coordinator_id'', JStr (md_coordinator_id m))])),
            s\<lparr>sg_store := store1\<rparr>))"

definition handle_local_keys :: "storage \<Rightarrow> time \<Rightarrow> string list \<Rightarrow> response \<times> storage" where
  "handle_local_keys s now args =
     (let (ks, store1) = kv_keys (sg_store s) now (if args = [] then ''*'' else hd args)
      in (Success (JList (map JStr ks)), s\<lparr>sg_store := store1\<rparr>))"

definition get_data_for_repair :: "storage \<Rightarrow> time \<Rightarrow> (string, json \<times> int) dict \<times> storage" where
  "get_data_for_repair s now =
     (let (data, store1) = kv_get_all_data (sg_store s) now
      in (map (\<lambda>(k, item). (k, (md_value (item_meta now item), md_version (item_meta now item)))) data,
          s\<lparr>sg_store := store1\<rparr>))"

section \<open>Recovery\<close>

text \<open>\<^verbatim>\<open>apply_aof_entry\<close>. The fields of a log line are typed when they reach the store; the lines
  \<^verbatim>\<open>append\<close> writes always have these types.\<close>

definition entry_expiry :: "aof_entry \<Rightarrow> time option res" where
  "entry_expiry e =
     (if ae_expires_at e = JNull \<and> truthy (ae_ttl e)
      then bind_res (as_time (ae_timestamp e)) (\<lambda>ts. bind_res (as_time (ae_ttl e)) (\<lambda>ttl. Inr (Some (ts + ttl))))
      else as_opt as_time (ae_expires_at e))"

definition recover_set :: "kvstore \<Rightarrow> time \<Rightarrow> aof_entry \<Rightarrow> time option \<Rightarrow> kvstore res" where
  "recover_set st now e expires_at =
     bind_res (as_str (ae_key e)) (\<lambda>key.
     bind_res (as_opt as_int (ae_version e)) (\<lambda>version.
     bind_res (as_opt as_time (ae_created_at e)) (\<lambda>created_at.
     bind_res (as_opt as_time (ae_timestamp e)) (\<lambda>updated_at.
     bind_res (as_opt as_str (ae_coordinator_id e)) (\<lambda>coordinator_id.
       Inr (kv_set st now key (ae_value e) None version expires_at created_at updated_at coordinator_id))))))"

definition apply_aof_entry :: "time \<Rightarrow> kvstore apply_func" where
  "apply_aof_entry now e st =
     (case ae_command e of
        SET_CMD \<Rightarrow>
          (case entry_expiry e of
             Inl err \<Rightarrow> (Some err, st)
           | Inr expires_at \<Rightarrow>
               if truthy_time expires_at \<and> the expires_at \<le> now then (None, st)
               else (case recover_set st now e expires_at of Inl err \<Rightarrow> (Some err, st) | Inr st' \<Rightarrow> (None, st')))
      | DELETE_CMD \<Rightarrow>
          (case as_str (ae_key e) of Inl err \<Rightarrow> (Some err, st) | Inr key \<Rightarrow> (None, snd (kv_delete st key)))
      | EXPIRE_CMD \<Rightarrow> (None, st))"

definition typed_item :: "snap_item \<Rightarrow> data_item res" where
  "typed_item si =
     bind_res (as_opt as_time (si_expires_at si)) (\<lambda>e.
     bind_res (as_int (si_version si)) (\<lambda>ver.
     bind_res (as_time (si_created_at si)) (\<lambda>c.
     bind_res (as_time (si_updated_at si)) (\<lambda>u.
     bind_res (as_str (si_coordinator_id si)) (\<lambda>coord.
       Inr (Full (si_value si) e ver c u coord))))))"

fun typed_items :: "(string, snap_item) dict \<Rightarrow> (string, data_item) dict res" where
  "typed_items [] = Inr []"
| "typed_items ((k, si) # rest) =
     bind_res (typed_item si) (\<lambda>item. bind_res (typed_items rest) (\<lambda>items. Inr ((k, item) # items)))"

text \<open>The interpreter's default recursion limit.\<close>

definition recursion_limit :: nat where
  "recursion_limit = 1000"

text \<open>Loading the snapshot, if there is one, then replaying the log, if there is one.\<close>

definition recover_snapshot :: "float_codec \<Rightarrow> storage \<Rightarrow> time \<Rightarrow> py_error option \<times> storage" where
  "recover_snapshot fc s now =
     (case sg_snapshot s of
        None \<Rightarrow> (None, s)
      | Some sn \<Rightarrow>
          (case snapshot_load recursion_limit fc now (sn_dir sn) of
             (None, d) \<Rightarrow> (None, s\<lparr>sg_snapshot := Some (sn\<lparr>sn_dir := d\<rparr>)\<rparr>)
           | (Some data, d) \<Rightarrow>
               (case typed_items data of
                  Inl err \<Rightarrow> (Some err, s\<lparr>sg_snapshot := Some (sn\<lparr>sn_dir := d\<rparr>)\<rparr>)
                | Inr items \<Rightarrow>
                    (None, s\<lparr>sg_snapshot := Some (sn\<lparr>sn_dir := d\<rparr>), sg_store := kv_load_data (sg_store s) now items\<rparr>))))"

definition recover_data :: "float_codec \<Rightarrow> storage \<Rightarrow> time \<Rightarrow> py_error option \<times> storage" where
  "recover_data fc s now =
     (case recover_snapshot fc s now of
        (Some err, s1) \<Rightarrow> (Some err, s1)
      | (None, s1) \<Rightarrow>
          (case sg_aof s1 of
             None \<Rightarrow> (None, s1)
           | Some a \<Rightarrow>
               let r = aof_replay fc (aof_dir a) (apply_aof_entry now) (sg_store s1)
               in (rr_error r, s1\<lparr>sg_store := rr_state r\<rparr>)))"

section \<open>Maintenance and shutdown\<close>

text \<open>The snapshot step of \<^verbatim>\<open>_maintenance_loop\<close> is not atomic: the data is copied, then saved, then the
  log is compacted with the copy. \<open>between\<close> is whatever other threads do to the storage after the
  copy was taken.\<close>

definition maintenance_persist ::
  "float_codec \<Rightarrow> (string \<Rightarrow> nat) \<Rightarrow> storage \<Rightarrow> time \<Rightarrow> nat \<Rightarrow> (storage \<Rightarrow> storage) \<Rightarrow> storage" where
  "maintenance_persist fc gz_size s now fail between =
     (case sg_snapshot s of
        None \<Rightarrow> between s
      | Some sn \<Rightarrow>
          if \<not> snapshot_should_snapshot sn now then between s
          else
            let (data, store1) = kv_get_all_data (sg_store s) now;
                (ok, sn') = snapshot_save fc gz_size sn now now fail data;
                s2 = between (s\<lparr>sg_store := store1, sg_snapshot := Some sn'\<rparr>)
            in (case sg_aof s2 of
                  Some a \<Rightarrow> if ok \<and> aof_should_compact a then s2\<lparr>sg_aof := Some (aof_compact fc a now data)\<rparr> else s2
                | None \<Rightarrow> s2))"

definition stop_storage :: "float_codec \<Rightarrow> (string \<Rightarrow> nat) \<Rightarrow> storage \<Rightarrow> time \<Rightarrow> nat \<Rightarrow> storage" where
  "stop_storage fc gz_size s now fail =
     (let s1 = (case sg_snapshot s of
                  None \<Rightarrow> s
                | Some sn \<Rightarrow>
                    (let (data, store1) = kv_get_all_data (sg_store s) now;
                         (ok, sn') = snapshot_save fc gz_size sn now now fail data
                     in s\<lparr>sg_store := store1, sg_snapshot := Some sn'\<rparr>))
      in s1\<lparr>sg_aof := map_option (\<lambda>a. aof_close a now) (sg_aof s1)\<rparr>)"

section \<open>Last-writer-wins\<close>

text \<open>A replica write as it travels: the clock reading at the receiver and the metadata record.\<close>

type_synonym replica_update = "time \<times> key_metadata"

definition lww_write :: "float_codec \<Rightarrow> string \<Rightarrow> replica_update \<Rightarrow> storage \<Rightarrow> storage" where
  "lww_write fc k u s =
     snd (lww_apply fc s (fst u) k (md_value (snd u)) (md_version (snd u)) (md_expires_at (snd u))
            (md_created_at (snd u)) (md_updated_at (snd u)) (md_coordinator_id (snd u)))"

definition live_at :: "time \<Rightarrow> string \<Rightarrow> storage \<Rightarrow> bool" where
  "live_at T k s \<longleftrightarrow> (\<forall>m. dget (kv_store (sg_store s)) k = Some m \<longrightarrow> \<not> md_is_expired T m)"

definition update_ok :: "time \<Rightarrow> replica_update \<Rightarrow> bool" where
  "update_ok T u \<longleftrightarrow> fst u \<le> T \<and> md_version (snd u) \<noteq> 0 \<and> \<not> md_is_expired T (snd u)"

lemma aof_write_frame [simp]:
  "sg_store (snd (aof_write fc s now e sync)) = sg_store s"
  "sg_node_id (snd (aof_write fc s now e sync)) = sg_node_id s"
  "sg_snapshot (snd (aof_write fc s now e sync)) = sg_snapshot s"
  by (auto simp: aof_write_def split: option.splits prod.splits)

lemma set_and_append_store:
  "sg_store (snd (set_and_append fc s now k v ttl ver e c u co sync)) =
     kv_set (sg_store s) now k v None (Some ver) e c (Some u) (Some co)"
  by (simp add: set_and_append_def)

lemma get_with_metadata_live:
  assumes "live_at T k s" and "t \<le> T"
  shows "kv_get_with_metadata (sg_store s) t k = (dget (kv_store (sg_store s)) k, sg_store s)"
  using assms md_is_expired_mono by (fastforce simp: kv_get_with_metadata_def live_at_def split: option.splits)

lemma lww_write_store:
  assumes "live_at T k s" and "update_ok T u"
  shows "dget (kv_store (sg_store (lww_write fc k u s))) k =
    (case dget (kv_store (sg_store s)) k of
       None \<Rightarrow> Some (snd u)
     | Some c \<Rightarrow> if metadata_sort_key (snd u) < metadata_sort_key c then Some c else Some (snd u))"
proof -
  have g: "kv_get_with_metadata (sg_store s) (fst u) k = (dget (kv_store (sg_store s)) k, sg_store s)"
    using get_with_metadata_live [OF assms(1)] assms(2) by (simp add: update_ok_def)
  have v: "md_version (snd u) \<noteq> 0" using assms(2) by (simp add: update_ok_def)
  have p: "sg_store (snd (set_and_append fc s (fst u) k (md_value (snd u)) None (md_version (snd u))
      (md_expires_at (snd u)) (Some (md_created_at (snd u))) (md_updated_at (snd u)) (md_coordinator_id (snd u)) False))
    = kv_put (sg_store s) (fst u) k (snd u)"
    by (simp add: set_and_append_store kv_put_def)
  show ?thesis
    unfolding lww_write_def lww_apply_def g
    by (auto simp: Let_def metadata_sort_key_def case_prod_unfold p kv_put_store [OF v] update_conv' split: option.splits)
qed

text \<open>What the store shows after a last-writer-wins write, expired entries aside.\<close>

lemma lww_write_view:
  assumes "md_version m \<noteq> 0" and "\<not> md_is_expired now m"
  shows "kv_view now (sg_store (lww_write fc k (now, m) s)) =
    (kv_view now (sg_store s))(k :=
       (case kv_view now (sg_store s) k of
          Some c \<Rightarrow> if metadata_sort_key m < metadata_sort_key c then Some c else Some m
        | None \<Rightarrow> Some m))"
proof -
  obtain cur st1 where g: "kv_get_with_metadata (sg_store s) now k = (cur, st1)" by fastforce
  have cur: "cur = kv_view now (sg_store s) k" "kv_view now st1 = kv_view now (sg_store s)"
    using fst_kv_get_with_metadata [of "sg_store s" now k] kv_view_get_with_metadata [of now now "sg_store s" k] by (simp_all add: g)
  have "sg_store (lww_write fc k (now, m) s) =
      (if cur \<noteq> None \<and> metadata_sort_key m < metadata_sort_key (the cur) then st1 else kv_put st1 now k m)"
    by (auto simp: lww_write_def lww_apply_def g metadata_sort_key_def set_and_append_store kv_put_def Let_def case_prod_unfold)
  then show ?thesis
    using assms by (cases cur) (auto simp: kv_view_put cur(2) cur(1) [symmetric])
qed

lemma lww_write_wf: "kv_wf (sg_store s) \<Longrightarrow> kv_wf (sg_store (lww_write fc k u s))"
  by (auto simp: lww_write_def lww_apply_def set_and_append_store Let_def case_prod_unfold kv_wf_set kv_wf_get_with_metadata)

interpretation replica: lww_register metadata_sort_key snd "update_ok T" "live_at T k"
    "\<lambda>s. dget (kv_store (sg_store s)) k" "lww_write fc k"
  for T :: time and k :: string and fc :: float_codec
proof
  fix s :: storage and u :: replica_update
  assume a: "live_at T k s" "update_ok T u"
  show "dget (kv_store (sg_store (lww_write fc k u s))) k =
    (case dget (kv_store (sg_store s)) k of
       None \<Rightarrow> Some (snd u)
     | Some c \<Rightarrow> if metadata_sort_key (snd u) < metadata_sort_key c then Some c else Some (snd u))"
    by (rule lww_write_store [OF a])
  with a show "live_at T k (lww_write fc k u s)"
    by (auto simp: live_at_def update_ok_def split: option.splits if_splits)
qed

lemma view_of_live: "live_at T k s \<Longrightarrow> kv_view T (sg_store s) k = dget (kv_store (sg_store s)) k"
  by (auto simp: live_at_def kv_view_apply entry_view_def split: option.splits)

text \<open>C9: Replicas converge. Let two nodes, none of which holds the key, receive the same writes to it
  through last-writer-wins application, in any order, any number of times and at any times up to
  \<open>T\<close>, where distinct writes differ in (version, timestamp, coordinator), versions are not 0 and
  nothing expires by \<open>T\<close>. Then at \<open>T\<close> both show the same value: the write with the greatest order
  key.\<close>

theorem replica_convergence:
  assumes "dget (kv_store (sg_store s)) k = None" and "dget (kv_store (sg_store s')) k = None"
    and "list_all (update_ok T) us" and "list_all (update_ok T) us'"
    and "snd ` set us = snd ` set us'" and "inj_on metadata_sort_key (snd ` set us)" and "us \<noteq> []"
  shows "\<exists>w \<in> snd ` set us.
    kv_view T (sg_store (fold (lww_write fc k) us s)) k = Some w \<and>
    kv_view T (sg_store (fold (lww_write fc k) us' s')) k = Some w \<and>
    (\<forall>m \<in> snd ` set us. metadata_sort_key m \<le> metadata_sort_key w)"
proof -
  have live: "live_at T k s" "live_at T k s'" using assms(1,2) by (simp_all add: live_at_def)
  have c: "replica.candidates k us s = snd ` set us" "replica.candidates k us' s' = snd ` set us"
    using assms(1,2,5) by (simp_all add: replica.candidates_def)
  have ne: "replica.candidates k us s \<noteq> {}" using c assms(7) by simp
  from replica.winner [OF live(1) assms(3) ne, of fc] obtain w where w: "w \<in> snd ` set us"
    "dget (kv_store (sg_store (fold (lww_write fc k) us s))) k = Some w"
    "\<forall>m \<in> snd ` set us. metadata_sort_key m \<le> metadata_sort_key w" unfolding c by blast
  moreover have "dget (kv_store (sg_store (fold (lww_write fc k) us s))) k =
    dget (kv_store (sg_store (fold (lww_write fc k) us' s'))) k"
    using replica.convergence [OF live(1) assms(3) live(2) assms(4), of fc] c assms(6) by simp
  ultimately show ?thesis
    using view_of_live [OF replica.inv_fold [OF live(1) assms(3)]] view_of_live [OF replica.inv_fold [OF live(2) assms(4)]]
    by auto
qed

definition fresh_storage :: "node_id \<Rightarrow> storage" where
  "fresh_storage n = \<lparr>sg_node_id = n, sg_store = kv_init 0, sg_aof = None, sg_snapshot = None\<rparr>"

theorem replica_convergence_witness:
  "\<exists>w \<in> snd ` set [(1 :: time, sample_meta (JInt 1) None 1), (2, sample_meta (JInt 2) None 2)].
     kv_view 9 (sg_store (fold (lww_write whole_codec ''k'')
        [(1, sample_meta (JInt 1) None 1), (2, sample_meta (JInt 2) None 2)] (fresh_storage ''a''))) ''k'' = Some w \<and>
     kv_view 9 (sg_store (fold (lww_write whole_codec ''k'')
        [(3, sample_meta (JInt 2) None 2), (4, sample_meta (JInt 1) None 1), (4, sample_meta (JInt 1) None 1)]
        (fresh_storage ''b''))) ''k'' = Some w \<and>
     (\<forall>m \<in> snd ` set [(1 :: time, sample_meta (JInt 1) None 1), (2, sample_meta (JInt 2) None 2)].
        metadata_sort_key m \<le> metadata_sort_key w)"
  by (rule replica_convergence)
    (auto simp: fresh_storage_def kv_init_def update_ok_def sample_meta_def md_is_expired_def
      inj_on_def metadata_sort_key_def)

end
