(* ===== verification/Durability.thy ===== *)
theory Durability
  imports NodeStore
begin

text \<open>
  Store, log file and snapshots together: what a node that restarts after a crash shows. The
  entries a node applies are written to the log with an fsync before they are acknowledged; the
  theorems say what recovery makes of them, with and without a snapshot, and where the recovery
  code falls short.
\<close>

section \<open>The effect of an entry on the stored dictionary\<close>

definition set_meta ::
  "key_metadata option \<Rightarrow> json \<Rightarrow> int \<Rightarrow> time option \<Rightarrow> time option \<Rightarrow> time \<Rightarrow> node_id \<Rightarrow> key_metadata" where
  "set_meta existing v ver e c u coord =
     \<lparr>md_value = v,
      md_created_at = (case c of Some t \<Rightarrow> t | None \<Rightarrow> (case existing of Some m \<Rightarrow> md_created_at m | None \<Rightarrow> u)),
      md_updated_at = u,
      md_expires_at = e,
      md_version = (if ver \<noteq> 0 then ver else (case existing of Some m \<Rightarrow> md_version m + 1 | None \<Rightarrow> 1)),
      md_coordinator_id = coord\<rparr>"

definition log_effect :: "log_entry \<Rightarrow> (string, key_metadata) dict \<Rightarrow> (string, key_metadata) dict" where
  "log_effect e d =
     (if le_command e = ''SET''
      then dset (le_key e)
             (set_meta (dget d (le_key e)) (le_value e) (le_version e) (le_expires_at e) (le_created_at e)
               (le_timestamp e) (le_coordinator_id e)) d
      else if le_command e = ''DELETE'' then ddel (le_key e) d
      else d)"

lemma kv_set_store:
  "kv_store (kv_set st now k v None (Some ver) e c (Some u) (Some co)) =
     dset k (set_meta (dget (kv_store st) k) v ver e c u co) (kv_store st)"
  by (cases e) (simp_all add: kv_set_def Let_def set_meta_def split: option.splits)

lemma kv_delete_store: "kv_store (snd (kv_delete st k)) = ddel k (kv_store st)"
  by (auto simp: kv_delete_def map_of_eq_None_iff)

lemma apply_log_entry_store:
  "kv_store (sg_store (snd (apply_log_entry fc s now e))) = log_effect e (kv_store (sg_store s))"
  by (simp add: apply_log_entry_def log_effect_def set_and_append_store kv_set_store kv_delete_store)

text \<open>The line an entry leaves in the log.\<close>

definition line_of :: "log_entry \<Rightarrow> aof_entry" where
  "line_of e =
     (if le_command e = ''SET''
      then append_entry 0 SET_CMD (le_key e) (le_value e) (le_ttl e) (le_version e) (le_expires_at e)
             (le_created_at e) (Some (le_timestamp e)) (le_coordinator_id e)
      else append_entry 0 DELETE_CMD (le_key e) JNull None (le_version e) None None
             (Some (le_timestamp e)) (le_coordinator_id e))"

definition is_write :: "log_entry \<Rightarrow> bool" where
  "is_write e \<longleftrightarrow> le_command e = ''SET'' \<or> le_command e = ''DELETE''"

text \<open>An entry that recovery can restore at time \<open>now\<close>: its expiry, if it has one, is recorded in the
  entry and has not been reached.\<close>

definition recoverable :: "time \<Rightarrow> log_entry \<Rightarrow> bool" where
  "recoverable now e \<longleftrightarrow>
     is_write e \<and> (le_ttl e = None \<or> le_expires_at e \<noteq> None) \<and>
     \<not> (truthy_time (le_expires_at e) \<and> the (le_expires_at e) \<le> now)"

lemma append_entry_now: "append_entry now c k v ttl ver e cr (Some u) co = append_entry 0 c k v ttl ver e cr (Some u) co"
  by (simp add: append_entry_def)

lemma apply_log_entry_aof:
  assumes "is_write e" and "sg_aof s = Some a"
  shows "sg_aof (snd (apply_log_entry fc s now e)) = Some (aof_step fc (Append now now (line_of e) True) a)"
proof -
  have w: "sg_aof (snd (aof_write fc (s\<lparr>sg_store := st\<rparr>) now l True)) = Some (aof_step fc (Append now now l True) a)"
    for st l using assms(2) by (simp add: aof_write_def case_prod_unfold Let_def)
  show ?thesis
    using assms(1) by (auto simp: is_write_def apply_log_entry_def set_and_append_def w line_of_def append_entry_now [of now])
qed

lemma as_opt_ttl: "truthy (of_opt JInt (le_ttl e)) \<Longrightarrow> le_ttl e \<noteq> None"
  by (cases "le_ttl e") (auto simp: of_opt_def)

lemma of_opt_null: "of_opt f x = JNull \<longleftrightarrow> x = None" if "\<And>a. f a \<noteq> JNull"
  using that by (cases x) (simp_all add: of_opt_def)

lemma apply_line_of:
  assumes "recoverable now e"
  shows "fst (apply_aof_entry now (line_of e) st) = None"
    and "kv_store (snd (apply_aof_entry now (line_of e) st)) = log_effect e (kv_store st)"
proof -
  have ex: "entry_expiry (line_of e) = Inr (le_expires_at e)" if "le_command e = ''SET''"
    using assms that as_opt_ttl [of e]
    by (auto simp: recoverable_def entry_expiry_def line_of_def append_entry_def of_opt_null)
  show "fst (apply_aof_entry now (line_of e) st) = None"
    and "kv_store (snd (apply_aof_entry now (line_of e) st)) = log_effect e (kv_store st)"
    using assms ex
    by (auto simp: recoverable_def is_write_def apply_aof_entry_def line_of_def append_entry_def recover_set_def
        log_effect_def kv_set_store kv_delete_store)
qed

lemma replay_lines_of:
  assumes "list_all (recoverable now) es"
  shows "rr_error (replay_entries (apply_aof_entry now) (map line_of es) n bad st) = None"
    and "kv_store (rr_state (replay_entries (apply_aof_entry now) (map line_of es) n bad st)) =
      fold log_effect es (kv_store st)"
  using assms
  by (induction es arbitrary: n bad st)
    (auto simp: case_prod_unfold apply_line_of split: option.splits)

section \<open>A run of a node\<close>

definition apply_entries :: "float_codec \<Rightarrow> (time \<times> log_entry) list \<Rightarrow> storage \<Rightarrow> storage" where
  "apply_entries fc tes s = fold (\<lambda>(t, e) s. snd (apply_log_entry fc s t e)) tes s"

lemma apply_entries_store:
  "kv_store (sg_store (apply_entries fc tes s)) = fold log_effect (map snd tes) (kv_store (sg_store s))"
  unfolding apply_entries_def
  by (induction tes arbitrary: s) (simp_all add: case_prod_unfold apply_log_entry_store)

lemma apply_entries_aof:
  "list_all (is_write \<circ> snd) tes \<Longrightarrow> sg_aof s = Some a \<Longrightarrow>
   sg_aof (apply_entries fc tes s) = Some (fold (aof_step fc) (map (\<lambda>(t, e). Append t t (line_of e) True) tes) a)"
  unfolding apply_entries_def
proof (induction tes arbitrary: s a)
  case (Cons te tes)
  then show ?case using apply_log_entry_aof [of "snd te" s a fc "fst te"] by (simp add: case_prod_unfold)
qed simp

lemma all_synced:
  "synced_entries (map (\<lambda>(t, e). Append t t (line_of e) True) tes) = map (line_of \<circ> snd) tes"
  "op_entries (map (\<lambda>(t, e). Append t t (line_of e) True) tes) = map (line_of \<circ> snd) tes"
proof -
  show o: "op_entries (map (\<lambda>(t, e). Append t t (line_of e) True) tes) = map (line_of \<circ> snd) tes"
    by (induction tes) (simp_all add: case_prod_unfold)
  have "dropWhile (\<lambda>op. \<not> is_synced_append op) (rev (map (\<lambda>(t, e). Append t t (line_of e) True) tes)) =
    rev (map (\<lambda>(t, e). Append t t (line_of e) True) tes)"
    by (cases "rev tes") (auto simp: case_prod_unfold rev_map)
  then show "synced_entries (map (\<lambda>(t, e). Append t t (line_of e) True) tes) = map (line_of \<circ> snd) tes"
    unfolding synced_entries_def using o by simp
qed

text \<open>The storage of a node that starts on a directory.\<close>

definition start_storage :: "node_id \<Rightarrow> aof_dir \<Rightarrow> time \<Rightarrow> time \<Rightarrow> snapshot option \<Rightarrow> storage" where
  "start_storage n d iv now sn =
     \<lparr>sg_node_id = n, sg_store = kv_init now, sg_aof = Some (aof_init d iv now), sg_snapshot = sn\<rparr>"

lemma start_storage_simps [simp]:
  "sg_aof (start_storage n d iv now sn) = Some (aof_init d iv now)"
  "sg_store (start_storage n d iv now sn) = kv_init now"
  "sg_snapshot (start_storage n d iv now sn) = sn"
  by (simp_all add: start_storage_def)

lemma kv_init_store: "kv_store (kv_init now) = []"
  by (simp add: kv_init_def)

lemma recover_log_only:
  "sg_snapshot s = None \<Longrightarrow> sg_aof s = Some a \<Longrightarrow>
   recover_data fc s now =
     (rr_error (aof_replay fc (aof_dir a) (apply_aof_entry now) (sg_store s)),
      s\<lparr>sg_store := rr_state (aof_replay fc (aof_dir a) (apply_aof_entry now) (sg_store s))\<rparr>)"
  by (simp add: recover_data_def recover_snapshot_def Let_def)

abbreviation empty_log :: aof_dir where
  "empty_log \<equiv> \<lparr>dir_main = Some [], dir_bak = None, dir_tmp = None\<rparr>"

lemma prefix_antisym: "prefix xs ys \<Longrightarrow> prefix ys xs \<Longrightarrow> xs = ys"
  by (simp add: prefix_order.antisym)

definition appended :: "float_codec \<Rightarrow> time \<Rightarrow> time \<Rightarrow> (time \<times> log_entry) list \<Rightarrow> aof" where
  "appended fc iv t0 tes = fold (aof_step fc) (map (\<lambda>(t, e). Append t t (line_of e) True) tes) (aof_init empty_log iv t0)"

lemma start_replay:
  assumes ok: "float_codec_ok fc" "list_all (\<lambda>te. entry_ok fc (line_of (snd te))) tes"
  shows "same_outcome (aof_replay fc (aof_dir (aof_init (aof_crash (appended fc iv t0 tes) k) iv' t1)) f st)
    (replay_entries f (map line_of (map snd tes)) 0 0 st)"
proof -
  let ?ops = "map (\<lambda>(t, e). Append t t (line_of e) True) tes"
  have "log_inv fc [] ([] @ ?ops) (fold (aof_step fc) ?ops (aof_init empty_log iv t0))"
    by (rule log_inv_run, rule log_inv_init) (simp add: lines_text_def)
  then have inv: "log_inv fc [] ?ops (fold (aof_step fc) ?ops (aof_init empty_log iv t0))" by simp
  have "list_all (entry_ok fc) ([] @ op_entries ?ops)" using ok(2) by (auto simp: all_synced list_all_iff)
  from replay_crashed [OF ok(1) this inv, of k f st] obtain kept where
    "prefix (map (line_of \<circ> snd) tes) kept" "prefix kept (map (line_of \<circ> snd) tes)"
    and r: "same_outcome (aof_replay fc (aof_crash (fold (aof_step fc) ?ops (aof_init empty_log iv t0)) k) f st)
      (replay_entries f ([] @ kept) 0 0 st)" unfolding all_synced by blast
  then have "kept = map (line_of \<circ> snd) tes" by (simp add: prefix_antisym)
  moreover have "dir_main (aof_dir (aof_init d iv' t1)) = Some (case dir_main d of None \<Rightarrow> [] | Some x \<Rightarrow> x)" for d
    by (simp add: aof_init_def aof_open_file_def)
  moreover have "dir_main (aof_crash (fold (aof_step fc) ?ops (aof_init empty_log iv t0)) k) \<noteq> None"
    using inv by (auto simp: log_inv_def aof_crash_def)
  ultimately show ?thesis using r by (auto simp: appended_def aof_replay_def)
qed

text \<open>C4: No acknowledged write is lost. A node that starts on an empty log, applies any sequence of SET
  and DELETE entries, crashes at any moment after the last of them, and restarts without a snapshot
  recovers without an error and holds exactly the keys and metadata it held before the crash,
  provided that no entry's expiry has been reached and that every entry with a TTL carries its
  expiry.\<close>

theorem crash_recovery_exact:
  assumes "float_codec_ok fc" and "list_all (\<lambda>te. entry_ok fc (line_of (snd te))) tes"
    and "list_all (\<lambda>te. recoverable now (snd te)) tes"
  shows "\<exists>s'. recover_data fc
      (start_storage n
        (aof_crash (the (sg_aof (apply_entries fc tes (start_storage n empty_log iv t0 None)))) k) iv now None) now
      = (None, s') \<and>
    kv_store (sg_store s') = kv_store (sg_store (apply_entries fc tes (start_storage n empty_log iv t0 None)))"
proof -
  let ?d = "aof_crash (the (sg_aof (apply_entries fc tes (start_storage n empty_log iv t0 None)))) k"
  let ?es = "map snd tes"
  have w: "list_all (is_write \<circ> snd) tes" using assms(3) by (auto simp: list_all_iff recoverable_def)
  have rec: "list_all (recoverable now) ?es" using assms(3) by (auto simp: list_all_iff)
  have a: "sg_aof (apply_entries fc tes (start_storage n empty_log iv t0 None)) = Some (appended fc iv t0 tes)"
    using apply_entries_aof [OF w, of "start_storage n empty_log iv t0 None"] by (simp add: appended_def)
  from start_replay [OF assms(1,2), of iv t0 k iv now "apply_aof_entry now" "kv_init now"]
  show ?thesis
    unfolding a option.sel
    using replay_lines_of [OF rec, of 0 0 "kv_init now"]
    by (simp add: recover_log_only same_outcome_def apply_entries_store kv_init_store)
qed

definition sample_log :: "string \<Rightarrow> string \<Rightarrow> time \<Rightarrow> time option \<Rightarrow> log_entry" where
  "sample_log c k t e =
     \<lparr>le_term = 1, le_index = 1, le_command = c, le_key = k, le_value = JStr ''v'', le_ttl = None,
      le_timestamp = t, le_version = 1, le_expires_at = e, le_created_at = Some t, le_coordinator_id = ''n1''\<rparr>"

lemma sample_log_ok:
  "of_int \<lfloor>t\<rfloor> = t \<Longrightarrow> (case e of None \<Rightarrow> True | Some x \<Rightarrow> of_int \<lfloor>x\<rfloor> = x) \<Longrightarrow>
   entry_ok whole_codec (line_of (sample_log c k t e))"
  by (cases e) (simp_all add: entry_ok_def line_of_def sample_log_def append_entry_def of_opt_def whole_codec_def)

theorem crash_recovery_exact_witness:
  "\<exists>s'. recover_data whole_codec
      (start_storage ''n1''
        (aof_crash (the (sg_aof (apply_entries whole_codec
          [(1, sample_log ''SET'' ''a'' 1 None), (2, sample_log ''SET'' ''b'' 2 (Some 90)), (3, sample_log ''DELETE'' ''a'' 3 None)]
          (start_storage ''n1'' empty_log 1 0 None)))) 0) 1 9 None) 9
      = (None, s') \<and>
    kv_store (sg_store s') = kv_store (sg_store (apply_entries whole_codec
          [(1, sample_log ''SET'' ''a'' 1 None), (2, sample_log ''SET'' ''b'' 2 (Some 90)), (3, sample_log ''DELETE'' ''a'' 3 None)]
          (start_storage ''n1'' empty_log 1 0 None)))"
  by (rule crash_recovery_exact [OF whole_codec_ok])
    (simp_all add: sample_log_ok, simp_all add: recoverable_def is_write_def sample_log_def truthy_time_def)

section \<open>Recovery from a snapshot and the whole log\<close>

text \<open>A write that determines the metadata it stores, whatever was there before.\<close>

definition determined :: "log_entry \<Rightarrow> bool" where
  "determined e \<longleftrightarrow> le_version e \<noteq> 0 \<and> le_created_at e \<noteq> None"

lemma log_effect_dget:
  "determined e \<Longrightarrow> is_write e \<Longrightarrow>
   dget (log_effect e d) k =
     (if k = le_key e
      then (if le_command e = ''SET''
            then Some (set_meta None (le_value e) (le_version e) (le_expires_at e) (le_created_at e) (le_timestamp e)
                         (le_coordinator_id e))
            else None)
      else dget d k)"
  by (auto simp: log_effect_def is_write_def determined_def set_meta_def update_conv' delete_conv')

text \<open>A sequence of such writes either fixes what a key holds or leaves it alone, so replaying a
  prefix of the log a second time changes nothing.\<close>

lemma log_effects_fix:
  assumes "list_all (\<lambda>e. determined e \<and> is_write e) es"
  shows "(\<exists>r. \<forall>d. dget (fold log_effect es d) k = r) \<or> (\<forall>d. dget (fold log_effect es d) k = dget d k)"
  using assms
proof (induction es rule: rev_induct)
  case (snoc e es)
  then show ?case by (auto simp: log_effect_dget)
qed simp

lemma log_effects_again:
  assumes "list_all (\<lambda>e. determined e \<and> is_write e) es"
  shows "dget (fold log_effect es (fold log_effect es [])) = dget (fold log_effect es [])"
proof
  fix k
  show "dget (fold log_effect es (fold log_effect es [])) k = dget (fold log_effect es []) k"
    using log_effects_fix [OF assms, of k] by metis
qed

lemma log_effects_cong:
  assumes "list_all (\<lambda>e. determined e \<and> is_write e) es" and "dget d = dget d'"
  shows "dget (fold log_effect es d) = dget (fold log_effect es d')"
proof
  fix k
  show "dget (fold log_effect es d) k = dget (fold log_effect es d') k"
    using log_effects_fix [OF assms(1), of k] assms(2) by metis
qed

text \<open>What such a run stores is live as long as no expiry is reached.\<close>

definition all_live :: "time \<Rightarrow> (string, key_metadata) dict \<Rightarrow> bool" where
  "all_live now d \<longleftrightarrow> dwf d \<and> (\<forall>k m. dget d k = Some m \<longrightarrow> \<not> md_is_expired now m)"

lemma all_live_upd: "all_live now d \<Longrightarrow> \<not> md_is_expired now m \<Longrightarrow> all_live now (dset k m d)"
  by (auto simp: all_live_def update_conv' distinct_update simp del: map_of_eq_Some_iff split: if_splits)

lemma all_live_del: "all_live now d \<Longrightarrow> all_live now (ddel k d)"
  by (auto simp: all_live_def delete_conv' distinct_delete simp del: map_of_eq_Some_iff split: if_splits)

lemma all_live_effect: "recoverable now e \<Longrightarrow> all_live now d \<Longrightarrow> all_live now (log_effect e d)"
  by (auto simp: log_effect_def recoverable_def set_meta_def md_is_expired_def truthy_time_def
      intro!: all_live_upd all_live_del split: option.splits)

lemma all_live_effects: "list_all (recoverable now) es \<Longrightarrow> all_live now d \<Longrightarrow> all_live now (fold log_effect es d)"
  by (induction es arbitrary: d) (auto simp: all_live_effect)

lemma all_live_list: "all_live now d \<Longrightarrow> list_all (\<lambda>(k, m). \<not> md_is_expired now m) d"
  by (auto simp: all_live_def list_all_iff)

lemma all_live_mono: "all_live now d \<Longrightarrow> t \<le> now \<Longrightarrow> all_live t d"
  unfolding all_live_def using md_is_expired_mono by blast

lemma all_live_view: "all_live now (kv_store st) \<Longrightarrow> kv_view now st = dget (kv_store st)"
  by (auto simp: all_live_def kv_view_def map_view_def entry_view_def fun_eq_iff split: option.splits)

lemma typed_snap_of_meta: "typed_item (snap_of_meta m) = Inr (item_of_meta m)"
  by (simp add: typed_item_def snap_of_meta_def item_of_meta_def)

lemma typed_items_snap:
  "typed_items (map (\<lambda>(k, m). (k, snap_of_meta m)) kms) = Inr (map (\<lambda>(k, m). (k, item_of_meta m)) kms)"
  by (induction kms) (auto simp: typed_snap_of_meta)

lemma live_items_of_dump:
  "list_all (\<lambda>(k, m). \<not> md_is_expired now m) kms \<Longrightarrow>
   live_items ts now (map (\<lambda>(k, m). (k, item_of_meta m)) kms) = map (\<lambda>(k, m). (k, snap_of_meta m)) kms"
  unfolding live_items_def by (induction kms) auto

lemma load_dump:
  assumes "all_live now kms" and "load_file fc now f = Inr (live_items ts now (map (\<lambda>(k, m). (k, item_of_meta m)) kms))"
    and "sn_main (sn_dir sn) = Some f"
  shows "recover_snapshot fc (start_storage n d iv now (Some sn)) now =
    (None, (start_storage n d iv now (Some sn))
       \<lparr>sg_store := kv_load_data (kv_init now) now (map (\<lambda>(k, m). (k, item_of_meta m)) kms)\<rparr>)"
proof -
  have "snapshot_load recursion_limit fc now (sn_dir sn) =
      (Some (live_items ts now (map (\<lambda>(k, m). (k, item_of_meta m)) kms)), sn_dir sn)"
    using assms(2,3) by (simp add: recursion_limit_def numeral_eq_Suc)
  then show ?thesis
    by (simp add: recover_snapshot_def live_items_of_dump [OF all_live_list [OF assms(1)]] typed_items_snap start_storage_def)
qed

lemma load_dump_store:
  "all_live now kms \<Longrightarrow> kv_store (kv_load_data (kv_init now) now (map (\<lambda>(k, m). (k, item_of_meta m)) kms)) = kms"
  by (simp add: kv_load_store [OF all_live_list] kv_init_store fold_upd_fresh all_live_def)

lemma kv_wf_apply_log_entry: "kv_wf (sg_store s) \<Longrightarrow> kv_wf (sg_store (snd (apply_log_entry fc s now e)))"
  by (simp add: apply_log_entry_def set_and_append_store kv_wf_set kv_wf_delete)

lemma kv_wf_apply_entries: "kv_wf (sg_store s) \<Longrightarrow> kv_wf (sg_store (apply_entries fc tes s))"
  unfolding apply_entries_def
  by (induction tes arbitrary: s) (auto simp: kv_wf_apply_log_entry case_prod_unfold)

lemma dump_of_live:
  assumes "kv_wf st" and "all_live ts (kv_store st)"
  shows "fst (kv_get_all_data st ts) = map (\<lambda>(k, m). (k, item_of_meta m)) (kv_store st)"
    and "kv_store (snd (kv_get_all_data st ts)) = kv_store st"
proof -
  have "kv_store (kv_cleanup_expired st ts) = kv_store st"
    unfolding kv_cleanup_store [OF assms(1)]
    using all_live_list [OF assms(2)] by (auto simp: list_all_iff intro!: filter_True)
  then show "fst (kv_get_all_data st ts) = map (\<lambda>(k, m). (k, item_of_meta m)) (kv_store st)"
    and "kv_store (snd (kv_get_all_data st ts)) = kv_store st"
    by (simp_all add: kv_get_all_data_def Let_def)
qed

lemma appended_append:
  "list_all (is_write \<circ> snd) tes2 \<Longrightarrow> sg_aof s = Some (appended fc iv t0 tes1) \<Longrightarrow>
   sg_aof (apply_entries fc tes2 s) = Some (appended fc iv t0 (tes1 @ tes2))"
  by (simp add: apply_entries_aof appended_def)

text \<open>A snapshot that was cut by a power failure and has no backup is not loaded.\<close>

lemma torn_not_loaded:
  assumes "sn_bak (sn_dir sn) = None"
  shows "fst (recover_snapshot fc (start_storage n d iv now (Some (snapshot_crash True sn))) now) = None \<and>
    sg_store (snd (recover_snapshot fc (start_storage n d iv now (Some (snapshot_crash True sn))) now)) = kv_init now \<and>
    sg_aof (snd (recover_snapshot fc (start_storage n d iv now (Some (snapshot_crash True sn))) now)) = Some (aof_init d iv now)"
  using assms by (cases "sn_main (sn_dir sn)")
    (simp_all add: recover_snapshot_def snapshot_crash_def start_storage_def load_file_def recursion_limit_def numeral_eq_Suc)

text \<open>C11: A snapshot does not get in the way of the log. A node that starts on an empty log applies some SET and DELETE entries, saves a
  snapshot successfully, applies more, and crashes; at restart it loads the snapshot and then replays the whole log, the
  entries the snapshot already contains included. It shows exactly what it showed before the
  crash, if no expiry has been reached and every write carries its version and creation time. The same holds when a power failure
  cuts the snapshot file, which the code never flushes, provided there was no older one to fall back to.\<close>

theorem snapshot_and_log_recovery:
  assumes "float_codec_ok fc" and "list_all (\<lambda>te. entry_ok fc (line_of (snd te))) (tes1 @ tes2)"
    and "list_all (\<lambda>te. recoverable now (snd te) \<and> determined (snd te)) (tes1 @ tes2)" and "ts \<le> now"
    and s1: "s1 = apply_entries fc tes1 (start_storage n empty_log iv t0 (Some sn0))"
    and data: "(data, store1) = kv_get_all_data (sg_store s1) ts"
    and save: "json_wf fc (snapshot_json ts data)" "(True, sn1) = snapshot_save fc gz_size sn0 ts ts fail data"
    and s3: "s3 = apply_entries fc tes2 (s1\<lparr>sg_store := store1, sg_snapshot := Some sn1\<rparr>)"
    and torn: "torn \<Longrightarrow> sn_main (sn_dir sn0) = None \<and> sn_bak (sn_dir sn0) = None"
  shows "\<exists>s'. recover_data fc (start_storage n (aof_crash (the (sg_aof s3)) k) iv now (Some (snapshot_crash torn sn1))) now = (None, s') \<and>
    kv_view now (sg_store s') = kv_view now (sg_store s3)"
proof -
  let ?es1 = "map snd tes1" and ?es2 = "map snd tes2"
  let ?D1 = "fold log_effect ?es1 []"
  have rec: "list_all (recoverable now) (?es1 @ ?es2)" and det: "list_all (\<lambda>e. determined e \<and> is_write e) (?es1 @ ?es2)"
    using assms(3) by (auto simp: list_all_iff recoverable_def)
  have w: "list_all (is_write \<circ> snd) tes1" "list_all (is_write \<circ> snd) tes2"
    using assms(3) by (auto simp: list_all_iff recoverable_def)
  have st1: "kv_store (sg_store s1) = ?D1" by (simp add: s1 apply_entries_store kv_init_store)
  have live1: "all_live now ?D1" using rec by (intro all_live_effects) (simp_all add: all_live_def)
  have live: "all_live now (fold log_effect ?es2 ?D1)" using rec live1 by (simp add: all_live_effects)
  have wf: "kv_wf (sg_store s1)" by (simp add: s1 kv_wf_apply_entries kv_wf_init)
  have d: "data = map (\<lambda>(k, m). (k, item_of_meta m)) ?D1" "kv_store store1 = ?D1"
    using dump_of_live [OF wf, of ts] all_live_mono [OF live1 assms(4)] data [symmetric] by (simp_all add: st1)
  have st3: "kv_store (sg_store s3) = fold log_effect ?es2 ?D1" by (simp add: s3 apply_entries_store d)
  have "sg_aof s1 = Some (appended fc iv t0 tes1)"
    using apply_entries_aof [OF w(1), of "start_storage n empty_log iv t0 (Some sn0)"] by (simp add: s1 appended_def)
  then have a3: "sg_aof s3 = Some (appended fc iv t0 (tes1 @ tes2))" by (simp add: s3 appended_append [OF w(2)])
  have "length (save_calls fc gz_size ts (sn_dir sn0) data) \<le> fail" "sn_main (sn_dir sn1) = Some (Gz (dumps fc (snapshot_json ts data)))"
    using save(2) save_success_dir(1) by (auto simp: snapshot_save_def Let_def simp del: dumps.simps split: if_splits)
  from load_dump [OF live1 _ this(2)] load_saved_file [OF assms(1) save(1), of now]
  have r1: "recover_snapshot fc (start_storage n cd iv now (Some sn1)) now =
    (None, (start_storage n cd iv now (Some sn1)) \<lparr>sg_store := kv_load_data (kv_init now) now data\<rparr>)" for cd
    using d(1) by blast
  have ld: "kv_store (kv_load_data (kv_init now) now data) = ?D1" unfolding d(1) by (rule load_dump_store [OF live1])
  have "dget (fold log_effect (?es1 @ ?es2) ?D1) = dget (fold log_effect ?es2 ?D1)"
    using log_effects_cong [of ?es2 "fold log_effect ?es1 ?D1" ?D1] log_effects_again [of ?es1] det by simp
  moreover have "all_live now (fold log_effect (?es1 @ ?es2) ?D1)" "all_live now (fold log_effect ?es2 ?D1)"
    using rec live1 by (simp_all add: all_live_effects)
  moreover note start_replay [OF assms(1,2), of iv t0 k iv now "apply_aof_entry now" "kv_load_data (kv_init now) now data"]
    replay_lines_of [OF rec, of 0 0 "kv_load_data (kv_init now) now data"]
  ultimately have whole: ?thesis if "\<not> torn"
    using that by (simp add: recover_data_def r1 a3 Let_def same_outcome_def all_live_view ld st3 snapshot_crash_def)
  have cut: ?thesis if t: torn
  proof -
    have "sn_bak (sn_dir sn1) = None"
      using torn [OF t] save(2) save_success_dir by (auto simp: snapshot_save_def Let_def simp del: dumps.simps split: if_splits)
    note nl = torn_not_loaded [OF this, of fc n "aof_crash (the (sg_aof s3)) k" iv now]
    obtain s0 where s0: "recover_snapshot fc (start_storage n (aof_crash (the (sg_aof s3)) k) iv now (Some (snapshot_crash True sn1))) now = (None, s0)"
      and "sg_store s0 = kv_init now" "sg_aof s0 = Some (aof_init (aof_crash (the (sg_aof s3)) k) iv now)"
      using nl by (metis prod.collapse snd_conv)
    then show ?thesis
      using t start_replay [OF assms(1,2), of iv t0 k iv now "apply_aof_entry now" "kv_init now"] replay_lines_of [OF rec, of 0 0 "kv_init now"]
        live
      by (simp add: recover_data_def a3 Let_def same_outcome_def st3 kv_init_store all_live_view)
  qed
  from whole cut show ?thesis by blast
qed

theorem snapshot_and_log_recovery_witness:
  "let s1 = apply_entries whole_codec [(1, sample_log ''SET'' ''a'' 1 None)]
              (start_storage ''n1'' empty_log 1 0 (Some (snapshot_init empty_snapshot_dir 300)));
       ds = kv_get_all_data (sg_store s1) 5;
       sn1 = snd (snapshot_save whole_codec length (snapshot_init empty_snapshot_dir 300) 5 5 9 (fst ds));
       s3 = apply_entries whole_codec [(6, sample_log ''DELETE'' ''a'' 6 None), (7, sample_log ''SET'' ''b'' 7 (Some 90))]
              (s1\<lparr>sg_store := snd ds, sg_snapshot := Some sn1\<rparr>)
   in \<exists>s'. recover_data whole_codec (start_storage ''n1'' (aof_crash (the (sg_aof s3)) 3) 1 9 (Some (snapshot_crash True sn1))) 9 = (None, s') \<and>
        kv_view 9 (sg_store s') = kv_view 9 (sg_store s3)"
proof -
  let ?sn0 = "snapshot_init empty_snapshot_dir 300"
  let ?s1 = "apply_entries whole_codec [(1, sample_log ''SET'' ''a'' 1 None)] (start_storage ''n1'' empty_log 1 0 (Some ?sn0))"
  let ?ds = "kv_get_all_data (sg_store ?s1) 5"
  have d: "fst ?ds = [(''a'', Full (JStr ''v'') None 1 1 1 ''n1'')]"
    using dump_of_live(1) [of "sg_store ?s1" 5]
    by (simp add: kv_wf_apply_entries kv_wf_init apply_entries_store kv_init_store log_effect_def sample_log_def set_meta_def
        all_live_def md_is_expired_def item_of_meta_def)
  let ?t1 = "[(1, sample_log ''SET'' ''a'' 1 None)]"
  let ?t2 = "[(6, sample_log ''DELETE'' ''a'' 6 None), (7, sample_log ''SET'' ''b'' 7 (Some 90))]"
  have e: "list_all (\<lambda>te. entry_ok whole_codec (line_of (snd te))) (?t1 @ ?t2)" by (simp add: sample_log_ok)
  have r: "list_all (\<lambda>te. recoverable 9 (snd te) \<and> determined (snd te)) (?t1 @ ?t2)"
    by (simp add: recoverable_def is_write_def sample_log_def truthy_time_def determined_def)
  have j: "json_wf whole_codec (snapshot_json 5 (fst ?ds))"
    unfolding d by (simp add: snapshot_json_def snapshot_item_def Let_def whole_codec_def of_opt_def)
  have s: "(True, snd (snapshot_save whole_codec length ?sn0 5 5 9 (fst ?ds))) = snapshot_save whole_codec length ?sn0 5 5 9 (fst ?ds)"
    by (simp add: snapshot_save_def save_calls_def snapshot_init_def Let_def)
  show ?thesis
    unfolding Let_def
    by (rule snapshot_and_log_recovery [OF whole_codec_ok e r _ refl prod.collapse j s refl]) (simp_all add: snapshot_init_def)
qed

section \<open>Where recovery falls short\<close>

text \<open>Recovery resurrects overwritten values. Let a key be written without a TTL and then overwritten
  with one, and let that TTL have run out. Before the crash the key is gone; after the restart it
  holds the first value again, because replay skips the expired second write and nothing else
  removed the first one.\<close>

theorem recovery_resurrects_overwritten:
  assumes "float_codec_ok fc" and "entry_ok fc (line_of e1)" and "entry_ok fc (line_of e2)"
    and "le_command e1 = ''SET''" and "le_command e2 = ''SET''" and "le_key e2 = le_key e1"
    and "le_expires_at e1 = None" and "le_ttl e1 = None" and "le_expires_at e2 = Some x" and "x \<noteq> 0" and "x < now"
  shows "kv_view now (sg_store (apply_entries fc [(t1, e1), (t2, e2)] (start_storage n empty_log iv t0 None))) (le_key e1) = None \<and>
    (\<exists>s' m. recover_data fc
        (start_storage n
          (aof_crash (the (sg_aof (apply_entries fc [(t1, e1), (t2, e2)] (start_storage n empty_log iv t0 None)))) k)
          iv now None) now = (None, s') \<and>
      kv_view now (sg_store s') (le_key e1) = Some m \<and> md_value m = le_value e1)"
proof -
  let ?tes = "[(t1, e1), (t2, e2)]"
  have w: "list_all (is_write \<circ> snd) ?tes" using assms by (simp add: is_write_def)
  have a: "sg_aof (apply_entries fc ?tes (start_storage n empty_log iv t0 None)) = Some (appended fc iv t0 ?tes)"
    using apply_entries_aof [OF w, of "start_storage n empty_log iv t0 None"] by (simp add: appended_def)
  have r1: "recoverable now e1" using assms by (simp add: recoverable_def is_write_def truthy_time_def)
  have r2: "apply_aof_entry now (line_of e2) st = (None, st)" for st
    using assms
    by (simp add: apply_aof_entry_def entry_expiry_def line_of_def append_entry_def of_opt_def truthy_time_def)
  have before: "kv_view now (sg_store (apply_entries fc ?tes (start_storage n empty_log iv t0 None))) (le_key e1) = None"
    using assms by (simp add: kv_view_apply apply_entries_store log_effect_def set_meta_def update_conv' md_is_expired_def)
  let ?R = "replay_entries (apply_aof_entry now) (map line_of (map snd ?tes)) 0 0 (kv_init now)"
  have R: "rr_error ?R = None" "kv_store (rr_state ?R) = log_effect e1 []"
    using apply_line_of [OF r1, of "kv_init now"] by (simp_all add: r2 case_prod_unfold kv_init_store)
  have "same_outcome (aof_replay fc (aof_dir (aof_init (aof_crash (appended fc iv t0 ?tes) k) iv now)) (apply_aof_entry now) (kv_init now)) ?R"
    using assms(2,3) by (intro start_replay [OF assms(1)]) simp
  with before R assms show ?thesis
    unfolding a option.sel
    by (simp add: recover_log_only same_outcome_def kv_view_apply log_effect_def set_meta_def md_is_expired_def)
qed

theorem recovery_resurrects_overwritten_witness:
  "kv_view 9 (sg_store (apply_entries whole_codec [(1, sample_log ''SET'' ''a'' 1 None), (2, sample_log ''SET'' ''a'' 2 (Some 5))]
      (start_storage ''n1'' empty_log 1 0 None))) (le_key (sample_log ''SET'' ''a'' 1 None)) = None \<and>
    (\<exists>s' m. recover_data whole_codec
        (start_storage ''n1''
          (aof_crash (the (sg_aof (apply_entries whole_codec
            [(1, sample_log ''SET'' ''a'' 1 None), (2, sample_log ''SET'' ''a'' 2 (Some 5))] (start_storage ''n1'' empty_log 1 0 None)))) 0)
          1 9 None) 9 = (None, s') \<and>
      kv_view 9 (sg_store s') (le_key (sample_log ''SET'' ''a'' 1 None)) = Some m \<and>
      md_value m = le_value (sample_log ''SET'' ''a'' 1 None))"
  by (rule recovery_resurrects_overwritten [OF whole_codec_ok, of _ _ 5])
    (simp_all add: sample_log_ok, simp_all add: sample_log_def)

text \<open>The maintenance loop can lose an acknowledged write. It compacts the log with the copy of the
  data it took before saving the snapshot; an entry that another thread applied and synced in
  between is in the store but in neither file afterwards.\<close>

theorem compaction_loses_concurrent_write:
  assumes "kv_wf (sg_store s)" and "sg_snapshot s = Some sn" and "snapshot_should_snapshot sn now" and "sg_aof s = Some a"
    and "aof_handle a" and "dir_main (aof_dir a) = Some old"
    and "aof_compact_threshold a \<le> aof_entries_since_compact a"
    and "length (save_calls fc gz_size now (sn_dir sn) (fst (kv_get_all_data (sg_store s) now))) \<le> fail"
    and "le_command e = ''SET''" and "kv_view now (sg_store s) (le_key e) = None"
    and "le_expires_at e = None"
  shows "let data = fst (kv_get_all_data (sg_store s) now);
             s' = maintenance_persist fc gz_size s now fail (\<lambda>s. snd (apply_log_entry fc s now e))
         in kv_view now (sg_store s') (le_key e) \<noteq> None \<and> le_key e \<notin> set (dkeys data) \<and>
            map_option (\<lambda>sn. sn_main (sn_dir sn)) (sg_snapshot s') = Some (Some (Gz (dumps fc (snapshot_json now data)))) \<and>
            map_option (\<lambda>a. dir_main (aof_dir a)) (sg_aof s') = Some (Some (lines_text fc (compact_entries now data)))"
proof -
  let ?data = "fst (kv_get_all_data (sg_store s) now)" and ?st = "snd (kv_get_all_data (sg_store s) now)"
  obtain ok sn' where sv: "snapshot_save fc gz_size sn now now fail ?data = (ok, sn')" by fastforce
  with assms(8) save_success_dir(1) [OF assms(8)]
  have ok: "ok" and sn': "sn_main (sn_dir sn') = Some (Gz (dumps fc (snapshot_json now ?data)))"
    by (auto simp: snapshot_save_def Let_def simp del: dumps.simps)
  let ?s1 = "s\<lparr>sg_store := ?st, sg_snapshot := Some sn'\<rparr>"
  let ?s2 = "snd (apply_log_entry fc ?s1 now e)"
  have w: "is_write e" using assms(9) by (simp add: is_write_def)
  have a2: "sg_aof ?s2 = Some (aof_step fc (Append now now (line_of e) True) a)"
    using apply_log_entry_aof [OF w, of ?s1 a] assms(4) by simp
  let ?a2 = "aof_step fc (Append now now (line_of e) True) a"
  have h2: "aof_should_compact ?a2" "aof_handle ?a2" "dir_main (aof_dir ?a2) \<noteq> None"
    using assms(5-7) by (auto simp: aof_append_def Let_def aof_do_fsync_def aof_should_compact_def)
  have "aof_handle (aof_do_fsync ?a2 now)" "dir_main (aof_dir (compact_begin ?a2 now)) \<noteq> None"
    using h2 by (auto simp: compact_begin_def aof_do_fsync_def)
  then have c: "dir_main (aof_dir (aof_compact fc ?a2 now ?data)) = Some (lines_text fc (compact_entries now ?data))"
    by (auto simp: aof_compact_def compact_calls_def Let_def aof_open_file_def)
  have m: "maintenance_persist fc gz_size s now fail (\<lambda>s. snd (apply_log_entry fc s now e)) =
      ?s2\<lparr>sg_aof := Some (aof_compact fc ?a2 now ?data)\<rparr>"
    using assms(2,3) sv ok a2 h2(1) by (simp add: maintenance_persist_def case_prod_unfold Let_def)
  have "sg_snapshot ?s2 = Some sn'" using assms(9) by (simp add: apply_log_entry_def set_and_append_def)
  moreover have "kv_view now (sg_store ?s2) (le_key e) \<noteq> None"
    using assms(9,11) by (simp add: kv_view_apply apply_log_entry_store log_effect_def set_meta_def update_conv' md_is_expired_def)
  moreover have "le_key e \<notin> set (dkeys ?data)"
  proof -
    have "dget (kv_store (kv_cleanup_expired (sg_store s) now)) (le_key e) = None"
      using assms(10) dict_filter_get [of "kv_store (sg_store s)" "\<lambda>k m. \<not> md_is_expired now m" "le_key e"] assms(1)
      by (auto simp: kv_cleanup_store [OF assms(1)] kv_wf_def kv_view_apply entry_view_def
          simp del: map_of_eq_Some_iff split: option.splits if_splits)
    then show ?thesis by (simp add: kv_get_all_data_def Let_def map_of_eq_None_iff image_image case_prod_unfold)
  qed
  ultimately show ?thesis unfolding Let_def m using sn' c by simp
qed

definition busy_storage :: storage where
  "busy_storage =
     \<lparr>sg_node_id = ''n1'', sg_store = sample_store,
      sg_aof = Some ((aof_init empty_log 1 0)\<lparr>aof_entries_since_compact := 10000\<rparr>),
      sg_snapshot = Some (snapshot_init empty_snapshot_dir 300)\<rparr>"

theorem compaction_loses_concurrent_write_witness:
  "let data = fst (kv_get_all_data (sg_store busy_storage) 400);
       s' = maintenance_persist whole_codec length busy_storage 400 9
              (\<lambda>s. snd (apply_log_entry whole_codec s 400 (sample_log ''SET'' ''new'' 400 None)))
   in kv_view 400 (sg_store s') (le_key (sample_log ''SET'' ''new'' 400 None)) \<noteq> None \<and>
      le_key (sample_log ''SET'' ''new'' 400 None) \<notin> set (dkeys data) \<and>
      map_option (\<lambda>sn. sn_main (sn_dir sn)) (sg_snapshot s') = Some (Some (Gz (dumps whole_codec (snapshot_json 400 data)))) \<and>
      map_option (\<lambda>a. dir_main (aof_dir a)) (sg_aof s') = Some (Some (lines_text whole_codec (compact_entries 400 data)))"
  by (rule compaction_loses_concurrent_write [where sn = "snapshot_init empty_snapshot_dir 300"
        and a = "(aof_init empty_log 1 0)\<lparr>aof_entries_since_compact := 10000\<rparr>" and old = "[]"])
    (simp_all add: busy_storage_def kv_wf_sample_store, simp_all add: snapshot_should_snapshot_def snapshot_init_def save_calls_def Let_def
      aof_init_def aof_open_file_def sample_log_def sample_store_def kv_view_put sample_meta_def kv_view_apply kv_init_def
      kv_put_store del: dumps.simps)

end
