(* ===== verification/Bisect.thy ===== *)
theory Bisect
  imports Prelude "HOL-Library.Multiset"
begin

text \<open>
  The part of Python's \<^verbatim>\<open>bisect\<close> module the hash ring uses, as the library's own binary
  search loop: \<open>bisect_left\<close>, \<open>bisect_right\<close> and \<open>insort\<close> (which is
  \<^verbatim>\<open>insort_right\<close>). The lemmas say what the loops compute on a sorted list.
\<close>

function bisect_loop :: "('a \<Rightarrow> bool) \<Rightarrow> 'a list \<Rightarrow> nat \<Rightarrow> nat \<Rightarrow> nat" where
  "bisect_loop go_right a lo hi =
     (if lo < hi
      then (let mid = (lo + hi) div 2
            in if go_right (a ! mid) then bisect_loop go_right a (mid + 1) hi
               else bisect_loop go_right a lo mid)
      else lo)"
  by pat_completeness auto
termination
  by (relation "measure (\<lambda>(p, a, lo, hi). hi - lo)") auto

declare bisect_loop.simps [simp del]

definition bisect_left :: "'a::linorder list \<Rightarrow> 'a \<Rightarrow> nat" where
  "bisect_left a x = bisect_loop (\<lambda>y. y < x) a 0 (length a)"

definition bisect_right :: "'a::linorder list \<Rightarrow> 'a \<Rightarrow> nat" where
  "bisect_right a x = bisect_loop (\<lambda>y. \<not> x < y) a 0 (length a)"

definition py_insort :: "'a::linorder list \<Rightarrow> 'a \<Rightarrow> 'a list" where
  "py_insort a x = (let lo = bisect_right a x in take lo a @ [x] @ drop lo a)"

section \<open>The loops against a linear scan\<close>

lemma takeWhile_length_eqI:
  assumes "lo \<le> length a" and "\<And>i. i < lo \<Longrightarrow> P (a ! i)" and "lo < length a \<Longrightarrow> \<not> P (a ! lo)"
  shows "length (takeWhile P a) = lo"
proof -
  have "takeWhile P a = take lo a"
    using assms by (cases "lo < length a") (auto simp: in_set_conv_nth intro!: takeWhile_eq_take_P_nth)
  then show ?thesis using assms(1) by simp
qed

lemma bisect_loop_takeWhile:
  assumes "hi \<le> length a" and "lo \<le> hi"
    and "\<And>i j. i \<le> j \<Longrightarrow> j < length a \<Longrightarrow> P (a ! j) \<Longrightarrow> P (a ! i)"
    and "\<And>i. i < lo \<Longrightarrow> P (a ! i)"
    and "hi < length a \<Longrightarrow> \<not> P (a ! hi)"
  shows "bisect_loop P a lo hi = length (takeWhile P a)"
  using assms
proof (induction P a lo hi rule: bisect_loop.induct)
  case (1 P a lo hi)
  show ?case
  proof (cases "lo < hi")
    case False
    with "1.prems" have "lo = hi" by simp
    with "1.prems" show ?thesis
      by (subst bisect_loop.simps) (auto intro!: takeWhile_length_eqI [symmetric])
  next
    case True
    let ?mid = "(lo + hi) div 2"
    from True have m: "lo \<le> ?mid" "?mid < hi" by auto
    show ?thesis
    proof (cases "P (a ! ?mid)")
      case P: True
      have "P (a ! i)" if "i < ?mid + 1" for i
        using "1.prems"(3) [of i ?mid] that m "1.prems"(1) P by simp
      with P True m "1.prems" "1.IH"(1) [OF True refl P] show ?thesis
        by (subst bisect_loop.simps) (simp add: Let_def)
    next
      case P: False
      with True m "1.prems" "1.IH"(2) [OF True refl P] show ?thesis
        by (subst bisect_loop.simps) (simp add: Let_def)
    qed
  qed
qed

lemma bisect_left_takeWhile: "sorted a \<Longrightarrow> bisect_left a x = length (takeWhile (\<lambda>y. y < x) a)"
  unfolding bisect_left_def
  by (rule bisect_loop_takeWhile) (auto dest: sorted_nth_mono)

lemma bisect_right_takeWhile: "sorted a \<Longrightarrow> bisect_right a x = length (takeWhile (\<lambda>y. \<not> x < y) a)"
  unfolding bisect_right_def
  by (rule bisect_loop_takeWhile) (auto simp: not_less dest: sorted_nth_mono)

lemma drop_bisect_left: "sorted a \<Longrightarrow> drop (bisect_left a x) a = filter (\<lambda>y. x \<le> y) a"
proof (induction a)
  case Nil
  then show ?case by simp
next
  case (Cons y ys)
  from Cons.prems have s: "sorted ys" and le: "\<forall>z\<in>set ys. y \<le> z" by auto
  from Cons.IH [OF s] have "drop (length (takeWhile (\<lambda>y. y < x) ys)) ys = filter (\<lambda>y. x \<le> y) ys"
    by (simp add: bisect_left_takeWhile [OF s])
  moreover have "filter (\<lambda>z. x \<le> z) ys = ys" if "x \<le> y"
    using that le by (intro filter_True) (auto intro: order_trans)
  ultimately show ?case
    by (cases "y < x") (auto simp: bisect_left_takeWhile [OF Cons.prems])
qed

lemma take_bisect_left: "sorted a \<Longrightarrow> take (bisect_left a x) a = filter (\<lambda>y. y < x) a"
proof (induction a)
  case Nil
  then show ?case by simp
next
  case (Cons y ys)
  from Cons.prems have s: "sorted ys" and le: "\<forall>z\<in>set ys. y \<le> z" by auto
  from Cons.IH [OF s] have "take (length (takeWhile (\<lambda>y. y < x) ys)) ys = filter (\<lambda>y. y < x) ys"
    by (simp add: bisect_left_takeWhile [OF s])
  moreover have "filter (\<lambda>z. z < x) ys = []" if "x \<le> y"
    using that le by (force simp: filter_empty_conv)
  ultimately show ?case
    by (cases "y < x") (auto simp: bisect_left_takeWhile [OF Cons.prems])
qed

lemma bisect_left_le: "sorted a \<Longrightarrow> bisect_left a x \<le> length a"
  by (simp add: bisect_left_takeWhile length_takeWhile_le)

lemma py_insort_split:
  "sorted a \<Longrightarrow> py_insort a x = takeWhile (\<lambda>y. \<not> x < y) a @ x # dropWhile (\<lambda>y. \<not> x < y) a"
  by (simp add: py_insort_def Let_def bisect_right_takeWhile takeWhile_eq_take [symmetric]
      dropWhile_eq_drop [symmetric])

lemma mset_py_insort: "mset (py_insort a x) = add_mset x (mset a)"
proof -
  have "mset (take n a) + mset (drop n a) = mset a" for n
    by (metis append_take_drop_id mset_append)
  then show ?thesis by (simp add: py_insort_def Let_def)
qed

lemma set_py_insort [simp]: "set (py_insort a x) = insert x (set a)"
  by (metis mset_py_insort set_mset_add_mset_insert set_mset_mset)

lemma sorted_py_insort: "sorted a \<Longrightarrow> sorted (py_insort a x)"
proof -
  assume s: "sorted a"
  have t: "y \<le> x" if "y \<in> set (takeWhile (\<lambda>y. \<not> x < y) a)" for y
    using set_takeWhileD [OF that] by auto
  have d: "x \<le> y" if "y \<in> set (dropWhile (\<lambda>y. \<not> x < y) a)" for y
  proof -
    from that have ne: "dropWhile (\<lambda>y. \<not> x < y) a \<noteq> []" by (metis empty_iff list.set(1))
    have "sorted (dropWhile (\<lambda>y. \<not> x < y) a)" using s by (rule sorted_dropWhile)
    with that ne have "hd (dropWhile (\<lambda>y. \<not> x < y) a) \<le> y"
      by (cases "dropWhile (\<lambda>y. \<not> x < y) a") auto
    with hd_dropWhile [OF ne] show ?thesis by simp
  qed
  show ?thesis
    using t d s
    by (auto simp: py_insort_split sorted_append sorted_dropWhile sorted_takeWhile intro: order_trans)
qed

end
