(* ===== verification/Ring.thy ===== *)
theory Ring
  imports Bisect
begin

text \<open>
  The consistent hash ring (\<^verbatim>\<open>src/minidb/sharding/consistent_hash.py\<close>).

  The ring is a sorted list of points (hash, node), one per virtual node. The hash function
  \<^verbatim>\<open>int(sha256(key).hexdigest(), 16)\<close> is an argument \<open>h\<close> of the operations: every theorem
  holds for an arbitrary function from strings to natural numbers, so in particular for SHA-256,
  and no collision-freedom is assumed anywhere.
  \<^verbatim>\<open>add_node\<close> and \<^verbatim>\<open>remove_node\<close> always return the empty list; the model returns the new ring.
  The set \<^verbatim>\<open>_nodes\<close> is a HOL set, so \<^verbatim>\<open>get_all_nodes\<close> (whose list order Python leaves open) is
  that set.
\<close>

section \<open>The ring and its operations\<close>

type_synonym point = "nat \<times> node_id"

record ring =
  rg_virtual_nodes :: int
  rg_ring :: "point list"
  rg_nodes :: "node_id set"

definition ring_init :: "int \<Rightarrow> ring" where
  "ring_init virtual_nodes = \<lparr>rg_virtual_nodes = virtual_nodes, rg_ring = [], rg_nodes = {}\<rparr>"

definition vnode_key :: "node_id \<Rightarrow> nat \<Rightarrow> string" where
  "vnode_key node i = node @ '':'' @ str_nat i"

fun add_vnodes :: "(string \<Rightarrow> nat) \<Rightarrow> node_id \<Rightarrow> nat list \<Rightarrow> point list \<Rightarrow> point list" where
  "add_vnodes h node [] rg = rg"
| "add_vnodes h node (i # is) rg = add_vnodes h node is (py_insort rg (h (vnode_key node i), node))"

definition add_node :: "(string \<Rightarrow> nat) \<Rightarrow> ring \<Rightarrow> node_id \<Rightarrow> ring" where
  "add_node h r node =
     (if node \<in> rg_nodes r then r
      else r\<lparr>rg_nodes := insert node (rg_nodes r),
             rg_ring := add_vnodes h node [0..<nat (rg_virtual_nodes r)] (rg_ring r)\<rparr>)"

definition remove_node :: "ring \<Rightarrow> node_id \<Rightarrow> ring" where
  "remove_node r node =
     (if node \<notin> rg_nodes r then r
      else r\<lparr>rg_nodes := rg_nodes r - {node},
             rg_ring := filter (\<lambda>(hv, n). n \<noteq> node) (rg_ring r)\<rparr>)"

definition get_node :: "(string \<Rightarrow> nat) \<Rightarrow> ring \<Rightarrow> string \<Rightarrow> node_id option" where
  "get_node h r key =
     (if rg_ring r = [] then None
      else let key_hash = h key;
               idx = bisect_left (rg_ring r) (key_hash, '''');
               idx' = (if idx = length (rg_ring r) then 0 else idx)
           in Some (snd (rg_ring r ! idx')))"

fun get_nodes_loop ::
  "point list \<Rightarrow> nat \<Rightarrow> int \<Rightarrow> nat list \<Rightarrow> node_id list \<Rightarrow> node_id set \<Rightarrow> node_id list" where
  "get_nodes_loop rg idx cnt [] nodes seen = nodes"
| "get_nodes_loop rg idx cnt (i # is) nodes seen =
     (let ring_idx = (idx + i) mod length rg; node = snd (rg ! ring_idx)
      in if node \<notin> seen
         then let nodes' = nodes @ [node]
              in if int (length nodes') \<ge> cnt then nodes'
                 else get_nodes_loop rg idx cnt is nodes' (insert node seen)
         else get_nodes_loop rg idx cnt is nodes seen)"

definition get_nodes :: "(string \<Rightarrow> nat) \<Rightarrow> ring \<Rightarrow> string \<Rightarrow> int \<Rightarrow> node_id list" where
  "get_nodes h r key cnt =
     (if rg_ring r = [] then []
      else let key_hash = h key; idx = bisect_left (rg_ring r) (key_hash, '''')
           in get_nodes_loop (rg_ring r) idx cnt [0..<length (rg_ring r)] [] {})"

definition get_all_nodes :: "ring \<Rightarrow> node_id set" where
  "get_all_nodes r = rg_nodes r"

definition get_ring_state :: "ring \<Rightarrow> point list" where
  "get_ring_state r = take 20 (rg_ring r)"

definition get_node_count :: "ring \<Rightarrow> nat" where
  "get_node_count r = card (rg_nodes r)"

fun key_distribution_loop ::
  "(string \<Rightarrow> nat) \<Rightarrow> ring \<Rightarrow> string list \<Rightarrow> (node_id, int) dict \<Rightarrow> (node_id, int) dict" where
  "key_distribution_loop h r [] d = d"
| "key_distribution_loop h r (k # ks) d =
     key_distribution_loop h r ks
       (case get_node h r k of
          Some n \<Rightarrow> if n \<noteq> [] then dset n ((case dget d n of Some c \<Rightarrow> c | None \<Rightarrow> 0) + 1) d else d
        | None \<Rightarrow> d)"

definition get_key_distribution :: "(string \<Rightarrow> nat) \<Rightarrow> ring \<Rightarrow> string list \<Rightarrow> (node_id, int) dict" where
  "get_key_distribution h r sample_keys = key_distribution_loop h r sample_keys []"

section \<open>The ring invariant\<close>

text \<open>The list is sorted and holds exactly the virtual nodes of the member set, with
  multiplicity.\<close>

definition node_points :: "(string \<Rightarrow> nat) \<Rightarrow> int \<Rightarrow> node_id \<Rightarrow> point list" where
  "node_points h vn node = map (\<lambda>i. (h (vnode_key node i), node)) [0..<nat vn]"

definition ring_wf :: "(string \<Rightarrow> nat) \<Rightarrow> ring \<Rightarrow> bool" where
  "ring_wf h r \<longleftrightarrow> finite (rg_nodes r) \<and> sorted (rg_ring r) \<and>
     mset (rg_ring r) = (\<Sum>n\<in>rg_nodes r. mset (node_points h (rg_virtual_nodes r) n))"

lemma ring_wf_init: "ring_wf h (ring_init vn)"
  by (simp add: ring_wf_def ring_init_def)

lemma sorted_add_vnodes: "sorted rg \<Longrightarrow> sorted (add_vnodes h n is rg)"
  by (induction "is" arbitrary: rg) (auto simp: sorted_py_insort)

lemma mset_add_vnodes:
  "mset (add_vnodes h n is rg) = mset rg + mset (map (\<lambda>i. (h (vnode_key n i), n)) is)"
  by (induction "is" arbitrary: rg) (auto simp: mset_py_insort)

lemma ring_wf_add_node: "ring_wf h r \<Longrightarrow> ring_wf h (add_node h r n)"
  by (auto simp: ring_wf_def add_node_def sorted_add_vnodes mset_add_vnodes node_points_def)

lemma set_node_points: "p \<in> set (node_points h vn n) \<Longrightarrow> snd p = n"
  by (auto simp: node_points_def)

lemma filter_node_points:
  "filter_mset (\<lambda>(hv, m). m \<noteq> n) (mset (node_points h vn m)) =
     (if m = n then {#} else mset (node_points h vn m))"
  by (auto simp: node_points_def mset_filter [symmetric] simp del: mset_filter mset_map
      intro!: arg_cong [where f = mset] filter_False filter_True)

lemma filter_sum_points:
  "finite N \<Longrightarrow>
   filter_mset (\<lambda>(hv, m). m \<noteq> n) (\<Sum>m\<in>N. mset (node_points h vn m)) =
     (\<Sum>m\<in>N - {n}. mset (node_points h vn m))"
proof (induction N rule: finite_induct)
  case empty
  then show ?case by simp
next
  case (insert a N)
  then show ?case
    by (cases "a = n") (auto simp: filter_node_points insert_Diff_if)
qed

lemma ring_wf_remove_node: "ring_wf h r \<Longrightarrow> ring_wf h (remove_node r n)"
  by (auto simp: ring_wf_def remove_node_def filter_sum_points sorted_wrt_filter)

lemma rg_nodes_add_node [simp]: "rg_nodes (add_node h r n) = insert n (rg_nodes r)"
  by (auto simp: add_node_def)

lemma rg_nodes_remove_node [simp]: "rg_nodes (remove_node r n) = rg_nodes r - {n}"
  by (auto simp: remove_node_def)

lemma rg_virtual_nodes_frame [simp]:
  "rg_virtual_nodes (add_node h r n) = rg_virtual_nodes r"
  "rg_virtual_nodes (remove_node r n) = rg_virtual_nodes r"
  by (simp_all add: add_node_def remove_node_def)

text \<open>A well-formed ring is determined by its member set and the number of virtual nodes.\<close>

lemma ring_wf_unique:
  assumes "ring_wf h r" and "ring_wf h r'"
    and "rg_nodes r = rg_nodes r'" and "rg_virtual_nodes r = rg_virtual_nodes r'"
  shows "r = r'"
proof -
  have "mset (rg_ring r) = mset (rg_ring r')" using assms by (simp add: ring_wf_def)
  then have "rg_ring r = rg_ring r'"
    using assms(1,2) by (metis properties_for_sort ring_wf_def)
  with assms(3,4) show ?thesis by (cases r; cases r') simp
qed

lemma ring_points_members:
  assumes "ring_wf h r" and "p \<in> set (rg_ring r)"
  shows "snd p \<in> rg_nodes r"
proof -
  from assms have "finite (rg_nodes r)"
    and "p \<in># (\<Sum>n\<in>rg_nodes r. mset (node_points h (rg_virtual_nodes r) n))"
    by (auto simp: ring_wf_def simp flip: set_mset_mset)
  then obtain n where "n \<in> rg_nodes r" and "p \<in> set (node_points h (rg_virtual_nodes r) n)"
    by (auto simp: set_mset_sum)
  then show ?thesis using set_node_points by metis
qed

lemma ring_members_points:
  assumes "ring_wf h r" and "0 < rg_virtual_nodes r"
  shows "snd ` set (rg_ring r) = rg_nodes r"
proof
  show "snd ` set (rg_ring r) \<subseteq> rg_nodes r" using ring_points_members [OF assms(1)] by auto
  show "rg_nodes r \<subseteq> snd ` set (rg_ring r)"
  proof
    fix n assume n: "n \<in> rg_nodes r"
    let ?p = "(h (vnode_key n 0), n)"
    have "?p \<in> set (node_points h (rg_virtual_nodes r) n)"
      using assms(2) by (auto simp: node_points_def)
    then have "?p \<in># (\<Sum>n\<in>rg_nodes r. mset (node_points h (rg_virtual_nodes r) n))"
      using n assms(1) by (auto simp: ring_wf_def set_mset_sum)
    then have "?p \<in> set (rg_ring r)"
      using assms(1) by (metis ring_wf_def set_mset_mset)
    then show "n \<in> snd ` set (rg_ring r)" by force
  qed
qed

section \<open>Reference definitions of the lookups\<close>

text \<open>The owner of a key is the node of its clockwise successor: the first point whose hash is
  not below the key's, or the first point of the ring when there is none. Replicas are the first
  distinct nodes met walking clockwise from there.\<close>

definition successor :: "point list \<Rightarrow> nat \<Rightarrow> point" where
  "successor rg hv = hd (filter (\<lambda>p. hv \<le> fst p) rg @ rg)"

fun first_distinct :: "'a set \<Rightarrow> 'a list \<Rightarrow> 'a list" where
  "first_distinct S [] = []"
| "first_distinct S (x # xs) = (if x \<in> S then first_distinct S xs else x # first_distinct (insert x S) xs)"

definition clockwise :: "point list \<Rightarrow> nat \<Rightarrow> node_id list" where
  "clockwise rg hv = map snd (filter (\<lambda>p. hv \<le> fst p) rg @ filter (\<lambda>p. fst p < hv) rg)"

lemma set_first_distinct: "set (first_distinct S xs) = set xs - S"
  by (induction S xs rule: first_distinct.induct) auto

lemma distinct_first_distinct: "distinct (first_distinct S xs)"
  by (induction S xs rule: first_distinct.induct) (auto simp: set_first_distinct)

lemma point_ge_iff: "(hv, '''') \<le> p \<longleftrightarrow> hv \<le> fst p" for p :: point
  by (cases p) auto

lemma drop_bisect_ring:
  "sorted rg \<Longrightarrow> drop (bisect_left rg (hv, '''')) rg = filter (\<lambda>p. hv \<le> fst p) rg" for rg :: "point list"
  by (simp only: drop_bisect_left point_ge_iff)

lemma get_node_successor:
  assumes "ring_wf h r"
  shows "get_node h r key = (if rg_ring r = [] then None else Some (snd (successor (rg_ring r) (h key))))"
proof -
  let ?rg = "rg_ring r" and ?i = "bisect_left (rg_ring r) (h key, '''')"
  have s: "sorted ?rg" using assms by (simp add: ring_wf_def)
  have "?rg ! (if ?i = length ?rg then 0 else ?i) = successor ?rg (h key)" if ne: "?rg \<noteq> []"
  proof (cases "?i = length ?rg")
    case True
    then have "filter (\<lambda>p. h key \<le> fst p) ?rg = []" using drop_bisect_ring [OF s, of "h key"] by simp
    with True ne show ?thesis by (simp add: successor_def hd_conv_nth)
  next
    case False
    then have lt: "?i < length ?rg" using bisect_left_le [OF s, of "(h key, '''')"] by simp
    then have "?rg ! ?i = hd (drop ?i ?rg)" and "drop ?i ?rg \<noteq> []" by (simp_all add: hd_drop_conv_nth)
    with False show ?thesis unfolding drop_bisect_ring [OF s] successor_def by simp
  qed
  then show ?thesis by (simp add: get_node_def Let_def)
qed

lemma successor_in: "rg \<noteq> [] \<Longrightarrow> successor rg hv \<in> set rg"
  unfolding successor_def
  by (cases "filter (\<lambda>p. hv \<le> fst p) rg") (auto dest: filter_eq_ConsD)

subsection \<open>Ownership\<close>

lemma get_node_member:
  assumes "ring_wf h r" and "get_node h r key = Some n"
  shows "n \<in> rg_nodes r"
  using assms ring_points_members [OF assms(1) successor_in]
  by (auto simp: get_node_successor split: if_splits)

lemma hd_filter_keep: "xs \<noteq> [] \<Longrightarrow> P (hd xs) \<Longrightarrow> hd (filter P xs) = hd xs \<and> filter P xs \<noteq> []"
  by (cases xs) auto

text \<open>Dropping points of one node does not move a key that another node owns.\<close>

lemma successor_filter:
  assumes "rg \<noteq> []" and "P (successor rg hv)"
  shows "filter P rg \<noteq> [] \<and> successor (filter P rg) hv = successor rg hv"
proof (cases "filter (\<lambda>p. hv \<le> fst p) rg = []")
  case True
  then have "filter (\<lambda>p. hv \<le> fst p) (filter P rg) = []" by (auto simp: filter_empty_conv)
  with True assms hd_filter_keep [OF assms(1), of P] show ?thesis by (simp add: successor_def)
next
  case False
  let ?g = "filter (\<lambda>p. hv \<le> fst p) rg"
  have sw: "filter (\<lambda>p. hv \<le> fst p) (filter P rg) = filter P ?g"
    by (auto intro: filter_cong)
  from False have hd: "successor rg hv = hd ?g" by (simp add: successor_def)
  with assms(2) hd_filter_keep [OF False, of P] have "hd (filter P ?g) = hd ?g" "filter P ?g \<noteq> []"
    by auto
  then show ?thesis using sw hd
    by (auto simp: successor_def filter_empty_conv)
qed

lemma get_node_remove_other:
  assumes "ring_wf h r" and "get_node h r key = Some m" and "m \<noteq> n"
  shows "get_node h (remove_node r n) key = Some m"
proof (cases "n \<in> rg_nodes r")
  case True
  from assms have ne: "rg_ring r \<noteq> []" and m: "snd (successor (rg_ring r) (h key)) = m"
    by (auto simp: get_node_successor split: if_splits)
  then have "(\<lambda>(hv, k). k \<noteq> n) (successor (rg_ring r) (h key))"
    using assms(3) by (auto simp: split_def)
  from successor_filter [of _ "\<lambda>(hv, k). k \<noteq> n", OF ne this] show ?thesis
    unfolding get_node_successor [OF ring_wf_remove_node [OF assms(1)]]
    using True m by (simp add: remove_node_def)
next
  case False
  with assms(2) show ?thesis by (simp add: remove_node_def)
qed

lemma remove_add_node: "ring_wf h r \<Longrightarrow> n \<notin> rg_nodes r \<Longrightarrow> remove_node (add_node h r n) n = r"
  by (rule ring_wf_unique [OF ring_wf_remove_node [OF ring_wf_add_node]]) auto

lemma get_node_None: "ring_wf h r \<Longrightarrow> get_node h r key = None \<longleftrightarrow> rg_ring r = []"
  by (simp add: get_node_successor)

lemma remove_node_empty: "rg_ring r = [] \<Longrightarrow> rg_ring (remove_node r n) = []"
  by (simp add: remove_node_def)

text \<open>C15: Minimal key movement. When a node joins the ring, the owner of a key either stays what
  it was or becomes the new node; when a node leaves, every key it did not own keeps its
  owner. This holds for every hash function, with any collisions.\<close>

theorem ring_minimal_movement:
  assumes "ring_wf h r"
  shows "(n \<notin> rg_nodes r \<longrightarrow>
            get_node h (add_node h r n) key = Some n \<or>
            get_node h (add_node h r n) key = get_node h r key) \<and>
         (\<forall>m. get_node h r key = Some m \<and> m \<noteq> n \<longrightarrow> get_node h (remove_node r n) key = Some m)"
proof (intro conjI impI allI)
  assume n: "n \<notin> rg_nodes r"
  let ?a = "add_node h r n"
  have wf: "ring_wf h ?a" using assms by (rule ring_wf_add_node)
  have undo: "remove_node ?a n = r" using assms n by (rule remove_add_node)
  show "get_node h ?a key = Some n \<or> get_node h ?a key = get_node h r key"
  proof (cases "get_node h ?a key")
    case None
    then have "rg_ring r = []" using remove_node_empty [of ?a n] undo by (simp add: get_node_None [OF wf])
    with None show ?thesis by (simp add: get_node_def)
  next
    case (Some m)
    then show ?thesis using get_node_remove_other [OF wf Some, of n] undo by (cases "m = n") simp_all
  qed
next
  fix m assume "get_node h r key = Some m \<and> m \<noteq> n"
  then show "get_node h (remove_node r n) key = Some m"
    using get_node_remove_other [OF assms] by blast
qed

definition sample_ring :: ring where
  "sample_ring = add_node length (add_node length (ring_init 2) ''a'') ''bcd''"

lemma ring_wf_sample: "ring_wf length sample_ring"
  by (simp add: sample_ring_def ring_wf_add_node ring_wf_init)

theorem ring_minimal_movement_witness:
  "get_node length (add_node length sample_ring ''efghij'') ''key'' = Some ''efghij'' \<or>
   get_node length (add_node length sample_ring ''efghij'') ''key'' = get_node length sample_ring ''key''"
proof -
  have "''efghij'' \<notin> rg_nodes sample_ring" by (simp add: sample_ring_def ring_init_def)
  then show ?thesis using ring_minimal_movement [OF ring_wf_sample, of "''efghij''" "''key''"] by blast
qed

subsection \<open>Replica sets\<close>

lemma get_nodes_loop_eq:
  "get_nodes_loop rg idx cnt is nodes seen =
     nodes @ take (max 1 (nat (cnt - int (length nodes))))
       (first_distinct seen (map (\<lambda>i. snd (rg ! ((idx + i) mod length rg))) is))"
proof (induction "is" arbitrary: nodes seen)
  case Nil
  then show ?case by simp
next
  case (Cons i "is")
  let ?n = "snd (rg ! ((idx + i) mod length rg))"
  show ?case
  proof (cases "cnt - int (length nodes) \<le> 1")
    case True
    then have "max 1 (nat (cnt - int (length nodes))) = Suc 0" by auto
    with True show ?thesis by (simp add: Cons.IH Let_def)
  next
    case False
    then have "max 1 (nat (cnt - int (length nodes))) =
        Suc (max 1 (nat (cnt - int (length (nodes @ [?n])))))" by auto
    with False show ?thesis by (simp add: Cons.IH Let_def)
  qed
qed

lemma walk_clockwise:
  assumes "sorted rg" and "rg \<noteq> []"
  shows "map (\<lambda>i. snd (rg ! ((bisect_left rg (hv, '''') + i) mod length rg))) [0..<length rg] =
           clockwise rg hv"
proof -
  let ?i = "bisect_left rg (hv, '''')"
  have "map (\<lambda>i. snd (rg ! ((?i + i) mod length rg))) [0..<length rg] = map snd (rotate ?i rg)"
    by (rule nth_equalityI) (auto simp: nth_rotate)
  also have "rotate ?i rg = drop ?i rg @ take ?i rg"
    using bisect_left_le [OF assms(1), of "(hv, '''')"]
    by (cases "?i = length rg") (auto simp: rotate_drop_take)
  also have "take ?i rg = filter (\<lambda>p. fst p < hv) rg"
    using take_bisect_left [OF assms(1), of "(hv, '''')"] point_ge_iff
    by (simp add: not_le [symmetric])
  finally show ?thesis by (simp add: drop_bisect_ring [OF assms(1)] clockwise_def)
qed

lemma get_nodes_clockwise:
  assumes "ring_wf h r"
  shows "get_nodes h r key cnt = take (max 1 (nat cnt)) (first_distinct {} (clockwise (rg_ring r) (h key)))"
  using assms walk_clockwise [of "rg_ring r" "h key"]
  by (auto simp: get_nodes_def Let_def get_nodes_loop_eq ring_wf_def clockwise_def)

lemma set_clockwise: "set (clockwise rg hv) = snd ` set rg"
proof -
  have "{p \<in> set rg. hv \<le> fst p} \<union> {p \<in> set rg. fst p < hv} = set rg" by auto
  then show ?thesis by (simp add: clockwise_def image_Un [symmetric])
qed

lemma hd_clockwise: "rg \<noteq> [] \<Longrightarrow> hd (clockwise rg hv) = snd (successor rg hv)"
proof (cases "filter (\<lambda>p. hv \<le> fst p) rg = []")
  case True
  assume "rg \<noteq> []"
  from True have "filter (\<lambda>p. fst p < hv) rg = rg" by (auto simp: filter_empty_conv filter_id_conv)
  with True \<open>rg \<noteq> []\<close> show ?thesis by (simp add: clockwise_def successor_def hd_map)
next
  case False
  then show ?thesis by (simp add: clockwise_def successor_def hd_map)
qed

lemma get_nodes_distinct: "ring_wf h r \<Longrightarrow> distinct (get_nodes h r key cnt)"
  by (simp add: get_nodes_clockwise distinct_first_distinct)

lemma get_nodes_subset: "ring_wf h r \<Longrightarrow> set (get_nodes h r key cnt) \<subseteq> rg_nodes r"
  using ring_points_members [of h r]
  by (auto simp: get_nodes_clockwise set_first_distinct set_clockwise dest!: in_set_takeD)

lemma hd_first_distinct: "xs \<noteq> [] \<Longrightarrow> hd (first_distinct {} xs) = hd xs \<and> first_distinct {} xs \<noteq> []"
  by (cases xs) auto

lemma get_nodes_hd:
  assumes "ring_wf h r"
  shows "get_node h r key =
           (case get_nodes h r key cnt of [] \<Rightarrow> None | n # _ \<Rightarrow> Some n)"
proof (cases "rg_ring r = []")
  case True
  then show ?thesis by (simp add: get_node_def get_nodes_def)
next
  case False
  then have "clockwise (rg_ring r) (h key) \<noteq> []"
    by (metis image_is_empty set_clockwise set_empty)
  from hd_first_distinct [OF this] obtain ns where
    "first_distinct {} (clockwise (rg_ring r) (h key)) = snd (successor (rg_ring r) (h key)) # ns"
    using hd_clockwise [OF False] by (metis list.collapse)
  moreover have "max 1 (nat cnt) = Suc (max 1 (nat cnt) - 1)" by simp
  ultimately have "get_nodes h r key cnt =
      snd (successor (rg_ring r) (h key)) # take (max 1 (nat cnt) - 1) ns"
    unfolding get_nodes_clockwise [OF assms] by (metis take_Suc_Cons)
  with False show ?thesis by (simp add: get_node_successor [OF assms])
qed

lemma get_nodes_length:
  assumes "ring_wf h r" and "0 < rg_virtual_nodes r"
  shows "length (get_nodes h r key cnt) = min (max 1 (nat cnt)) (card (rg_nodes r))"
proof -
  have "card (set (first_distinct {} (clockwise (rg_ring r) (h key)))) = card (rg_nodes r)"
    by (simp add: set_first_distinct set_clockwise ring_members_points [OF assms])
  then show ?thesis
    by (simp add: get_nodes_clockwise [OF assms(1)] distinct_card [OF distinct_first_distinct])
qed

text \<open>C16: Replica sets. For every key and requested count, \<open>get_nodes\<close> returns the first distinct nodes met when the points of
  the ring are visited clockwise from the hash of the key, in that order; they are members
  of the ring, as many as requested (at least one, at most the number of members), and the first
  of them is the key's owner as \<open>get_node\<close> reports it.\<close>

theorem get_nodes_spec:
  assumes "ring_wf h r" and "0 < rg_virtual_nodes r"
  shows "get_nodes h r key cnt = take (max 1 (nat cnt)) (first_distinct {} (clockwise (rg_ring r) (h key))) \<and>
         distinct (get_nodes h r key cnt) \<and> set (get_nodes h r key cnt) \<subseteq> rg_nodes r \<and>
         length (get_nodes h r key cnt) = min (max 1 (nat cnt)) (card (rg_nodes r)) \<and>
         get_node h r key = (case get_nodes h r key cnt of [] \<Rightarrow> None | n # _ \<Rightarrow> Some n)"
  using get_nodes_clockwise [OF assms(1)] get_nodes_distinct [OF assms(1)] get_nodes_subset [OF assms(1)] get_nodes_length [OF assms]
    get_nodes_hd [OF assms(1)] by blast

theorem get_nodes_spec_witness:
  "length (get_nodes length sample_ring ''key'' 3) = 2 \<and> distinct (get_nodes length sample_ring ''key'' 3)"
proof -
  have "0 < rg_virtual_nodes sample_ring" and "card (rg_nodes sample_ring) = 2"
    by (simp_all add: sample_ring_def ring_init_def)
  moreover from this have "length (get_nodes length sample_ring ''key'' 3) = min (max 1 (nat 3)) (card (rg_nodes sample_ring))"
    "distinct (get_nodes length sample_ring ''key'' 3)" using get_nodes_spec [OF ring_wf_sample, of "''key''" 3] by blast+
  ultimately show ?thesis by (simp only:) simp
qed

section \<open>Histories\<close>

text \<open>Membership changes reach the nodes of a cluster in different orders.\<close>

datatype ring_event = Join node_id | Leave node_id

fun ring_apply :: "(string \<Rightarrow> nat) \<Rightarrow> ring_event \<Rightarrow> ring \<Rightarrow> ring" where
  "ring_apply h (Join n) r = add_node h r n"
| "ring_apply h (Leave n) r = remove_node r n"

lemma ring_wf_apply: "ring_wf h r \<Longrightarrow> ring_wf h (ring_apply h e r)"
  by (cases e) (auto simp: ring_wf_add_node ring_wf_remove_node)

lemma ring_wf_run: "ring_wf h r \<Longrightarrow> ring_wf h (fold (ring_apply h) es r)"
  by (induction es arbitrary: r) (auto simp: ring_wf_apply)

lemma ring_vn_run: "rg_virtual_nodes (fold (ring_apply h) es r) = rg_virtual_nodes r"
proof (induction es arbitrary: r)
  case (Cons e es)
  then show ?case by (cases e) auto
qed simp

text \<open>Agreement of rings. Whatever joins and leaves two nodes have processed, in whatever
  order, if they end with the same member set they have the same ring, hence the same owner and
  the same replica list for every key.\<close>

theorem ring_history_independent:
  assumes "rg_nodes (fold (ring_apply h) es (ring_init vn)) = rg_nodes (fold (ring_apply h) fs (ring_init vn))"
  shows "fold (ring_apply h) es (ring_init vn) = fold (ring_apply h) fs (ring_init vn)"
  using ring_wf_unique [OF ring_wf_run ring_wf_run assms, OF ring_wf_init ring_wf_init]
  by (simp add: ring_vn_run)

theorem ring_history_independent_witness:
  "fold (ring_apply length) [Join ''a'', Join ''b'', Leave ''a'', Join ''c''] (ring_init 3) =
   fold (ring_apply length) [Join ''c'', Join ''b''] (ring_init 3)"
  by (rule ring_history_independent) (auto simp: ring_init_def)

section \<open>The placement interface\<close>

text \<open>What the partition manager, the router and the migration manager rely on.\<close>

locale placement =
  fixes owner :: "'r \<Rightarrow> string \<Rightarrow> node_id option"
    and replicas :: "'r \<Rightarrow> string \<Rightarrow> int \<Rightarrow> node_id list"
    and members :: "'r \<Rightarrow> node_id set"
    and ok :: "'r \<Rightarrow> bool"
  assumes replicas_distinct: "ok r \<Longrightarrow> distinct (replicas r k c)"
    and replicas_members: "ok r \<Longrightarrow> set (replicas r k c) \<subseteq> members r"
    and owner_first: "ok r \<Longrightarrow> owner r k = (case replicas r k c of [] \<Rightarrow> None | n # _ \<Rightarrow> Some n)"
    and members_finite: "ok r \<Longrightarrow> finite (members r)"
begin

lemma owner_in_replicas: "ok r \<Longrightarrow> owner r k = Some n \<Longrightarrow> n \<in> set (replicas r k c)"
  using owner_first [of r k c] by (auto split: list.splits)

lemma owner_member: "ok r \<Longrightarrow> owner r k = Some n \<Longrightarrow> n \<in> members r"
  using owner_in_replicas replicas_members by blast

lemma owner_None_iff: "ok r \<Longrightarrow> owner r k = None \<longleftrightarrow> replicas r k c = []"
  using owner_first [of r k c] by (auto split: list.splits)

lemma replicas_length_le: "ok r \<Longrightarrow> length (replicas r k c) \<le> card (members r)"
  by (metis card_mono distinct_card members_finite replicas_distinct replicas_members)

lemma find_replica_owner_first:
  assumes "ok r"
  shows "(case owner r k of Some n \<Rightarrow> if P n then Some n else find P (replicas r k c) | None \<Rightarrow> None) =
           find P (replicas r k c)"
  using owner_first [OF assms, of k c] by (auto split: list.splits)

end

interpretation ringp: placement "get_node h" "get_nodes h" rg_nodes "ring_wf h" for h
  by unfold_locales
    ((erule get_nodes_distinct get_nodes_subset get_nodes_hd | simp add: ring_wf_def)+)

end
