(* ===== verification/Partition.thy ===== *)
theory Partition
  imports Ring Config
begin

text \<open>
  The two thin clients of the ring: the partition manager
  (\<^verbatim>\<open>src/minidb/sharding/partition.py\<close>) and the shard router
  (\<^verbatim>\<open>src/minidb/sharding/router.py\<close>). Their lemmas rest on the placement interface of the ring
  (the facts \<open>ringp\<close>), not on how the ring computes.

  The node creates one ring object and hands it to the partition manager, the router and the
  migration manager, so the managers' state does not contain a ring of its own: the operations
  take the shared ring as an argument. The ownership callback of the partition manager is stored
  and never called; it has no counterpart.
\<close>

section \<open>Partition manager\<close>

record partition_manager =
  pm_local_node_id :: node_id
  pm_replication_factor :: int

definition pm_get_owner :: "(string \<Rightarrow> nat) \<Rightarrow> ring \<Rightarrow> string \<Rightarrow> node_id option" where
  "pm_get_owner h r key = get_node h r key"

definition pm_get_replicas :: "(string \<Rightarrow> nat) \<Rightarrow> partition_manager \<Rightarrow> ring \<Rightarrow> string \<Rightarrow> node_id list" where
  "pm_get_replicas h pm r key = get_nodes h r key (pm_replication_factor pm)"

definition pm_is_local_key :: "(string \<Rightarrow> nat) \<Rightarrow> partition_manager \<Rightarrow> ring \<Rightarrow> string \<Rightarrow> bool" where
  "pm_is_local_key h pm r key = (pm_local_node_id pm \<in> set (pm_get_replicas h pm r key))"

definition pm_is_primary_owner :: "(string \<Rightarrow> nat) \<Rightarrow> partition_manager \<Rightarrow> ring \<Rightarrow> string \<Rightarrow> bool" where
  "pm_is_primary_owner h pm r key = (pm_get_owner h r key = Some (pm_local_node_id pm))"

definition pm_add_node :: "(string \<Rightarrow> nat) \<Rightarrow> ring \<Rightarrow> node_id \<Rightarrow> ring" where
  "pm_add_node h r node = add_node h r node"

definition pm_remove_node :: "ring \<Rightarrow> node_id \<Rightarrow> ring" where
  "pm_remove_node r node = remove_node r node"

definition pm_get_local_key_range :: "partition_manager \<Rightarrow> string list" where
  "pm_get_local_key_range pm = []"

record partition_info =
  pi_local_node :: node_id
  pi_replication_factor :: int
  pi_nodes :: "node_id set"
  pi_ring_sample :: "point list"

definition pm_get_partition_info :: "partition_manager \<Rightarrow> ring \<Rightarrow> partition_info" where
  "pm_get_partition_info pm r =
     \<lparr>pi_local_node = pm_local_node_id pm, pi_replication_factor = pm_replication_factor pm,
      pi_nodes = get_all_nodes r, pi_ring_sample = get_ring_state r\<rparr>"

section \<open>Shard router\<close>

text \<open>The callbacks of \<^verbatim>\<open>set_callbacks\<close> are optional functions; the node installs none, so the
  dictionaries are used.\<close>

record router =
  rt_local_node_id :: node_id
  rt_replication_factor :: int
  rt_node_addresses :: "(node_id, string) dict"
  rt_node_health :: "(node_id, bool) dict"
  rt_get_node_address :: "(node_id \<Rightarrow> string option) option"
  rt_is_node_healthy :: "(node_id \<Rightarrow> bool) option"

definition router_init :: "node_id \<Rightarrow> int \<Rightarrow> router" where
  "router_init local rf =
     \<lparr>rt_local_node_id = local, rt_replication_factor = rf, rt_node_addresses = [],
      rt_node_health = [], rt_get_node_address = None, rt_is_node_healthy = None\<rparr>"

definition router_set_callbacks ::
  "router \<Rightarrow> (node_id \<Rightarrow> string option) option \<Rightarrow> (node_id \<Rightarrow> bool) option \<Rightarrow> router" where
  "router_set_callbacks rt f g = rt\<lparr>rt_get_node_address := f, rt_is_node_healthy := g\<rparr>"

definition update_node_address :: "router \<Rightarrow> node_id \<Rightarrow> string \<Rightarrow> router" where
  "update_node_address rt node address = rt\<lparr>rt_node_addresses := dset node address (rt_node_addresses rt)\<rparr>"

definition router_remove_node :: "router \<Rightarrow> node_id \<Rightarrow> router" where
  "router_remove_node rt node =
     rt\<lparr>rt_node_addresses := ddel node (rt_node_addresses rt),
        rt_node_health := ddel node (rt_node_health rt)\<rparr>"

definition set_node_health :: "router \<Rightarrow> node_id \<Rightarrow> bool \<Rightarrow> router" where
  "set_node_health rt node is_healthy = rt\<lparr>rt_node_health := dset node is_healthy (rt_node_health rt)\<rparr>"

definition router_is_healthy :: "router \<Rightarrow> node_id \<Rightarrow> bool" where
  "router_is_healthy rt node =
     (case rt_is_node_healthy rt of
        Some f \<Rightarrow> f node
      | None \<Rightarrow> (case dget (rt_node_health rt) node of Some b \<Rightarrow> b | None \<Rightarrow> True))"

definition router_get_address :: "router \<Rightarrow> node_id \<Rightarrow> string option" where
  "router_get_address rt node =
     (case rt_get_node_address rt of
        Some f \<Rightarrow> f node
      | None \<Rightarrow> dget (rt_node_addresses rt) node)"

text \<open>\<^verbatim>\<open>if address:\<close> rejects \<^verbatim>\<open>None\<close> and the empty string.\<close>

definition truthy_address :: "string option \<Rightarrow> bool" where
  "truthy_address a = (a \<noteq> None \<and> a \<noteq> Some '''')"

definition route_to :: "router \<Rightarrow> node_id \<Rightarrow> (node_id \<times> string) option" where
  "route_to rt node =
     (if router_is_healthy rt node
      then let address = router_get_address rt node
           in if truthy_address address then Some (node, the address) else None
      else None)"

fun first_route :: "router \<Rightarrow> node_id list \<Rightarrow> (node_id \<times> string) option" where
  "first_route rt [] = None"
| "first_route rt (n # ns) = (case route_to rt n of Some p \<Rightarrow> Some p | None \<Rightarrow> first_route rt ns)"

definition route_write :: "(string \<Rightarrow> nat) \<Rightarrow> router \<Rightarrow> ring \<Rightarrow> string \<Rightarrow> (node_id \<times> string) option" where
  "route_write h rt r key =
     (case get_node h r key of
        None \<Rightarrow> None
      | Some owner \<Rightarrow>
          if owner = '''' then None
          else (case route_to rt owner of
                  Some p \<Rightarrow> Some p
                | None \<Rightarrow> first_route rt (get_nodes h r key (rt_replication_factor rt))))"

definition healthy_routes :: "router \<Rightarrow> node_id list \<Rightarrow> (node_id \<times> string) list" where
  "healthy_routes rt replicas =
     List.map_filter
       (\<lambda>n. if router_is_healthy rt n
            then let address = (if n \<noteq> rt_local_node_id rt then router_get_address rt n else Some ''local'')
                 in if truthy_address address then Some (n, the address) else None
            else None) replicas"

definition route_read ::
  "(string \<Rightarrow> nat) \<Rightarrow> router \<Rightarrow> ring \<Rightarrow> string \<Rightarrow> consistency_level \<Rightarrow> bool \<Rightarrow> (node_id \<times> string) list" where
  "route_read h rt r key consistency prefer_local =
     (let replicas = get_nodes h r key (rt_replication_factor rt)
      in if consistency = STRONG
         then (case get_node h r key of
                 None \<Rightarrow> []
               | Some owner \<Rightarrow>
                   if owner = '''' then []
                   else (case route_to rt owner of Some p \<Rightarrow> [p] | None \<Rightarrow> []))
         else if consistency = ANY \<or> consistency = ONE
         then if prefer_local \<and> rt_local_node_id rt \<in> set replicas
              then [(rt_local_node_id rt, ''local'')]
              else (case first_route rt replicas of Some p \<Rightarrow> [p] | None \<Rightarrow> [])
         else let healthy = healthy_routes rt replicas;
                  ordered = (if prefer_local
                             then sort_key (\<lambda>p. if fst p = rt_local_node_id rt then (0::nat) else 1) healthy
                             else healthy)
              in if consistency = QUORUM then take (length replicas div 2 + 1) ordered else ordered)"

definition should_handle_locally :: "(string \<Rightarrow> nat) \<Rightarrow> router \<Rightarrow> ring \<Rightarrow> string \<Rightarrow> bool" where
  "should_handle_locally h rt r key =
     (rt_local_node_id rt \<in> set (get_nodes h r key (rt_replication_factor rt)))"

definition router_is_primary_owner :: "(string \<Rightarrow> nat) \<Rightarrow> router \<Rightarrow> ring \<Rightarrow> string \<Rightarrow> bool" where
  "router_is_primary_owner h rt r key = (get_node h r key = Some (rt_local_node_id rt))"

record routing_info =
  ri_key :: string
  ri_primary_owner :: "node_id option"
  ri_replicas :: "node_id list"
  ri_is_local :: bool
  ri_is_primary :: bool
  ri_healthy_replicas :: "node_id list"

definition get_routing_info :: "(string \<Rightarrow> nat) \<Rightarrow> router \<Rightarrow> ring \<Rightarrow> string \<Rightarrow> routing_info" where
  "get_routing_info h rt r key =
     (let owner = get_node h r key; replicas = get_nodes h r key (rt_replication_factor rt)
      in \<lparr>ri_key = key, ri_primary_owner = owner, ri_replicas = replicas,
          ri_is_local = (rt_local_node_id rt \<in> set replicas),
          ri_is_primary = (owner = Some (rt_local_node_id rt)),
          ri_healthy_replicas = filter (router_is_healthy rt) replicas\<rparr>)"

definition get_all_routes :: "router \<Rightarrow> (node_id, string) dict" where
  "get_all_routes rt = rt_node_addresses rt"

section \<open>Routing decisions\<close>

text \<open>A primary owner is always one of the replicas.\<close>

lemma pm_primary_is_local:
  "ring_wf h r \<Longrightarrow> pm_is_primary_owner h pm r key \<Longrightarrow> pm_is_local_key h pm r key"
  by (auto simp: pm_is_primary_owner_def pm_is_local_key_def pm_get_owner_def pm_get_replicas_def
      intro: ringp.owner_in_replicas)

lemma route_to_Some:
  "route_to rt n = Some (m, a) \<Longrightarrow> m = n \<and> router_is_healthy rt n \<and> router_get_address rt n = Some a \<and> a \<noteq> ''''"
  by (auto simp: route_to_def truthy_address_def Let_def split: if_splits)

lemma first_route_find:
  "first_route rt ns = (case find (\<lambda>n. route_to rt n \<noteq> None) ns of None \<Rightarrow> None | Some n \<Rightarrow> route_to rt n)"
  by (induction ns) (auto split: option.splits)

text \<open>Write routing. Trying the owner first and then the replica list is the same as taking
  the first routable node of the replica list: a write goes to the first node, in clockwise
  order from the key, that is healthy and has an address, and there is no route exactly when no
  replica is routable.\<close>

theorem route_write_first_routable:
  assumes "ring_wf h r" and "'''' \<notin> rg_nodes r"
  shows "route_write h rt r key =
           (case find (\<lambda>n. route_to rt n \<noteq> None) (get_nodes h r key (rt_replication_factor rt)) of
              None \<Rightarrow> None | Some n \<Rightarrow> route_to rt n)"
proof (cases "get_node h r key")
  case None
  then show ?thesis
    using ringp.owner_None_iff [OF assms(1), of key "rt_replication_factor rt"]
    by (simp add: route_write_def)
next
  case (Some owner)
  then have "owner \<noteq> ''''" using ringp.owner_member [OF assms(1)] assms(2) by blast
  moreover obtain ns where "get_nodes h r key (rt_replication_factor rt) = owner # ns"
    using Some ringp.owner_first [OF assms(1), of key "rt_replication_factor rt"]
    by (auto split: list.splits)
  ultimately show ?thesis using Some by (auto simp: route_write_def first_route_find split: option.splits)
qed

definition sample_router :: router where
  "sample_router =
     set_node_health (update_node_address (update_node_address (router_init ''a'' 2) ''a'' ''h:1'') ''bcd'' ''h:2'')
       ''a'' False"

theorem route_write_first_routable_witness:
  "route_write length sample_router sample_ring ''key'' = Some (''bcd'', ''h:2'')"
proof -
  have "'''' \<notin> rg_nodes sample_ring" by (simp add: sample_ring_def ring_init_def)
  note eq = route_write_first_routable [OF ring_wf_sample this, of sample_router "''key''"]
  show ?thesis unfolding eq by code_simp
qed

end
