(* ===== verification/Election.thy ===== *)
theory Election
  imports Log
begin

text \<open>
  The election manager (\<^verbatim>\<open>ElectionManager\<close> of \<^verbatim>\<open>src/minidb/cluster/election.py\<close>): its state, the two
  halves of \<^verbatim>\<open>_start_election\<close> (before and after the votes are collected, the lock being released in
  between), heartbeats, votes, stepping down, the replicated log and its commit rule. \<open>rt\<close> arguments
  are the timeouts \<^verbatim>\<open>_random_timeout\<close> draws, \<open>now\<close> arguments clock readings. The state machine the log
  entries are applied to is a parameter \<open>apply_entry\<close>; an exception it raises is caught and dropped, so
  it is a total function on the state.
\<close>

section \<open>State\<close>

record election =
  el_node_id :: node_id
  el_timeout_min :: time
  el_timeout_max :: time
  el_heartbeat_interval :: time
  el_current_term :: int
  el_voted_for :: "node_id option"
  el_role :: node_role
  el_leader_id :: "node_id option"
  el_log :: "log_entry list"
  el_commit_index :: int
  el_last_applied :: int
  el_next_index :: "(node_id, int) dict"
  el_match_index :: "(node_id, int) dict"
  el_last_heartbeat :: time
  el_election_timeout :: time

definition election_init :: "node_id \<Rightarrow> time \<Rightarrow> time \<Rightarrow> time \<Rightarrow> time \<Rightarrow> time \<Rightarrow> election" where
  "election_init n tmin tmax hb now rt =
     \<lparr>el_node_id = n, el_timeout_min = tmin, el_timeout_max = tmax, el_heartbeat_interval = hb,
      el_current_term = 0, el_voted_for = None, el_role = FOLLOWER, el_leader_id = None, el_log = [],
      el_commit_index = 0, el_last_applied = 0, el_next_index = [], el_match_index = [],
      el_last_heartbeat = now, el_election_timeout = rt\<rparr>"

section \<open>Elections\<close>

definition should_start_election :: "election \<Rightarrow> time \<Rightarrow> bool" where
  "should_start_election el now =
     (if el_role el = LEADER then False else now - el_last_heartbeat el > el_election_timeout el)"

definition last_log_term :: "log_entry list \<Rightarrow> int" where
  "last_log_term lg = (if lg = [] then 0 else le_term (last lg))"

record vote_request =
  vr_term :: int
  vr_last_log_index :: int
  vr_last_log_term :: int

definition start_election :: "election \<Rightarrow> time \<Rightarrow> vote_request \<times> election" where
  "start_election el rt =
     (let el' = el\<lparr>el_current_term := el_current_term el + 1,
                   el_role := CANDIDATE,
                   el_voted_for := Some (el_node_id el),
                   el_election_timeout := rt\<rparr>
      in (\<lparr>vr_term = el_current_term el', vr_last_log_index = int (length (el_log el')),
           vr_last_log_term = last_log_term (el_log el')\<rparr>, el'))"

definition become_leader :: "election \<Rightarrow> election" where
  "become_leader el =
     el\<lparr>el_role := LEADER, el_leader_id := Some (el_node_id el), el_next_index := [], el_match_index := []\<rparr>"

definition required_majority :: "int \<Rightarrow> int" where
  "required_majority cluster_size = max 1 (cluster_size div 2 + 1)"

definition finish_election :: "election \<Rightarrow> int \<Rightarrow> int \<Rightarrow> int \<Rightarrow> election" where
  "finish_election el term votes_received cluster_size =
     (if el_role el \<noteq> CANDIDATE \<or> el_current_term el \<noteq> term then el
      else if votes_received \<ge> required_majority cluster_size then become_leader el
      else el)"

text \<open>\<^verbatim>\<open>receive_heartbeat\<close> also says whether the \<^verbatim>\<open>on_become_follower\<close> callback is started.\<close>

definition receive_heartbeat :: "election \<Rightarrow> time \<Rightarrow> time \<Rightarrow> node_id \<Rightarrow> int \<Rightarrow> (bool \<times> bool) \<times> election" where
  "receive_heartbeat el now rt leader term =
     (if term < el_current_term el then ((False, False), el)
      else
        let el1 = (if term > el_current_term el then el\<lparr>el_current_term := term, el_voted_for := None\<rparr> else el);
            el2 = el1\<lparr>el_last_heartbeat := now, el_election_timeout := rt\<rparr>
        in if el_role el2 \<noteq> FOLLOWER \<or> el_leader_id el2 \<noteq> Some leader
           then ((True, True), el2\<lparr>el_role := FOLLOWER, el_leader_id := Some leader\<rparr>)
           else ((True, False), el2))"

definition step_down :: "election \<Rightarrow> time \<Rightarrow> time \<Rightarrow> election" where
  "step_down el now rt =
     (if el_role el = LEADER
      then el\<lparr>el_role := FOLLOWER, el_leader_id := None, el_election_timeout := rt,
              el_last_heartbeat := now + el_timeout_max el\<rparr>
      else el)"

definition is_log_up_to_date :: "election \<Rightarrow> int \<Rightarrow> int \<Rightarrow> bool" where
  "is_log_up_to_date el last_index last_term =
     (if el_log el = [] then True
      else if last_term \<noteq> le_term (last (el_log el)) then last_term > le_term (last (el_log el))
      else last_index \<ge> int (length (el_log el)))"

definition handle_vote_request ::
  "election \<Rightarrow> time \<Rightarrow> node_id \<Rightarrow> int \<Rightarrow> int \<Rightarrow> int \<Rightarrow> (int \<times> bool) \<times> election" where
  "handle_vote_request el now candidate term last_index last_term =
     (if term < el_current_term el then ((el_current_term el, False), el)
      else
        let el1 = (if term > el_current_term el
                   then el\<lparr>el_current_term := term, el_voted_for := None, el_role := FOLLOWER\<rparr> else el);
            can_vote = ((el_voted_for el1 = None \<or> el_voted_for el1 = Some candidate) \<and>
                        is_log_up_to_date el1 last_index last_term)
        in if can_vote
           then ((el_current_term el1, True), el1\<lparr>el_voted_for := Some candidate, el_last_heartbeat := now\<rparr>)
           else ((el_current_term el1, False), el1))"

section \<open>The log\<close>

definition append_log_entry ::
  "election \<Rightarrow> time \<Rightarrow> string \<Rightarrow> string \<Rightarrow> json \<Rightarrow> int option \<Rightarrow> log_entry option \<times> election" where
  "append_log_entry el now command key value ttl =
     (if el_role el \<noteq> LEADER then (None, el)
      else
        let entry = \<lparr>le_term = el_current_term el, le_index = int (length (el_log el)) + 1, le_command = command,
                     le_key = key, le_value = value, le_ttl = ttl, le_timestamp = now, le_version = 1,
                     le_expires_at = None, le_created_at = None, le_coordinator_id = []\<rparr>
        in (Some entry, el\<lparr>el_log := el_log el @ [entry]\<rparr>))"

text \<open>One entry of an append request: entries the log already has are checked for a conflicting
  term.\<close>

definition merge_entry :: "log_entry list \<Rightarrow> log_entry \<Rightarrow> log_entry list res" where
  "merge_entry lg e =
     (if le_index e \<le> int (length lg)
      then (case py_nth lg (le_index e - 1) of
              Inl err \<Rightarrow> Inl err
            | Inr old \<Rightarrow> Inr (if le_term old \<noteq> le_term e then py_take lg (le_index e - 1) @ [e] else lg))
      else Inr (lg @ [e]))"

fun merge_entries :: "log_entry list \<Rightarrow> (string \<times> json) list list \<Rightarrow> py_error option \<times> log_entry list" where
  "merge_entries lg [] = (None, lg)"
| "merge_entries lg (d # ds) =
     (case bind_res (log_from_dict d) (merge_entry lg) of
        Inl err \<Rightarrow> (Some err, lg)
      | Inr lg' \<Rightarrow> merge_entries lg' ds)"

function apply_committed :: "(log_entry \<Rightarrow> 's \<Rightarrow> 's) \<Rightarrow> election \<Rightarrow> 's \<Rightarrow> py_error option \<times> election \<times> 's" where
  "apply_committed apply_entry el s =
     (if el_last_applied el < el_commit_index el
      then
        let el' = el\<lparr>el_last_applied := el_last_applied el + 1\<rparr>
        in (case py_nth (el_log el) (el_last_applied el' - 1) of
              Inl err \<Rightarrow> (Some err, el', s)
            | Inr entry \<Rightarrow> apply_committed apply_entry el' (apply_entry entry s))
      else (None, el, s))"
  by pat_completeness auto
termination
  by (relation "measure (\<lambda>(f, el, s). nat (el_commit_index el - el_last_applied el))") auto

declare apply_committed.simps [simp del]

definition handle_append_entries ::
  "(log_entry \<Rightarrow> 's \<Rightarrow> 's) \<Rightarrow> election \<Rightarrow> time \<Rightarrow> time \<Rightarrow> node_id \<Rightarrow> int \<Rightarrow> int \<Rightarrow> int \<Rightarrow>
   (string \<times> json) list list \<Rightarrow> int \<Rightarrow> 's \<Rightarrow> (int \<times> bool \<times> int) res \<times> election \<times> 's" where
  "handle_append_entries apply_entry el now rt leader term prev_log_index prev_log_term entries leader_commit s =
     (if term < el_current_term el then (Inr (el_current_term el, False, 0), el, s)
      else
        let el1 = snd (receive_heartbeat el now rt leader term);
            n = int (length (el_log el1))
        in if prev_log_index > 0 \<and> n < prev_log_index then (Inr (el_current_term el1, False, n), el1, s)
           else if prev_log_index > 0 \<and> le_term (el_log el1 ! nat (prev_log_index - 1)) \<noteq> prev_log_term
           then let el2 = el1\<lparr>el_log := take (nat (prev_log_index - 1)) (el_log el1)\<rparr>
                in (Inr (el_current_term el2, False, int (length (el_log el2))), el2, s)
           else
             (case merge_entries (el_log el1) entries of
                (Some err, lg) \<Rightarrow> (Inl err, el1\<lparr>el_log := lg\<rparr>, s)
              | (None, lg) \<Rightarrow>
                  let el2 = el1\<lparr>el_log := lg\<rparr>
                  in if leader_commit > el_commit_index el2
                     then (case apply_committed apply_entry
                                  (el2\<lparr>el_commit_index := min leader_commit (int (length lg))\<rparr>) s of
                             (Some err, el3, s') \<Rightarrow> (Inl err, el3, s')
                           | (None, el3, s') \<Rightarrow> (Inr (el_current_term el3, True, int (length (el_log el3))), el3, s'))
                     else (Inr (el_current_term el2, True, int (length lg)), el2, s)))"

text \<open>\<^verbatim>\<open>commit_entries\<close>: the candidates are scanned from the highest down; the first that enough nodes
  have decides.\<close>

definition nodes_at :: "int list \<Rightarrow> int \<Rightarrow> nat" where
  "nodes_at idxs i = length (filter (\<lambda>j. j \<ge> i) idxs)"

fun commit_scan :: "int list \<Rightarrow> int \<Rightarrow> int \<Rightarrow> int \<Rightarrow> log_entry list \<Rightarrow> int list \<Rightarrow> int option" where
  "commit_scan all_indices commit_index majority term lg [] = None"
| "commit_scan all_indices commit_index majority term lg (idx # rest) =
     (if idx \<le> commit_index then None
      else if int (nodes_at all_indices idx) \<ge> majority
      then (if idx > 0 \<and> idx \<le> int (length lg) \<and> le_term (lg ! nat (idx - 1)) = term then Some idx else None)
      else commit_scan all_indices commit_index majority term lg rest)"

definition commit_target :: "election \<Rightarrow> (node_id, int) dict \<Rightarrow> int \<Rightarrow> int option" where
  "commit_target el match_indices cluster_size =
     (let all_indices = rev (sort (map snd match_indices @ [int (length (el_log el))]))
      in commit_scan all_indices (el_commit_index el) (cluster_size div 2 + 1) (el_current_term el) (el_log el) all_indices)"

definition commit_entries ::
  "(log_entry \<Rightarrow> 's \<Rightarrow> 's) \<Rightarrow> election \<Rightarrow> (node_id, int) dict \<Rightarrow> int \<Rightarrow> 's \<Rightarrow> py_error option \<times> election \<times> 's" where
  "commit_entries apply_entry el match_indices cluster_size s =
     (if el_role el \<noteq> LEADER then (None, el, s)
      else
        (case commit_target el match_indices cluster_size of
           None \<Rightarrow> (None, el, s)
         | Some idx \<Rightarrow> apply_committed apply_entry (el\<lparr>el_commit_index := idx\<rparr>) s))"

definition election_get_state :: "election \<Rightarrow> (string, json) dict" where
  "election_get_state el =
     [(''node_id'', JStr (el_node_id el)), (''role'', JStr (role_value (el_role el))),
      (''term'', JInt (el_current_term el)), (''leader_id'', of_opt JStr (el_leader_id el)),
      (''voted_for'', of_opt JStr (el_voted_for el)), (''log_length'', JInt (int (length (el_log el)))),
      (''commit_index'', JInt (el_commit_index el)), (''last_applied'', JInt (el_last_applied el))]"

definition el_is_leader :: "election \<Rightarrow> bool" where
  "el_is_leader el = (el_role el = LEADER)"

definition el_get_term :: "election \<Rightarrow> int" where
  "el_get_term el = el_current_term el"

end
