(* ===== verification/ElectionSafety.thy ===== *)
theory ElectionSafety
  imports Election
begin

text \<open>
  Elections in a cluster: the election managers of a fixed set of nodes, with the messages of
  \<^verbatim>\<open>_request_votes\<close> and the heartbeats between them, as a step relation. A vote request may reach a
  node at any time after it was sent, more than once or never, and its answer may be lost;
  heartbeats and append requests are unconstrained (any node, any sender, any term), which covers
  every behaviour of the senders. History variables record the votes that were given and the
  elections that were won.

  \<open>min_size\<close> is the least cluster size a candidate may believe in when it counts its votes: the code
  takes the number of members it considers alive (\<^verbatim>\<open>membership.node_count()\<close>). With the true size
  the election is safe; with a smaller one it is not.
\<close>

section \<open>The protocol\<close>

record cluster =
  cl_node :: "node_id \<Rightarrow> election"
  cl_requests :: "(node_id \<times> vote_request) set"
  cl_tally :: "node_id \<Rightarrow> int \<Rightarrow> node_id set"
  cl_votes :: "(node_id \<times> int \<times> node_id) set"
  cl_won :: "(int \<times> node_id) set"

definition cluster_init :: "(node_id \<Rightarrow> election) \<Rightarrow> cluster" where
  "cluster_init els = \<lparr>cl_node = els, cl_requests = {}, cl_tally = (\<lambda>_ _. {}), cl_votes = {}, cl_won = {}\<rparr>"

definition fresh_election :: "node_id \<Rightarrow> election \<Rightarrow> bool" where
  "fresh_election n el \<longleftrightarrow> (\<exists>tmin tmax hb now rt. el = election_init n tmin tmax hb now rt)"

inductive cluster_step :: "node_id set \<Rightarrow> int \<Rightarrow> cluster \<Rightarrow> cluster \<Rightarrow> bool"
  for N :: "node_id set" and min_size :: int where
  start:
    "n \<in> N \<Longrightarrow> should_start_election (cl_node c n) now \<Longrightarrow> start_election (cl_node c n) rt = (req, el) \<Longrightarrow>
     cluster_step N min_size c
       (c\<lparr>cl_node := (cl_node c)(n := el),
          cl_requests := insert (n, req) (cl_requests c),
          cl_tally := (cl_tally c)(n := (cl_tally c n)(vr_term req := {})),
          cl_votes := insert (n, vr_term req, n) (cl_votes c)\<rparr>)"
| vote:
    "(n, req) \<in> cl_requests c \<Longrightarrow> v \<in> N \<Longrightarrow> v \<noteq> n \<Longrightarrow>
     handle_vote_request (cl_node c v) now n (vr_term req) (vr_last_log_index req) (vr_last_log_term req) =
       ((t, granted), el) \<Longrightarrow>
     cluster_step N min_size c
       (c\<lparr>cl_node := (cl_node c)(v := el),
          cl_votes := (if granted then insert (v, vr_term req, n) (cl_votes c) else cl_votes c),
          cl_tally := (if granted \<and> heard
                       then (cl_tally c)(n := (cl_tally c n)(vr_term req := insert v (cl_tally c n (vr_term req))))
                       else cl_tally c)\<rparr>)"
| finish:
    "(n, req) \<in> cl_requests c \<Longrightarrow> n \<in> N \<Longrightarrow> min_size \<le> cluster_size \<Longrightarrow>
     finish_election (cl_node c n) (vr_term req) (1 + int (card (cl_tally c n (vr_term req)))) cluster_size = el \<Longrightarrow>
     cluster_step N min_size c
       (c\<lparr>cl_node := (cl_node c)(n := el),
          cl_won := (if el_role (cl_node c n) = CANDIDATE \<and> el_role el = LEADER
                     then insert (vr_term req, n) (cl_won c) else cl_won c)\<rparr>)"
| heartbeat:
    "v \<in> N \<Longrightarrow> receive_heartbeat (cl_node c v) now rt leader t = (r, el) \<Longrightarrow>
     cluster_step N min_size c (c\<lparr>cl_node := (cl_node c)(v := el)\<rparr>)"
| append:
    "v \<in> N \<Longrightarrow>
     handle_append_entries (\<lambda>e s. s) (cl_node c v) now rt leader t pli plt es lc () = (r, el, u) \<Longrightarrow>
     cluster_step N min_size c (c\<lparr>cl_node := (cl_node c)(v := el)\<rparr>)"
| step_down:
    "v \<in> N \<Longrightarrow> cluster_step N min_size c (c\<lparr>cl_node := (cl_node c)(v := step_down (cl_node c v) now rt)\<rparr>)"
| client:
    "v \<in> N \<Longrightarrow> append_log_entry (cl_node c v) now command key value ttl = (e, el) \<Longrightarrow>
     cluster_step N min_size c (c\<lparr>cl_node := (cl_node c)(v := el)\<rparr>)"
| commit:
    "v \<in> N \<Longrightarrow> commit_entries (\<lambda>e s. s) (cl_node c v) matches sz () = (r, el, u) \<Longrightarrow>
     cluster_step N min_size c (c\<lparr>cl_node := (cl_node c)(v := el)\<rparr>)"

inductive cluster_reach :: "node_id set \<Rightarrow> int \<Rightarrow> cluster \<Rightarrow> bool" for N :: "node_id set" and min_size :: int where
  init: "(\<And>n. n \<in> N \<Longrightarrow> fresh_election n (els n)) \<Longrightarrow> cluster_reach N min_size (cluster_init els)"
| step: "cluster_reach N min_size c \<Longrightarrow> cluster_step N min_size c c' \<Longrightarrow> cluster_reach N min_size c'"

inductive_cases cluster_stepE: "cluster_step N min_size c c'"

section \<open>Local facts\<close>

text \<open>What the handlers that are no vote do to term, vote and role: nothing but raise the term,
  dropping the vote, and step back to follower.\<close>

definition quiet :: "election \<Rightarrow> election \<Rightarrow> bool" where
  "quiet el el' \<longleftrightarrow>
     el_node_id el' = el_node_id el \<and>
     (el_current_term el' = el_current_term el \<and> el_voted_for el' = el_voted_for el \<or>
      el_current_term el < el_current_term el' \<and> el_voted_for el' = None \<and> el_role el' = FOLLOWER) \<and>
     (el_role el' = el_role el \<or> el_role el' = FOLLOWER)"

lemma quiet_refl [simp]: "quiet el el"
  by (simp add: quiet_def)

lemma quiet_heartbeat: "receive_heartbeat el now rt l t = (r, el') \<Longrightarrow> quiet el el'"
  by (auto simp: receive_heartbeat_def quiet_def Let_def split: if_splits)

lemma quiet_step_down: "quiet el (step_down el now rt)"
  by (simp add: step_down_def quiet_def)

lemma quiet_client: "append_log_entry el now c k v ttl = (e, el') \<Longrightarrow> quiet el el'"
  by (auto simp: append_log_entry_def quiet_def Let_def split: if_splits)

lemma apply_committed_frame:
  "apply_committed f el s = (r, el', s') \<Longrightarrow> \<exists>n. el' = el\<lparr>el_last_applied := n\<rparr>"
proof (induction f el s arbitrary: r el' s' rule: apply_committed.induct)
  case (1 f el s)
  show ?case
  proof (cases "el_last_applied el < el_commit_index el")
    case True
    show ?thesis
    proof (cases "py_nth (el_log el) (el_last_applied el)")
      case (Inl err)
      with True 1(2) show ?thesis by (auto simp: apply_committed.simps [of f el] Let_def)
    next
      case (Inr e)
      with True 1(2) 1(1) [OF True refl, of e] show ?thesis
        by (auto simp: apply_committed.simps [of f el] Let_def)
    qed
  next
    case False
    with 1(2) show ?thesis by (auto simp: apply_committed.simps [of f el] intro: exI [of _ "el_last_applied el"])
  qed
qed

lemma quiet_trans: "quiet a b \<Longrightarrow> quiet b c \<Longrightarrow> quiet a c"
  by (auto simp: quiet_def)

lemma quiet_log: "quiet a b \<Longrightarrow> quiet a (b\<lparr>el_log := l\<rparr>)" "quiet a b \<Longrightarrow> quiet a (b\<lparr>el_commit_index := i\<rparr>)"
  "quiet a b \<Longrightarrow> quiet a (b\<lparr>el_last_applied := j\<rparr>)"
  by (simp_all add: quiet_def)

lemma quiet_applied: "apply_committed f el s = (r, el', s') \<Longrightarrow> quiet a el \<Longrightarrow> quiet a el'"
  using apply_committed_frame quiet_log(3) by metis

lemma quiet_append:
  assumes "handle_append_entries f el now rt l t pli plt es lc s = (r, el', s')"
  shows "quiet el el'"
proof -
  obtain b el1 where hb: "receive_heartbeat el now rt l t = (b, el1)" by fastforce
  note q = quiet_heartbeat [OF hb]
  show ?thesis
    using assms q
    by (auto simp: handle_append_entries_def hb Let_def split: if_splits prod.splits option.splits
        intro: quiet_log quiet_applied)
qed

lemma quiet_commit: "commit_entries f el m sz s = (r, el', s') \<Longrightarrow> quiet el el'"
  by (auto simp: commit_entries_def split: if_splits option.splits elim!: quiet_applied intro: quiet_log)

text \<open>A granted vote is recorded for the term of the request.\<close>

lemma vote_granted:
  assumes "handle_vote_request el now n t li lt = ((t', True), el')"
  shows "el_current_term el' = t \<and> el_voted_for el' = Some n \<and>
    (el_current_term el < t \<or> el_current_term el = t \<and> (el_voted_for el = None \<or> el_voted_for el = Some n))"
  using assms by (auto simp: handle_vote_request_def Let_def split: if_splits)

lemma vote_effect:
  assumes "handle_vote_request el now n t li lt = ((t', g), el')"
  shows "el_node_id el' = el_node_id el \<and> el_current_term el \<le> el_current_term el' \<and>
    (el_role el' = LEADER \<longrightarrow> el_role el = LEADER \<and> el_current_term el' = el_current_term el) \<and>
    (\<not> g \<longrightarrow> el_current_term el' = el_current_term el \<longrightarrow> el_voted_for el' = el_voted_for el)"
  using assms by (auto simp: handle_vote_request_def Let_def split: if_splits)

section \<open>Invariant\<close>

definition ids_inv :: "node_id set \<Rightarrow> cluster \<Rightarrow> bool" where
  "ids_inv N c \<longleftrightarrow> (\<forall>n \<in> N. el_node_id (cl_node c n) = n)"

text \<open>A vote is never for a future term, the vote of the current term is the one the node
  remembers, and nobody votes twice in a term.\<close>

definition vote_ok :: "election \<Rightarrow> int \<Rightarrow> node_id \<Rightarrow> bool" where
  "vote_ok el t x \<longleftrightarrow> t \<le> el_current_term el \<and> (t = el_current_term el \<longrightarrow> el_voted_for el = Some x)"

definition votes_inv :: "node_id set \<Rightarrow> cluster \<Rightarrow> bool" where
  "votes_inv N c \<longleftrightarrow>
     (\<forall>v t x. (v, t, x) \<in> cl_votes c \<longrightarrow> v \<in> N \<and> vote_ok (cl_node c v) t x) \<and>
     (\<forall>v t x y. (v, t, x) \<in> cl_votes c \<longrightarrow> (v, t, y) \<in> cl_votes c \<longrightarrow> x = y)"

definition tally_inv :: "node_id set \<Rightarrow> cluster \<Rightarrow> bool" where
  "tally_inv N c \<longleftrightarrow>
     (\<forall>n req. (n, req) \<in> cl_requests c \<longrightarrow> (n, vr_term req, n) \<in> cl_votes c) \<and>
     (\<forall>n t v. v \<in> cl_tally c n t \<longrightarrow> v \<in> N \<and> v \<noteq> n \<and> (v, t, n) \<in> cl_votes c)"

definition majority :: "node_id set \<Rightarrow> node_id set \<Rightarrow> bool" where
  "majority N Q \<longleftrightarrow> Q \<subseteq> N \<and> card N < 2 * card Q"

definition won_inv :: "node_id set \<Rightarrow> cluster \<Rightarrow> bool" where
  "won_inv N c \<longleftrightarrow>
     (\<forall>t n. (t, n) \<in> cl_won c \<longrightarrow> (\<exists>Q. majority N Q \<and> (\<forall>v \<in> Q. (v, t, n) \<in> cl_votes c))) \<and>
     (\<forall>n \<in> N. el_role (cl_node c n) = LEADER \<longrightarrow> (el_current_term (cl_node c n), n) \<in> cl_won c)"

definition cluster_inv :: "node_id set \<Rightarrow> cluster \<Rightarrow> bool" where
  "cluster_inv N c \<longleftrightarrow> ids_inv N c \<and> votes_inv N c \<and> tally_inv N c \<and> won_inv N c"

lemma cluster_inv_init: "(\<And>n. n \<in> N \<Longrightarrow> fresh_election n (els n)) \<Longrightarrow> cluster_inv N (cluster_init els)"
  by (fastforce simp: cluster_inv_def ids_inv_def votes_inv_def tally_inv_def won_inv_def cluster_init_def
      fresh_election_def election_init_def)

lemma votes_inv_node:
  assumes "votes_inv N c" and "\<And>t x. vote_ok (cl_node c v) t x \<Longrightarrow> vote_ok el t x"
  shows "votes_inv N (c\<lparr>cl_node := (cl_node c)(v := el)\<rparr>)"
  using assms by (simp add: votes_inv_def)

lemma votes_inv_insert:
  assumes "votes_inv N c" and "v \<in> N" and "vote_ok (cl_node c v) t x"
    and "\<And>y. (v, t, y) \<in> cl_votes c \<Longrightarrow> y = x"
  shows "votes_inv N (c\<lparr>cl_votes := insert (v, t, x) (cl_votes c)\<rparr>)"
  using assms by (auto simp: votes_inv_def)

lemma votes_inv_cong: "votes_inv N c \<Longrightarrow> cl_node c' = cl_node c \<Longrightarrow> cl_votes c' = cl_votes c \<Longrightarrow> votes_inv N c'"
  by (simp add: votes_inv_def)

lemma votes_inv_now: "votes_inv N c \<Longrightarrow> (v, t, y) \<in> cl_votes c \<Longrightarrow> vote_ok (cl_node c v) t y"
  by (simp add: votes_inv_def)

lemma cluster_inv_quiet:
  assumes inv: "cluster_inv N c" and v: "v \<in> N" and q: "quiet (cl_node c v) el"
  shows "cluster_inv N (c\<lparr>cl_node := (cl_node c)(v := el)\<rparr>)"
proof -
  have "ids_inv N (c\<lparr>cl_node := (cl_node c)(v := el)\<rparr>)"
    using inv q v by (auto simp: cluster_inv_def ids_inv_def quiet_def)
  moreover have "votes_inv N (c\<lparr>cl_node := (cl_node c)(v := el)\<rparr>)"
    using inv q by (intro votes_inv_node) (auto simp: cluster_inv_def vote_ok_def quiet_def)
  moreover have "won_inv N (c\<lparr>cl_node := (cl_node c)(v := el)\<rparr>)"
    using inv q unfolding cluster_inv_def won_inv_def quiet_def by fastforce
  moreover have "tally_inv N (c\<lparr>cl_node := (cl_node c)(v := el)\<rparr>)"
    using inv by (simp add: cluster_inv_def tally_inv_def)
  ultimately show ?thesis by (simp add: cluster_inv_def)
qed

lemma won_inv_more:
  assumes "won_inv N c" and "cl_won c' = cl_won c" and "cl_votes c \<subseteq> cl_votes c'"
    and "\<And>n. n \<in> N \<Longrightarrow> el_role (cl_node c' n) = LEADER \<Longrightarrow>
      el_role (cl_node c n) = LEADER \<and> el_current_term (cl_node c' n) = el_current_term (cl_node c n)"
  shows "won_inv N c'"
  using assms unfolding won_inv_def by (metis (no_types, lifting) subsetD)

lemma cluster_inv_start:
  assumes inv: "cluster_inv N c" and n: "n \<in> N" and s: "start_election (cl_node c n) rt = (req, el)"
  shows "cluster_inv N (c\<lparr>cl_node := (cl_node c)(n := el), cl_requests := insert (n, req) (cl_requests c),
    cl_tally := (cl_tally c)(n := (cl_tally c n)(vr_term req := {})), cl_votes := insert (n, vr_term req, n) (cl_votes c)\<rparr>)"
    (is "cluster_inv N ?c")
proof -
  have id: "el_node_id (cl_node c n) = n" using inv n by (simp add: cluster_inv_def ids_inv_def)
  have el: "vr_term req = el_current_term (cl_node c n) + 1" "el_current_term el = vr_term req"
    "el_voted_for el = Some n" "el_role el = CANDIDATE" "el_node_id el = n"
    using s id by (auto simp: start_election_def Let_def)
  have vi: "votes_inv N c" using inv by (simp add: cluster_inv_def)
  have "votes_inv N ((c\<lparr>cl_node := (cl_node c)(n := el)\<rparr>)\<lparr>cl_votes := insert (n, vr_term req, n) (cl_votes (c\<lparr>cl_node := (cl_node c)(n := el)\<rparr>))\<rparr>)"
    using n el votes_inv_now [OF vi, of n]
    by (intro votes_inv_insert votes_inv_node [OF vi]) (fastforce simp: vote_ok_def)+
  then have "votes_inv N ?c" by (rule votes_inv_cong) simp_all
  moreover have "won_inv N ?c"
    by (rule won_inv_more [of N c]) (use inv el in \<open>auto simp: cluster_inv_def\<close>)
  moreover have "tally_inv N ?c" using inv by (auto simp: cluster_inv_def tally_inv_def)
  moreover have "ids_inv N ?c" using inv el by (simp add: cluster_inv_def ids_inv_def)
  ultimately show ?thesis by (simp add: cluster_inv_def)
qed

lemma cluster_inv_vote:
  assumes inv: "cluster_inv N c" and r: "(n, req) \<in> cl_requests c" and v: "v \<in> N" "v \<noteq> n"
    and h: "handle_vote_request (cl_node c v) now n (vr_term req) li lt = ((t', g), el)"
  shows "cluster_inv N (c\<lparr>cl_node := (cl_node c)(v := el),
      cl_votes := (if g then insert (v, vr_term req, n) (cl_votes c) else cl_votes c),
      cl_tally := (if g \<and> heard then (cl_tally c)(n := (cl_tally c n)(vr_term req := insert v (cl_tally c n (vr_term req))))
                   else cl_tally c)\<rparr>)"
    (is "cluster_inv N ?c")
proof -
  note e = vote_effect [OF h]
  have vi: "votes_inv N c" using inv by (simp add: cluster_inv_def)
  have "votes_inv N ?c"
  proof (cases g)
    case True
    have "handle_vote_request (cl_node c v) now n (vr_term req) li lt = ((t', True), el)" using h True by simp
    note gr = vote_granted [OF this]
    have "votes_inv N ((c\<lparr>cl_node := (cl_node c)(v := el)\<rparr>)\<lparr>cl_votes := insert (v, vr_term req, n) (cl_votes (c\<lparr>cl_node := (cl_node c)(v := el)\<rparr>))\<rparr>)"
      using v gr votes_inv_now [OF vi, of v]
      by (intro votes_inv_insert votes_inv_node [OF vi]) (fastforce simp: vote_ok_def)+
    with True show ?thesis by (auto elim: votes_inv_cong)
  next
    case False
    have "votes_inv N (c\<lparr>cl_node := (cl_node c)(v := el)\<rparr>)"
      using e False by (intro votes_inv_node [OF vi]) (auto simp: vote_ok_def)
    with False show ?thesis by (auto elim: votes_inv_cong)
  qed
  moreover have "won_inv N ?c"
    by (rule won_inv_more [of N c]) (use inv e in \<open>auto simp: cluster_inv_def\<close>)
  moreover have "tally_inv N ?c" using inv v by (auto simp: cluster_inv_def tally_inv_def)
  moreover have "ids_inv N ?c" using inv e by (simp add: cluster_inv_def ids_inv_def)
  ultimately show ?thesis by (simp add: cluster_inv_def)
qed

lemma cluster_inv_finish:
  assumes fin: "finite N" and inv: "cluster_inv N c" and r: "(n, req) \<in> cl_requests c" and n: "n \<in> N"
    and sz: "int (card N) \<le> sz"
    and f: "finish_election (cl_node c n) (vr_term req) (1 + int (card (cl_tally c n (vr_term req)))) sz = el"
  shows "cluster_inv N (c\<lparr>cl_node := (cl_node c)(n := el),
      cl_won := (if el_role (cl_node c n) = CANDIDATE \<and> el_role el = LEADER then insert (vr_term req, n) (cl_won c)
                 else cl_won c)\<rparr>)"
    (is "cluster_inv N ?c")
proof (cases "el_role (cl_node c n) = CANDIDATE \<and> el_role el = LEADER")
  case False
  then have "el = cl_node c n" using f by (auto simp: finish_election_def become_leader_def split: if_splits)
  then have "?c = c" using False by auto
  with inv show ?thesis by simp
next
  case True
  let ?t = "vr_term req" and ?Q = "insert n (cl_tally c n (vr_term req))"
  have won: "el_current_term (cl_node c n) = ?t" "el = become_leader (cl_node c n)"
    "required_majority sz \<le> 1 + int (card (cl_tally c n ?t))"
    using True f by (auto simp: finish_election_def split: if_splits)
  have sub: "cl_tally c n ?t \<subseteq> N - {n}" and votes: "\<forall>v \<in> ?Q. (v, ?t, n) \<in> cl_votes c"
    using inv r unfolding cluster_inv_def tally_inv_def by blast+
  have "card ?Q = 1 + card (cl_tally c n ?t)" using sub fin by (subst card_insert_disjoint) (auto intro: finite_subset)
  with won(3) sz have "card N < 2 * card ?Q" by (simp add: required_majority_def)
  moreover have "?Q \<subseteq> N" using sub n by auto
  ultimately have maj: "majority N ?Q" by (simp add: majority_def)
  have "won_inv N ?c"
    using inv True won maj votes unfolding cluster_inv_def won_inv_def by (auto simp: become_leader_def)
  moreover have "votes_inv N ?c"
    by (rule votes_inv_cong [OF votes_inv_node [of N c n el]])
      (use inv won in \<open>simp_all add: cluster_inv_def become_leader_def vote_ok_def\<close>)
  moreover have "tally_inv N ?c" "ids_inv N ?c"
    using inv won by (auto simp: cluster_inv_def tally_inv_def ids_inv_def become_leader_def)
  ultimately show ?thesis by (simp add: cluster_inv_def)
qed

lemma cluster_inv_step:
  assumes "finite N" and "cluster_inv N c" and "cluster_step N (int (card N)) c c'"
  shows "cluster_inv N c'"
  using assms(3)
proof cases
  case start
  show ?thesis unfolding start(1) by (rule cluster_inv_start [OF assms(2) start(2,4)])
next
  case vote
  show ?thesis unfolding vote(1) by (rule cluster_inv_vote [OF assms(2) vote(2-5)])
next
  case finish
  show ?thesis unfolding finish(1) by (rule cluster_inv_finish [OF assms(1,2) finish(2-5)])
next
  case heartbeat
  show ?thesis unfolding heartbeat(1) by (rule cluster_inv_quiet [OF assms(2) heartbeat(2) quiet_heartbeat [OF heartbeat(3)]])
next
  case append
  show ?thesis unfolding append(1) by (rule cluster_inv_quiet [OF assms(2) append(2) quiet_append [OF append(3)]])
next
  case step_down
  show ?thesis unfolding step_down(1) by (rule cluster_inv_quiet [OF assms(2) step_down(2) quiet_step_down])
next
  case client
  show ?thesis unfolding client(1) by (rule cluster_inv_quiet [OF assms(2) client(2) quiet_client [OF client(3)]])
next
  case commit
  show ?thesis unfolding commit(1) by (rule cluster_inv_quiet [OF assms(2) commit(2) quiet_commit [OF commit(3)]])
qed

lemma cluster_inv_reach:
  assumes "finite N" and "cluster_reach N (int (card N)) c"
  shows "cluster_inv N c"
  using assms(2)
  by induction (auto intro: cluster_inv_init cluster_inv_step [OF assms(1)])


section \<open>Properties\<close>

lemma majorities_meet: "finite N \<Longrightarrow> majority N P \<Longrightarrow> majority N Q \<Longrightarrow> P \<inter> Q \<noteq> {}"
proof
  assume f: "finite N" and P: "majority N P" and Q: "majority N Q" and "P \<inter> Q = {}"
  then have "card (P \<union> Q) = card P + card Q"
    by (intro card_Un_disjoint) (auto simp: majority_def intro: finite_subset)
  moreover have "card (P \<union> Q) \<le> card N" using f P Q by (intro card_mono) (auto simp: majority_def)
  ultimately show False using P Q by (simp add: majority_def)
qed

text \<open>C6: Election safety. In a cluster whose candidates count their votes against at least the true
  number of nodes, whatever messages are lost, duplicated, delayed or reordered, no two nodes are
  leaders in the same term.\<close>

theorem at_most_one_leader_per_term:
  assumes "finite N" and "cluster_reach N (int (card N)) c" and "n \<in> N" and "m \<in> N"
    and "el_role (cl_node c n) = LEADER" and "el_role (cl_node c m) = LEADER"
    and "el_current_term (cl_node c n) = el_current_term (cl_node c m)"
  shows "n = m"
proof -
  have inv: "won_inv N c" "votes_inv N c"
    using cluster_inv_reach [OF assms(1,2)] by (simp_all add: cluster_inv_def)
  let ?t = "el_current_term (cl_node c n)"
  from inv(1) assms(3-7) have "(?t, n) \<in> cl_won c" "(?t, m) \<in> cl_won c" by (auto simp: won_inv_def)
  with inv(1) obtain P Q where P: "majority N P" "\<forall>v \<in> P. (v, ?t, n) \<in> cl_votes c"
    and Q: "majority N Q" "\<forall>v \<in> Q. (v, ?t, m) \<in> cl_votes c" unfolding won_inv_def by metis
  from majorities_meet [OF assms(1) P(1) Q(1)] obtain v where "v \<in> P" "v \<in> Q" by blast
  with P(2) Q(2) inv(2) show ?thesis unfolding votes_inv_def by metis
qed

definition fresh_node :: "node_id \<Rightarrow> election" where
  "fresh_node n = election_init n (3 / 2) 3 1 0 2"

lemma reach_init: "cluster_reach N ms (cluster_init fresh_node)"
  by (rule cluster_reach.init) (unfold fresh_election_def fresh_node_def, blast)

text \<open>A node starts an election for the next term; it then counts its votes.\<close>

definition after_start :: "cluster \<Rightarrow> node_id \<Rightarrow> cluster" where
  "after_start c n =
     (let (req, el) = start_election (cl_node c n) 2
      in c\<lparr>cl_node := (cl_node c)(n := el), cl_requests := insert (n, req) (cl_requests c),
           cl_tally := (cl_tally c)(n := (cl_tally c n)(vr_term req := {})),
           cl_votes := insert (n, vr_term req, n) (cl_votes c)\<rparr>)"

definition after_alone :: "cluster \<Rightarrow> node_id \<Rightarrow> int \<Rightarrow> cluster" where
  "after_alone c n t =
     c\<lparr>cl_node := (cl_node c)(n := become_leader (cl_node c n)), cl_won := insert (t, n) (cl_won c)\<rparr>"

lemma reach_after_start:
  assumes "cluster_reach N ms c" and "n \<in> N" and "el_role (cl_node c n) \<noteq> LEADER"
  shows "cluster_reach N ms (after_start c n)"
proof -
  obtain req el where s: "start_election (cl_node c n) 2 = (req, el)" by fastforce
  have "should_start_election (cl_node c n) (el_last_heartbeat (cl_node c n) + el_election_timeout (cl_node c n) + 1)"
    using assms(3) by (simp add: should_start_election_def)
  from cluster_step.start [OF assms(2) this s, of ms] assms(1) show ?thesis
    by (auto simp: after_start_def s intro: cluster_reach.step)
qed

lemma reach_after_alone:
  assumes r: "cluster_reach N ms c" and n: "n \<in> N" and req: "(n, req) \<in> cl_requests c" and ms: "ms \<le> 1"
    and el: "el_role (cl_node c n) = CANDIDATE" "el_current_term (cl_node c n) = vr_term req"
  shows "cluster_reach N ms (after_alone c n (vr_term req))"
proof -
  have f: "finish_election (cl_node c n) (vr_term req) (1 + int (card (cl_tally c n (vr_term req)))) 1 =
      become_leader (cl_node c n)"
    using el by (simp add: finish_election_def required_majority_def)
  have "el_role (become_leader (cl_node c n)) = LEADER" by (simp add: become_leader_def)
  with cluster_reach.step [OF r cluster_step.finish [OF req n ms f]] el(1) show ?thesis
    by (simp add: after_alone_def)
qed

definition after_vote :: "cluster \<Rightarrow> node_id \<Rightarrow> vote_request \<Rightarrow> node_id \<Rightarrow> cluster" where
  "after_vote c n req v =
     c\<lparr>cl_node := (cl_node c)(v := (cl_node c v)\<lparr>el_current_term := vr_term req, el_voted_for := Some n,
                                    el_role := FOLLOWER, el_last_heartbeat := 5\<rparr>),
       cl_votes := insert (v, vr_term req, n) (cl_votes c),
       cl_tally := (cl_tally c)(n := (cl_tally c n)(vr_term req := insert v (cl_tally c n (vr_term req))))\<rparr>"

lemma reach_after_vote:
  assumes r: "cluster_reach N ms c" and req: "(n, req) \<in> cl_requests c" and v: "v \<in> N" "v \<noteq> n"
    and el: "el_current_term (cl_node c v) < vr_term req" "el_log (cl_node c v) = []"
  shows "cluster_reach N ms (after_vote c n req v)"
proof -
  have "handle_vote_request (cl_node c v) 5 n (vr_term req) (vr_last_log_index req) (vr_last_log_term req) =
    ((vr_term req, True), (cl_node c v)\<lparr>el_current_term := vr_term req, el_voted_for := Some n, el_role := FOLLOWER, el_last_heartbeat := 5\<rparr>)"
    using el by (simp add: handle_vote_request_def is_log_up_to_date_def Let_def)
  from cluster_step.vote [OF req v this, of ms True] r show ?thesis
    by (auto simp: after_vote_def intro: cluster_reach.step)
qed

definition first_request :: vote_request where
  "first_request = \<lparr>vr_term = 1, vr_last_log_index = 0, vr_last_log_term = 0\<rparr>"

definition elected :: cluster where
  "elected =
     (let c = after_vote (after_start (cluster_init fresh_node) ''a'') ''a'' first_request ''b''
      in after_alone c ''a'' 1)"

lemma start_fresh: "start_election (fresh_node n) 2 =
    (first_request, (fresh_node n)\<lparr>el_current_term := 1, el_role := CANDIDATE, el_voted_for := Some n, el_election_timeout := 2\<rparr>)"
  by (simp add: start_election_def fresh_node_def election_init_def first_request_def last_log_term_def)

lemma reach_elected: "cluster_reach {''a'', ''b'', ''c''} 3 elected"
proof -
  let ?c = "after_vote (after_start (cluster_init fresh_node) ''a'') ''a'' first_request ''b''"
  have "cluster_reach {''a'', ''b'', ''c''} 3 (after_start (cluster_init fresh_node) ''a'')"
    by (rule reach_after_start [OF reach_init]) (simp_all add: cluster_init_def fresh_node_def election_init_def)
  then have r: "cluster_reach {''a'', ''b'', ''c''} 3 ?c"
    by (rule reach_after_vote)
      (simp_all add: after_start_def cluster_init_def start_fresh, simp_all add: first_request_def fresh_node_def election_init_def)
  have req: "(''a'', first_request) \<in> cl_requests ?c"
    by (simp add: after_vote_def after_start_def cluster_init_def start_fresh)
  have f: "finish_election (cl_node ?c ''a'') (vr_term first_request)
      (1 + int (card (cl_tally ?c ''a'' (vr_term first_request)))) 3 = become_leader (cl_node ?c ''a'')"
    by (simp add: after_vote_def after_start_def cluster_init_def start_fresh finish_election_def required_majority_def first_request_def)
  have "el_role (cl_node ?c ''a'') = CANDIDATE" "el_role (become_leader (cl_node ?c ''a'')) = LEADER"
    by (simp_all add: after_vote_def after_start_def cluster_init_def start_fresh become_leader_def)
  with cluster_reach.step [OF r cluster_step.finish [OF req _ order_refl f]] show ?thesis
    by (simp add: elected_def after_alone_def Let_def first_request_def)
qed

lemma elected_leader: "el_role (cl_node elected ''a'') = LEADER" "el_current_term (cl_node elected ''a'') = 1"
  by (simp_all add: elected_def Let_def after_alone_def after_vote_def after_start_def cluster_init_def start_fresh become_leader_def)

theorem at_most_one_leader_per_term_witness:
  "{m \<in> {''a'', ''b'', ''c''}. el_role (cl_node elected m) = LEADER \<and> el_current_term (cl_node elected m) = 1} = {''a''}"
proof -
  have "m = ''a''" if "m \<in> {''a'', ''b'', ''c''}" "el_role (cl_node elected m) = LEADER" "el_current_term (cl_node elected m) = 1" for m
    by (rule at_most_one_leader_per_term [of "{''a'', ''b'', ''c''}" elected])
      (use that elected_leader reach_elected in simp_all)
  then show ?thesis using elected_leader by auto
qed

text \<open>The cluster size a candidate counts against is the number of members it believes alive. Two nodes
  that consider each other dead both win an election of the same term: with that size election
  safety fails.\<close>

theorem split_brain_when_peers_look_dead:
  "\<exists>c. cluster_reach {''a'', ''b''} 1 c \<and>
     el_role (cl_node c ''a'') = LEADER \<and> el_role (cl_node c ''b'') = LEADER \<and>
     el_current_term (cl_node c ''a'') = el_current_term (cl_node c ''b'')"
proof -
  let ?c1 = "after_start (cluster_init fresh_node) ''a''"
  let ?c2 = "after_alone ?c1 ''a'' 1"
  let ?c3 = "after_start ?c2 ''b''"
  let ?c4 = "after_alone ?c3 ''b'' 1"
  note defs = after_start_def after_alone_def cluster_init_def start_fresh
  have r1: "cluster_reach {''a'', ''b''} 1 ?c1"
    by (rule reach_after_start [OF reach_init]) (simp_all add: cluster_init_def fresh_node_def election_init_def)
  have r2: "cluster_reach {''a'', ''b''} 1 ?c2"
    using reach_after_alone [OF r1, of "''a''" first_request] by (simp add: defs first_request_def)
  have r3: "cluster_reach {''a'', ''b''} 1 ?c3"
    by (rule reach_after_start [OF r2]) (simp_all add: defs, simp add: fresh_node_def election_init_def)
  have "cluster_reach {''a'', ''b''} 1 ?c4"
    using reach_after_alone [OF r3, of "''b''" first_request] by (simp add: defs first_request_def)
  then show ?thesis by (intro exI [of _ ?c4]) (simp add: defs become_leader_def)
qed

section \<open>The log\<close>

lemma apply_committed_run:
  "0 \<le> el_last_applied el \<Longrightarrow> el_commit_index el \<le> int (length (el_log el)) \<Longrightarrow>
   apply_committed f el s =
     (None, el\<lparr>el_last_applied := max (el_last_applied el) (el_commit_index el)\<rparr>,
      fold f (drop (nat (el_last_applied el)) (take (nat (el_commit_index el)) (el_log el))) s)"
proof (induction f el s rule: apply_committed.induct)
  case (1 f el s)
  show ?case
  proof (cases "el_last_applied el < el_commit_index el")
    case True
    let ?i = "nat (el_last_applied el)"
    have i: "?i < length (el_log el)" "?i < length (take (nat (el_commit_index el)) (el_log el))"
      and g: "py_nth (el_log el) (el_last_applied el) = Inr (el_log el ! ?i)" using True 1(2,3) by simp_all
    have d: "drop ?i (take (nat (el_commit_index el)) (el_log el)) =
        el_log el ! ?i # drop (Suc ?i) (take (nat (el_commit_index el)) (el_log el))"
      using i True by (simp add: Cons_nth_drop_Suc [OF i(2), symmetric])
    have n: "nat (el_last_applied el + 1) = Suc ?i" using 1(2) by simp
    let ?el = "el\<lparr>el_last_applied := el_last_applied el + 1\<rparr>" and ?s = "f (el_log el ! ?i) s"
    have step: "apply_committed f el s = apply_committed f ?el ?s"
      using True g by (simp add: apply_committed.simps [of f el s] Let_def)
    have IH: "apply_committed f ?el ?s =
      (None, ?el\<lparr>el_last_applied := max (el_last_applied ?el) (el_commit_index ?el)\<rparr>,
       fold f (drop (nat (el_last_applied ?el)) (take (nat (el_commit_index ?el)) (el_log ?el))) ?s)"
      using g 1(2,3) by (intro 1(1) [OF True refl]) simp_all
    have "max (el_last_applied ?el) (el_commit_index ?el) = max (el_last_applied el) (el_commit_index el)"
      using True by simp
    then show ?thesis unfolding step IH d by (simp add: n)
  next
    case False
    then show ?thesis using 1(2) by (simp add: apply_committed.simps [of f el])
  qed
qed

lemma commit_scan_iff:
  assumes "sorted_wrt (\<ge>) xs"
  shows "commit_scan idxs ci maj t lg xs = Some i \<longleftrightarrow>
    i \<in> set xs \<and> ci < i \<and> maj \<le> int (nodes_at idxs i) \<and> (\<forall>j \<in> set xs. i < j \<longrightarrow> int (nodes_at idxs j) < maj) \<and>
    0 < i \<and> i \<le> int (length lg) \<and> le_term (lg ! nat (i - 1)) = t"
  using assms
proof (induction xs)
  case (Cons x xs)
  have le: "\<forall>j \<in> set xs. j \<le> x" and s: "sorted_wrt (\<ge>) xs" using Cons.prems by auto
  consider "x \<le> ci" | "ci < x" "maj \<le> int (nodes_at idxs x)" | "ci < x" "int (nodes_at idxs x) < maj" by linarith
  then show ?case
  proof cases
    case 1
    then show ?thesis using le by fastforce
  next
    case 2
    have "i = x" if "i \<in> set (x # xs)" "\<forall>j \<in> set (x # xs). i < j \<longrightarrow> int (nodes_at idxs j) < maj"
      using that 2 le by force
    with 2 le show ?thesis by auto
  next
    case 3
    with Cons.IH [OF s] show ?thesis by auto
  qed
qed simp







lemma nodes_at_sorted: "nodes_at (rev (sort xs)) i = nodes_at xs i"
  by (simp add: nodes_at_def rev_filter [symmetric] filter_sort)

text \<open>C19: The leader's commit rule. \<^verbatim>\<open>commit_entries\<close> advances the commit index to \<open>i\<close> exactly when \<open>i\<close> is the
  highest replicated index that a majority of the cluster has reached, lies above the old commit
  index and inside the log, and its entry is of the current term; it then applies the newly
  committed entries in order.\<close>

theorem commit_entries_spec:
  assumes "el_role el = LEADER" and "0 \<le> el_last_applied el"
  shows "let idxs = map snd matches @ [int (length (el_log el))];
             enough = (\<lambda>i. sz div 2 + 1 \<le> int (nodes_at idxs i));
             committable = (\<lambda>i. i \<in> set idxs \<and> el_commit_index el < i \<and> enough i \<and>
               (\<forall>j \<in> set idxs. i < j \<longrightarrow> \<not> enough j) \<and>
               0 < i \<and> i \<le> int (length (el_log el)) \<and> le_term (el_log el ! nat (i - 1)) = el_current_term el)
         in (\<forall>i. committable i \<longrightarrow>
               commit_entries apply_entry el matches sz s =
                 (None, el\<lparr>el_commit_index := i, el_last_applied := max (el_last_applied el) i\<rparr>,
                  fold apply_entry (drop (nat (el_last_applied el)) (take (nat i) (el_log el))) s)) \<and>
            ((\<forall>i. \<not> committable i) \<longrightarrow> commit_entries apply_entry el matches sz s = (None, el, s))"
proof -
  let ?idxs = "map snd matches @ [int (length (el_log el))]"
  define committable where "committable i \<longleftrightarrow> i \<in> set ?idxs \<and> el_commit_index el < i \<and> sz div 2 + 1 \<le> int (nodes_at ?idxs i) \<and>
      (\<forall>j \<in> set ?idxs. i < j \<longrightarrow> \<not> sz div 2 + 1 \<le> int (nodes_at ?idxs j)) \<and>
      0 < i \<and> i \<le> int (length (el_log el)) \<and> le_term (el_log el ! nat (i - 1)) = el_current_term el" for i
  have "sorted_wrt (\<ge>) (rev (sort ?idxs))" by (simp add: sorted_wrt_rev)
  from commit_scan_iff [OF this]
  have iff: "commit_target el matches sz = Some i \<longleftrightarrow> committable i" for i
    unfolding commit_target_def Let_def committable_def by (simp add: not_le nodes_at_sorted)
  have c: "commit_entries apply_entry el matches sz s =
      (None, el\<lparr>el_commit_index := i, el_last_applied := max (el_last_applied el) i\<rparr>,
       fold apply_entry (drop (nat (el_last_applied el)) (take (nat i) (el_log el))) s)" if "committable i" for i
    using that iff [of i] assms
    by (simp add: commit_entries_def apply_committed_run committable_def)
  have n: "commit_entries apply_entry el matches sz s = (None, el, s)" if "\<forall>i. \<not> committable i"
  proof -
    have "commit_target el matches sz = None" using that iff by (cases "commit_target el matches sz") auto
    then show ?thesis using assms(1) by (simp add: commit_entries_def)
  qed
  from c n show ?thesis unfolding Let_def committable_def by blast
qed


definition sample_leader :: election where
  "sample_leader =
     (fresh_node ''a'')\<lparr>el_role := LEADER, el_current_term := 1,
       el_log := [\<lparr>le_term = 1, le_index = 1, le_command = ''SET'', le_key = ''k'', le_value = JInt 1, le_ttl = None,
                   le_timestamp = 1, le_version = 1, le_expires_at = None, le_created_at = None, le_coordinator_id = []\<rparr>]\<rparr>"

theorem commit_entries_spec_witness:
  "commit_entries (\<lambda>e s. s @ [le_key e]) sample_leader [(''b'', 1), (''c'', 0)] 3 [] =
     (None, sample_leader\<lparr>el_commit_index := 1, el_last_applied := 1\<rparr>, [''k''])"
proof -
  have l: "el_role sample_leader = LEADER" "0 \<le> el_last_applied sample_leader" "el_last_applied sample_leader = 0"
    by (simp_all add: sample_leader_def fresh_node_def election_init_def)
  show ?thesis
    using commit_entries_spec [OF l(1,2), of "[(''b'', 1), (''c'', 0)]" 3 "\<lambda>e s. s @ [le_key e]" "[]", unfolded Let_def,
        THEN conjunct1, rule_format, of 1]
    by (simp add: nodes_at_def l(3)) (simp add: sample_leader_def fresh_node_def election_init_def)
qed

end
