(* ===== verification/Replication.thy ===== *)
theory Replication
  imports Log
begin

text \<open>
  The replication manager (\<^verbatim>\<open>src/minidb/cluster/replication.py\<close>): required acknowledgements, the table
  of pending requests, the prepare fan-out and the queue of asynchronous replications.

  \<^item> Sending is a callback: \<open>send follower entry w\<close> acts on the world \<open>w\<close> and returns whether the
    follower confirmed, or \<^verbatim>\<open>None\<close> when it raised (the manager catches that).
  \<^item> Acknowledgements arrive only from the fan-out itself, before the wait begins, so the wait
    never changes the outcome: the event is set, or nobody will set it.
\<close>

section \<open>State\<close>

record replication_request =
  rq_entry :: log_entry
  rq_consistency :: consistency_level
  rq_required_acks :: int
  rq_received_acks :: int
  rq_success :: bool

record replication =
  rp_node_id :: node_id
  rp_replication_factor :: int
  rp_default_consistency :: consistency_level
  rp_timeout :: time
  rp_pending :: "(int, replication_request) dict"
  rp_async_queue :: "(log_entry \<times> node_id list) list"

definition replication_init :: "node_id \<Rightarrow> int \<Rightarrow> consistency_level \<Rightarrow> time \<Rightarrow> replication" where
  "replication_init n rf c t =
     \<lparr>rp_node_id = n, rp_replication_factor = rf, rp_default_consistency = c, rp_timeout = t,
      rp_pending = [], rp_async_queue = []\<rparr>"

type_synonym 'w sender = "node_id \<Rightarrow> log_entry \<Rightarrow> 'w \<Rightarrow> bool option \<times> 'w"

section \<open>Operations\<close>

definition acknowledge :: "replication \<Rightarrow> int \<Rightarrow> node_id \<Rightarrow> replication" where
  "acknowledge rp log_index from_node =
     (case dget (rp_pending rp) log_index of
        None \<Rightarrow> rp
      | Some request \<Rightarrow>
          let r1 = request\<lparr>rq_received_acks := rq_received_acks request + 1\<rparr>;
              r2 = (if rq_received_acks r1 \<ge> rq_required_acks r1 then r1\<lparr>rq_success := True\<rparr> else r1)
          in rp\<lparr>rp_pending := dset log_index r2 (rp_pending rp)\<rparr>)"

fun replicate_to_followers ::
  "'w sender \<Rightarrow> log_entry \<Rightarrow> node_id list \<Rightarrow> bool \<Rightarrow> replication \<times> 'w \<Rightarrow> replication \<times> 'w" where
  "replicate_to_followers send entry [] async_mode (rp, w) = (rp, w)"
| "replicate_to_followers send entry (f # fs) async_mode (rp, w) =
     (case send f entry w of
        (Some True, w') \<Rightarrow>
          replicate_to_followers send entry fs async_mode
            (if async_mode then rp else acknowledge rp (le_index entry) f, w')
      | (_, w') \<Rightarrow> replicate_to_followers send entry fs async_mode (rp, w'))"

definition is_sync_level :: "consistency_level \<Rightarrow> bool" where
  "is_sync_level c \<longleftrightarrow> c = QUORUM \<or> c = ALL_REPLICAS \<or> c = STRONG"

text \<open>\<open>send\<close> and \<open>get_followers\<close> are \<^verbatim>\<open>None\<close> when no callback is set.\<close>

definition replicate ::
  "'w sender option \<Rightarrow> (unit \<Rightarrow> node_id list) option \<Rightarrow> replication \<Rightarrow> 'w \<Rightarrow> log_entry \<Rightarrow> consistency_level option \<Rightarrow>
   node_id list option \<Rightarrow> bool \<times> replication \<times> 'w" where
  "replicate send get_followers rp w entry consistency targets =
     (let c = (case consistency of Some x \<Rightarrow> x | None \<Rightarrow> rp_default_consistency rp)
      in if targets = None \<and> get_followers = None
         then (\<not> (is_sync_level c \<and> rp_replication_factor rp > 1), rp, w)
         else
           let followers = (case targets of Some t \<Rightarrow> t | None \<Rightarrow> (case get_followers of Some g \<Rightarrow> g () | None \<Rightarrow> []))
           in if c = ONE \<or> c = ANY
              then (True, if followers \<noteq> [] then rp\<lparr>rp_async_queue := rp_async_queue rp @ [(entry, followers)]\<rparr> else rp, w)
              else
                let required_total = (if c = QUORUM then rp_replication_factor rp div 2 + 1 else rp_replication_factor rp);
                    required_acks = max 0 (required_total - 1)
                in if required_acks = 0 then (True, rp, w)
                   else if followers = [] \<or> int (length followers) < required_acks then (False, rp, w)
                   else
                     let request = \<lparr>rq_entry = entry, rq_consistency = c, rq_required_acks = required_acks,
                                    rq_received_acks = 0, rq_success = False\<rparr>;
                         rp1 = rp\<lparr>rp_pending := dset (le_index entry) request (rp_pending rp)\<rparr>;
                         (rp2, w') = (case send of
                                        None \<Rightarrow> (rp1, w)
                                      | Some snd_fn \<Rightarrow> replicate_to_followers snd_fn entry followers False (rp1, w));
                         outcome = (case dget (rp_pending rp2) (le_index entry) of Some r \<Rightarrow> r | None \<Rightarrow> request);
                         rp3 = rp2\<lparr>rp_pending := ddel (le_index entry) (rp_pending rp2)\<rparr>
                     in (rq_success outcome \<or> rq_received_acks outcome \<ge> required_acks, rp3, w'))"

text \<open>One round of the asynchronous loop.\<close>

definition async_replication_step :: "'w sender option \<Rightarrow> replication \<Rightarrow> 'w \<Rightarrow> replication \<times> 'w" where
  "async_replication_step send rp w =
     (case rp_async_queue rp of
        [] \<Rightarrow> (rp, w)
      | (entry, targets) # rest \<Rightarrow>
          let rp1 = rp\<lparr>rp_async_queue := rest\<rparr>
          in (case send of
                None \<Rightarrow> (rp1, w)
              | Some snd_fn \<Rightarrow> replicate_to_followers snd_fn entry targets True (rp1, w)))"

definition get_pending_count :: "replication \<Rightarrow> nat" where
  "get_pending_count rp = length (rp_pending rp)"

definition get_async_queue_size :: "replication \<Rightarrow> nat" where
  "get_async_queue_size rp = length (rp_async_queue rp)"

section \<open>Properties\<close>

text \<open>What the fan-out does to the world, and the followers that confirmed.\<close>

fun fan_out :: "'w sender \<Rightarrow> log_entry \<Rightarrow> node_id list \<Rightarrow> 'w \<Rightarrow> node_id list \<times> 'w" where
  "fan_out send entry [] w = ([], w)"
| "fan_out send entry (f # fs) w =
     (let (r, w') = send f entry w; (acks, w'') = fan_out send entry fs w'
      in (if r = Some True then f # acks else acks, w''))"

definition add_acks :: "replication_request \<Rightarrow> nat \<Rightarrow> replication_request" where
  "add_acks r n =
     r\<lparr>rq_received_acks := rq_received_acks r + int n,
       rq_success := rq_success r \<or> (0 < n \<and> rq_required_acks r \<le> rq_received_acks r + int n)\<rparr>"

lemma acknowledge_add:
  assumes "dget (rp_pending rp) i = Some r"
  shows "acknowledge rp i f = rp\<lparr>rp_pending := dset i (add_acks r 1) (rp_pending rp)\<rparr>"
  using assms by (cases r) (auto simp: acknowledge_def add_acks_def Let_def)

lemma add_acks_add: "add_acks (add_acks r (Suc 0)) n = add_acks r (Suc n)"
  by (cases r) (auto simp: add_acks_def)

lemma add_acks_zero: "add_acks r 0 = r"
  by (cases r) (simp add: add_acks_def)

lemma dset_same: "dget d i = Some r \<Longrightarrow> dset i r d = d"
  by (induction d) (auto split: if_splits)

lemma dset_dset: "dset i a (dset i b d) = dset i a d"
  by (induction d) auto

lemma replicate_to_followers_acks:
  assumes "dget (rp_pending rp) (le_index e) = Some r"
  shows "replicate_to_followers send e fs False (rp, w) =
    (let (acks, w') = fan_out send e fs w
     in (rp\<lparr>rp_pending := dset (le_index e) (add_acks r (length acks)) (rp_pending rp)\<rparr>, w'))"
  using assms
proof (induction fs arbitrary: rp r w)
  case Nil
  then show ?case by (simp add: add_acks_zero dset_same)
next
  case (Cons f fs)
  obtain b w1 where s: "send f e w = (b, w1)" by fastforce
  obtain acks w2 where f: "fan_out send e fs w1 = (acks, w2)" by fastforce
  show ?case
  proof (cases "b = Some True")
    case True
    let ?rp = "rp\<lparr>rp_pending := dset (le_index e) (add_acks r 1) (rp_pending rp)\<rparr>"
    have "dget (rp_pending ?rp) (le_index e) = Some (add_acks r 1)" by (simp add: update_conv')
    from Cons.IH [OF this, of w1] show ?thesis
      using True by (simp add: s f acknowledge_add [OF Cons.prems] dset_dset add_acks_add)
  next
    case False
    then have "(case b of Some True \<Rightarrow> x | _ \<Rightarrow> y) = y" for x y :: "replication \<times> 'a" by (auto split: option.splits bool.splits)
    with Cons.IH [OF Cons.prems, of w1] False show ?thesis
      by (cases b) (auto simp: s f split: bool.splits)
  qed
qed

lemma ddel_dset: "ddel i (dset i v d) = ddel i d"
  by (induction d) auto

lemma ddel_fresh: "dget d i = None \<Longrightarrow> ddel i d = d"
  by (induction d) (auto split: if_splits)

text \<open>Synchronous replication. At QUORUM, ALL or STRONG and a replication factor that needs remote copies,
  \<^verbatim>\<open>replicate\<close> sends nothing and fails when there are fewer followers than acknowledgements needed;
  otherwise it asks every follower once, in order, and succeeds exactly when at least the required
  number (majority of the replication factor, or all of it, minus the local copy) confirmed. Either
  way no pending request is left behind.\<close>

theorem replicate_sync_spec:
  assumes "is_sync_level c" and "1 < required_total (rp_replication_factor rp) c"
    and "dget (rp_pending rp) (le_index e) = None"
  shows "replicate (Some send) gf rp w e (Some c) (Some fs) =
    (if int (length fs) < required_total (rp_replication_factor rp) c - 1 then (False, rp, w)
     else let (acks, w') = fan_out send e fs w
          in (required_total (rp_replication_factor rp) c - 1 \<le> int (length acks), rp, w'))"
proof -
  let ?rt = "required_total (rp_replication_factor rp) c"
  let ?r = "\<lparr>rq_entry = e, rq_consistency = c, rq_required_acks = ?rt - 1, rq_received_acks = 0, rq_success = False\<rparr>"
  let ?rp1 = "rp\<lparr>rp_pending := dset (le_index e) ?r (rp_pending rp)\<rparr>"
  have c: "c \<noteq> ONE" "c \<noteq> ANY" using assms(1) by (auto simp: is_sync_level_def)
  have rt: "(if c = QUORUM then rp_replication_factor rp div 2 + 1 else rp_replication_factor rp) = ?rt" "max 0 (?rt - 1) = ?rt - 1"
    using assms(1,2) by (auto simp: required_total_def is_sync_level_def)
  obtain acks w' where f: "fan_out send e fs w = (acks, w')" by fastforce
  have "dget (rp_pending ?rp1) (le_index e) = Some ?r" by (simp add: update_conv')
  from replicate_to_followers_acks [OF this, of send fs w] f
  have s: "replicate_to_followers send e fs False (?rp1, w) =
      (rp\<lparr>rp_pending := dset (le_index e) (add_acks ?r (length acks)) (rp_pending rp)\<rparr>, w')" by (simp add: dset_dset)
  have d: "ddel (le_index e) (dset (le_index e) x (rp_pending rp)) = rp_pending rp" for x
    by (simp add: ddel_dset ddel_fresh assms(3))
  show ?thesis
    using c assms(2) by (auto simp: replicate_def Let_def rt s d f update_conv' add_acks_def)
qed

definition sample_log_entry :: log_entry where
  "sample_log_entry =
     \<lparr>le_term = 1, le_index = 1, le_command = ''SET'', le_key = ''k'', le_value = JInt 1, le_ttl = None, le_timestamp = 1,
      le_version = 1, le_expires_at = None, le_created_at = None, le_coordinator_id = ''n1''\<rparr>"

theorem replicate_sync_spec_witness:
  "replicate (Some (\<lambda>f e w. (if f = ''b'' then Some True else None, w @ [f]))) None (replication_init ''a'' 3 QUORUM 5) []
     sample_log_entry (Some QUORUM) (Some [''b'', ''c'']) =
   (True, replication_init ''a'' 3 QUORUM 5, [''b'', ''c''])"
  by (subst replicate_sync_spec)
    (simp_all add: is_sync_level_def required_total_def replication_init_def)

end
