(* ===== verification/Protocol.thy ===== *)
theory Protocol
  imports Json_Roundtrip Log
begin

text \<open>
  The wire protocol (\<^verbatim>\<open>src/minidb/network/protocol.py\<close>): message types, the message constructors, encoding
  and decoding, reading one message from a socket; and the receive loop of one connection of the TCP
  server (\<^verbatim>\<open>_handle_client\<close> of \<^verbatim>\<open>src/minidb/network/server.py\<close>).

  \<^item> Bytes are characters: the JSON printer escapes everything outside ASCII, so the UTF-8 encoding of
    a message is its text.
  \<^item> A socket is the list of the chunks \<^verbatim>\<open>recv\<close> returns; the empty chunk is a closed connection, the end
    of the list an exception.
  \<^item> A payload that is no object, or a sender or term of the wrong type, is a \<^verbatim>\<open>TypeError\<close> when the
    message is decoded.
\<close>

section \<open>Messages\<close>

datatype message_type =
    COMMAND | RESPONSE | ERROR
  | HEARTBEAT | VOTE_REQUEST | VOTE_RESPONSE | APPEND_ENTRIES | APPEND_RESPONSE
  | JOIN | LEAVE | GOSSIP
  | REPLICATE | REPLICATE_ACK | SYNC_REQUEST | SYNC_RESPONSE
  | MERKLE_REQUEST | MERKLE_RESPONSE | REPAIR_DATA

definition message_codes :: "(message_type \<times> string) list" where
  "message_codes =
     [(COMMAND, ''CMD''), (RESPONSE, ''RSP''), (ERROR, ''ERR''), (HEARTBEAT, ''HB''), (VOTE_REQUEST, ''VRQ''),
      (VOTE_RESPONSE, ''VRS''), (APPEND_ENTRIES, ''AE''), (APPEND_RESPONSE, ''AR''), (JOIN, ''JOIN''), (LEAVE, ''LEAVE''),
      (GOSSIP, ''GSP''), (REPLICATE, ''REP''), (REPLICATE_ACK, ''RACK''), (SYNC_REQUEST, ''SRQ''), (SYNC_RESPONSE, ''SRS''),
      (MERKLE_REQUEST, ''MRQ''), (MERKLE_RESPONSE, ''MRS''), (REPAIR_DATA, ''RPD'')]"

definition type_code :: "message_type \<Rightarrow> string" where
  "type_code t = the (map_of message_codes t)"

definition type_of_code :: "string \<Rightarrow> message_type res" where
  "type_of_code s =
     (case map_of (map (\<lambda>(t, c). (c, t)) message_codes) s of Some t \<Rightarrow> Inr t | None \<Rightarrow> Inl ValueError)"

type_synonym payload = "(string \<times> json) list"

record message =
  ms_type :: message_type
  ms_payload :: payload
  ms_sender :: string
  ms_term :: int
  ms_sequence :: int

definition message_json :: "message \<Rightarrow> json" where
  "message_json m =
     JDict [(''type'', JStr (type_code (ms_type m))), (''sender'', JStr (ms_sender m)), (''term'', JInt (ms_term m)),
            (''seq'', JInt (ms_sequence m)), (''payload'', JDict (ms_payload m))]"

definition newline :: char where
  "newline = CHR 0x0A"

definition encode :: "float_codec \<Rightarrow> message \<Rightarrow> string" where
  "encode fc m = (let j = dumps fc (message_json m) in str_nat (length j) @ '':'' @ j @ [newline])"

text \<open>\<^verbatim>\<open>text.split(c, 1)\<close>: the parts before and after the first \<open>c\<close>, if there is one.\<close>

fun split_once :: "char \<Rightarrow> string \<Rightarrow> (string \<times> string) option" where
  "split_once c [] = None"
| "split_once c (x # xs) = (if x = c then Some ([], xs) else map_option (\<lambda>(a, b). (x # a, b)) (split_once c xs))"

definition as_dict :: "json \<Rightarrow> payload res" where
  "as_dict j = (case j of JDict d \<Rightarrow> Inr d | _ \<Rightarrow> Inl TypeError)"

definition message_of_dict :: "payload \<Rightarrow> message res" where
  "message_of_dict parsed =
     bind_res (bind_res (bind_res (dict_item parsed ''type'') as_str) type_of_code) (\<lambda>t.
     bind_res (as_dict (dict_get parsed ''payload'' (JDict []))) (\<lambda>payload.
     bind_res (as_str (dict_get parsed ''sender'' (JStr []))) (\<lambda>sender.
     bind_res (as_int (dict_get parsed ''term'' (JInt 0))) (\<lambda>term.
     bind_res (as_int (dict_get parsed ''seq'' (JInt 0))) (\<lambda>seq.
       Inr \<lparr>ms_type = t, ms_payload = payload, ms_sender = sender, ms_term = term, ms_sequence = seq\<rparr>)))))"

definition decode :: "float_codec \<Rightarrow> string \<Rightarrow> message res" where
  "decode fc data =
     (let txt = py_strip data;
          txt' = (case split_once (CHR '':'') txt of Some (_, rest) \<Rightarrow> rest | None \<Rightarrow> txt)
      in bind_res (loads fc txt') (\<lambda>j. bind_res (as_dict j) message_of_dict))"

section \<open>Constructors\<close>

definition new_message :: "message_type \<Rightarrow> payload \<Rightarrow> string \<Rightarrow> int \<Rightarrow> message" where
  "new_message t p sender term = \<lparr>ms_type = t, ms_payload = p, ms_sender = sender, ms_term = term, ms_sequence = 0\<rparr>"

definition py_upper :: "string \<Rightarrow> string" where
  "py_upper s = map (\<lambda>c. if 97 \<le> code c \<and> code c \<le> 122 then char_of (code c - 32) else c) s"

definition create_command :: "string \<Rightarrow> string list \<Rightarrow> string \<Rightarrow> message" where
  "create_command command args sender =
     new_message COMMAND [(''cmd'', JStr (py_upper command)), (''args'', JList (map JStr args))] sender 0"

definition create_response :: "bool \<Rightarrow> json \<Rightarrow> json \<Rightarrow> message" where
  "create_response success data err =
     new_message (if success then RESPONSE else ERROR)
       [(''success'', JBool success), (''data'', data), (''error'', err)] [] 0"

definition create_heartbeat :: "string \<Rightarrow> int \<Rightarrow> string \<Rightarrow> payload list \<Rightarrow> message" where
  "create_heartbeat sender term leader members =
     new_message HEARTBEAT [(''leader_id'', JStr leader), (''members'', JList (map JDict members))] sender term"

definition create_vote_request :: "string \<Rightarrow> int \<Rightarrow> int \<Rightarrow> int \<Rightarrow> message" where
  "create_vote_request sender term last_log_index last_log_term =
     new_message VOTE_REQUEST [(''last_log_index'', JInt last_log_index), (''last_log_term'', JInt last_log_term)] sender term"

definition create_vote_response :: "string \<Rightarrow> int \<Rightarrow> bool \<Rightarrow> message" where
  "create_vote_response sender term granted = new_message VOTE_RESPONSE [(''vote_granted'', JBool granted)] sender term"

definition create_append_entries :: "string \<Rightarrow> int \<Rightarrow> int \<Rightarrow> int \<Rightarrow> payload list \<Rightarrow> int \<Rightarrow> message" where
  "create_append_entries sender term prev_log_index prev_log_term entries leader_commit =
     new_message APPEND_ENTRIES
       [(''prev_log_index'', JInt prev_log_index), (''prev_log_term'', JInt prev_log_term),
        (''entries'', JList (map JDict entries)), (''leader_commit'', JInt leader_commit)] sender term"

definition create_replicate :: "string \<Rightarrow> int \<Rightarrow> payload \<Rightarrow> string \<Rightarrow> message" where
  "create_replicate sender term entry phase =
     new_message REPLICATE [(''entry'', JDict entry), (''phase'', JStr phase)] sender term"

definition create_gossip :: "string \<Rightarrow> payload list \<Rightarrow> message" where
  "create_gossip sender members = new_message GOSSIP [(''members'', JList (map JDict members))] sender 0"

definition parse_command :: "payload \<Rightarrow> json \<times> json" where
  "parse_command p = (dict_get p ''cmd'' (JStr []), dict_get p ''args'' (JList []))"

section \<open>Receiving\<close>

text \<open>\<^verbatim>\<open>read_message\<close>, and the response loop of the client: one message, what follows it in the last chunk is
  dropped.\<close>

fun read_message :: "float_codec \<Rightarrow> string \<Rightarrow> string list \<Rightarrow> message option \<times> string list" where
  "read_message fc buffer [] = (None, [])"
| "read_message fc buffer (chunk # chunks) =
     (if chunk = [] then (None, chunks)
      else (case split_once newline (buffer @ chunk) of
              Some (line, _) \<Rightarrow> (case decode fc line of Inr m \<Rightarrow> Some m | Inl _ \<Rightarrow> None, chunks)
            | None \<Rightarrow> read_message fc (buffer @ chunk) chunks))"

text \<open>The server's loop. A handler returns a response, nothing, or raises; \<open>err_text\<close> is \<^verbatim>\<open>str(e)\<close>.\<close>

type_synonym 's handler = "message \<Rightarrow> 's \<Rightarrow> (py_error + message option) \<times> 's"

definition error_response :: "(py_error \<Rightarrow> string) \<Rightarrow> py_error \<Rightarrow> message" where
  "error_response err_text e = create_response False JNull (JStr (err_text e))"

definition handle_line :: "float_codec \<Rightarrow> (py_error \<Rightarrow> string) \<Rightarrow> 's handler \<Rightarrow> string \<Rightarrow> 's \<Rightarrow> message list \<times> 's" where
  "handle_line fc err_text handler line s =
     (case decode fc line of
        Inl e \<Rightarrow> ([error_response err_text e], s)
      | Inr m \<Rightarrow>
          (case handler m s of
             (Inl e, s') \<Rightarrow> ([error_response err_text e], s')
           | (Inr None, s') \<Rightarrow> ([], s')
           | (Inr (Some r), s') \<Rightarrow> ([r], s')))"

lemma split_once_length: "split_once c xs = Some (a, b) \<Longrightarrow> length b < length xs"
  by (induction xs arbitrary: a) (fastforce split: if_splits)+

function process_buffer ::
  "float_codec \<Rightarrow> (py_error \<Rightarrow> string) \<Rightarrow> 's handler \<Rightarrow> string \<Rightarrow> 's \<Rightarrow> message list \<times> string \<times> 's" where
  "process_buffer fc err_text handler buffer s =
     (case split_once newline buffer of
        None \<Rightarrow> ([], buffer, s)
      | Some (line, rest) \<Rightarrow>
          let (sent, s1) = (if line = [] then ([], s) else handle_line fc err_text handler line s);
              (more, buffer', s2) = process_buffer fc err_text handler rest s1
          in (sent @ more, buffer', s2))"
  by pat_completeness auto
termination
  by (relation "measure (\<lambda>(fc, err_text, handler, buffer, s). length buffer)") (auto dest: split_once_length)

declare process_buffer.simps [simp del]

fun serve_connection ::
  "float_codec \<Rightarrow> (py_error \<Rightarrow> string) \<Rightarrow> 's handler \<Rightarrow> string \<Rightarrow> string list \<Rightarrow> 's \<Rightarrow> message list \<times> string \<times> 's" where
  "serve_connection fc err_text handler buffer [] s = ([], buffer, s)"
| "serve_connection fc err_text handler buffer (chunk # chunks) s =
     (if chunk = [] then ([], buffer, s)
      else
        let (sent, buffer', s1) = process_buffer fc err_text handler (buffer @ chunk) s;
            (more, buffer'', s2) = serve_connection fc err_text handler buffer' chunks s1
        in (sent @ more, buffer'', s2))"

section \<open>Round trip\<close>

lemma type_code_roundtrip [simp]: "type_of_code (type_code t) = Inr t"
  by (cases t) (simp_all add: type_code_def type_of_code_def message_codes_def)

definition message_ok :: "float_codec \<Rightarrow> message \<Rightarrow> bool" where
  "message_ok fc m \<longleftrightarrow> json_wf fc (JDict (ms_payload m))"

lemma message_json_wf: "message_ok fc m \<Longrightarrow> json_wf fc (message_json m)"
  by (simp add: message_json_def message_ok_def)

lemma message_of_message_json: "bind_res (as_dict (message_json m)) message_of_dict = Inr m"
  by (cases m) (simp add: message_json_def as_dict_def message_of_dict_def dict_item_def dict_get_def as_str_def as_int_def)

lemma split_once_fresh: "c \<notin> set a \<Longrightarrow> split_once c (a @ c # b) = Some (a, b)"
  by (induction a) auto

lemma split_once_none: "split_once c a = None \<longleftrightarrow> c \<notin> set a"
  by (induction a) auto

definition frame :: "float_codec \<Rightarrow> message \<Rightarrow> string" where
  "frame fc m = str_nat (length (dumps fc (message_json m))) @ '':'' @ dumps fc (message_json m)"

lemma encode_frame: "encode fc m = frame fc m @ [newline]"
  by (simp add: encode_def frame_def Let_def)

lemma digit_chars: "list_all is_digit s \<Longrightarrow> c \<in> set s \<Longrightarrow> 48 \<le> code c \<and> code c \<le> 57"
  by (auto simp: list_all_iff is_digit_def)

lemma frame_one_line:
  assumes "float_codec_ok fc" and "message_ok fc m"
  shows "newline \<notin> set (frame fc m)"
proof -
  have p: "\<not> printable newline" by (simp add: printable_def newline_def)
  have "list_all printable (dumps fc (message_json m))" by (rule dumps_printable [OF assms(1) message_json_wf [OF assms(2)]])
  moreover have "list_all printable (str_nat n)" for n using str_nat_digits digits_printable by blast
  ultimately have "list_all printable (frame fc m)" unfolding frame_def by (simp add: printable_def)
  with p show ?thesis by (auto simp: list_all_iff)
qed

lemma decode_frame:
  assumes "float_codec_ok fc" and "message_ok fc m"
  shows "decode fc (frame fc m) = Inr m"
proof -
  let ?j = "dumps fc (message_json m)" and ?n = "str_nat (length (dumps fc (message_json m)))"
  obtain c ds where n: "?n = c # ds" "is_digit c" using str_nat_digits [of "length ?j"] by (cases ?n) auto
  obtain j where j: "?j = j @ ''}''" by (auto simp: message_json_def)
  have "py_strip (frame fc m) = frame fc m"
    using n by (simp add: frame_def j py_strip_def is_space_def is_digit_def)
  moreover have "CHR '':'' \<notin> set ?n" using digit_chars str_nat_digits by fastforce
  then have "split_once (CHR '':'') (frame fc m) = Some (?n, ?j)" unfolding frame_def by (simp add: split_once_fresh)
  moreover have "loads fc ?j = Inr (message_json m)" by (rule loads_dumps [OF assms(1) message_json_wf [OF assms(2)]])
  ultimately show ?thesis by (simp add: decode_def message_of_message_json)
qed

lemma split_once_append: "split_once c a = Some (x, y) \<Longrightarrow> split_once c (a @ b) = Some (x, y @ b)"
  by (induction a arbitrary: x) (auto split: if_splits)

lemma process_buffer_none: "newline \<notin> set buffer \<Longrightarrow> process_buffer fc et h buffer s = ([], buffer, s)"
  by (subst process_buffer.simps) (simp flip: split_once_none)

lemma process_buffer_line:
  "newline \<notin> set line \<Longrightarrow> line \<noteq> [] \<Longrightarrow>
   process_buffer fc et h (line @ newline # rest) s =
     (let (sent, s1) = handle_line fc et h line s; (more, b, s2) = process_buffer fc et h rest s1 in (sent @ more, b, s2))"
  by (subst process_buffer.simps) (simp add: split_once_fresh)

text \<open>What a chunk leaves in the buffer is continued by the next one.\<close>

lemma process_buffer_append:
  assumes "process_buffer fc et h a s = (sent, b, s1)"
  shows "process_buffer fc et h (a @ c) s = (let (more, b', s2) = process_buffer fc et h (b @ c) s1 in (sent @ more, b', s2))"
  using assms
proof (induction fc et h a s arbitrary: sent b s1 rule: process_buffer.induct)
  case (1 fc et h a s)
  show ?case
  proof (cases "split_once newline a")
    case None
    with "1.prems" have "sent = [] \<and> b = a \<and> s1 = s" by (subst (asm) process_buffer.simps) simp
    then show ?thesis by (simp add: case_prod_unfold)
  next
    case (Some p)
    obtain line rest where p: "p = (line, rest)" by fastforce
    obtain out s' where o: "(if line = [] then ([], s) else handle_line fc et h line s) = (out, s')" by (cases "if line = [] then ([], s) else handle_line fc et h line s") blast
    obtain more b2 s2 where m: "process_buffer fc et h rest s' = (more, b2, s2)" by (cases "process_buffer fc et h rest s'") blast
    have e: "sent = out @ more" "b = b2" "s1 = s2"
      using "1.prems" by (subst (asm) process_buffer.simps, simp add: Some p o m)+
    have IH: "process_buffer fc et h (rest @ c) s' = (let (more', b', s2') = process_buffer fc et h (b2 @ c) s2 in (more @ more', b', s2'))"
      using "1.IH" [OF Some p [symmetric] refl o [symmetric]] m by simp
    have "split_once newline (a @ c) = Some (line, rest @ c)" using Some p by (simp add: split_once_append)
    then show ?thesis by (subst process_buffer.simps) (simp add: o IH e Let_def split: prod.splits split del: if_split)
  qed
qed

lemma process_buffer_rest: "process_buffer fc et h a s = (sent, b, s1) \<Longrightarrow> newline \<notin> set b"
proof (induction fc et h a s arbitrary: sent b s1 rule: process_buffer.induct)
  case (1 fc et h a s)
  show ?case
  proof (cases "split_once newline a")
    case None
    with "1.prems" show ?thesis by (subst (asm) process_buffer.simps) (simp flip: split_once_none)
  next
    case (Some p)
    obtain line rest where p: "p = (line, rest)" by fastforce
    obtain out s' where o: "(if line = [] then ([], s) else handle_line fc et h line s) = (out, s')"
      by (cases "if line = [] then ([], s) else handle_line fc et h line s") blast
    obtain more b2 s2 where m: "process_buffer fc et h rest s' = (more, b2, s2)" by (metis prod.exhaust)
    have "b = b2" using "1.prems" by (subst (asm) process_buffer.simps) (simp add: Some p o m)
    with "1.IH" [OF Some p [symmetric] refl o [symmetric]] m show ?thesis by simp
  qed
qed

text \<open>How the stream is cut into chunks does not matter.\<close>

lemma serve_connection_concat:
  assumes "[] \<notin> set chunks" and "newline \<notin> set buffer"
  shows "serve_connection fc et h buffer chunks s = process_buffer fc et h (buffer @ concat chunks) s"
  using assms
proof (induction chunks arbitrary: buffer s)
  case Nil
  then show ?case by (simp add: process_buffer_none)
next
  case (Cons c cs)
  obtain sent b s1 where p: "process_buffer fc et h (buffer @ c) s = (sent, b, s1)" by (metis prod.exhaust)
  have "newline \<notin> set b" using process_buffer_rest [OF p] .
  with Cons.IH [of b s1] Cons.prems(1) process_buffer_append [OF p, of "concat cs"] p show ?case
    by (auto simp: case_prod_unfold Let_def)
qed


text \<open>The messages a connection carries, handled one after the other.\<close>

fun handle_all :: "(py_error \<Rightarrow> string) \<Rightarrow> 's handler \<Rightarrow> message list \<Rightarrow> 's \<Rightarrow> message list \<times> 's" where
  "handle_all et h [] s = ([], s)"
| "handle_all et h (m # ms) s =
     (let (r, s1) = h m s; (more, s2) = handle_all et h ms s1
      in ((case r of Inl e \<Rightarrow> [error_response et e] | Inr None \<Rightarrow> [] | Inr (Some x) \<Rightarrow> [x]) @ more, s2))"

lemma process_messages:
  assumes "float_codec_ok fc" and "list_all (message_ok fc) ms"
  shows "process_buffer fc et h (concat (map (encode fc) ms)) s = (let (out, s') = handle_all et h ms s in (out, [], s'))"
  using assms(2)
proof (induction ms arbitrary: s)
  case Nil
  then show ?case by (simp add: process_buffer_none)
next
  case (Cons m ms)
  then have m: "message_ok fc m" by simp
  have f: "newline \<notin> set (frame fc m)" "frame fc m \<noteq> []" "decode fc (frame fc m) = Inr m"
    using frame_one_line [OF assms(1) m] decode_frame [OF assms(1) m] by (simp_all add: frame_def)
  have "concat (map (encode fc) (m # ms)) = frame fc m @ newline # concat (map (encode fc) ms)" by (simp add: encode_frame)
  then have "process_buffer fc et h (concat (map (encode fc) (m # ms))) s =
      (let (sent, s1) = handle_line fc et h (frame fc m) s; (more, b, s2) = process_buffer fc et h (concat (map (encode fc) ms)) s1
       in (sent @ more, b, s2))" using process_buffer_line [OF f(1,2)] by simp
  with Cons f(3) show ?case
    by (auto simp: handle_line_def case_prod_unfold Let_def split: prod.splits sum.splits option.splits)
qed

text \<open>The server handles the stream it is sent. However the bytes of a sequence of messages are cut into
  chunks on their way, a connection passes exactly these messages to the handler, in order and with the
  handler's state threaded through, sends back one response per message that has one, answers an
  exception of the handler with an error response, and keeps nothing in its buffer.\<close>

theorem server_handles_stream:
  assumes "float_codec_ok fc" and "list_all (message_ok fc) ms" and "concat chunks = concat (map (encode fc) ms)"
    and "[] \<notin> set chunks"
  shows "serve_connection fc et h [] chunks s = (let (out, s') = handle_all et h ms s in (out, [], s'))"
  using serve_connection_concat [OF assms(4), of "[]" fc et h s] process_messages [OF assms(1,2), of et h s] assms(3) by simp

definition echo :: "message list handler" where
  "echo m s = (if ms_type m = GOSSIP then (Inr None, s @ [m]) else (Inr (Some m), s @ [m]))"

lemma sample_messages_ok:
  "list_all (message_ok whole_codec) [create_command ''get'' [''k''] ''x'', create_gossip ''y'' []]"
  by (simp add: message_ok_def create_command_def create_gossip_def new_message_def)

theorem server_handles_stream_witness:
  "serve_connection whole_codec (\<lambda>_. []) echo []
     [take 9 (concat (map (encode whole_codec) [create_command ''get'' [''k''] ''x'', create_gossip ''y'' []])),
      drop 9 (concat (map (encode whole_codec) [create_command ''get'' [''k''] ''x'', create_gossip ''y'' []]))] [] =
   (let (out, s') = handle_all (\<lambda>_. []) echo [create_command ''get'' [''k''] ''x'', create_gossip ''y'' []] [] in (out, [], s'))"
proof (rule server_handles_stream [OF whole_codec_ok sample_messages_ok])
  show "concat [take 9 (concat (map (encode whole_codec) [create_command ''get'' [''k''] ''x'', create_gossip ''y'' []])),
      drop 9 (concat (map (encode whole_codec) [create_command ''get'' [''k''] ''x'', create_gossip ''y'' []]))] =
    concat (map (encode whole_codec) [create_command ''get'' [''k''] ''x'', create_gossip ''y'' []])"
    unfolding concat.simps append_Nil2 by (rule append_take_drop_id)
  show "[] \<notin> set [take 9 (concat (map (encode whole_codec) [create_command ''get'' [''k''] ''x'', create_gossip ''y'' []])),
      drop 9 (concat (map (encode whole_codec) [create_command ''get'' [''k''] ''x'', create_gossip ''y'' []]))]" by code_simp
qed

text \<open>One response, any chunking. Reading a message from a socket returns it, however its bytes are cut
  into chunks.\<close>

theorem read_message_chunks:
  assumes "float_codec_ok fc" and "message_ok fc m" and "concat chunks = encode fc m" and "[] \<notin> set chunks"
  shows "fst (read_message fc [] chunks) = Some m"
proof -
  have "fst (read_message fc b chunks) = Some m" if "b @ concat chunks = encode fc m" "newline \<notin> set b" for b
    using that assms(4)
  proof (induction chunks arbitrary: b)
    case Nil
    then show ?case by (simp add: encode_frame)
  next
    case (Cons c cs)
    show ?case
    proof (cases "split_once newline (b @ c)")
      case None
      then have "newline \<notin> set (b @ c)" by (simp only: split_once_none not_False_eq_True)
      with Cons None show ?thesis by auto
    next
      case (Some p)
      obtain x y where p: "p = (x, y)" by fastforce
      have "split_once newline (encode fc m) = Some (x, y @ concat cs)"
        using Some p Cons.prems(1) split_once_append [of newline "b @ c" x y "concat cs"] by simp
      then have "x = frame fc m" using frame_one_line [OF assms(1,2)] by (simp add: encode_frame split_once_fresh)
      with Some p Cons.prems(3) decode_frame [OF assms(1,2)] show ?thesis by auto
    qed
  qed
  from this [of "[]"] assms(3) show ?thesis by simp
qed

theorem read_message_chunks_witness:
  "fst (read_message whole_codec [] [take 5 (encode whole_codec (create_gossip ''y'' [])), drop 5 (encode whole_codec (create_gossip ''y'' []))]) =
     Some (create_gossip ''y'' [])"
proof (rule read_message_chunks [OF whole_codec_ok])
  show "message_ok whole_codec (create_gossip ''y'' [])" using sample_messages_ok by simp
  show "[] \<notin> set [take 5 (encode whole_codec (create_gossip ''y'' [])), drop 5 (encode whole_codec (create_gossip ''y'' []))]" by code_simp
qed simp

text \<open>Messages that share a chunk get lost in \<^verbatim>\<open>read_message\<close>. What follows the first message in the chunk that
  completes it is thrown away, so of two messages received together only the first is ever returned.\<close>

theorem read_message_drops_rest:
  assumes "float_codec_ok fc" and "message_ok fc m"
  shows "read_message fc [] ((encode fc m @ encode fc m') # chunks) = (Some m, chunks)"
proof -
  have "encode fc m @ encode fc m' = frame fc m @ newline # encode fc m'" by (simp add: encode_frame)
  then have "split_once newline (encode fc m @ encode fc m') = Some (frame fc m, encode fc m')"
    using split_once_fresh [OF frame_one_line [OF assms]] by simp
  then show ?thesis using decode_frame [OF assms] by (simp add: encode_frame)
qed

theorem read_message_drops_rest_witness:
  "read_message whole_codec [] [encode whole_codec (create_gossip ''y'' []) @ encode whole_codec (create_gossip ''z'' [])] =
     (Some (create_gossip ''y'' []), [])"
  by (rule read_message_drops_rest [OF whole_codec_ok]) (use sample_messages_ok in simp)

end
