(* ===== verification/WritePath.thy ===== *)
theory WritePath
  imports Durability Replication Protocol
begin

text \<open>
  The write path of a cluster: the two-phase REPLICATE handling on a follower and the sending side
  (\<^verbatim>\<open>src/minidb/cluster/coordinator.py\<close>), and the leader's coordination of a write
  (\<^verbatim>\<open>_apply_partition_write\<close> of \<^verbatim>\<open>src/minidb/node.py\<close>).

  \<^item> The other nodes are a map from node identifiers to followers. A message to a node that the
    membership does not know is not sent; any other message is dropped, delivered with its reply
    lost, or delivered and answered, as an arbitrary function says. Failed connections, injected
    faults and timeouts are such outcomes.
  \<^item> Clock readings inside one operation are one value.
\<close>

section \<open>Followers\<close>

record follower =
  fl_staged :: "(int, log_entry) dict"
  fl_storage :: storage

text \<open>\<^verbatim>\<open>str.lower()\<close> on the letters of ASCII.\<close>

definition py_lower :: "string \<Rightarrow> string" where
  "py_lower s = map (\<lambda>c. if 65 \<le> (of_char c :: nat) \<and> (of_char c :: nat) \<le> 90 then char_of ((of_char c :: nat) + 32) else c) s"

definition replicate_ok :: response where
  "replicate_ok = Success (JDict [(''success'', JBool True)])"

definition handle_replicate ::
  "float_codec \<Rightarrow> follower \<Rightarrow> time \<Rightarrow> (string \<times> json) list option \<Rightarrow> string option \<Rightarrow> (py_error + response) \<times> follower" where
  "handle_replicate fc fl now edata phase =
     (if edata = None \<or> edata = Some [] then (Inr (Failure ''No entry in payload''), fl)
      else
        (case log_from_dict (the edata) of
           Inl err \<Rightarrow> (Inl err, fl)
         | Inr entry \<Rightarrow>
             let ph = py_lower (if phase = None \<or> phase = Some [] then ''prepare'' else the phase)
             in if ph = ''prepare''
                then (Inr replicate_ok, fl\<lparr>fl_staged := dset (le_index entry) entry (fl_staged fl)\<rparr>)
                else
                  let to_apply = (case dget (fl_staged fl) (le_index entry) of Some st \<Rightarrow> st | None \<Rightarrow> entry);
                      (err, sg) = apply_log_entry fc (fl_storage fl) now to_apply;
                      fl' = fl\<lparr>fl_staged := ddel (le_index entry) (fl_staged fl), fl_storage := sg\<rparr>
                  in (case err of None \<Rightarrow> (Inr replicate_ok, fl') | Some e \<Rightarrow> (Inl e, fl'))))"

section \<open>Sending\<close>

datatype delivery = Dropped | ReplyLost | Replied

type_synonym world = "node_id \<Rightarrow> follower"

record network =
  nw_known :: "node_id \<Rightarrow> bool"
  nw_prepare :: "node_id \<Rightarrow> delivery"
  nw_commit :: "node_id \<Rightarrow> delivery"

definition is_success :: "py_error + response \<Rightarrow> bool" where
  "is_success r = (case r of Inr (Success d) \<Rightarrow> True | _ \<Rightarrow> False)"

definition send_phase ::
  "float_codec \<Rightarrow> time \<Rightarrow> (node_id \<Rightarrow> bool) \<Rightarrow> (node_id \<Rightarrow> delivery) \<Rightarrow> string \<Rightarrow> node_id \<Rightarrow> log_entry \<Rightarrow> world \<Rightarrow> bool \<times> world" where
  "send_phase fc now known net phase f entry w =
     (if \<not> known f \<or> net f = Dropped then (False, w)
      else
        let (r, fl) = handle_replicate fc (w f) now (Some (log_to_dict entry)) (Some phase)
        in (net f = Replied \<and> is_success r, w(f := fl)))"

text \<open>\<^verbatim>\<open>_send_replicate\<close> catches every exception, so the callback never raises.\<close>

definition send_replicate :: "float_codec \<Rightarrow> time \<Rightarrow> network \<Rightarrow> world sender" where
  "send_replicate fc now nw f entry w =
     (let (ok, w') = send_phase fc now (nw_known nw) (nw_prepare nw) ''prepare'' f entry w in (Some ok, w'))"

fun commit_to_followers :: "float_codec \<Rightarrow> time \<Rightarrow> network \<Rightarrow> log_entry \<Rightarrow> node_id list \<Rightarrow> world \<Rightarrow> int \<times> world" where
  "commit_to_followers fc now nw entry [] w = (0, w)"
| "commit_to_followers fc now nw entry (f # fs) w =
     (let (ok, w') = send_phase fc now (nw_known nw) (nw_commit nw) ''commit'' f entry w;
          (n, w'') = commit_to_followers fc now nw entry fs w'
      in (if ok then n + 1 else n, w''))"

section \<open>The leader\<close>

record leader_node =
  ld_node_id :: node_id
  ld_is_leader :: bool
  ld_term :: int
  ld_write_sequence :: int
  ld_storage :: storage
  ld_replication :: replication
  ld_replication_factor :: int
  ld_consistency :: consistency_level
  ld_ring_size :: int
  ld_alive :: "node_id list"
  ld_clock_skew :: time

definition next_write_index :: "leader_node \<Rightarrow> int \<times> leader_node" where
  "next_write_index ld = (ld_write_sequence ld + 1, ld\<lparr>ld_write_sequence := ld_write_sequence ld + 1\<rparr>)"

definition write_replicas :: "leader_node \<Rightarrow> node_id list" where
  "write_replicas ld =
     (let alive = (if ld_node_id ld \<in> set (ld_alive ld) then ld_alive ld else ld_node_id ld # ld_alive ld);
          replicas = py_take alive (max (ld_replication_factor ld) (int (length alive)))
      in if ld_node_id ld \<in> set replicas then replicas
         else ld_node_id ld # filter (\<lambda>r. r \<noteq> ld_node_id ld) replicas)"

definition make_entry ::
  "leader_node \<Rightarrow> time \<Rightarrow> key_metadata option \<Rightarrow> int \<Rightarrow> string \<Rightarrow> string \<Rightarrow> json \<Rightarrow> int option \<Rightarrow> log_entry" where
  "make_entry ld now current index operation key value ttl =
     \<lparr>le_term = ld_term ld, le_index = index, le_command = operation, le_key = key, le_value = value, le_ttl = ttl,
      le_timestamp = now,
      le_version = (case current of Some m \<Rightarrow> md_version m + 1 | None \<Rightarrow> 1),
      le_expires_at = map_option (\<lambda>t. now + of_int t) ttl,
      le_created_at = Some (case current of Some m \<Rightarrow> md_created_at m | None \<Rightarrow> now),
      le_coordinator_id = ld_node_id ld\<rparr>"

definition replication_failed :: "string \<Rightarrow> node_id list \<Rightarrow> string" where
  "replication_failed operation replicas = ''Replication failed for '' @ operation @ '' on replica set '' @ repr_list replicas"

definition apply_partition_write ::
  "float_codec \<Rightarrow> time \<Rightarrow> network \<Rightarrow> leader_node \<Rightarrow> world \<Rightarrow> string \<Rightarrow> string \<Rightarrow> json \<Rightarrow> int option \<Rightarrow>
   (py_error + response) \<times> leader_node \<times> world" where
  "apply_partition_write fc time nw ld w operation key value ttl =
     (if \<not> ld_is_leader ld then (Inr (Failure (''This node is not the write leader for '' @ key)), ld, w)
      else if ld_ring_size ld < ld_replication_factor ld then
        (Inr (Failure (''Cluster not ready for '' @ operation @ '': ring has '' @ str_int (ld_ring_size ld) @ '' nodes, need '' @
           str_int (ld_replication_factor ld))), ld, w)
      else
        let replicas = write_replicas ld;
            (current, store1) = kv_get_with_metadata (sg_store (ld_storage ld)) time key;
            now = time + ld_clock_skew ld;
            (index, ld1) = next_write_index (ld\<lparr>ld_storage := (ld_storage ld)\<lparr>sg_store := store1\<rparr>\<rparr>);
            entry = make_entry ld1 now current index operation key value ttl;
            remote_replicas = filter (\<lambda>r. r \<noteq> ld_node_id ld1) replicas;
            targets = filter (\<lambda>r. r \<in> set (filter (\<lambda>n. n \<noteq> ld_node_id ld1) (ld_alive ld1))) remote_replicas
        in if remote_replicas \<noteq> [] \<and> length targets < length remote_replicas
           then
             (Inr (Failure (''Replication targets unavailable for '' @ operation @ '': missing '' @
                repr_list (sorted_list_of_set (set remote_replicas - set targets)) @ '' (replica set '' @ repr_list replicas @ '')'')), ld1, w)
           else
             let (success, rp, w1) = replicate (Some (send_replicate fc time nw)) None (ld_replication ld1) w entry
                                       (Some (ld_consistency ld1)) (Some targets);
                 ld2 = ld1\<lparr>ld_replication := rp\<rparr>
             in if \<not> success then (Inr (Failure (replication_failed operation replicas)), ld2, w1)
                else
                  let (committed, w2) = commit_to_followers fc time nw entry targets w1
                  in if committed + 1 < required_total (ld_replication_factor ld2) (ld_consistency ld2)
                     then (Inr (Failure (''Commit acknowledgements unavailable for '' @ operation)), ld2, w2)
                     else
                       let (err, sg) = apply_log_entry fc (ld_storage ld2) time entry;
                           ld3 = ld2\<lparr>ld_storage := sg\<rparr>
                       in (case err of None \<Rightarrow> (Inr (Success (JStr ''OK'')), ld3, w2) | Some e \<Rightarrow> (Inl e, ld3, w2)))"

section \<open>What an acknowledged write means\<close>

text \<open>A commit that finds no other entry staged under the index applies the entry it carries.\<close>

definition not_stale :: "log_entry \<Rightarrow> follower \<Rightarrow> bool" where
  "not_stale e fl \<longleftrightarrow> dget (fl_staged fl) (le_index e) = None \<or> dget (fl_staged fl) (le_index e) = Some e"

lemma log_to_dict_nonempty [simp]: "log_to_dict e \<noteq> []"
  by (simp add: log_to_dict_def)

lemma phase_names [simp]: "py_lower ''prepare'' = ''prepare''" "py_lower ''commit'' = ''commit''"
  by (simp_all add: py_lower_def)

lemma handle_prepare:
  "handle_replicate fc fl now (Some (log_to_dict e)) (Some ''prepare'') =
     (Inr replicate_ok, fl\<lparr>fl_staged := dset (le_index e) e (fl_staged fl)\<rparr>)"
  by (simp add: handle_replicate_def log_from_to_dict Let_def)

lemma handle_commit:
  assumes "not_stale e fl"
  shows "handle_replicate fc fl now (Some (log_to_dict e)) (Some ''commit'') =
    (case fst (apply_log_entry fc (fl_storage fl) now e) of None \<Rightarrow> Inr replicate_ok | Some err \<Rightarrow> Inl err,
     fl\<lparr>fl_staged := ddel (le_index e) (fl_staged fl), fl_storage := snd (apply_log_entry fc (fl_storage fl) now e)\<rparr>)"
proof -
  have "(case dget (fl_staged fl) (le_index e) of Some st \<Rightarrow> st | None \<Rightarrow> e) = e"
    using assms by (auto simp: not_stale_def)
  then show ?thesis
    by (simp add: handle_replicate_def log_from_to_dict Let_def case_prod_unfold split: option.splits)
qed

text \<open>The prepare phase changes no storage and leaves nothing stale that was not.\<close>

definition prepared_from :: "log_entry \<Rightarrow> world \<Rightarrow> world \<Rightarrow> bool" where
  "prepared_from e w w' \<longleftrightarrow>
     (\<forall>f. fl_storage (w' f) = fl_storage (w f) \<and> (not_stale e (w f) \<longrightarrow> not_stale e (w' f)))"

lemma send_replicate_prepared: "prepared_from e w (snd (send_replicate fc now nw f e w))"
  by (auto simp: prepared_from_def send_replicate_def send_phase_def handle_prepare Let_def not_stale_def update_conv')

lemma fan_out_prepared: "prepared_from e w (snd (fan_out (send_replicate fc now nw) e fs w))"
proof (induction fs arbitrary: w)
  case Nil
  then show ?case by (simp add: prepared_from_def)
next
  case (Cons f fs)
  obtain r w1 where s: "send_replicate fc now nw f e w = (r, w1)" by fastforce
  with send_replicate_prepared [of e w fc now nw f] Cons.IH [of w1] show ?case
    by (simp add: case_prod_unfold Let_def prepared_from_def)
qed

lemma replicate_to_followers_world:
  "snd (replicate_to_followers send e fs b (rp, w)) = snd (fan_out send e fs w)"
proof (induction fs arbitrary: rp w)
  case (Cons f fs)
  obtain r w1 where "send f e w = (r, w1)" by fastforce
  with Cons show ?case by (cases r) (auto simp: case_prod_unfold Let_def split: bool.splits)
qed simp

lemma replicate_prepared:
  "replicate (Some (send_replicate fc now nw)) gf rp w e c (Some fs) = (ok, rp', w') \<Longrightarrow> prepared_from e w w'"
proof -
  assume r: "replicate (Some (send_replicate fc now nw)) gf rp w e c (Some fs) = (ok, rp', w')"
  have refl: "prepared_from e w w" by (simp add: prepared_from_def)
  have "snd (replicate_to_followers (send_replicate fc now nw) e fs False (rp1, w)) = snd (fan_out (send_replicate fc now nw) e fs w)" for rp1
    by (rule replicate_to_followers_world)
  with r refl fan_out_prepared [of e w fc now nw fs] show ?thesis
    by (auto simp: replicate_def Let_def case_prod_unfold split: if_splits)
qed

text \<open>The commit phase applies the entry on every follower it counts, once.\<close>

lemma send_commit:
  assumes "not_stale e (w f)"
  shows "\<exists>ok fl. send_phase fc now known net ''commit'' f e w = (ok, w(f := fl)) \<and>
    (ok \<longrightarrow> fl_storage fl = snd (apply_log_entry fc (fl_storage (w f)) now e))"
proof (cases "known f \<and> net f \<noteq> Dropped")
  case True
  let ?a = "apply_log_entry fc (fl_storage (w f)) now e"
  let ?fl = "(w f)\<lparr>fl_staged := ddel (le_index e) (fl_staged (w f)), fl_storage := snd ?a\<rparr>"
  let ?ok = "net f = Replied \<and> is_success (case fst ?a of None \<Rightarrow> Inr replicate_ok | Some err \<Rightarrow> Inl err)"
  from True have "send_phase fc now known net ''commit'' f e w = (?ok, w(f := ?fl))"
    by (simp add: send_phase_def handle_commit [OF assms])
  then show ?thesis by (intro exI [of _ ?ok] exI [of _ ?fl]) simp
next
  case False
  then have "send_phase fc now known net ''commit'' f e w = (False, w(f := w f))" by (auto simp: send_phase_def)
  then show ?thesis by blast
qed

lemma commit_applies:
  assumes "distinct fs" and "\<forall>f \<in> set fs. not_stale e (w f)" and "commit_to_followers fc now nw e fs w = (n, w')"
  shows "\<exists>C \<subseteq> set fs. int (card C) = n \<and>
    (\<forall>f \<in> C. fl_storage (w' f) = snd (apply_log_entry fc (fl_storage (w f)) now e)) \<and> (\<forall>f. f \<notin> set fs \<longrightarrow> w' f = w f)"
  using assms
proof (induction fs arbitrary: w n w')
  case Nil
  then show ?case by simp
next
  case (Cons f fs)
  from Cons.prems(2) have "not_stale e (w f)" by simp
  from send_commit [of e w f fc now "nw_known nw" "nw_commit nw", OF this] obtain ok fl where
    s: "send_phase fc now (nw_known nw) (nw_commit nw) ''commit'' f e w = (ok, w(f := fl))"
    and ok: "ok \<longrightarrow> fl_storage fl = snd (apply_log_entry fc (fl_storage (w f)) now e)" by blast
  obtain m w2 where m: "commit_to_followers fc now nw e fs (w(f := fl)) = (m, w2)" by fastforce
  have ns: "\<forall>g \<in> set fs. not_stale e ((w(f := fl)) g)" using Cons.prems(1,2) by auto
  have d: "distinct fs" "f \<notin> set fs" using Cons.prems(1) by auto
  from Cons.IH [OF d(1) ns m] obtain C where C: "C \<subseteq> set fs" "int (card C) = m"
    "\<forall>g \<in> C. fl_storage (w2 g) = snd (apply_log_entry fc (fl_storage ((w(f := fl)) g)) now e)"
    "\<forall>g. g \<notin> set fs \<longrightarrow> w2 g = (w(f := fl)) g" by blast
  have n: "n = (if ok then m + 1 else m)" "w' = w2" using Cons.prems(3) by (simp_all add: s m)
  have fin: "finite C" "f \<notin> C" using C(1) d(2) finite_subset by auto
  have same: "\<forall>g \<in> C. fl_storage (w2 g) = snd (apply_log_entry fc (fl_storage (w g)) now e)"
    using C(3) fin(2) by (metis fun_upd_other)
  show ?case
  proof (cases ok)
    case True
    have "fl_storage (w2 f) = snd (apply_log_entry fc (fl_storage (w f)) now e)" using C(4) d(2) ok True by simp
    moreover have "int (card (insert f C)) = n" using n(1) True C(2) fin by simp
    moreover have "insert f C \<subseteq> set (f # fs)" using C(1) by auto
    moreover have "\<forall>g. g \<notin> set (f # fs) \<longrightarrow> w' g = w g" using C(4) n(2) by simp
    ultimately show ?thesis using same n(2) by (metis insertE)
  next
    case False
    moreover have "C \<subseteq> set (f # fs)" using C(1) by auto
    moreover have "\<forall>g. g \<notin> set (f # fs) \<longrightarrow> w' g = w g" using C(4) n(2) by simp
    ultimately show ?thesis using same n C(2) by auto
  qed
qed

text \<open>The outcome of an entry for its key.\<close>

definition write_entry :: "leader_node \<Rightarrow> time \<Rightarrow> string \<Rightarrow> string \<Rightarrow> json \<Rightarrow> int option \<Rightarrow> log_entry" where
  "write_entry ld time operation key value ttl =
     make_entry ld (time + ld_clock_skew ld) (kv_view time (sg_store (ld_storage ld)) key) (ld_write_sequence ld + 1)
       operation key value ttl"

definition entry_result :: "log_entry \<Rightarrow> key_metadata option" where
  "entry_result e =
     (if le_command e = ''SET''
      then Some \<lparr>md_value = le_value e, md_created_at = (case le_created_at e of Some c \<Rightarrow> c | None \<Rightarrow> le_timestamp e),
                 md_updated_at = le_timestamp e, md_expires_at = le_expires_at e, md_version = le_version e,
                 md_coordinator_id = le_coordinator_id e\<rparr>
      else None)"

lemma applied_result:
  assumes "le_version e \<noteq> 0" and "le_created_at e \<noteq> None" and "is_write e"
  shows "dget (kv_store (sg_store (snd (apply_log_entry fc s now e)))) (le_key e) = entry_result e"
  using assms by (auto simp: apply_log_entry_store log_effect_def entry_result_def set_meta_def is_write_def update_conv' delete_conv')

lemma write_entry_simps [simp]:
  "le_key (write_entry ld t op k v ttl) = k" "le_command (write_entry ld t op k v ttl) = op"
  "le_created_at (write_entry ld t op k v ttl) \<noteq> None" "le_index (write_entry ld t op k v ttl) = ld_write_sequence ld + 1"
  by (simp_all add: write_entry_def make_entry_def)

text \<open>The targets of a write are the other alive members, so the check on unavailable targets never fires.\<close>

definition write_targets :: "leader_node \<Rightarrow> node_id list" where
  "write_targets ld = filter (\<lambda>r. r \<noteq> ld_node_id ld) (ld_alive ld)"

lemma write_replicas_remote:
  "filter (\<lambda>r. r \<noteq> ld_node_id ld) (write_replicas ld) = write_targets ld"
proof -
  have t: "py_take xs (max k (int (length xs))) = xs" for xs :: "node_id list" and k
    by (auto simp: py_take_def Let_def max_def)
  show ?thesis by (auto simp: write_replicas_def Let_def t write_targets_def)
qed

definition prepare_write :: "float_codec \<Rightarrow> time \<Rightarrow> network \<Rightarrow> leader_node \<Rightarrow> world \<Rightarrow> log_entry \<Rightarrow> bool \<times> replication \<times> world" where
  "prepare_write fc t nw ld w e =
     replicate (Some (send_replicate fc t nw)) None (ld_replication ld) w e (Some (ld_consistency ld)) (Some (write_targets ld))"

text \<open>The coordination of a write with its local names resolved.\<close>

lemma apply_partition_write_eq:
  assumes "ld_is_leader ld" and "ld_replication_factor ld \<le> ld_ring_size ld"
    and e_def: "e = write_entry ld t op k v ttl"
    and ld1_def: "ld1 = ld\<lparr>ld_storage := (ld_storage ld)\<lparr>sg_store := snd (kv_get_with_metadata (sg_store (ld_storage ld)) t k)\<rparr>,
                     ld_write_sequence := ld_write_sequence ld + 1\<rparr>"
  shows "apply_partition_write fc t nw ld w op k v ttl =
    (let (success, rp, w1) = prepare_write fc t nw ld w e; ld2 = ld1\<lparr>ld_replication := rp\<rparr>
     in if \<not> success then (Inr (Failure (replication_failed op (write_replicas ld))), ld2, w1)
        else
          let (committed, w2) = commit_to_followers fc t nw e (write_targets ld) w1
          in if committed + 1 < required_total (ld_replication_factor ld) (ld_consistency ld)
             then (Inr (Failure (''Commit acknowledgements unavailable for '' @ op)), ld2, w2)
             else
               let (err, sg) = apply_log_entry fc (ld_storage ld1) t e
               in (case err of None \<Rightarrow> (Inr (Success (JStr ''OK'')), ld2\<lparr>ld_storage := sg\<rparr>, w2)
                   | Some x \<Rightarrow> (Inl x, ld2\<lparr>ld_storage := sg\<rparr>, w2)))"
proof -
  obtain cur st where g: "kv_get_with_metadata (sg_store (ld_storage ld)) t k = (cur, st)" by fastforce
  then have cur: "kv_view t (sg_store (ld_storage ld)) k = cur" using fst_kv_get_with_metadata [of "sg_store (ld_storage ld)" t k] by simp
  have e: "make_entry ld1 (t + ld_clock_skew ld) cur (ld_write_sequence ld + 1) op k v ttl = e"
    by (simp add: e_def ld1_def write_entry_def make_entry_def cur)
  have f: "filter (\<lambda>r. r \<in> set (filter (\<lambda>n. n \<noteq> ld_node_id ld) (ld_alive ld))) (write_targets ld) = write_targets ld"
    by (auto simp: write_targets_def intro: filter_cong)
  show ?thesis
    using assms(1,2) e
    by (simp add: apply_partition_write_def Let_def g next_write_index_def write_replicas_remote f prepare_write_def ld1_def
        case_prod_unfold del: filter_filter set_filter split del: if_split cong: if_cong option.case_cong)
qed

lemma apply_partition_write_started:
  "apply_partition_write fc t nw ld w op k v ttl = (Inr (Success d), ld', w') \<Longrightarrow>
   ld_is_leader ld \<and> ld_replication_factor ld \<le> ld_ring_size ld"
  by (auto simp: apply_partition_write_def split: if_splits)

lemma acknowledged_write_core:
  assumes "apply_partition_write fc t nw ld w op k v ttl = (Inr (Success d), ld', w')"
    and "op = ''SET'' \<or> op = ''DELETE''" and "distinct (ld_alive ld)"
    and "\<forall>f \<in> set (ld_alive ld). dget (fl_staged (w f)) (ld_write_sequence ld + 1) = None"
    and "le_version (write_entry ld t op k v ttl) \<noteq> 0"
  shows "\<exists>C \<subseteq> set (ld_alive ld) - {ld_node_id ld}.
    required_total (ld_replication_factor ld) (ld_consistency ld) \<le> int (card C) + 1 \<and>
    (\<forall>f \<in> C. dget (kv_store (sg_store (fl_storage (w' f)))) k = entry_result (write_entry ld t op k v ttl)) \<and>
    dget (kv_store (sg_store (ld_storage ld'))) k = entry_result (write_entry ld t op k v ttl)"
proof -
  let ?e = "write_entry ld t op k v ttl"
  have st: "ld_is_leader ld" "ld_replication_factor ld \<le> ld_ring_size ld"
    using apply_partition_write_started [OF assms(1)] by simp_all
  obtain success rp w1 where p: "prepare_write fc t nw ld w ?e = (success, rp, w1)" by (cases "prepare_write fc t nw ld w ?e")
  have c: "required_total (ld_replication_factor ld) (ld_consistency ld) \<le>
      fst (commit_to_followers fc t nw ?e (write_targets ld) w1) + 1"
    and w': "w' = snd (commit_to_followers fc t nw ?e (write_targets ld) w1)"
    and l: "\<exists>s. ld_storage ld' = snd (apply_log_entry fc s t ?e)"
    using assms(1) unfolding apply_partition_write_eq [OF st refl refl] p
    by (auto simp: Let_def case_prod_unfold split: if_splits option.splits)
  have pf: "prepared_from ?e w w1" using replicate_prepared [OF p [unfolded prepare_write_def]] .
  have d: "distinct (write_targets ld)" "set (write_targets ld) = set (ld_alive ld) - {ld_node_id ld}"
    using assms(3) by (auto simp: write_targets_def)
  have ns: "\<forall>f \<in> set (write_targets ld). not_stale ?e (w1 f)"
    using pf assms(4) d(2) by (auto simp: prepared_from_def not_stale_def)
  have r: "dget (kv_store (sg_store (snd (apply_log_entry fc s t ?e)))) k = entry_result ?e" for s
    using applied_result [of ?e fc s t] assms(2,5) by (simp add: is_write_def)
  from commit_applies [OF d(1) ns, of fc t nw "fst (commit_to_followers fc t nw ?e (write_targets ld) w1)" w']
  obtain C where C: "C \<subseteq> set (write_targets ld)" "int (card C) = fst (commit_to_followers fc t nw ?e (write_targets ld) w1)"
    "\<forall>f \<in> C. fl_storage (w' f) = snd (apply_log_entry fc (fl_storage (w1 f)) t ?e)" by (auto simp: w')
  show ?thesis
    using C c d(2) l by (intro exI [of _ C]) (auto simp: r simp del: of_nat_add)
qed

text \<open>C5: An acknowledged write is on a quorum. When the leader answers OK to a SET or DELETE, and no
  follower had an entry of an earlier leader staged under the same index, there are enough alive
  followers that, together with the leader, they make up the number of copies the consistency level
  asks for, and every one of them and the leader hold exactly the written value, version, timestamps
  and expiry (or no value, for DELETE), whatever messages were lost on the way.\<close>

theorem acknowledged_write_on_quorum:
  assumes "apply_partition_write fc t nw ld w op k v ttl = (Inr (Success d), ld', w')"
    and "op = ''SET'' \<or> op = ''DELETE''" and "distinct (ld_alive ld)"
    and "\<forall>f \<in> set (ld_alive ld). dget (fl_staged (w f)) (ld_write_sequence ld + 1) = None"
    and "le_version (write_entry ld t op k v ttl) \<noteq> 0"
  shows "\<exists>C \<subseteq> set (ld_alive ld) - {ld_node_id ld}.
    required_total (ld_replication_factor ld) (ld_consistency ld) \<le> int (card C) + 1 \<and>
    (\<forall>f \<in> C. dget (kv_store (sg_store (fl_storage (w' f)))) k = entry_result (write_entry ld t op k v ttl)) \<and>
    dget (kv_store (sg_store (ld_storage ld'))) k = entry_result (write_entry ld t op k v ttl)"
  using assms by (rule acknowledged_write_core)

text \<open>C38: A write that fails in the prepare phase is invisible. When the leader answers
  "Replication failed for ... on replica set ...", no storage of any follower has changed and the leader shows the same values as
  before, whatever messages were lost.\<close>

theorem failed_prepare_invisible:
  assumes "apply_partition_write fc t nw ld w op k v ttl = (Inr (Failure (replication_failed op (write_replicas ld))), ld', w')"
    and "t \<le> t'"
  shows "(\<forall>f. fl_storage (w' f) = fl_storage (w f)) \<and>
    kv_view t' (sg_store (ld_storage ld')) = kv_view t' (sg_store (ld_storage ld))"
proof -
  have st: "ld_is_leader ld" "ld_replication_factor ld \<le> ld_ring_size ld"
    using assms(1) by (auto simp: apply_partition_write_def replication_failed_def split: if_splits)
  let ?e = "write_entry ld t op k v ttl"
  obtain success rp w1 where p: "prepare_write fc t nw ld w ?e = (success, rp, w1)" by (cases "prepare_write fc t nw ld w ?e")
  have l: "ld_storage ld' = (ld_storage ld)\<lparr>sg_store := snd (kv_get_with_metadata (sg_store (ld_storage ld)) t k)\<rparr>" and "w' = w1"
    using assms(1) unfolding apply_partition_write_eq [OF st refl refl] p
    by (auto simp: Let_def case_prod_unfold replication_failed_def split: if_splits option.splits)
  then show ?thesis
    using replicate_prepared [OF p [unfolded prepare_write_def]] assms(2)
    by (simp add: prepared_from_def kv_view_get_with_metadata)
qed

definition sample_leader :: leader_node where
  "sample_leader =
     \<lparr>ld_node_id = ''a'', ld_is_leader = True, ld_term = 2, ld_write_sequence = 0, ld_storage = fresh_storage ''a'',
      ld_replication = replication_init ''a'' 3 QUORUM 5, ld_replication_factor = 3, ld_consistency = QUORUM,
      ld_ring_size = 3, ld_alive = [''a'', ''b'', ''c''], ld_clock_skew = 0\<rparr>"

definition fresh_world :: world where
  "fresh_world = (\<lambda>n. \<lparr>fl_staged = [], fl_storage = fresh_storage n\<rparr>)"

text \<open>A network in which the messages to the named nodes get lost.\<close>

definition lossy_network :: "node_id list \<Rightarrow> node_id list \<Rightarrow> network" where
  "lossy_network lost_prepare lost_commit =
     \<lparr>nw_known = (\<lambda>_. True), nw_prepare = (\<lambda>n. if n \<in> set lost_prepare then Dropped else Replied),
      nw_commit = (\<lambda>n. if n \<in> set lost_commit then Dropped else Replied)\<rparr>"

lemmas write_eval =
  apply_partition_write_def write_replicas_def py_take_def next_write_index_def make_entry_def replicate_def acknowledge_def
  is_sync_level_def required_total_def send_replicate_def send_phase_def lossy_network_def handle_replicate_def
  log_from_to_dict is_success_def replicate_ok_def apply_log_entry_def set_and_append_def aof_write_def
  sample_leader_def fresh_world_def fresh_storage_def replication_init_def kv_init_def kv_get_with_metadata_def kv_set_def Let_def

lemma as_triple: "fst r = a \<Longrightarrow> r = (a, fst (snd r), snd (snd r))"
  by (simp add: prod_eq_iff)

lemma sample_write_ok:
  "fst (apply_partition_write whole_codec 5 (lossy_network [''c''] [''c'']) sample_leader fresh_world ''SET'' ''k'' (JInt 1) None) =
     Inr (Success (JStr ''OK''))"
  by (simp add: write_eval)

theorem acknowledged_write_on_quorum_witness:
  "\<exists>C \<subseteq> set (ld_alive sample_leader) - {ld_node_id sample_leader}.
    required_total (ld_replication_factor sample_leader) (ld_consistency sample_leader) \<le> int (card C) + 1 \<and>
    (\<forall>f \<in> C. dget (kv_store (sg_store (fl_storage (snd (snd (apply_partition_write whole_codec 5
         (lossy_network [''c''] [''c'']) sample_leader fresh_world ''SET'' ''k'' (JInt 1) None)) f)))) ''k'' =
       entry_result (write_entry sample_leader 5 ''SET'' ''k'' (JInt 1) None)) \<and>
    dget (kv_store (sg_store (ld_storage (fst (snd (apply_partition_write whole_codec 5
         (lossy_network [''c''] [''c'']) sample_leader fresh_world ''SET'' ''k'' (JInt 1) None)))))) ''k'' =
      entry_result (write_entry sample_leader 5 ''SET'' ''k'' (JInt 1) None)"
  by (rule acknowledged_write_on_quorum [OF as_triple [OF sample_write_ok]])
    (simp_all add: sample_leader_def fresh_world_def write_entry_def make_entry_def kv_view_apply
      fresh_storage_def kv_init_def)

lemma sample_write_fails:
  "fst (apply_partition_write whole_codec 5 (lossy_network [''b'', ''c''] []) sample_leader fresh_world ''SET'' ''k'' (JInt 1) None) =
     Inr (Failure (replication_failed ''SET'' (write_replicas sample_leader)))"
  by (simp add: write_eval)

theorem failed_prepare_invisible_witness:
  "(\<forall>f. fl_storage (snd (snd (apply_partition_write whole_codec 5 (lossy_network [''b'', ''c''] []) sample_leader fresh_world
       ''SET'' ''k'' (JInt 1) None)) f) = fl_storage (fresh_world f)) \<and>
   kv_view 6 (sg_store (ld_storage (fst (snd (apply_partition_write whole_codec 5 (lossy_network [''b'', ''c''] []) sample_leader
       fresh_world ''SET'' ''k'' (JInt 1) None))))) = kv_view 6 (sg_store (ld_storage sample_leader))"
  by (rule failed_prepare_invisible [OF as_triple [OF sample_write_fails]]) simp

section \<open>Entries staged by another leader\<close>

definition stage_entry :: "log_entry \<Rightarrow> follower \<Rightarrow> follower" where
  "stage_entry e fl = fl\<lparr>fl_staged := dset (le_index e) e (fl_staged fl)\<rparr>"

definition commit_staged :: "float_codec \<Rightarrow> time \<Rightarrow> int \<Rightarrow> log_entry \<Rightarrow> follower \<Rightarrow> follower" where
  "commit_staged fc t i x fl = fl\<lparr>fl_staged := ddel i (fl_staged fl), fl_storage := snd (apply_log_entry fc (fl_storage fl) t x)\<rparr>"

lemma fan_out_answered:
  assumes "distinct fs" and "\<forall>f \<in> set fs. nw_known nw f \<and> nw_prepare nw f \<noteq> ReplyLost"
  shows "fan_out (send_replicate fc t nw) e fs w =
    (filter (\<lambda>f. nw_prepare nw f = Replied) fs, \<lambda>f. if f \<in> set fs \<and> nw_prepare nw f = Replied then stage_entry e (w f) else w f)"
  using assms
proof (induction fs arbitrary: w)
  case (Cons f fs)
  have "send_replicate fc t nw f e w =
      (Some (nw_prepare nw f = Replied), if nw_prepare nw f = Replied then w(f := stage_entry e (w f)) else w)"
    using Cons.prems(2) by (cases "nw_prepare nw f") (auto simp: send_replicate_def send_phase_def handle_prepare stage_entry_def replicate_ok_def is_success_def)
  with Cons show ?case by (auto simp: Let_def fun_eq_iff)
qed simp

lemma commit_staged_answered:
  assumes "distinct fs" and "\<forall>f \<in> set fs. nw_known nw f \<and> nw_commit nw f \<noteq> ReplyLost"
    and "\<forall>f \<in> set fs. nw_commit nw f = Replied \<longrightarrow> dget (fl_staged (w f)) (le_index e) = Some (st f) \<and>
      fst (apply_log_entry fc (fl_storage (w f)) t (st f)) = None"
  shows "commit_to_followers fc t nw e fs w =
    (int (length (filter (\<lambda>f. nw_commit nw f = Replied) fs)),
     \<lambda>f. if f \<in> set fs \<and> nw_commit nw f = Replied then commit_staged fc t (le_index e) (st f) (w f) else w f)"
  using assms
proof (induction fs arbitrary: w)
  case (Cons f fs)
  have s: "send_phase fc t (nw_known nw) (nw_commit nw) ''commit'' f e w =
      (nw_commit nw f = Replied, if nw_commit nw f = Replied then w(f := commit_staged fc t (le_index e) (st f) (w f)) else w)"
    using Cons.prems(2,3) by (cases "nw_commit nw f")
      (auto simp: send_phase_def handle_replicate_def log_from_to_dict Let_def case_prod_unfold commit_staged_def replicate_ok_def is_success_def)
  let ?w = "if nw_commit nw f = Replied then w(f := commit_staged fc t (le_index e) (st f) (w f)) else w"
  have "commit_to_followers fc t nw e fs ?w =
    (int (length (filter (\<lambda>f. nw_commit nw f = Replied) fs)),
     \<lambda>g. if g \<in> set fs \<and> nw_commit nw g = Replied then commit_staged fc t (le_index e) (st g) (?w g) else ?w g)"
    using Cons.prems by (intro Cons.IH) auto
  then show ?case using Cons.prems(1) by (auto simp: s fun_eq_iff)
qed simp

text \<open>C39: A staged entry of another leader fakes a commit. A follower commits whatever it has staged under the index, whoever staged it.
  Whenever the followers of a synchronous write split into a group \<open>P\<close> that confirms the prepare and loses the commit and
  a group \<open>S\<close> that loses the prepare, answers the commit and still holds an entry for another key under the next index,
  each group large enough for the level, then the leader answers OK although no follower holds the written key: those of \<open>S\<close> have
  applied and confirmed the other entry, and what any follower holds for the key is what it held before.\<close>

theorem stale_stage_fakes_quorum:
  assumes "ld_is_leader ld" and "ld_replication_factor ld \<le> ld_ring_size ld" and "distinct (ld_alive ld)"
    and "is_sync_level (ld_consistency ld)" and "rp_replication_factor (ld_replication ld) = ld_replication_factor ld"
    and "r = required_total (ld_replication_factor ld) (ld_consistency ld)" and "1 < r"
    and "dget (rp_pending (ld_replication ld)) (ld_write_sequence ld + 1) = None"
    and "set (ld_alive ld) - {ld_node_id ld} = P \<union> S" and "r - 1 \<le> int (card P)" and "r - 1 \<le> int (card S)"
    and "\<forall>f \<in> P. nw_known nw f \<and> nw_prepare nw f = Replied \<and> nw_commit nw f = Dropped"
    and "\<forall>f \<in> S. nw_known nw f \<and> nw_prepare nw f = Dropped \<and> nw_commit nw f = Replied"
    and "\<forall>f \<in> S. dget (fl_staged (w f)) (ld_write_sequence ld + 1) = Some (st f) \<and> le_key (st f) \<noteq> k \<and>
      fst (apply_log_entry fc (fl_storage (w f)) t (st f)) = None"
    and "fst (apply_log_entry fc ((ld_storage ld)\<lparr>sg_store := snd (kv_get_with_metadata (sg_store (ld_storage ld)) t k)\<rparr>) t
      (write_entry ld t op k v ttl)) = None"
  shows "\<exists>ld' w'. apply_partition_write fc t nw ld w op k v ttl = (Inr (Success (JStr ''OK'')), ld', w') \<and>
    (\<forall>f \<in> S. fl_storage (w' f) = snd (apply_log_entry fc (fl_storage (w f)) t (st f))) \<and>
    (\<forall>f. dget (kv_store (sg_store (fl_storage (w' f)))) k = dget (kv_store (sg_store (fl_storage (w f)))) k)"
proof -
  let ?e = "write_entry ld t op k v ttl" and ?T = "write_targets ld"
  have T: "distinct ?T" "set ?T = P \<union> S" using assms(3,9) by (auto simp: write_targets_def)
  have PS: "filter (\<lambda>f. nw_prepare nw f = Replied) ?T = filter (\<lambda>f. f \<in> P) ?T" "filter (\<lambda>f. nw_commit nw f = Replied) ?T = filter (\<lambda>f. f \<in> S) ?T"
    using T(2) assms(12,13) by (auto intro!: filter_cong)
  have n: "int (length (filter (\<lambda>f. f \<in> P) ?T)) = int (card P)" "int (length (filter (\<lambda>f. f \<in> S) ?T)) = int (card S)"
    using T by (auto simp flip: distinct_card intro!: arg_cong [of _ _ card])
  define w1 where "w1 = (\<lambda>f. if f \<in> set ?T \<and> nw_prepare nw f = Replied then stage_entry ?e (w f) else w f)"
  have "fan_out (send_replicate fc t nw) ?e ?T w = (filter (\<lambda>f. nw_prepare nw f = Replied) ?T, w1)"
    unfolding w1_def using T assms(12,13) by (intro fan_out_answered) auto
  then have p: "prepare_write fc t nw ld w ?e = (True, ld_replication ld, w1)"
    using n length_filter_le [of "\<lambda>f. f \<in> P" ?T] assms(5-8,10) replicate_sync_spec [OF assms(4), of "ld_replication ld" ?e "send_replicate fc t nw" None w ?T] T
    by (auto simp: prepare_write_def PS Let_def)
  have "commit_to_followers fc t nw ?e ?T w1 = (int (length (filter (\<lambda>f. nw_commit nw f = Replied) ?T)),
     \<lambda>f. if f \<in> set ?T \<and> nw_commit nw f = Replied then commit_staged fc t (le_index ?e) (st f) (w1 f) else w1 f)"
    using T assms(12-14) by (intro commit_staged_answered) (auto simp: w1_def)
  then have c: "commit_to_followers fc t nw ?e ?T w1 = (int (card S), \<lambda>f. if f \<in> S then commit_staged fc t (le_index ?e) (st f) (w f) else w1 f)"
    using T assms(12,13) n by (auto simp: PS fun_eq_iff w1_def)
  let ?w' = "\<lambda>f. if f \<in> S then commit_staged fc t (le_index ?e) (st f) (w f) else w1 f"
  have "\<exists>ld'. apply_partition_write fc t nw ld w op k v ttl = (Inr (Success (JStr ''OK'')), ld', ?w')"
    using assms(6,11,15) unfolding apply_partition_write_eq [OF assms(1,2) refl refl] p
    by (simp add: Let_def c case_prod_unfold)
  moreover have "dget (kv_store (sg_store (fl_storage (?w' f)))) k = dget (kv_store (sg_store (fl_storage (w f)))) k" for f
    using assms(14) by (auto simp: commit_staged_def w1_def stage_entry_def apply_log_entry_store log_effect_def update_conv' delete_conv')
  moreover have "\<forall>f \<in> S. fl_storage (?w' f) = snd (apply_log_entry fc (fl_storage (w f)) t (st f))" by (simp add: commit_staged_def)
  ultimately show ?thesis by blast
qed

text \<open>Node c confirms the prepare and misses the commit, b the other way round.\<close>

theorem stale_stage_fakes_quorum_witness:
  "let old = (write_entry sample_leader 1 ''SET'' ''x'' (JInt 7) None)\<lparr>le_term := 1, le_coordinator_id := ''c''\<rparr>;
       w = fresh_world(''b'' := \<lparr>fl_staged = [(1, old)], fl_storage = fresh_storage ''b''\<rparr>)
   in \<exists>ld' w'. apply_partition_write whole_codec 5 (lossy_network [''b''] [''c'']) sample_leader w ''SET'' ''k'' (JInt 1) None =
         (Inr (Success (JStr ''OK'')), ld', w') \<and>
       (\<forall>f \<in> {''b''}. fl_storage (w' f) = snd (apply_log_entry whole_codec (fl_storage (w f)) 5 old)) \<and>
       (\<forall>f. dget (kv_store (sg_store (fl_storage (w' f)))) ''k'' = dget (kv_store (sg_store (fl_storage (w f)))) ''k'')"
  unfolding Let_def
  by (rule stale_stage_fakes_quorum [where P = "{''c''}" and r = 2 and st = "\<lambda>_. _"])
    (auto simp: sample_leader_def lossy_network_def is_sync_level_def replication_init_def required_total_def write_entry_def make_entry_def
      apply_log_entry_def set_and_append_def aof_write_def fresh_storage_def kv_init_def kv_get_with_metadata_def kv_set_def Let_def)

end
