(* ===== verification/ReadCoordinator.thy ===== *)
theory ReadCoordinator
  imports NodeStore Config "HOL-Library.Multiset"
begin

text \<open>
  The read coordinator (\<^verbatim>\<open>src/minidb/cluster/read_coordinator.py\<close>): reads at every consistency level,
  the choice of the freshest answer, read repair and the statistics.

  \<^item> The callbacks act on a world \<open>'w\<close>: asking a replica may purge an expired key there, repairing
    writes to it. A callback that raises is \<^verbatim>\<open>None\<close>; the coordinator catches that for remote reads and
    repairs.
  \<^item> The remote reads of a quorum read run in parallel. Their order of completion is a function
    \<open>order\<close> that splits the remote replicas into those that complete before the timeout, in order, and
    those that do not; an answer that comes too late still acts on the world. The requirement on
    such a function is \<open>fair_order\<close>: it neither invents nor drops a replica.
\<close>

section \<open>State\<close>

record read_result =
  rr_value :: json
  rr_version :: int
  rr_node_id :: node_id
  rr_is_stale :: bool
  rr_updated_at :: time
  rr_created_at :: time
  rr_expires_at :: "time option"
  rr_coordinator_id :: node_id

record read_stats =
  rs_total_reads :: nat
  rs_local_reads :: nat
  rs_remote_reads :: nat
  rs_quorum_reads :: nat
  rs_leader_reads :: nat
  rs_stale_reads_detected :: nat
  rs_read_repairs :: nat

record read_coordinator =
  rc_local_node_id :: node_id
  rc_replication_factor :: int
  rc_read_timeout :: time
  rc_stats :: read_stats

type_synonym read_answer = "json \<times> int \<times> bool \<times> read_metadata"

record 'w read_callbacks =
  cb_get_local_value :: "(string \<Rightarrow> 'w \<Rightarrow> read_answer \<times> 'w) option"
  cb_get_remote_value :: "(string \<Rightarrow> node_id \<Rightarrow> 'w \<Rightarrow> read_answer option \<times> 'w) option"
  cb_get_replicas :: "(string \<Rightarrow> node_id list) option"
  cb_get_primary_owner :: "(string \<Rightarrow> node_id option) option"
  cb_repair_value :: "(string \<Rightarrow> json \<Rightarrow> int \<Rightarrow> node_id \<Rightarrow> read_metadata \<Rightarrow> 'w \<Rightarrow> 'w) option"

definition read_coordinator_init :: "node_id \<Rightarrow> int \<Rightarrow> time \<Rightarrow> read_coordinator" where
  "read_coordinator_init n rf t =
     \<lparr>rc_local_node_id = n, rc_replication_factor = rf, rc_read_timeout = t,
      rc_stats = \<lparr>rs_total_reads = 0, rs_local_reads = 0, rs_remote_reads = 0, rs_quorum_reads = 0,
                  rs_leader_reads = 0, rs_stale_reads_detected = 0, rs_read_repairs = 0\<rparr>\<rparr>"

text \<open>The order of results; \<^verbatim>\<open>coordinator_id or node_id\<close> falls back on the empty string.\<close>

definition result_sort_key :: "read_result \<Rightarrow> order_key" where
  "result_sort_key r =
     (rr_version r, rr_updated_at r, if rr_coordinator_id r \<noteq> [] then rr_coordinator_id r else rr_node_id r)"

section \<open>Asking one replica\<close>

definition answer_result :: "node_id \<Rightarrow> bool \<Rightarrow> read_answer \<Rightarrow> read_result option" where
  "answer_result node include_missing a =
     (let (value, version, found, m) = a;
          r = \<lparr>rr_value = value, rr_version = version, rr_node_id = node, rr_is_stale = False,
               rr_updated_at = rd_updated_at m, rr_created_at = rd_created_at m,
               rr_expires_at = rd_expires_at m, rr_coordinator_id = rd_coordinator_id m\<rparr>
      in if found then Some r
         else if include_missing then Some (r\<lparr>rr_value := JNull, rr_is_stale := True\<rparr>)
         else None)"

definition read_local :: "'w read_callbacks \<Rightarrow> read_coordinator \<Rightarrow> string \<Rightarrow> bool \<Rightarrow> 'w \<Rightarrow> read_result option \<times> 'w" where
  "read_local cb rc key include_missing w =
     (case cb_get_local_value cb of
        None \<Rightarrow> (None, w)
      | Some get \<Rightarrow> (let (a, w') = get key w in (answer_result (rc_local_node_id rc) include_missing a, w')))"

definition read_remote :: "'w read_callbacks \<Rightarrow> string \<Rightarrow> bool \<Rightarrow> node_id \<Rightarrow> 'w \<Rightarrow> read_result option \<times> 'w" where
  "read_remote cb key include_missing node w =
     (case cb_get_remote_value cb of
        None \<Rightarrow> (None, w)
      | Some get \<Rightarrow>
          (case get key node w of
             (None, w') \<Rightarrow> (None, w')
           | (Some a, w') \<Rightarrow> (answer_result node include_missing a, w')))"

section \<open>Asking many replicas\<close>

type_synonym completion = "node_id list \<Rightarrow> node_id list \<times> node_id list"

definition fair_order :: "completion \<Rightarrow> bool" where
  "fair_order order \<longleftrightarrow> (\<forall>xs. mset (fst (order xs)) + mset (snd (order xs)) = mset xs)"

fun local_results :: "'w read_callbacks \<Rightarrow> read_coordinator \<Rightarrow> string \<Rightarrow> node_id list \<Rightarrow> 'w \<Rightarrow> read_result list \<times> 'w" where
  "local_results cb rc key [] w = ([], w)"
| "local_results cb rc key (r # rs) w =
     (if r = rc_local_node_id rc
      then
        let (res, w1) = read_local cb rc key True w; (rest, w2) = local_results cb rc key rs w1
        in (case res of Some x \<Rightarrow> x # rest | None \<Rightarrow> rest, w2)
      else local_results cb rc key rs w)"

text \<open>The answers in order of completion: once enough results are there the loop stops looking, and
  the remaining reads only act on the world.\<close>

fun collect_results ::
  "'w read_callbacks \<Rightarrow> string \<Rightarrow> int \<Rightarrow> node_id list \<Rightarrow> read_result list \<Rightarrow> bool \<Rightarrow> 'w \<Rightarrow> read_result list \<times> 'w" where
  "collect_results cb key min_responses [] results done w = (results, w)"
| "collect_results cb key min_responses (n # ns) results done w =
     (case read_remote cb key True n w of
        (Some x, w') \<Rightarrow>
          if done then collect_results cb key min_responses ns results True w'
          else collect_results cb key min_responses ns (results @ [x])
                 (min_responses \<le> int (length (results @ [x]))) w'
      | (None, w') \<Rightarrow> collect_results cb key min_responses ns results done w')"

definition read_from_replicas ::
  "completion \<Rightarrow> 'w read_callbacks \<Rightarrow> read_coordinator \<Rightarrow> string \<Rightarrow> node_id list \<Rightarrow> int \<Rightarrow> 'w \<Rightarrow> read_result list \<times> 'w" where
  "read_from_replicas order cb rc key replicas min_responses w =
     (let (results, w1) = local_results cb rc key replicas w;
          (arrived, late) = order (filter (\<lambda>r. r \<noteq> rc_local_node_id rc) replicas);
          (results', w2) = collect_results cb key min_responses arrived results False w1;
          (_, w3) = collect_results cb key min_responses late results' True w2
      in (results', w3))"

section \<open>Choosing and repairing\<close>

text \<open>\<^verbatim>\<open>max(xs, key=f)\<close>: the first element with the greatest key.\<close>

definition py_max :: "('a \<Rightarrow> 'b :: linorder) \<Rightarrow> 'a list \<Rightarrow> 'a" where
  "py_max f xs = fold (\<lambda>x best. if f best < f x then x else best) (tl xs) (hd xs)"

definition result_present :: "read_result \<Rightarrow> bool" where
  "result_present r \<longleftrightarrow> \<not> (rr_version r = 0 \<and> rr_value r = JNull)"

definition repair_metadata_of :: "read_result \<Rightarrow> read_metadata" where
  "repair_metadata_of r =
     \<lparr>rd_updated_at = rr_updated_at r, rd_coordinator_id = rr_coordinator_id r, rd_created_at = rr_created_at r,
      rd_expires_at = rr_expires_at r\<rparr>"

fun repair_results ::
  "(string \<Rightarrow> json \<Rightarrow> int \<Rightarrow> node_id \<Rightarrow> read_metadata \<Rightarrow> 'w \<Rightarrow> 'w) \<Rightarrow> string \<Rightarrow> read_result \<Rightarrow> read_result list \<Rightarrow> 'w \<Rightarrow> 'w" where
  "repair_results repair key best [] w = w"
| "repair_results repair key best (r # rs) w =
     repair_results repair key best rs
       (if result_sort_key r < result_sort_key best
        then repair key (rr_value best) (rr_version best) (rr_node_id r) (repair_metadata_of best) w
        else w)"

definition bump_read_repairs :: "read_coordinator \<Rightarrow> read_coordinator" where
  "bump_read_repairs rc = rc\<lparr>rc_stats := (rc_stats rc)\<lparr>rs_read_repairs := rs_read_repairs (rc_stats rc) + 1\<rparr>\<rparr>"

definition bump_stale_reads :: "read_coordinator \<Rightarrow> read_coordinator" where
  "bump_stale_reads rc =
     rc\<lparr>rc_stats := (rc_stats rc)\<lparr>rs_stale_reads_detected := rs_stale_reads_detected (rc_stats rc) + 1\<rparr>\<rparr>"

definition trigger_read_repair ::
  "'w read_callbacks \<Rightarrow> read_coordinator \<Rightarrow> string \<Rightarrow> read_result \<Rightarrow> read_result list \<Rightarrow> 'w \<Rightarrow> read_coordinator \<times> 'w" where
  "trigger_read_repair cb rc key best all_results w =
     (case cb_repair_value cb of
        None \<Rightarrow> (rc, w)
      | Some repair \<Rightarrow> (bump_read_repairs rc, repair_results repair key best all_results w))"

text \<open>The part \<^verbatim>\<open>_read_quorum\<close> and \<^verbatim>\<open>_read_all\<close> share; the triple is (result, quorum_failed, key_absent).\<close>

type_synonym read_outcome = "read_result option \<times> bool \<times> bool"

definition decide_read ::
  "'w read_callbacks \<Rightarrow> read_coordinator \<Rightarrow> string \<Rightarrow> int \<Rightarrow> read_result list \<Rightarrow> 'w \<Rightarrow> read_outcome \<times> read_coordinator \<times> 'w" where
  "decide_read cb rc key required results w =
     (if int (length results) < required then ((None, True, False), rc, w)
      else
        let present = filter result_present results
        in if present = [] then ((None, False, True), rc, w)
           else
             let best = py_max result_sort_key present;
                 (rc', w') = (if card (rr_version ` set present) > 1 \<or> length present < length results
                              then trigger_read_repair cb (bump_stale_reads rc) key best results w
                              else (rc, w))
             in ((Some best, False, False), rc', w'))"

definition read_without_replicas ::
  "'w read_callbacks \<Rightarrow> read_coordinator \<Rightarrow> string \<Rightarrow> 'w \<Rightarrow> read_outcome \<times> read_coordinator \<times> 'w" where
  "read_without_replicas cb rc key w =
     (case read_local cb rc key False w of
        (Some r, w') \<Rightarrow> ((Some r, False, False), rc, w')
      | (None, w') \<Rightarrow> ((None, False, True), rc, w'))"

section \<open>The consistency levels\<close>

definition read_strong ::
  "'w read_callbacks \<Rightarrow> read_coordinator \<Rightarrow> string \<Rightarrow> 'w \<Rightarrow> read_result option \<times> read_coordinator \<times> 'w" where
  "read_strong cb rc key w =
     (let rc1 = rc\<lparr>rc_stats := (rc_stats rc)\<lparr>rs_leader_reads := rs_leader_reads (rc_stats rc) + 1\<rparr>\<rparr>;
          primary = (case cb_get_primary_owner cb of Some g \<Rightarrow> g key | None \<Rightarrow> Some (rc_local_node_id rc))
      in if primary = None \<or> primary = Some [] then (None, rc1, w)
         else if the primary = rc_local_node_id rc
         then (let (r, w') = read_local cb rc key False w in (r, rc1, w'))
         else (let (r, w') = read_remote cb key False (the primary) w in (r, rc1, w')))"

definition read_quorum ::
  "completion \<Rightarrow> 'w read_callbacks \<Rightarrow> read_coordinator \<Rightarrow> string \<Rightarrow> 'w \<Rightarrow> read_outcome \<times> read_coordinator \<times> 'w" where
  "read_quorum order cb rc key w =
     (let rc1 = rc\<lparr>rc_stats := (rc_stats rc)\<lparr>rs_quorum_reads := rs_quorum_reads (rc_stats rc) + 1\<rparr>\<rparr>
      in (case cb_get_replicas cb of
            None \<Rightarrow> read_without_replicas cb rc1 key w
          | Some get_replicas \<Rightarrow>
              let quorum_size = read_quorum_size (rc_replication_factor rc);
                  (results, w') = read_from_replicas order cb rc1 key (get_replicas key) quorum_size w
              in decide_read cb rc1 key quorum_size results w'))"

definition read_all ::
  "completion \<Rightarrow> 'w read_callbacks \<Rightarrow> read_coordinator \<Rightarrow> string \<Rightarrow> 'w \<Rightarrow> read_outcome \<times> read_coordinator \<times> 'w" where
  "read_all order cb rc key w =
     (case cb_get_replicas cb of
        None \<Rightarrow> read_without_replicas cb rc key w
      | Some get_replicas \<Rightarrow>
          let required = rc_replication_factor rc;
              (results, w') = read_from_replicas order cb rc key (get_replicas key) required w
          in decide_read cb rc key required results w')"

fun read_first_remote ::
  "'w read_callbacks \<Rightarrow> read_coordinator \<Rightarrow> string \<Rightarrow> node_id list \<Rightarrow> 'w \<Rightarrow> read_result option \<times> read_coordinator \<times> 'w" where
  "read_first_remote cb rc key [] w = (None, rc, w)"
| "read_first_remote cb rc key (n # ns) w =
     (if n = rc_local_node_id rc then read_first_remote cb rc key ns w
      else (case read_remote cb key False n w of
              (Some r, w') \<Rightarrow>
                (Some r, rc\<lparr>rc_stats := (rc_stats rc)\<lparr>rs_remote_reads := rs_remote_reads (rc_stats rc) + 1\<rparr>\<rparr>, w')
            | (None, w') \<Rightarrow> read_first_remote cb rc key ns w'))"

definition read_any ::
  "'w read_callbacks \<Rightarrow> read_coordinator \<Rightarrow> string \<Rightarrow> 'w \<Rightarrow> read_result option \<times> read_coordinator \<times> 'w" where
  "read_any cb rc key w =
     (let replicas = (case cb_get_replicas cb of Some g \<Rightarrow> g key | None \<Rightarrow> [rc_local_node_id rc]);
          (local_result, w1) = (if rc_local_node_id rc \<in> set replicas then read_local cb rc key False w else (None, w))
      in (case local_result of
            Some r \<Rightarrow> (Some r, rc\<lparr>rc_stats := (rc_stats rc)\<lparr>rs_local_reads := rs_local_reads (rc_stats rc) + 1\<rparr>\<rparr>, w1)
          | None \<Rightarrow> read_first_remote cb rc key replicas w1))"

record read_report =
  rpt_consistency :: string
  rpt_read_time_ms :: time
  rpt_node :: node_id
  rpt_quorum_failed :: bool
  rpt_key_absent :: bool
  rpt_result :: "read_result option"

text \<open>\<^verbatim>\<open>read\<close>; the value is \<^verbatim>\<open>None\<close> when nothing was found. The fields the code copies from the result into
  the metadata are those of \<open>rpt_result\<close>.\<close>

definition coordinator_read ::
  "completion \<Rightarrow> 'w read_callbacks \<Rightarrow> read_coordinator \<Rightarrow> string \<Rightarrow> consistency_level \<Rightarrow> time \<Rightarrow> time \<Rightarrow> 'w \<Rightarrow>
   (json \<times> bool \<times> read_report) \<times> read_coordinator \<times> 'w" where
  "coordinator_read order cb rc key consistency start_time end_time w =
     (let rc1 = rc\<lparr>rc_stats := (rc_stats rc)\<lparr>rs_total_reads := rs_total_reads (rc_stats rc) + 1\<rparr>\<rparr>;
          ((result, quorum_failed, key_absent), rc2, w') =
            (if consistency = STRONG
             then (let (r, rc', w') = read_strong cb rc1 key w in ((r, r = None, False), rc', w'))
             else if consistency = QUORUM then read_quorum order cb rc1 key w
             else if consistency = ALL_REPLICAS then read_all order cb rc1 key w
             else (let (r, rc', w') = read_any cb rc1 key w in ((r, False, False), rc', w')));
          report = \<lparr>rpt_consistency = consistency_value consistency, rpt_read_time_ms = (end_time - start_time) * 1000,
                    rpt_node = rc_local_node_id rc, rpt_quorum_failed = quorum_failed, rpt_key_absent = key_absent,
                    rpt_result = result\<rparr>
      in ((case result of Some r \<Rightarrow> rr_value r | None \<Rightarrow> JNull, result \<noteq> None, report), rc2, w'))"

fun detect_stale_loop ::
  "(string \<Rightarrow> node_id \<Rightarrow> 'w \<Rightarrow> read_answer option \<times> 'w) \<Rightarrow> node_id \<Rightarrow> string \<Rightarrow> int \<Rightarrow> node_id list \<Rightarrow> 'w \<Rightarrow> bool \<times> 'w" where
  "detect_stale_loop get me key local_version [] w = (False, w)"
| "detect_stale_loop get me key local_version (n # ns) w =
     (if n = me then detect_stale_loop get me key local_version ns w
      else (case get key n w of
              (Some (_, remote_version, found, _), w') \<Rightarrow>
                if found \<and> remote_version > local_version then (True, w')
                else detect_stale_loop get me key local_version ns w'
            | (None, w') \<Rightarrow> detect_stale_loop get me key local_version ns w'))"

definition detect_stale_read ::
  "'w read_callbacks \<Rightarrow> read_coordinator \<Rightarrow> string \<Rightarrow> int \<Rightarrow> 'w \<Rightarrow> bool \<times> read_coordinator \<times> 'w" where
  "detect_stale_read cb rc key local_version w =
     (case (cb_get_replicas cb, cb_get_remote_value cb) of
        (Some get_replicas, Some get) \<Rightarrow>
          (let (stale, w') = detect_stale_loop get (rc_local_node_id rc) key local_version (get_replicas key) w
           in (stale, if stale then bump_stale_reads rc else rc, w'))
      | _ \<Rightarrow> (False, rc, w))"

definition rc_get_stats :: "read_coordinator \<Rightarrow> (string, json) dict" where
  "rc_get_stats rc =
     (let s = rc_stats rc
      in [(''total_reads'', JInt (int (rs_total_reads s))), (''local_reads'', JInt (int (rs_local_reads s))),
          (''remote_reads'', JInt (int (rs_remote_reads s))), (''quorum_reads'', JInt (int (rs_quorum_reads s))),
          (''leader_reads'', JInt (int (rs_leader_reads s))),
          (''stale_reads_detected'', JInt (int (rs_stale_reads_detected s))), (''read_repairs'', JInt (int (rs_read_repairs s)))])"

section \<open>What a replicated read returns\<close>

text \<open>The answer a node gives for the entry it shows, and the result made of it.\<close>

definition meta_answer :: "key_metadata option \<Rightarrow> read_answer" where
  "meta_answer e =
     (case e of
        None \<Rightarrow> (JNull, 0, False, no_metadata)
      | Some m \<Rightarrow>
          (md_value m, md_version m, True,
           \<lparr>rd_updated_at = md_updated_at m, rd_coordinator_id = md_coordinator_id m,
            rd_created_at = md_created_at m, rd_expires_at = md_expires_at m\<rparr>))"

definition result_at :: "node_id \<Rightarrow> key_metadata option \<Rightarrow> read_result" where
  "result_at n e =
     (case e of
        None \<Rightarrow> \<lparr>rr_value = JNull, rr_version = 0, rr_node_id = n, rr_is_stale = True, rr_updated_at = 0,
                 rr_created_at = 0, rr_expires_at = None, rr_coordinator_id = []\<rparr>
      | Some m \<Rightarrow> \<lparr>rr_value = md_value m, rr_version = md_version m, rr_node_id = n, rr_is_stale = False,
                   rr_updated_at = md_updated_at m, rr_created_at = md_created_at m,
                   rr_expires_at = md_expires_at m, rr_coordinator_id = md_coordinator_id m\<rparr>)"

lemma answer_result_at [simp]: "answer_result n True (meta_answer e) = Some (result_at n e)"
  by (simp add: answer_result_def meta_answer_def result_at_def no_metadata_def Let_def split: option.splits)

lemma rr_node_id_result_at [simp]: "rr_node_id (result_at n e) = n"
  by (simp add: result_at_def split: option.splits)

lemma result_present_Some: "result_present (result_at n e) \<Longrightarrow> \<exists>m. e = Some m"
  by (cases e) (auto simp: result_present_def result_at_def)

lemma py_max_fold:
  fixes f :: "'a \<Rightarrow> 'b :: linorder"
  shows "fold (\<lambda>x best. if f best < f x then x else best) xs b \<in> insert b (set xs) \<and>
    (\<forall>y \<in> insert b (set xs). f y \<le> f (fold (\<lambda>x best. if f best < f x then x else best) xs b))"
proof (induction xs arbitrary: b)
  case (Cons x xs)
  show ?case using Cons.IH [of "if f b < f x then x else b"] by (auto split: if_splits)
qed simp

lemma py_max_spec:
  assumes "xs \<noteq> []"
  shows "py_max f xs \<in> set xs" and "y \<in> set xs \<Longrightarrow> f y \<le> f (py_max f xs)"
proof -
  have "set xs = insert (hd xs) (set (tl xs))" using assms by (cases xs) simp_all
  with py_max_fold [of f "tl xs" "hd xs"] show "py_max f xs \<in> set xs" and "y \<in> set xs \<Longrightarrow> f y \<le> f (py_max f xs)"
    by (auto simp: py_max_def)
qed

text \<open>A result that is the freshest entry of the nodes \<open>Q\<close>, or their agreement that there is none.\<close>

definition freshest :: "(node_id \<Rightarrow> key_metadata option) \<Rightarrow> node_id set \<Rightarrow> read_result option \<Rightarrow> bool" where
  "freshest sh Q r =
     (case r of
        None \<Rightarrow> \<forall>n \<in> Q. \<not> result_present (result_at n (sh n))
      | Some x \<Rightarrow> result_present x \<and> (\<exists>n \<in> Q. x = result_at n (sh n)) \<and>
          (\<forall>n \<in> Q. result_present (result_at n (sh n)) \<longrightarrow> result_sort_key (result_at n (sh n)) \<le> result_sort_key x))"

lemma decide_read_freshest:
  assumes "decide_read cb rc key k (map (\<lambda>n. result_at n (sh n)) Q) w = ((r, failed, absent), rc', w')"
  shows "if int (length Q) < k then failed \<and> r = None else \<not> failed \<and> (absent \<longleftrightarrow> r = None) \<and> freshest sh (set Q) r"
proof -
  let ?p = "filter result_present (map (\<lambda>n. result_at n (sh n)) Q)"
  have set_p: "set ?p = {x. result_present x \<and> (\<exists>n \<in> set Q. x = result_at n (sh n))}" by auto
  show ?thesis
  proof (cases "int (length Q) < k")
    case True
    then show ?thesis using assms by (simp add: decide_read_def)
  next
    case enough: False
    show ?thesis
    proof (cases "?p = []")
      case True
      with assms enough have "r = None \<and> absent \<and> \<not> failed" by (simp add: decide_read_def Let_def)
      moreover from True have "\<forall>n \<in> set Q. \<not> result_present (result_at n (sh n))" by (auto simp: filter_empty_conv)
      ultimately show ?thesis using enough by (simp add: freshest_def)
    next
      case False
      with assms enough have r: "r = Some (py_max result_sort_key ?p)" "\<not> failed" "\<not> absent"
        by (auto simp: decide_read_def Let_def case_prod_unfold simp del: filter_map)
      have "freshest sh (set Q) r"
        using py_max_spec(1) [OF False, of result_sort_key] py_max_spec(2) [OF False, of _ result_sort_key]
        unfolding r(1) freshest_def set_p by auto
      then show ?thesis using r enough by simp
    qed
  qed
qed

text \<open>The interface between the coordinator and the replicas it asks: every replica answers with the
  entry it shows, and answering does not change what anyone shows. A node that cannot be reached
  shows nothing, as the node's callback reports it.\<close>

locale replica_reads =
  fixes cb :: "'w read_callbacks"
    and me :: node_id
    and key :: string
    and shown :: "'w \<Rightarrow> node_id \<Rightarrow> key_metadata option"
    and ask_local :: "'w \<Rightarrow> read_answer \<times> 'w"
    and ask_remote :: "node_id \<Rightarrow> 'w \<Rightarrow> read_answer option \<times> 'w"
  assumes local_callback: "\<exists>g. cb_get_local_value cb = Some g \<and> g key = ask_local"
    and remote_callback: "\<exists>g. cb_get_remote_value cb = Some g \<and> g key = ask_remote"
    and ask_local: "fst (ask_local w) = meta_answer (shown w me)"
    and ask_remote: "n \<noteq> me \<Longrightarrow> fst (ask_remote n w) = Some (meta_answer (shown w n))"
    and shown_local: "shown (snd (ask_local w)) = shown w"
    and shown_remote: "n \<noteq> me \<Longrightarrow> shown (snd (ask_remote n w)) = shown w"
begin

lemma read_local_shown:
  "rc_local_node_id rc = me \<Longrightarrow> \<exists>w'. read_local cb rc key True w = (Some (result_at me (shown w me)), w') \<and> shown w' = shown w"
  using local_callback ask_local [of w] shown_local [of w]
  by (auto simp: read_local_def case_prod_unfold)

lemma read_remote_shown:
  "n \<noteq> me \<Longrightarrow> \<exists>w'. read_remote cb key True n w = (Some (result_at n (shown w n)), w') \<and> shown w' = shown w"
  using remote_callback ask_remote [of n w] shown_remote [of n w]
  by (cases "ask_remote n w") (auto simp: read_remote_def)

lemma local_results_shown:
  assumes "rc_local_node_id rc = me"
  shows "\<exists>w'. local_results cb rc key ns w = (map (\<lambda>n. result_at n (shown w n)) (filter (\<lambda>n. n = me) ns), w') \<and> shown w' = shown w"
proof (induction ns arbitrary: w)
  case (Cons n ns)
  from read_local_shown [OF assms, of w] obtain w1 where
    w1: "read_local cb rc key True w = (Some (result_at me (shown w me)), w1)" "shown w1 = shown w" by blast
  show ?case using Cons.IH [of w] Cons.IH [of w1] assms w1 by auto
qed simp

lemma collect_done_shown:
  assumes "\<forall>n \<in> set ns. n \<noteq> me"
  shows "\<exists>w'. collect_results cb key k ns results True w = (results, w') \<and> shown w' = shown w"
  using assms
proof (induction ns arbitrary: w)
  case (Cons n ns)
  then have "n \<noteq> me" by simp
  from read_remote_shown [OF this, of w] obtain w1 where
    w1: "read_remote cb key True n w = (Some (result_at n (shown w n)), w1)" "shown w1 = shown w" by blast
  show ?case using Cons.IH [of w1] Cons.prems w1 by auto
qed simp

lemma collect_results_shown:
  assumes "\<forall>n \<in> set ns. n \<noteq> me"
  shows "\<exists>m w'. collect_results cb key k ns results False w =
      (results @ map (\<lambda>n. result_at n (shown w n)) (take m ns), w') \<and> shown w' = shown w \<and>
      (m = length ns \<or> k \<le> int (length results + m)) \<and> m \<le> length ns"
  using assms
proof (induction ns arbitrary: w results)
  case Nil
  then show ?case by simp
next
  case (Cons n ns)
  then have "n \<noteq> me" and ns: "\<forall>n \<in> set ns. n \<noteq> me" by simp_all
  from read_remote_shown [OF this(1), of w] obtain w1 where
    w1: "read_remote cb key True n w = (Some (result_at n (shown w n)), w1)" "shown w1 = shown w" by blast
  let ?r = "results @ [result_at n (shown w n)]"
  show ?case
  proof (cases "k \<le> int (length ?r)")
    case True
    with collect_done_shown [OF ns, of k ?r w1] w1 show ?thesis by (auto intro: exI [of _ 1])
  next
    case False
    from Cons.IH [OF ns, of ?r w1] obtain m w' where "collect_results cb key k ns ?r False w1 =
        (?r @ map (\<lambda>n. result_at n (shown w1 n)) (take m ns), w')" "shown w' = shown w1"
      "m = length ns \<or> k \<le> int (length ?r + m)" "m \<le> length ns" by blast
    with False w1 show ?thesis by (intro exI [of _ "Suc m"]) auto
  qed
qed

text \<open>The responders of a replicated read: some of the replicas, each once, enough of them unless the
  others did not answer in time.\<close>

lemma read_from_replicas_shown:
  assumes "rc_local_node_id rc = me" and "distinct ns" and "fair_order order"
  shows "\<exists>Q w'. read_from_replicas order cb rc key ns k w = (map (\<lambda>n. result_at n (shown w n)) Q, w') \<and>
    shown w' = shown w \<and> distinct Q \<and> set Q \<subseteq> set ns \<and>
    (snd (order (filter (\<lambda>n. n \<noteq> me) ns)) = [] \<longrightarrow> k \<le> int (length ns) \<longrightarrow> k \<le> int (length Q))"
proof -
  let ?L = "filter (\<lambda>n. n = me) ns" and ?R = "filter (\<lambda>n. n \<noteq> me) ns"
  obtain arrived late where o: "order ?R = (arrived, late)" by fastforce
  with assms(3) have ms: "mset arrived + mset late = mset ?R" by (metis fair_order_def fst_conv snd_conv)
  have sets: "set arrived \<union> set late = set ?R" using ms by (metis set_mset_mset set_mset_union)
  then have ne: "\<forall>n \<in> set arrived. n \<noteq> me" "\<forall>n \<in> set late. n \<noteq> me" by auto
  have dist: "distinct arrived" using ms assms(2) by (metis distinct_append distinct_filter mset_append mset_eq_imp_distinct_iff)
  from local_results_shown [OF assms(1), of ns w] obtain w1 where
    l: "local_results cb rc key ns w = (map (\<lambda>n. result_at n (shown w n)) ?L, w1)" "shown w1 = shown w" by blast
  from collect_results_shown [OF ne(1), of k "map (\<lambda>n. result_at n (shown w n)) ?L" w1] l obtain m w2 where
    c: "collect_results cb key k arrived (map (\<lambda>n. result_at n (shown w n)) ?L) False w1 =
        (map (\<lambda>n. result_at n (shown w n)) (?L @ take m arrived), w2)" "shown w2 = shown w"
      "m = length arrived \<or> k \<le> int (length ?L + m)" "m \<le> length arrived" by auto
  from collect_done_shown [OF ne(2), of k "map (\<lambda>n. result_at n (shown w n)) (?L @ take m arrived)" w2] c(2) obtain w3 where
    d: "collect_results cb key k late (map (\<lambda>n. result_at n (shown w n)) (?L @ take m arrived)) True w2 =
        (map (\<lambda>n. result_at n (shown w n)) (?L @ take m arrived), w3)" "shown w3 = shown w" by auto
  have "read_from_replicas order cb rc key ns k w = (map (\<lambda>n. result_at n (shown w n)) (?L @ take m arrived), w3)"
    using l c(1) d(1) o assms(1) by (simp add: read_from_replicas_def)
  moreover have "distinct (?L @ take m arrived)" using dist assms(2) ne(1) by (auto dest: in_set_takeD)
  moreover have "set (?L @ take m arrived) \<subseteq> set ns" using sets by (auto dest: in_set_takeD)
  moreover have "late = [] \<Longrightarrow> k \<le> int (length ns) \<Longrightarrow> k \<le> int (length (?L @ take m arrived))"
  proof -
    assume "late = []" "k \<le> int (length ns)"
    then have "length arrived = length ?R" using ms by (metis add.right_neutral mset.simps(1) size_mset)
    moreover have "length ?L + length ?R = length ns" by (rule sum_length_filter_compl)
    ultimately show ?thesis using c(3,4) \<open>k \<le> int (length ns)\<close> by auto
  qed
  ultimately show ?thesis using d(2) o by (intro exI [of _ "?L @ take m arrived"] exI [of _ w3]) simp
qed

lemma replicated_read_outcome:
  assumes "rc_local_node_id rc = me" and "distinct ns" and "fair_order order"
    and "(let (results, w1) = read_from_replicas order cb rc key ns k w in decide_read cb rc key k results w1) =
      ((r, failed, absent), rc', w')"
  shows "\<exists>Q \<subseteq> set ns. (if failed then r = None \<and> (snd (order (filter (\<lambda>n. n \<noteq> me) ns)) \<noteq> [] \<or> int (length ns) < k)
    else k \<le> int (card Q) \<and> (absent \<longleftrightarrow> r = None) \<and> freshest (shown w) Q r)"
proof -
  from read_from_replicas_shown [OF assms(1-3), of k w] obtain Q w1 where
    Q: "read_from_replicas order cb rc key ns k w = (map (\<lambda>n. result_at n (shown w n)) Q, w1)"
      "distinct Q" "set Q \<subseteq> set ns"
      "snd (order (filter (\<lambda>n. n \<noteq> me) ns)) = [] \<longrightarrow> k \<le> int (length ns) \<longrightarrow> k \<le> int (length Q)" by blast
  from assms(4) have "decide_read cb rc key k (map (\<lambda>n. result_at n (shown w n)) Q) w1 = ((r, failed, absent), rc', w')"
    by (simp add: Q(1))
  from decide_read_freshest [OF this] Q(2,4) distinct_card [OF Q(2)] show ?thesis
    by (intro exI [of _ "set Q"] conjI Q(3)) (auto split: if_splits)
qed

text \<open>A write that a majority of the replicas hold is seen by every quorum read that does not fail.\<close>

lemma quorum_read_sees_majority:
  assumes "rc_local_node_id rc = me" and "cb_get_replicas cb = Some g" and "distinct (g key)" and "fair_order order"
    and "int (length (g key)) = rc_replication_factor rc" and "0 < rc_replication_factor rc"
    and "W \<subseteq> set (g key)" and "rc_replication_factor rc < 2 * int (card W)"
    and "\<And>n. n \<in> W \<Longrightarrow> result_present (result_at n (shown w n)) \<and> K \<le> result_sort_key (result_at n (shown w n))"
    and "read_quorum order cb rc key w = ((r, failed, absent), rc', w')"
  shows "(failed \<and> r = None \<and> snd (order (filter (\<lambda>n. n \<noteq> me) (g key))) \<noteq> []) \<or>
    (\<not> failed \<and> (\<exists>n \<in> set (g key). \<exists>m. shown w n = Some m \<and> r = Some (result_at n (Some m)) \<and> K \<le> result_sort_key (result_at n (Some m))))"
proof -
  let ?k = "read_quorum_size (rc_replication_factor rc)"
  let ?rc = "rc\<lparr>rc_stats := (rc_stats rc)\<lparr>rs_quorum_reads := rs_quorum_reads (rc_stats rc) + 1\<rparr>\<rparr>"
  have k: "?k \<le> rc_replication_factor rc" "rc_replication_factor rc < 2 * ?k"
    using assms(6) by (auto simp: read_quorum_size_def)
  have "(let (results, w1) = read_from_replicas order cb ?rc key (g key) ?k w in decide_read cb ?rc key ?k results w1) =
      ((r, failed, absent), rc', w')"
    using assms(10) by (simp add: read_quorum_def assms(2) Let_def)
  from replicated_read_outcome [OF _ assms(3,4) this] assms(1) obtain Q where Q: "Q \<subseteq> set (g key)"
    "if failed then r = None \<and> (snd (order (filter (\<lambda>n. n \<noteq> me) (g key))) \<noteq> [] \<or> int (length (g key)) < ?k)
     else ?k \<le> int (card Q) \<and> (absent \<longleftrightarrow> r = None) \<and> freshest (shown w) Q r" by auto
  show ?thesis
  proof (cases failed)
    case True
    with Q(2) k(1) assms(5) show ?thesis by auto
  next
    case False
    have "card (W \<union> Q) \<le> card (set (g key))" using Q(1) assms(7) by (intro card_mono) auto
    moreover have "int (card (set (g key))) = rc_replication_factor rc" using assms(3,5) by (simp add: distinct_card)
    moreover have "card W + card Q = card (W \<union> Q) + card (W \<inter> Q)"
      using Q(1) assms(7) by (intro card_Un_Int) (auto intro: finite_subset)
    ultimately have "card (W \<inter> Q) \<noteq> 0" using Q(2) False k(2) assms(8) by auto
    then have "W \<inter> Q \<noteq> {}" by auto
    then obtain n where n: "n \<in> W" "n \<in> Q" by blast
    with assms(9) [OF n(1)] Q(2) False obtain x where
      x: "r = Some x" "result_sort_key (result_at n (shown w n)) \<le> result_sort_key x" "\<exists>n \<in> Q. x = result_at n (shown w n)" "result_present x"
      by (auto simp: freshest_def split: option.splits)
    then obtain n' where n': "n' \<in> Q" "x = result_at n' (shown w n')" by blast
    with x(4) result_present_Some obtain m where "shown w n' = Some m" by blast
    with n' x assms(9) [OF n(1)] Q(1) False show ?thesis by (metis order_trans subsetD)
  qed
qed

end

end
