(* ===== verification/NodeReads.thy ===== *)
theory NodeReads
  imports WritePath ReadCoordinator
begin

text \<open>
  How a node of \<^verbatim>\<open>src/minidb/node.py\<close> uses the read coordinator: its callbacks for local and remote
  values and for repair, and the GET command.

  \<^item> The cluster is a map from node identifiers to storages; the reading node is one of them. What the
    node knows of the others, and what the network does to a command sent to them, are the
    functions of \<open>peers\<close>.
  \<^item> \<open>parse_int\<close> and \<open>parse_float\<close> are \<^verbatim>\<open>int()\<close> and \<^verbatim>\<open>float()\<close> on command arguments, as for the replica
    handler; \<^verbatim>\<open>str()\<close> of a float is the codec's.
\<close>

section \<open>Callbacks\<close>

type_synonym node_stores = "node_id \<Rightarrow> storage"

record peers =
  pe_known :: "node_id \<Rightarrow> bool"
  pe_alive :: "node_id \<Rightarrow> bool"
  pe_read :: "node_id \<Rightarrow> delivery"
  pe_repair :: "node_id \<Rightarrow> delivery"

definition no_value :: read_answer where
  "no_value = (JNull, 0, False, no_metadata)"

definition decode_read :: "(string \<times> json) list \<Rightarrow> read_answer res" where
  "decode_read data =
     bind_res (as_int (dict_get data ''version'' (JInt 0))) (\<lambda>version.
     bind_res (as_time (dict_get data ''updated_at'' (JFloat 0))) (\<lambda>updated_at.
     bind_res (as_time (dict_get data ''created_at'' (JFloat 0))) (\<lambda>created_at.
     bind_res (as_opt as_time (dict_get data ''expires_at'' JNull)) (\<lambda>expires_at.
     bind_res (as_str (dict_get data ''coordinator_id'' (JStr []))) (\<lambda>coordinator_id.
       Inr (dict_get data ''value'' JNull, version, truthy (dict_get data ''found'' JNull),
            \<lparr>rd_updated_at = updated_at, rd_coordinator_id = coordinator_id, rd_created_at = created_at,
             rd_expires_at = expires_at\<rparr>))))))"

definition get_remote_value_for_read ::
  "peers \<Rightarrow> time \<Rightarrow> string \<Rightarrow> node_id \<Rightarrow> node_stores \<Rightarrow> read_answer option \<times> node_stores" where
  "get_remote_value_for_read pe now key n w =
     (if \<not> pe_known pe n \<or> pe_read pe n = Dropped then (Some no_value, w)
      else
        let (response, s) = handle_local_read (w n) now [key]
        in (if pe_read pe n = Replied
            then (case response of
                    Success (JDict data) \<Rightarrow> (case decode_read data of Inr a \<Rightarrow> Some a | Inl _ \<Rightarrow> Some no_value)
                  | _ \<Rightarrow> Some no_value)
            else Some no_value,
            w(n := s)))"

fun replicate_value_to_nodes ::
  "(string \<Rightarrow> int option) \<Rightarrow> (string \<Rightarrow> time option) \<Rightarrow> float_codec \<Rightarrow> peers \<Rightarrow> node_id \<Rightarrow> time \<Rightarrow>
   string \<Rightarrow> json \<Rightarrow> int \<Rightarrow> repair_metadata \<Rightarrow> node_id list \<Rightarrow> node_stores \<Rightarrow> nat \<times> node_stores" where
  "replicate_value_to_nodes pint pflt fc pe me now key value version metadata [] w = (0, w)"
| "replicate_value_to_nodes pint pflt fc pe me now key value version metadata (n # ns) w =
     (if n = me \<or> \<not> pe_known pe n \<or> \<not> pe_alive pe n \<or> pe_repair pe n = Dropped
      then replicate_value_to_nodes pint pflt fc pe me now key value version metadata ns w
      else
        let updated_at = (case rm_updated_at metadata of Some t \<Rightarrow> t | None \<Rightarrow> now);
            created_at = (case rm_created_at metadata of Some t \<Rightarrow> t | None \<Rightarrow> updated_at);
            coordinator_id = (case rm_coordinator_id metadata of Some c \<Rightarrow> c | None \<Rightarrow> me);
            (r, s) = handle_replica_set pint pflt fc (w n) now
              [key, dumps fc value, str_int version,
               case rm_expires_at metadata of None \<Rightarrow> [] | Some e \<Rightarrow> fc_repr fc e,
               fc_repr fc updated_at, fc_repr fc created_at, coordinator_id];
            (k, w') = replicate_value_to_nodes pint pflt fc pe me now key value version metadata ns (w(n := s))
        in (if pe_repair pe n = Replied \<and> is_success r then Suc k else k, w'))"

definition repair_value ::
  "(string \<Rightarrow> int option) \<Rightarrow> (string \<Rightarrow> time option) \<Rightarrow> float_codec \<Rightarrow> peers \<Rightarrow> node_id \<Rightarrow> time \<Rightarrow>
   string \<Rightarrow> json \<Rightarrow> int \<Rightarrow> node_id option \<Rightarrow> repair_metadata option \<Rightarrow> node_stores \<Rightarrow> node_stores" where
  "repair_value pint pflt fc pe me now key value version target metadata w =
     (if target = None \<or> target = Some [] \<or> target = Some me
      then w(me := snd (apply_repair_data fc (w me) now key value version
             (case metadata of Some m \<Rightarrow> m
              | None \<Rightarrow> \<lparr>rm_updated_at = None, rm_created_at = None, rm_expires_at = None, rm_coordinator_id = None\<rparr>)))
      else
        let (m, w1) =
          (case metadata of
             Some m \<Rightarrow> (m, w)
           | None \<Rightarrow>
               let (current, st) = kv_get_with_metadata (sg_store (w me)) now key;
                   w1 = w(me := (w me)\<lparr>sg_store := st\<rparr>)
               in (case current of
                     Some c \<Rightarrow> (\<lparr>rm_updated_at = Some (md_updated_at c), rm_created_at = Some (md_created_at c),
                                rm_expires_at = md_expires_at c,
                                rm_coordinator_id = Some (if md_coordinator_id c \<noteq> [] then md_coordinator_id c else me)\<rparr>, w1)
                   | None \<Rightarrow> (\<lparr>rm_updated_at = Some now, rm_created_at = Some now, rm_expires_at = None,
                              rm_coordinator_id = Some me\<rparr>, w1)))
        in snd (replicate_value_to_nodes pint pflt fc pe me now key value version m [the target] w1))"

definition repair_dict :: "read_metadata \<Rightarrow> repair_metadata" where
  "repair_dict m = \<lparr>rm_updated_at = Some (rd_updated_at m), rm_created_at = Some (rd_created_at m),
     rm_expires_at = rd_expires_at m, rm_coordinator_id = Some (rd_coordinator_id m)\<rparr>"

text \<open>The callbacks the node gives to its read coordinator.\<close>

definition node_read_callbacks ::
  "(string \<Rightarrow> int option) \<Rightarrow> (string \<Rightarrow> time option) \<Rightarrow> float_codec \<Rightarrow> peers \<Rightarrow> node_id \<Rightarrow> time \<Rightarrow>
   (string \<Rightarrow> node_id list) \<Rightarrow> (string \<Rightarrow> node_id option) \<Rightarrow> node_stores read_callbacks" where
  "node_read_callbacks pint pflt fc pe me now replicas primary =
     \<lparr>cb_get_local_value = Some (\<lambda>key w. let (a, s) = get_local_value_for_read (w me) now key in (a, w(me := s))),
      cb_get_remote_value = Some (get_remote_value_for_read pe now),
      cb_get_replicas = Some replicas,
      cb_get_primary_owner = Some primary,
      cb_repair_value = Some (\<lambda>key value version target m.
        repair_value pint pflt fc pe me now key value version (Some target) (Some (repair_dict m)))\<rparr>"

section \<open>GET\<close>

definition handle_get ::
  "completion \<Rightarrow> node_stores read_callbacks \<Rightarrow> consistency_level \<Rightarrow> read_coordinator \<Rightarrow> time \<Rightarrow> string list \<Rightarrow> node_stores \<Rightarrow>
   response \<times> read_coordinator \<times> node_stores" where
  "handle_get order cb default_consistency rc now args w =
     (if args = [] then (Failure ''GET requires key'', rc, w)
      else
        let key = hd args;
            consistency = (if length args > 1
                           then (case consistency_of (py_upper (args ! 1)) of Inr c \<Rightarrow> c | Inl _ \<Rightarrow> default_consistency)
                           else default_consistency);
            ((value, found, report), rc', w') = coordinator_read order cb rc key consistency now now w
        in if found then (Success value, rc', w')
           else if rpt_quorum_failed report then (Failure (''Quorum read failed for key '' @ key), rc', w')
           else (Success JNull, rc', w'))"

section \<open>The replicas as the coordinator sees them\<close>

definition shown_by :: "peers \<Rightarrow> node_id \<Rightarrow> time \<Rightarrow> string \<Rightarrow> node_stores \<Rightarrow> node_id \<Rightarrow> key_metadata option" where
  "shown_by pe me now key w n =
     (if n = me \<or> (pe_known pe n \<and> pe_read pe n = Replied) then kv_view now (sg_store (w n)) key else None)"

lemma get_local_value_view:
  "get_local_value_for_read s now key =
     (meta_answer (kv_view now (sg_store s) key), s\<lparr>sg_store := snd (kv_get_with_metadata (sg_store s) now key)\<rparr>)"
proof -
  obtain e st where g: "kv_get_with_metadata (sg_store s) now key = (e, st)" by fastforce
  then have "kv_view now (sg_store s) key = e" using fst_kv_get_with_metadata [of "sg_store s" now key] by simp
  with g show ?thesis by (simp add: get_local_value_for_read_def meta_answer_def)
qed

lemma local_read_store:
  "snd (handle_local_read s now [key]) = s\<lparr>sg_store := snd (kv_get_with_metadata (sg_store s) now key)\<rparr>"
  by (simp add: handle_local_read_def case_prod_unfold Let_def)

lemma local_read_decoded:
  "\<exists>data. fst (handle_local_read s now [key]) = Success (JDict data) \<and>
     decode_read data = Inr (meta_answer (kv_view now (sg_store s) key))"
proof -
  have t: "as_opt as_time (of_opt JFloat x) = Inr x" for x by (cases x) (simp_all add: as_opt_def of_opt_def as_time_def)
  have n: "as_opt f JNull = Inr None" for f :: "json \<Rightarrow> time res" by (simp add: as_opt_def)
  obtain e st where g: "kv_get_with_metadata (sg_store s) now key = (e, st)" by fastforce
  then have "kv_view now (sg_store s) key = e" using fst_kv_get_with_metadata [of "sg_store s" now key] by simp
  with g show ?thesis
    by (cases e) (simp_all add: handle_local_read_def meta_answer_def no_metadata_def decode_read_def dict_get_def
        as_int_def as_time_def as_str_def t n truthy.simps)
qed

lemma shown_after_read:
  "shown_by pe me now key (w(n := (w n)\<lparr>sg_store := snd (kv_get_with_metadata (sg_store (w n)) now key)\<rparr>)) = shown_by pe me now key w"
  by (auto simp: shown_by_def fun_eq_iff kv_view_get_with_metadata)

interpretation node_reads: replica_reads "node_read_callbacks pint pflt fc pe me now replicas primary" me key "shown_by pe me now key"
    "\<lambda>w. let (a, s) = get_local_value_for_read (w me) now key in (a, w(me := s))" "get_remote_value_for_read pe now key"
  for pint pflt fc pe me now replicas primary key
proof
  fix n :: node_id and w :: node_stores
  obtain data where d: "fst (handle_local_read (w n) now [key]) = Success (JDict data)"
    "decode_read data = Inr (meta_answer (kv_view now (sg_store (w n)) key))" using local_read_decoded by blast
  assume "n \<noteq> me"
  then show "fst (get_remote_value_for_read pe now key n w) = Some (meta_answer (shown_by pe me now key w n))"
    using d by (auto simp: get_remote_value_for_read_def case_prod_unfold Let_def shown_by_def no_value_def meta_answer_def)
  show "shown_by pe me now key (snd (get_remote_value_for_read pe now key n w)) = shown_by pe me now key w"
    by (simp add: get_remote_value_for_read_def case_prod_unfold Let_def local_read_store shown_after_read)
qed (auto simp: node_read_callbacks_def get_local_value_view shown_after_read, simp add: shown_by_def)

section \<open>Properties\<close>

text \<open>Every replica answers when asked.\<close>

definition all_answer :: "peers \<Rightarrow> node_id \<Rightarrow> node_id list \<Rightarrow> bool" where
  "all_answer pe me ns \<longleftrightarrow> (\<forall>n \<in> set ns. n = me \<or> (pe_known pe n \<and> pe_read pe n = Replied))"

lemma handle_get_quorum:
  "fst (handle_get order cb QUORUM rc now [key] w) =
    (let ((r, failed, _), _, _) =
       read_quorum order cb (rc\<lparr>rc_stats := (rc_stats rc)\<lparr>rs_total_reads := rs_total_reads (rc_stats rc) + 1\<rparr>\<rparr>) key w
     in case r of Some x \<Rightarrow> Success (rr_value x)
        | None \<Rightarrow> if failed then Failure (''Quorum read failed for key '' @ key) else Success JNull)"
  by (auto simp: handle_get_def coordinator_read_def Let_def split: prod.splits option.splits)

lemma rr_value_result_at [simp]: "rr_value (result_at n (Some m)) = md_value m"
  by (simp add: result_at_def)

lemma result_sort_key_at: "md_coordinator_id m \<noteq> [] \<Longrightarrow> result_sort_key (result_at n (Some m)) = metadata_sort_key m"
  by (simp add: result_sort_key_def result_at_def metadata_sort_key_def)

lemma result_present_at: "md_version m \<noteq> 0 \<Longrightarrow> result_present (result_at n (Some m))"
  by (simp add: result_present_def result_at_def)

lemma shown_by_all: "all_answer pe me ns \<Longrightarrow> n \<in> set ns \<Longrightarrow> shown_by pe me now key w n = kv_view now (sg_store (w n)) key"
  by (auto simp: all_answer_def shown_by_def)

text \<open>An entry at least as new as \<open>K\<close>, as the read path orders entries.\<close>

definition holds_since :: "order_key \<Rightarrow> time \<Rightarrow> string \<Rightarrow> storage \<Rightarrow> bool" where
  "holds_since K now key s \<longleftrightarrow>
     (\<exists>m. kv_view now (sg_store s) key = Some m \<and> K \<le> metadata_sort_key m \<and> md_version m \<noteq> 0 \<and> md_coordinator_id m \<noteq> [])"

lemma quorum_get_core:
  assumes "fair_order order" and "rc_local_node_id rc = me"
    and "distinct (replicas key)" and "int (length (replicas key)) = rc_replication_factor rc" and "replicas key \<noteq> []"
    and "all_answer pe me (replicas key)"
    and "W \<subseteq> set (replicas key)" and "rc_replication_factor rc < 2 * int (card W)" and "\<forall>n \<in> W. holds_since K now key (w n)"
  shows "fst (handle_get order (node_read_callbacks pint pflt fc pe me now replicas primary) QUORUM rc now [key] w) \<in>
    (if snd (order (filter (\<lambda>n. n \<noteq> me) (replicas key))) = [] then {} else {Failure (''Quorum read failed for key '' @ key)}) \<union>
    {Success (md_value m) | n m. n \<in> set (replicas key) \<and> kv_view now (sg_store (w n)) key = Some m \<and>
       K \<le> result_sort_key (result_at n (Some m))}"
proof -
  let ?cb = "node_read_callbacks pint pflt fc pe me now replicas primary"
  let ?rc = "rc\<lparr>rc_stats := (rc_stats rc)\<lparr>rs_total_reads := rs_total_reads (rc_stats rc) + 1\<rparr>\<rparr>"
  obtain r failed absent rc' w' where q: "read_quorum order ?cb ?rc key w = ((r, failed, absent), rc', w')"
    by (metis prod.exhaust)
  have g: "fst (handle_get order ?cb QUORUM rc now [key] w) =
      (case r of Some x \<Rightarrow> Success (rr_value x)
       | None \<Rightarrow> if failed then Failure (''Quorum read failed for key '' @ key) else Success JNull)"
    unfolding handle_get_quorum q by simp
  have pos: "0 < rc_replication_factor rc" using assms(4,5) by (cases "replicas key") auto
  have W: "result_present (result_at n (shown_by pe me now key w n)) \<and> K \<le> result_sort_key (result_at n (shown_by pe me now key w n))"
    if "n \<in> W" for n
    using that assms(7,9) shown_by_all [OF assms(6), of n now key w]
    by (fastforce simp: holds_since_def result_present_at result_sort_key_at)
  have "(failed \<and> r = None \<and> snd (order (filter (\<lambda>n. n \<noteq> me) (replicas key))) \<noteq> []) \<or>
    (\<not> failed \<and> (\<exists>n \<in> set (replicas key). \<exists>m. shown_by pe me now key w n = Some m \<and> r = Some (result_at n (Some m)) \<and>
       K \<le> result_sort_key (result_at n (Some m))))"
    using assms(2-5,8) pos
    by (intro node_reads.quorum_read_sees_majority [where g = replicas, OF _ _ _ assms(1) _ _ assms(7) _ W q])
      (auto simp: node_read_callbacks_def)
  then show ?thesis
  proof
    assume "failed \<and> r = None \<and> snd (order (filter (\<lambda>n. n \<noteq> me) (replicas key))) \<noteq> []"
    then show ?thesis by (simp add: g)
  next
    assume "\<not> failed \<and> (\<exists>n \<in> set (replicas key). \<exists>m. shown_by pe me now key w n = Some m \<and> r = Some (result_at n (Some m)) \<and>
       K \<le> result_sort_key (result_at n (Some m)))"
    then obtain n m where "n \<in> set (replicas key)" "kv_view now (sg_store (w n)) key = Some m" "r = Some (result_at n (Some m))"
      "K \<le> result_sort_key (result_at n (Some m))" using shown_by_all [OF assms(6)] by metis
    then show ?thesis by (auto simp: g)
  qed
qed

text \<open>C17: A quorum read sees every majority write. Let the key have as many replicas as the replication
  factor says, all of which answer, and let more than half of them hold an entry at least as new as
  \<open>K\<close>. In whatever order the answers arrive, GET at consistency QUORUM returns the value some replica
  holds and that is at least as new as \<open>K\<close>; it can fail only when an answer missed the timeout.\<close>

theorem quorum_get_sees_majority:
  assumes "fair_order order" and "rc_local_node_id rc = me"
    and "distinct (replicas key)" and "int (length (replicas key)) = rc_replication_factor rc" and "replicas key \<noteq> []"
    and "all_answer pe me (replicas key)"
    and "W \<subseteq> set (replicas key)" and "rc_replication_factor rc < 2 * int (card W)" and "\<forall>n \<in> W. holds_since K now key (w n)"
  shows "fst (handle_get order (node_read_callbacks pint pflt fc pe me now replicas primary) QUORUM rc now [key] w) \<in>
    (if snd (order (filter (\<lambda>n. n \<noteq> me) (replicas key))) = [] then {} else {Failure (''Quorum read failed for key '' @ key)}) \<union>
    {Success (md_value m) | n m. n \<in> set (replicas key) \<and> kv_view now (sg_store (w n)) key = Some m \<and>
       K \<le> result_sort_key (result_at n (Some m))}"
  using assms by (rule quorum_get_core)

definition in_order :: completion where
  "in_order xs = (xs, [])"

lemma fair_in_order: "fair_order in_order"
  by (simp add: fair_order_def in_order_def)

definition all_up :: peers where
  "all_up = \<lparr>pe_known = (\<lambda>_. True), pe_alive = (\<lambda>_. True), pe_read = (\<lambda>_. Replied), pe_repair = (\<lambda>_. Replied)\<rparr>"

definition stored :: "node_id \<Rightarrow> (string \<times> key_metadata) list \<Rightarrow> storage" where
  "stored n kvs = (fresh_storage n)\<lparr>sg_store := (kv_init 0)\<lparr>kv_store := kvs\<rparr>\<rparr>"

definition sample_value :: "int \<Rightarrow> int \<Rightarrow> key_metadata" where
  "sample_value v ver = \<lparr>md_value = JInt v, md_created_at = 1, md_updated_at = 1, md_expires_at = None, md_version = ver, md_coordinator_id = ''a''\<rparr>"

definition lagging_cluster :: node_stores where
  "lagging_cluster = (\<lambda>n. stored n [(''k'', if n = ''c'' then sample_value 1 1 else sample_value 2 2)])"

lemma view_stored: "kv_view now (sg_store (stored n kvs)) k = entry_view now (dget kvs k)"
  by (simp add: stored_def kv_view_apply)

theorem quorum_get_sees_majority_witness:
  "fst (handle_get in_order (node_read_callbacks (\<lambda>_. None) (\<lambda>_. None) whole_codec all_up ''c'' 5 (\<lambda>_. [''a'', ''b'', ''c''])
      (\<lambda>_. None)) QUORUM (read_coordinator_init ''c'' 3 5) 5 [''k''] lagging_cluster) \<in>
    (if snd (in_order (filter (\<lambda>n. n \<noteq> ''c'') [''a'', ''b'', ''c''])) = [] then {} else {Failure (''Quorum read failed for key '' @ ''k'')}) \<union>
    {Success (md_value m) | n m. n \<in> set [''a'', ''b'', ''c''] \<and> kv_view 5 (sg_store (lagging_cluster n)) ''k'' = Some m \<and>
       (2, 1, ''a'') \<le> result_sort_key (result_at n (Some m))}"
  by (rule quorum_get_sees_majority [where W = "{''a'', ''b''}" and replicas = "\<lambda>_. [''a'', ''b'', ''c'']", OF fair_in_order])
    (simp_all add: read_coordinator_init_def all_answer_def all_up_def holds_since_def lagging_cluster_def view_stored
      sample_value_def entry_view_def md_is_expired_def truthy_time_def metadata_sort_key_def)

text \<open>Unreachable replicas count as answers. When no other replica can be reached and this node does
  not show the key, GET at QUORUM answers null instead of an error, although only one replica was
  heard; a majority of unreachable replicas may hold an acknowledged value.\<close>

theorem unreachable_replicas_read_as_absent:
  assumes "fair_order order" and "snd (order (filter (\<lambda>n. n \<noteq> me) (replicas key))) = []"
    and "rc_local_node_id rc = me" and "distinct (replicas key)"
    and "int (length (replicas key)) = rc_replication_factor rc" and "replicas key \<noteq> []"
    and "\<forall>n \<in> set (replicas key). n = me \<or> \<not> pe_known pe n \<or> pe_read pe n \<noteq> Replied"
    and "kv_view now (sg_store (w me)) key = None"
  shows "fst (handle_get order (node_read_callbacks pint pflt fc pe me now replicas primary) QUORUM rc now [key] w) = Success JNull"
proof -
  let ?cb = "node_read_callbacks pint pflt fc pe me now replicas primary"
  let ?rc = "rc\<lparr>rc_stats := (rc_stats rc)\<lparr>rs_total_reads := rs_total_reads (rc_stats rc) + 1, rs_quorum_reads := rs_quorum_reads (rc_stats rc) + 1\<rparr>\<rparr>"
  let ?k = "read_quorum_size (rc_replication_factor rc)"
  obtain r failed absent rc' w' where
    q: "(let (results, w1) = read_from_replicas order ?cb ?rc key (replicas key) ?k w in decide_read ?cb ?rc key ?k results w1) =
      ((r, failed, absent), rc', w')" by (metis prod.exhaust)
  have k: "?k \<le> int (length (replicas key))" using assms(5,6) by (cases "replicas key") (auto simp: read_quorum_size_def)
  from node_reads.replicated_read_outcome [OF _ assms(4,1) q] assms(2,3) k obtain Q where
    Q: "Q \<subseteq> set (replicas key)" "\<not> failed" "freshest (shown_by pe me now key w) Q r" by (auto split: if_splits)
  have "shown_by pe me now key w n = None" if "n \<in> set (replicas key)" for n
    using assms(7,8) that by (auto simp: shown_by_def)
  with Q have "r = None" by (auto simp: freshest_def subset_iff dest!: result_present_Some split: option.splits)
  moreover have "read_quorum order ?cb (rc\<lparr>rc_stats := (rc_stats rc)\<lparr>rs_total_reads := rs_total_reads (rc_stats rc) + 1\<rparr>\<rparr>) key w =
      ((r, failed, absent), rc', w')"
    using q by (simp add: read_quorum_def Let_def, simp add: node_read_callbacks_def)
  ultimately show ?thesis using Q(2) by (simp add: handle_get_quorum)
qed

definition cut_off :: peers where
  "cut_off = all_up\<lparr>pe_read := (\<lambda>_. Dropped)\<rparr>"

theorem unreachable_replicas_read_as_absent_witness:
  "fst (handle_get in_order (node_read_callbacks (\<lambda>_. None) (\<lambda>_. None) whole_codec cut_off ''c'' 5 (\<lambda>_. [''a'', ''b'', ''c''])
      (\<lambda>_. None)) QUORUM (read_coordinator_init ''c'' 3 5) 5 [''k''] (lagging_cluster(''c'' := stored ''c'' []))) = Success JNull"
  by (rule unreachable_replicas_read_as_absent [where replicas = "\<lambda>_. [''a'', ''b'', ''c'']", OF fair_in_order])
    (simp_all add: in_order_def read_coordinator_init_def cut_off_def all_up_def view_stored)


section \<open>Reading what was written\<close>

definition cluster_of :: "node_id \<Rightarrow> storage \<Rightarrow> world \<Rightarrow> node_stores" where
  "cluster_of leader s w = (\<lambda>n. if n = leader then s else fl_storage (w n))"

lemma holds_entry_result:
  assumes "dget (kv_store (sg_store s)) k = entry_result e" and "entry_result e = Some m" and "\<not> md_is_expired now m"
    and "le_version e \<noteq> 0" and "le_coordinator_id e \<noteq> []"
  shows "holds_since (le_version e, le_timestamp e, le_coordinator_id e) now k s"
proof -
  from assms(2) have "le_command e = ''SET''" by (auto simp: entry_result_def split: if_splits)
  then have m: "md_version m = le_version e" "md_updated_at m = le_timestamp e" "md_coordinator_id m = le_coordinator_id e"
    using assms(2) by (auto simp: entry_result_def)
  then have "kv_view now (sg_store s) k = Some m" using assms(1-3) by (simp add: kv_view_apply)
  with m assms(4,5) show ?thesis by (auto simp: holds_since_def metadata_sort_key_def)
qed

text \<open>Reads see acknowledged writes. Suppose the alive members are exactly the replicas of the key, as
  many as the replication factor says, and the leader acknowledged a SET at QUORUM, ALL or STRONG
  while nothing stale was staged. Then, with every replica answering and the value not expired, a
  QUORUM GET at any replica, whatever messages the write lost and in whatever order the answers come,
  returns a value at least as new as the written one, or fails because an answer missed the
  timeout.\<close>

theorem read_after_acknowledged_write:
  assumes "apply_partition_write fc t nw ld w ''SET'' k v ttl = (Inr (Success d), ld', w')"
    and "is_sync_level (ld_consistency ld)" and "distinct (ld_alive ld)"
    and "\<forall>f \<in> set (ld_alive ld). dget (fl_staged (w f)) (ld_write_sequence ld + 1) = None"
    and "le_version (write_entry ld t ''SET'' k v ttl) \<noteq> 0" and "ld_node_id ld \<noteq> []"
    and "entry_result (write_entry ld t ''SET'' k v ttl) = Some m" and "\<not> md_is_expired now m"
    and "fair_order order" and "rc_local_node_id rc = me" and "rc_replication_factor rc = ld_replication_factor ld"
    and "distinct (replicas k)" and "int (length (replicas k)) = ld_replication_factor ld"
    and "set (replicas k) = insert (ld_node_id ld) (set (ld_alive ld))"
    and "all_answer pe me (replicas k)"
  shows "fst (handle_get order (node_read_callbacks pint pflt fc' pe me now replicas primary) QUORUM rc now [k]
      (cluster_of (ld_node_id ld) (ld_storage ld') w')) \<in>
    (if snd (order (filter (\<lambda>n. n \<noteq> me) (replicas k))) = [] then {} else {Failure (''Quorum read failed for key '' @ k)}) \<union>
    {Success (md_value x) | n x. n \<in> set (replicas k) \<and>
       kv_view now (sg_store (cluster_of (ld_node_id ld) (ld_storage ld') w' n)) k = Some x \<and>
       metadata_sort_key m \<le> result_sort_key (result_at n (Some x))}"
proof -
  let ?e = "write_entry ld t ''SET'' k v ttl"
  from acknowledged_write_core [OF assms(1) _ assms(3-5)] obtain C where C: "C \<subseteq> set (ld_alive ld) - {ld_node_id ld}"
    "required_total (ld_replication_factor ld) (ld_consistency ld) \<le> int (card C) + 1"
    "\<forall>f \<in> C. dget (kv_store (sg_store (fl_storage (w' f)))) k = entry_result ?e"
    "dget (kv_store (sg_store (ld_storage ld'))) k = entry_result ?e" by auto
  let ?W = "insert (ld_node_id ld) C"
  have fin: "finite C" "ld_node_id ld \<notin> C" using C(1) by (auto intro: finite_subset)
  have pos: "replicas k \<noteq> []" using assms(14) by auto
  then have "0 < ld_replication_factor ld" using assms(13) by (cases "replicas k") auto
  then have maj: "rc_replication_factor rc < 2 * int (card ?W)"
    using C(2) assms(2,11) fin by (auto simp: required_total_def is_sync_level_def)
  have key: "(le_version ?e, le_timestamp ?e, le_coordinator_id ?e) = metadata_sort_key m"
    using assms(7) by (auto simp: entry_result_def metadata_sort_key_def)
  have coord: "le_coordinator_id ?e \<noteq> []" using assms(6) by (simp add: write_entry_def make_entry_def)
  have holds: "\<forall>n \<in> ?W. holds_since (metadata_sort_key m) now k (cluster_of (ld_node_id ld) (ld_storage ld') w' n)"
    using C(3,4) fin(2) holds_entry_result [OF _ assms(7,8,5) coord] by (auto simp: cluster_of_def key)
  have sub: "?W \<subseteq> set (replicas k)" using C(1) assms(14) by auto
  show ?thesis
    by (rule quorum_get_core [where replicas = replicas and key = k, OF assms(9,10) assms(12) _ pos assms(15) sub maj holds])
      (use assms(11,13) in simp)
qed

theorem read_after_acknowledged_write_witness:
  "let (r, ld', w') = apply_partition_write whole_codec 5 (lossy_network [''c''] [''c'']) sample_leader fresh_world ''SET'' ''k'' (JInt 1) None
   in \<exists>m. fst (handle_get in_order (node_read_callbacks (\<lambda>_. None) (\<lambda>_. None) whole_codec all_up ''c'' 6 (\<lambda>_. [''a'', ''b'', ''c''])
      (\<lambda>_. None)) QUORUM (read_coordinator_init ''c'' 3 5) 6 [''k''] (cluster_of (ld_node_id sample_leader) (ld_storage ld') w')) \<in>
    (if snd (in_order (filter (\<lambda>n. n \<noteq> ''c'') [''a'', ''b'', ''c''])) = [] then {} else {Failure (''Quorum read failed for key '' @ ''k'')}) \<union>
    {Success (md_value x) | n x. n \<in> set [''a'', ''b'', ''c''] \<and>
       kv_view 6 (sg_store (cluster_of (ld_node_id sample_leader) (ld_storage ld') w' n)) ''k'' = Some x \<and>
       metadata_sort_key m \<le> result_sort_key (result_at n (Some x))}"
proof -
  let ?a = "apply_partition_write whole_codec 5 (lossy_network [''c''] [''c'']) sample_leader fresh_world ''SET'' ''k'' (JInt 1) None"
  let ?e = "write_entry sample_leader 5 ''SET'' ''k'' (JInt 1) None"
  obtain m where e: "entry_result ?e = Some m" "\<not> md_is_expired 6 m"
    by (simp add: entry_result_def write_entry_def make_entry_def sample_leader_def md_is_expired_def truthy_time_def)
  show ?thesis
    unfolding Let_def case_prod_unfold
    by (intro exI, rule read_after_acknowledged_write [where replicas = "\<lambda>_. [''a'', ''b'', ''c'']" and k = "''k''",
          OF as_triple [OF sample_write_ok] _ _ _ _ _ e fair_in_order])
      (simp_all add: sample_leader_def is_sync_level_def fresh_world_def write_entry_def make_entry_def kv_view_apply
        fresh_storage_def kv_init_def read_coordinator_init_def all_answer_def all_up_def insert_commute)
qed

section \<open>Read repair\<close>

text \<open>Command arguments survive the trip to the replica handler.\<close>

definition args_ok :: "(string \<Rightarrow> int option) \<Rightarrow> (string \<Rightarrow> time option) \<Rightarrow> float_codec \<Rightarrow> key_metadata \<Rightarrow> bool" where
  "args_ok pint pflt fc m \<longleftrightarrow>
     loads fc (dumps fc (md_value m)) = Inr (md_value m) \<and> pint (str_int (md_version m)) = Some (md_version m) \<and>
     (\<forall>t \<in> {md_updated_at m, md_created_at m} \<union> set_option (md_expires_at m).
        pflt (fc_repr fc t) = Some t \<and> fc_repr fc t \<notin> {'''', ''None'', ''null''})"

lemma replica_set_applies:
  assumes "args_ok pint pflt fc m"
  shows "snd (handle_replica_set pint pflt fc s now
      [k, dumps fc (md_value m), str_int (md_version m), case md_expires_at m of None \<Rightarrow> [] | Some e \<Rightarrow> fc_repr fc e,
       fc_repr fc (md_updated_at m), fc_repr fc (md_created_at m), md_coordinator_id m]) = lww_write fc k (now, m) s"
  using assms by (cases "md_expires_at m") (auto simp: handle_replica_set_def args_ok_def lww_write_def Let_def split: prod.splits option.splits)

definition meta_dict :: "key_metadata \<Rightarrow> repair_metadata" where
  "meta_dict m = \<lparr>rm_updated_at = Some (md_updated_at m), rm_created_at = Some (md_created_at m),
     rm_expires_at = md_expires_at m, rm_coordinator_id = Some (md_coordinator_id m)\<rparr>"

lemma apply_repair_lww:
  assumes "md_updated_at m \<noteq> 0" and "md_created_at m \<noteq> 0"
  shows "snd (apply_repair_data fc s now k (md_value m) (md_version m) (meta_dict m)) = lww_write fc k (now, m) s"
  using assms by (simp add: apply_repair_data_def lww_write_def meta_dict_def or_time_def truthy_time_def case_prod_unfold Let_def)

definition repair_reaches :: "peers \<Rightarrow> node_id \<Rightarrow> node_id \<Rightarrow> bool" where
  "repair_reaches pe me n \<longleftrightarrow> n \<noteq> [] \<and> (n = me \<or> (pe_known pe n \<and> pe_alive pe n \<and> pe_repair pe n \<noteq> Dropped))"

lemma repair_value_lww:
  assumes "args_ok pint pflt fc m" and "md_updated_at m \<noteq> 0" and "md_created_at m \<noteq> 0" and "repair_reaches pe me n"
  shows "repair_value pint pflt fc pe me now k (md_value m) (md_version m) (Some n) (Some (meta_dict m)) w =
    w(n := lww_write fc k (now, m) (w n))"
proof (cases "n = me")
  case True
  then show ?thesis by (simp add: repair_value_def apply_repair_lww [OF assms(2,3)])
next
  case False
  have "snd (replicate_value_to_nodes pint pflt fc pe me now k (md_value m) (md_version m) (meta_dict m) [n] w) =
      w(n := lww_write fc k (now, m) (w n))"
    using assms(4) False replica_set_applies [OF assms(1), of "w n" now k]
    by (simp add: repair_reaches_def meta_dict_def case_prod_unfold Let_def)
  then show ?thesis using assms(4) False by (simp add: repair_value_def repair_reaches_def)
qed

text \<open>The entry a replica ends up with: the best one, unless it already has one as new.\<close>

definition healed :: "key_metadata \<Rightarrow> key_metadata option \<Rightarrow> key_metadata option" where
  "healed best e =
     (case e of None \<Rightarrow> Some best
      | Some c \<Rightarrow> if metadata_sort_key c < metadata_sort_key best then Some best else Some c)"

definition repairable :: "time \<Rightarrow> key_metadata \<Rightarrow> bool" where
  "repairable now m \<longleftrightarrow> 0 < md_version m \<and> md_coordinator_id m \<noteq> [] \<and> md_updated_at m \<noteq> 0 \<and> md_created_at m \<noteq> 0 \<and> \<not> md_is_expired now m"

definition replica_ok :: "time \<Rightarrow> string \<Rightarrow> storage \<Rightarrow> bool" where
  "replica_ok now k s \<longleftrightarrow> live_at now k s \<and> (\<forall>c. dget (kv_store (sg_store s)) k = Some c \<longrightarrow> md_coordinator_id c \<noteq> [])"

lemma stale_result_iff:
  assumes "repairable now best"
    and "\<forall>c. e = Some c \<longrightarrow> md_coordinator_id c \<noteq> []"
  shows "result_sort_key (result_at n e) < result_sort_key (result_at nb (Some best)) \<longleftrightarrow>
    (case e of None \<Rightarrow> True | Some c \<Rightarrow> metadata_sort_key c < metadata_sort_key best)"
  using assms
  by (cases e) (auto simp: repairable_def result_sort_key_at, auto simp: result_sort_key_def result_at_def metadata_sort_key_def less_prod_def)

lemma lww_write_healed:
  assumes "repairable now best" and "replica_ok now k s"
    and "case dget (kv_store (sg_store s)) k of None \<Rightarrow> True | Some c \<Rightarrow> metadata_sort_key c < metadata_sort_key best"
  shows "dget (kv_store (sg_store (lww_write fc k (now, best) s))) k = Some best"
  using assms lww_write_store [of now k s "(now, best)" fc]
  by (auto simp: replica_ok_def repairable_def update_ok_def split: option.splits)

lemma repair_results_healed:
  assumes "repairable now best" and "args_ok pint pflt fc best" and "distinct Q"
    and "\<forall>n \<in> set Q. replica_ok now k (w n) \<and> repair_reaches pe me n"
  shows "dget (kv_store (sg_store (repair_results
      (\<lambda>key value version target m. repair_value pint pflt fc pe me now key value version (Some target) (Some (repair_dict m)))
      k (result_at nb (Some best)) (map (\<lambda>n. result_at n (dget (kv_store (sg_store (w n))) k)) Q) w n))) k =
    (if n \<in> set Q then healed best (dget (kv_store (sg_store (w n))) k) else dget (kv_store (sg_store (w n))) k)"
  using assms(3,4)
proof (induction Q arbitrary: w)
  case Nil
  then show ?case by simp
next
  case (Cons q Q)
  let ?e = "dget (kv_store (sg_store (w q))) k" and ?b = "result_at nb (Some best)"
  let ?w = "if result_sort_key (result_at q ?e) < result_sort_key ?b then w(q := lww_write fc k (now, best) (w q)) else w"
  have q: "replica_ok now k (w q)" "repair_reaches pe me q" "q \<notin> set Q" using Cons.prems by auto
  have u: "md_updated_at best \<noteq> 0" "md_created_at best \<noteq> 0" using assms(1) by (auto simp: repairable_def)
  have dict: "repair_dict (repair_metadata_of ?b) = meta_dict best" "rr_value ?b = md_value best" "rr_version ?b = md_version best"
    by (simp_all add: repair_dict_def repair_metadata_of_def meta_dict_def result_at_def)
  have stale: "result_sort_key (result_at q ?e) < result_sort_key ?b \<longleftrightarrow>
      (case ?e of None \<Rightarrow> True | Some c \<Rightarrow> metadata_sort_key c < metadata_sort_key best)"
    using q(1) by (intro stale_result_iff [OF assms(1)]) (simp add: replica_ok_def)
  have at_q: "dget (kv_store (sg_store (?w q))) k = healed best ?e"
    using lww_write_healed [OF assms(1) q(1)] by (auto simp: stale healed_def split: option.splits)
  have same: "?w n = w n" if "n \<noteq> q" for n using that by simp
  have mp: "map (\<lambda>n. result_at n (dget (kv_store (sg_store (w n))) k)) Q = map (\<lambda>n. result_at n (dget (kv_store (sg_store (?w n))) k)) Q"
    using q(3) by (intro map_cong) auto
  have IH: "\<forall>n \<in> set Q. replica_ok now k (?w n) \<and> repair_reaches pe me n" "distinct Q" using Cons.prems q(3) by auto
  have "repair_results (\<lambda>key value version target m. repair_value pint pflt fc pe me now key value version (Some target) (Some (repair_dict m)))
      k ?b (map (\<lambda>n. result_at n (dget (kv_store (sg_store (w n))) k)) (q # Q)) w =
    repair_results (\<lambda>key value version target m. repair_value pint pflt fc pe me now key value version (Some target) (Some (repair_dict m)))
      k ?b (map (\<lambda>n. result_at n (dget (kv_store (sg_store (?w n))) k)) Q) ?w"
    unfolding mp [symmetric] by (simp add: dict repair_value_lww [OF assms(2) u q(2)])
  with Cons.IH [OF IH(2,1)] at_q same q(3) show ?case by (cases "n = q") simp_all
qed

text \<open>C31: Read repair heals. When a repair is triggered for the answers of the nodes \<open>Q\<close>, all of which
  the repair reaches, then afterwards each of them holds the best entry, or keeps its own if that is
  as new; nodes outside \<open>Q\<close> are untouched. (Entries have a coordinator, the best one a positive
  version and non-zero timestamps, nothing has expired, and its value and numbers survive printing and
  parsing.)\<close>

theorem read_repair_heals:
  assumes "repairable now best" and "args_ok pint pflt fc best" and "distinct Q"
    and "\<forall>n \<in> set Q. replica_ok now k (w n) \<and> repair_reaches pe me n"
  shows "dget (kv_store (sg_store (snd (trigger_read_repair (node_read_callbacks pint pflt fc pe me now replicas primary) rc k
      (result_at nb (Some best)) (map (\<lambda>n. result_at n (dget (kv_store (sg_store (w n))) k)) Q) w) n))) k =
    (if n \<in> set Q then healed best (dget (kv_store (sg_store (w n))) k) else dget (kv_store (sg_store (w n))) k)"
  using repair_results_healed [OF assms, of nb n]
  by (simp add: trigger_read_repair_def node_read_callbacks_def)

definition whole_int :: "string \<Rightarrow> int option" where
  "whole_int s = (case loads whole_codec s of Inr (JInt i) \<Rightarrow> Some i | _ \<Rightarrow> None)"

definition whole_time :: "string \<Rightarrow> time option" where
  "whole_time s = (case loads whole_codec s of Inr (JFloat x) \<Rightarrow> Some x | _ \<Rightarrow> None)"

theorem read_repair_heals_witness:
  "dget (kv_store (sg_store (snd (trigger_read_repair (node_read_callbacks whole_int whole_time whole_codec all_up ''c'' 5
        (\<lambda>_. [''a'', ''b'', ''c'']) (\<lambda>_. None)) (read_coordinator_init ''c'' 3 5) ''k'' (result_at ''a'' (Some (sample_value 2 2)))
        (map (\<lambda>n. result_at n (dget (kv_store (sg_store (lagging_cluster n))) ''k'')) [''a'', ''c'']) lagging_cluster) ''c''))) ''k'' =
    (if ''c'' \<in> set [''a'', ''c''] then healed (sample_value 2 2) (dget (kv_store (sg_store (lagging_cluster ''c''))) ''k'')
     else dget (kv_store (sg_store (lagging_cluster ''c''))) ''k'')"
proof (rule read_repair_heals)
  show "args_ok whole_int whole_time whole_codec (sample_value 2 2)"
    by (simp add: args_ok_def sample_value_def whole_int_def whole_time_def) code_simp
qed (simp_all add: repairable_def sample_value_def md_is_expired_def truthy_time_def replica_ok_def lagging_cluster_def
      stored_def live_at_def repair_reaches_def all_up_def)

text \<open>Deleted values come back. Deletions leave no mark, so a quorum read that hears one replica
  that missed an acknowledged DELETE returns the deleted value and writes it back to a replica that
  had applied the DELETE.\<close>

theorem quorum_read_revives_deleted:
  "let w = (\<lambda>n. stored n (if n = ''c'' then [(''k'', sample_value 1 1)] else []));
       (r, _, w') = handle_get (\<lambda>ns. (rev ns, [])) (node_read_callbacks (\<lambda>_. None) (\<lambda>_. None) whole_codec all_up ''a'' 5
          (\<lambda>_. [''a'', ''b'', ''c'']) (\<lambda>_. None)) QUORUM (read_coordinator_init ''a'' 3 5) 5 [''k''] w
   in r = Success (JInt 1) \<and> dget (kv_store (sg_store (w' ''a''))) ''k'' = Some (sample_value 1 1)"
  by code_simp

end
