(* ===== verification/Membership.thy ===== *)
theory Membership
  imports Log LWW
begin

text \<open>
  Cluster membership (\<^verbatim>\<open>src/minidb/cluster/membership.py\<close>): node records, their dictionary form, failure
  detection by heartbeat age, gossip merging, joining and leaving.

  \<^item> The manager keeps its own node twice, as \<^verbatim>\<open>local_node\<close> and in the member table; both are the same
    object until a record about it with a higher incarnation is added. A table entry is therefore a
    reference to the local node or a record of its own.
  \<^item> The join, leave and suspect callbacks only report; the operations return the reports they make, in
    order.
  \<^item> A gossip field of the wrong type is a \<^verbatim>\<open>TypeError\<close> when the record is decoded.
\<close>

section \<open>Node records\<close>

record node_info =
  ni_node_id :: node_id
  ni_host :: string
  ni_client_port :: int
  ni_cluster_port :: int
  ni_state :: node_state
  ni_role :: node_role
  ni_last_heartbeat :: time
  ni_incarnation :: int
  ni_joined_at :: time

definition new_node :: "node_id \<Rightarrow> string \<Rightarrow> int \<Rightarrow> int \<Rightarrow> time \<Rightarrow> node_info" where
  "new_node n host client_port cluster_port now =
     \<lparr>ni_node_id = n, ni_host = host, ni_client_port = client_port, ni_cluster_port = cluster_port, ni_state = ALIVE,
      ni_role = FOLLOWER, ni_last_heartbeat = now, ni_incarnation = 0, ni_joined_at = now\<rparr>"

definition node_address :: "node_info \<Rightarrow> string" where
  "node_address n = ni_host n @ '':'' @ str_int (ni_cluster_port n)"

definition client_address :: "node_info \<Rightarrow> string" where
  "client_address n = ni_host n @ '':'' @ str_int (ni_client_port n)"

definition node_to_dict :: "node_info \<Rightarrow> (string \<times> json) list" where
  "node_to_dict n =
     [(''node_id'', JStr (ni_node_id n)), (''host'', JStr (ni_host n)), (''client_port'', JInt (ni_client_port n)),
      (''cluster_port'', JInt (ni_cluster_port n)), (''state'', JStr (state_value (ni_state n))),
      (''role'', JStr (role_value (ni_role n))), (''last_heartbeat'', JFloat (ni_last_heartbeat n)),
      (''incarnation'', JInt (ni_incarnation n))]"

definition node_from_dict :: "time \<Rightarrow> (string \<times> json) list \<Rightarrow> node_info res" where
  "node_from_dict now data =
     bind_res (bind_res (dict_item data ''node_id'') as_str) (\<lambda>n.
     bind_res (bind_res (dict_item data ''host'') as_str) (\<lambda>host.
     bind_res (bind_res (dict_item data ''client_port'') as_int) (\<lambda>client_port.
     bind_res (bind_res (dict_item data ''cluster_port'') as_int) (\<lambda>cluster_port.
     bind_res (bind_res (as_str (dict_get data ''state'' (JStr ''ALIVE''))) state_of) (\<lambda>state.
     bind_res (bind_res (as_str (dict_get data ''role'' (JStr ''FOLLOWER''))) role_of) (\<lambda>role.
     bind_res (as_time (dict_get data ''last_heartbeat'' (JFloat now))) (\<lambda>heartbeat.
     bind_res (as_int (dict_get data ''incarnation'' (JInt 0))) (\<lambda>incarnation.
       Inr \<lparr>ni_node_id = n, ni_host = host, ni_client_port = client_port, ni_cluster_port = cluster_port,
            ni_state = state, ni_role = role, ni_last_heartbeat = heartbeat, ni_incarnation = incarnation,
            ni_joined_at = now\<rparr>))))))))"

section \<open>The manager\<close>

datatype member = LocalRef | Own node_info

record membership =
  mb_local :: node_info
  mb_failure_timeout :: time
  mb_dead_timeout :: time
  mb_gossip_interval :: time
  mb_members :: "(node_id, member) dict"

datatype member_event = NodeJoined node_id | NodeLeft node_id | NodeSuspected node_id

definition membership_init :: "node_info \<Rightarrow> time \<Rightarrow> time \<Rightarrow> time \<Rightarrow> membership" where
  "membership_init local failure_timeout dead_timeout gossip_interval =
     \<lparr>mb_local = local, mb_failure_timeout = failure_timeout, mb_dead_timeout = dead_timeout,
      mb_gossip_interval = gossip_interval, mb_members = [(ni_node_id local, LocalRef)]\<rparr>"

text \<open>The record behind a table entry, and assignment through it.\<close>

fun deref :: "membership \<Rightarrow> member \<Rightarrow> node_info" where
  "deref mb LocalRef = mb_local mb"
| "deref mb (Own n) = n"

definition member_at :: "membership \<Rightarrow> node_id \<Rightarrow> node_info option" where
  "member_at mb n = map_option (deref mb) (dget (mb_members mb) n)"

definition assign_member :: "membership \<Rightarrow> node_id \<Rightarrow> (node_info \<Rightarrow> node_info) \<Rightarrow> membership" where
  "assign_member mb n f =
     (case dget (mb_members mb) n of
        None \<Rightarrow> mb
      | Some LocalRef \<Rightarrow> mb\<lparr>mb_local := f (mb_local mb)\<rparr>
      | Some (Own x) \<Rightarrow> mb\<lparr>mb_members := dset n (Own (f x)) (mb_members mb)\<rparr>)"

section \<open>Failure detection\<close>

definition check_member :: "time \<Rightarrow> node_id \<Rightarrow> membership \<Rightarrow> member_event list \<times> membership" where
  "check_member now n mb =
     (case member_at mb n of
        None \<Rightarrow> ([], mb)
      | Some node \<Rightarrow>
          if n = ni_node_id (mb_local mb) then ([], assign_member mb n (ni_last_heartbeat_update (\<lambda>_. now)))
          else
            let time_since_heartbeat = now - ni_last_heartbeat node
            in if ni_state node = ALIVE \<and> time_since_heartbeat > mb_failure_timeout mb
               then ([NodeSuspected (ni_node_id node)], assign_member mb n (ni_state_update (\<lambda>_. SUSPECT)))
               else if ni_state node = SUSPECT \<and> time_since_heartbeat > mb_dead_timeout mb
               then ([NodeLeft (ni_node_id node)], assign_member mb n (ni_state_update (\<lambda>_. DEAD)))
               else ([], mb))"

fun check_members :: "time \<Rightarrow> node_id list \<Rightarrow> membership \<Rightarrow> member_event list \<times> membership" where
  "check_members now [] mb = ([], mb)"
| "check_members now (n # ns) mb =
     (let (ev, mb1) = check_member now n mb; (evs, mb2) = check_members now ns mb1 in (ev @ evs, mb2))"

definition check_node_health :: "time \<Rightarrow> membership \<Rightarrow> member_event list \<times> membership" where
  "check_node_health now mb = check_members now (dkeys (mb_members mb)) mb"

section \<open>Reading\<close>

definition all_members :: "membership \<Rightarrow> node_info list" where
  "all_members mb = map (\<lambda>(n, m). deref mb m) (mb_members mb)"

definition get_alive_nodes :: "membership \<Rightarrow> node_info list" where
  "get_alive_nodes mb = filter (\<lambda>n. ni_state n = ALIVE) (all_members mb)"

definition get_members_data :: "membership \<Rightarrow> (string \<times> json) list list" where
  "get_members_data mb = map node_to_dict (all_members mb)"

definition get_leader :: "membership \<Rightarrow> node_info option" where
  "get_leader mb = find (\<lambda>n. ni_role n = LEADER \<and> ni_state n = ALIVE) (all_members mb)"

definition node_count :: "membership \<Rightarrow> nat" where
  "node_count mb = length (get_alive_nodes mb)"

text \<open>The targets of a gossip round: \<open>pick\<close> is \<^verbatim>\<open>random.sample\<close>.\<close>

definition gossip_candidates :: "membership \<Rightarrow> node_info list" where
  "gossip_candidates mb =
     filter (\<lambda>n. ni_node_id n \<noteq> ni_node_id (mb_local mb) \<and> ni_state n \<noteq> DEAD) (all_members mb)"

definition gossip_messages ::
  "(node_info list \<Rightarrow> nat \<Rightarrow> node_info list) \<Rightarrow> membership \<Rightarrow> (node_info \<times> (string \<times> json) list list) list" where
  "gossip_messages pick mb =
     (let alive_nodes = gossip_candidates mb
      in if alive_nodes = [] then []
         else map (\<lambda>target. (target, get_members_data mb)) (pick alive_nodes (min 3 (length alive_nodes))))"

section \<open>Changing the table\<close>

definition mb_add_node :: "node_info \<Rightarrow> membership \<Rightarrow> (bool \<times> member_event list) \<times> membership" where
  "mb_add_node node mb =
     (case member_at mb (ni_node_id node) of
        Some existing \<Rightarrow>
          if ni_incarnation node > ni_incarnation existing
          then ((True, []), mb\<lparr>mb_members := dset (ni_node_id node) (Own node) (mb_members mb)\<rparr>)
          else ((False, []), mb)
      | None \<Rightarrow>
          ((True, [NodeJoined (ni_node_id node)]), mb\<lparr>mb_members := dset (ni_node_id node) (Own node) (mb_members mb)\<rparr>))"

definition mb_remove_node :: "node_id \<Rightarrow> membership \<Rightarrow> member_event list \<times> membership" where
  "mb_remove_node n mb =
     (case member_at mb n of
        Some node \<Rightarrow>
          if n \<noteq> ni_node_id (mb_local mb)
          then ([NodeLeft (ni_node_id node)], mb\<lparr>mb_members := ddel n (mb_members mb)\<rparr>) else ([], mb)
      | None \<Rightarrow> ([], mb))"

definition update_heartbeat :: "time \<Rightarrow> node_id \<Rightarrow> membership \<Rightarrow> membership" where
  "update_heartbeat now n mb =
     assign_member mb n (\<lambda>x. x\<lparr>ni_last_heartbeat := now, ni_state := if ni_state x = SUSPECT then ALIVE else ni_state x\<rparr>)"

definition merge_member :: "node_info \<Rightarrow> membership \<Rightarrow> member_event list \<times> membership" where
  "merge_member incoming mb =
     (let n = ni_node_id incoming; mb' = mb\<lparr>mb_members := dset n (Own incoming) (mb_members mb)\<rparr>
      in (case member_at mb n of
            None \<Rightarrow> ([NodeJoined n], mb')
          | Some existing \<Rightarrow>
              if ni_incarnation incoming > ni_incarnation existing \<or> ni_last_heartbeat incoming > ni_last_heartbeat existing
              then (if ni_state existing = DEAD \<and> ni_state incoming = ALIVE then [NodeJoined n] else [], mb')
              else ([], mb)))"

text \<open>An exception leaves the entries before it merged.\<close>

fun handle_gossip :: "time \<Rightarrow> (string \<times> json) list list \<Rightarrow> membership \<Rightarrow> (py_error option \<times> member_event list) \<times> membership" where
  "handle_gossip now [] mb = ((None, []), mb)"
| "handle_gossip now (d # ds) mb =
     (case bind_res (dict_item d ''node_id'') as_str of
        Inl e \<Rightarrow> ((Some e, []), mb)
      | Inr n \<Rightarrow>
          if n = ni_node_id (mb_local mb) then handle_gossip now ds mb
          else (case node_from_dict now d of
                  Inl e \<Rightarrow> ((Some e, []), mb)
                | Inr incoming \<Rightarrow>
                    let (ev, mb1) = merge_member incoming mb; ((err, evs), mb2) = handle_gossip now ds mb1
                    in ((err, ev @ evs), mb2)))"

definition set_node_role :: "node_id \<Rightarrow> node_role \<Rightarrow> membership \<Rightarrow> membership" where
  "set_node_role n role mb = assign_member mb n (ni_role_update (\<lambda>_. role))"

definition increment_incarnation :: "membership \<Rightarrow> membership" where
  "increment_incarnation mb = mb\<lparr>mb_local := (mb_local mb)\<lparr>ni_incarnation := ni_incarnation (mb_local mb) + 1\<rparr>\<rparr>"

section \<open>Round trip of node records\<close>

lemma node_from_to_dict: "node_from_dict now (node_to_dict n) = Inr (n\<lparr>ni_joined_at := now\<rparr>)"
  by (simp add: node_from_dict_def node_to_dict_def dict_item_def dict_get_def as_str_def as_int_def as_time_def)

section \<open>Well-formed tables\<close>

text \<open>One entry per node, filed under its own identifier; the local node is always there.\<close>

definition mb_wf :: "membership \<Rightarrow> bool" where
  "mb_wf mb \<longleftrightarrow> dwf (mb_members mb) \<and> dget (mb_members mb) (ni_node_id (mb_local mb)) \<noteq> None \<and>
     (\<forall>n m. dget (mb_members mb) n = Some m \<longrightarrow> ni_node_id (deref mb m) = n)"

lemma mb_wf_init: "mb_wf (membership_init local f d g)"
  by (simp add: mb_wf_def membership_init_def)

lemma mb_wf_put:
  assumes "mb_wf mb"
  shows "mb_wf (mb\<lparr>mb_members := dset (ni_node_id x) (Own x) (mb_members mb)\<rparr>)"
proof -
  have "deref (mb\<lparr>mb_members := d\<rparr>) m = deref mb m" for d m by (cases m) simp_all
  with assms show ?thesis by (auto simp: mb_wf_def update_conv' distinct_update)
qed

lemma mb_wf_assign:
  assumes "mb_wf mb" and "\<And>x. ni_node_id (f x) = ni_node_id x"
  shows "mb_wf (assign_member mb n f)"
proof -
  have d1: "deref (mb\<lparr>mb_members := d\<rparr>) m = deref mb m" for d m by (cases m) simp_all
  have d2: "ni_node_id (deref (mb\<lparr>mb_local := f (mb_local mb)\<rparr>) m) = ni_node_id (deref mb m)" for m
    using assms(2) by (cases m) simp_all
  show ?thesis
  proof (cases "dget (mb_members mb) n")
    case None
    with assms(1) show ?thesis by (simp add: assign_member_def)
  next
    case (Some m)
    with assms(1) have "ni_node_id (deref mb m) = n" by (simp add: mb_wf_def)
    with assms Some show ?thesis
      by (cases m) (auto simp: assign_member_def mb_wf_def update_conv' distinct_update d1 d2)
  qed
qed

lemma assign_member_local_id [simp]:
  "(\<And>x. ni_node_id (f x) = ni_node_id x) \<Longrightarrow> ni_node_id (mb_local (assign_member mb n f)) = ni_node_id (mb_local mb)"
  by (auto simp: assign_member_def split: option.splits member.splits)

lemma member_at_assign:
  assumes "mb_wf mb" and "\<And>x. ni_node_id (f x) = ni_node_id x"
  shows "member_at (assign_member mb n f) k = (if k = n then map_option f (member_at mb k) else member_at mb k)"
proof -
  have d1: "deref (mb\<lparr>mb_members := d\<rparr>) m = deref mb m" for d m by (cases m) simp_all
  show ?thesis
  proof (cases "dget (mb_members mb) n")
    case None
    then show ?thesis by (auto simp: assign_member_def member_at_def)
  next
    case (Some m)
    show ?thesis
    proof (cases m)
      case LocalRef
      have "deref (mb\<lparr>mb_local := f (mb_local mb)\<rparr>) x = deref mb x" if x: "dget (mb_members mb) k = Some x" "k \<noteq> n" for x
      proof (cases x)
        case LocalRef': LocalRef
        have "ni_node_id (mb_local mb) = n" "ni_node_id (mb_local mb) = k"
          using assms(1) Some LocalRef x(1) LocalRef' unfolding mb_wf_def by fastforce+
        with x(2) show ?thesis by simp
      qed simp
      with Some LocalRef show ?thesis by (cases "dget (mb_members mb) k") (auto simp: assign_member_def member_at_def)
    next
      case (Own x)
      with Some show ?thesis by (cases "dget (mb_members mb) k") (auto simp: assign_member_def member_at_def update_conv' d1)
    qed
  qed
qed

section \<open>What every operation keeps\<close>

datatype mb_op =
    OpHealth time
  | OpAdd node_info
  | OpRemove node_id
  | OpHeartbeat time node_id
  | OpGossip time "(string \<times> json) list list"
  | OpRole node_id node_role
  | OpIncarnate

fun mb_exec :: "mb_op \<Rightarrow> membership \<Rightarrow> membership" where
  "mb_exec (OpHealth now) mb = snd (check_node_health now mb)"
| "mb_exec (OpAdd node) mb = snd (mb_add_node node mb)"
| "mb_exec (OpRemove n) mb = snd (mb_remove_node n mb)"
| "mb_exec (OpHeartbeat now n) mb = update_heartbeat now n mb"
| "mb_exec (OpGossip now ds) mb = snd (handle_gossip now ds mb)"
| "mb_exec (OpRole n role) mb = set_node_role n role mb"
| "mb_exec OpIncarnate mb = increment_incarnation mb"

lemma node_from_dict_id:
  "node_from_dict now d = Inr x \<Longrightarrow> bind_res (dict_item d ''node_id'') as_str = Inr (ni_node_id x)"
  by (auto simp: node_from_dict_def bind_res_def split: sum.splits)

text \<open>The properties an operation keeps are those kept by the four primitive changes.\<close>

locale table_invariant =
  fixes P :: "membership \<Rightarrow> bool"
    and me :: node_id
    and own :: "node_info \<Rightarrow> bool"
  assumes local_id: "P mb \<Longrightarrow> ni_node_id (mb_local mb) = me"
    and put: "P mb \<Longrightarrow> ni_node_id x \<noteq> me \<or> own x \<Longrightarrow> P (mb\<lparr>mb_members := dset (ni_node_id x) (Own x) (mb_members mb)\<rparr>)"
    and del: "P mb \<Longrightarrow> n \<noteq> me \<Longrightarrow> P (mb\<lparr>mb_members := ddel n (mb_members mb)\<rparr>)"
    and beat: "P mb \<Longrightarrow> P (assign_member mb n (ni_last_heartbeat_update (\<lambda>_. now)))"
    and state: "P mb \<Longrightarrow> n \<noteq> me \<Longrightarrow> P (assign_member mb n (ni_state_update (\<lambda>_. s)))"
    and heartbeat: "P mb \<Longrightarrow> P (update_heartbeat now n mb)"
    and role: "P mb \<Longrightarrow> P (set_node_role n r mb)"
    and incarnate: "P mb \<Longrightarrow> P (increment_incarnation mb)"
begin

lemma keeps_check: "P mb \<Longrightarrow> P (snd (check_members now ns mb))"
proof (induction ns arbitrary: mb)
  case (Cons n ns)
  have "P (snd (check_member now n mb))"
    using Cons.prems beat state by (auto simp: check_member_def Let_def local_id split: option.splits)
  with Cons.IH show ?case by (simp add: case_prod_unfold Let_def)
qed simp

lemma keeps_merge: "P mb \<Longrightarrow> ni_node_id x \<noteq> me \<Longrightarrow> P (snd (merge_member x mb))"
  using put by (auto simp: merge_member_def Let_def split: option.splits)

lemma keeps_gossip: "P mb \<Longrightarrow> P (snd (handle_gossip now ds mb))"
proof (induction ds arbitrary: mb)
  case (Cons d ds)
  then show ?case using keeps_merge [OF Cons.prems] node_from_dict_id [of now d]
    by (auto simp: case_prod_unfold Let_def local_id split: sum.splits)
qed simp

lemma keeps_exec: "P mb \<Longrightarrow> (\<And>x. opr = OpAdd x \<Longrightarrow> ni_node_id x \<noteq> me \<or> own x) \<Longrightarrow> P (mb_exec opr mb)"
  using put del heartbeat role incarnate keeps_check keeps_gossip
  by (cases opr) (auto simp: check_node_health_def mb_add_node_def mb_remove_node_def local_id split: option.splits)

lemma keeps_run: "P mb \<Longrightarrow> (\<And>x. OpAdd x \<in> set ops \<Longrightarrow> ni_node_id x \<noteq> me \<or> own x) \<Longrightarrow> P (fold mb_exec ops mb)"
proof (induction ops arbitrary: mb)
  case (Cons opr ops)
  have "P (mb_exec opr mb)" using Cons.prems by (intro keeps_exec) auto
  with Cons show ?case by simp
qed simp

end

definition mb_wf_of :: "node_id \<Rightarrow> membership \<Rightarrow> bool" where
  "mb_wf_of me mb \<longleftrightarrow> mb_wf mb \<and> ni_node_id (mb_local mb) = me"

text \<open>The local node's table entry still is the local node, and it is alive.\<close>

definition self_alive :: "node_id \<Rightarrow> membership \<Rightarrow> bool" where
  "self_alive me mb \<longleftrightarrow> mb_wf_of me mb \<and> dget (mb_members mb) me = Some LocalRef \<and> ni_state (mb_local mb) = ALIVE"

lemma deref_members [simp]: "deref (mb\<lparr>mb_members := d\<rparr>) m = deref mb m"
  by (cases m) simp_all

lemma mb_wf_del: "mb_wf mb \<Longrightarrow> n \<noteq> ni_node_id (mb_local mb) \<Longrightarrow> mb_wf (mb\<lparr>mb_members := ddel n (mb_members mb)\<rparr>)"
  by (auto simp: mb_wf_def delete_conv' distinct_delete)

lemma mb_wf_incarnate: "mb_wf mb \<Longrightarrow> mb_wf (increment_incarnation mb)"
proof -
  have "ni_node_id (deref (increment_incarnation mb) m) = ni_node_id (deref mb m)" for m
    by (cases m) (simp_all add: increment_incarnation_def)
  then show "mb_wf mb \<Longrightarrow> mb_wf (increment_incarnation mb)"
    by (simp add: mb_wf_def) (simp add: increment_incarnation_def del: map_of_eq_Some_iff)
qed

interpretation wf_table: table_invariant "mb_wf_of me" me "\<lambda>_. True" for me
  by unfold_locales
    (auto simp: mb_wf_of_def mb_wf_put mb_wf_del mb_wf_assign update_heartbeat_def set_node_role_def mb_wf_incarnate,
     auto simp: increment_incarnation_def)

lemma self_alive_assign:
  assumes "self_alive me mb" and "\<And>x. ni_node_id (f x) = ni_node_id x" and "n = me \<Longrightarrow> ni_state (f (mb_local mb)) = ALIVE"
  shows "self_alive me (assign_member mb n f)"
proof -
  have n: "dget (mb_members mb) n = Some LocalRef \<longleftrightarrow> n = me"
    using assms(1) unfolding self_alive_def mb_wf_of_def mb_wf_def by (metis deref.simps(1))
  have wf: "mb_wf_of me (assign_member mb n f)" using assms(1,2) by (auto simp: self_alive_def mb_wf_of_def mb_wf_assign)
  show ?thesis
  proof (cases "n = me")
    case True
    with assms n wf show ?thesis by (auto simp: self_alive_def assign_member_def)
  next
    case False
    with n have "dget (mb_members mb) n \<noteq> Some LocalRef" by simp
    with False assms wf show ?thesis
      by (auto simp: self_alive_def assign_member_def update_conv' simp del: map_of_eq_Some_iff split: option.splits member.splits)
  qed
qed

interpretation self_table: table_invariant "self_alive me" me "\<lambda>_. False" for me
proof
  fix mb :: membership and now :: time and n :: node_id and x :: node_info and s :: node_state and r :: node_role
  assume P: "self_alive me mb"
  then have ids: "mb_wf_of me mb" "dget (mb_members mb) me = Some LocalRef" "ni_state (mb_local mb) = ALIVE" by (simp_all add: self_alive_def)
  then show "ni_node_id (mb_local mb) = me" by (simp add: mb_wf_of_def)
  show "ni_node_id x \<noteq> me \<or> False \<Longrightarrow> self_alive me (mb\<lparr>mb_members := dset (ni_node_id x) (Own x) (mb_members mb)\<rparr>)"
    using ids wf_table.put [OF ids(1), of x] by (simp add: self_alive_def update_conv')
  show "n \<noteq> me \<Longrightarrow> self_alive me (mb\<lparr>mb_members := ddel n (mb_members mb)\<rparr>)"
    using ids wf_table.del [OF ids(1), of n] by (simp add: self_alive_def delete_conv')
  show "self_alive me (assign_member mb n (ni_last_heartbeat_update (\<lambda>_. now)))"
    using ids by (intro self_alive_assign [OF P]) simp_all
  show "n \<noteq> me \<Longrightarrow> self_alive me (assign_member mb n (ni_state_update (\<lambda>_. s)))"
    by (intro self_alive_assign [OF P]) simp_all
  show "self_alive me (update_heartbeat now n mb)" "self_alive me (set_node_role n r mb)"
    unfolding update_heartbeat_def set_node_role_def using ids by (auto intro!: self_alive_assign [OF P])
  show "self_alive me (increment_incarnation mb)"
    using ids wf_table.incarnate [OF ids(1)] by (simp add: self_alive_def) (simp add: increment_incarnation_def)
qed

text \<open>C29: The member table stays sound. Whatever health checks, joins, removals, heartbeats, gossip (well
  formed or not), role changes and incarnations a manager goes through, its table has one entry per
  node, filed under the node's identifier, and contains the local node. As long as no other record
  about the local node is added, the local node also stays alive in its own table, so it counts at
  least one alive node.\<close>

theorem membership_invariant:
  assumes "ni_state local = ALIVE"
  shows "mb_wf (fold mb_exec ops (membership_init local f d g)) \<and>
    ((\<exists>x. OpAdd x \<in> set ops \<and> ni_node_id x = ni_node_id local) \<or>
     ni_node_id local \<in> ni_node_id ` set (get_alive_nodes (fold mb_exec ops (membership_init local f d g))))"
proof -
  let ?me = "ni_node_id local" and ?mb = "fold mb_exec ops (membership_init local f d g)"
  have init: "mb_wf_of ?me (membership_init local f d g)" "self_alive ?me (membership_init local f d g)"
    using mb_wf_init assms by (simp_all add: self_alive_def mb_wf_of_def, simp_all add: membership_init_def)
  have "mb_wf ?mb" using wf_table.keeps_run [OF init(1), of ops] by (simp add: mb_wf_of_def)
  moreover have "?me \<in> ni_node_id ` set (get_alive_nodes ?mb)" if "\<forall>x. OpAdd x \<in> set ops \<longrightarrow> ni_node_id x \<noteq> ?me"
  proof -
    from self_table.keeps_run [OF init(2), of ops] that have s: "self_alive ?me ?mb" by blast
    then have "(?me, LocalRef) \<in> set (mb_members ?mb)" by (auto simp: self_alive_def dest: map_of_SomeD)
    then have "mb_local ?mb \<in> set (get_alive_nodes ?mb)"
      using s by (force simp: get_alive_nodes_def all_members_def self_alive_def)
    moreover have "ni_node_id (mb_local ?mb) = ?me" using s by (simp add: self_alive_def mb_wf_of_def)
    ultimately show ?thesis by (metis image_eqI)
  qed
  ultimately show ?thesis by blast
qed

definition sample_ops :: "mb_op list" where
  "sample_ops = [OpAdd (new_node ''b'' ''h'' 1 2 0), OpGossip 3 [node_to_dict (new_node ''c'' ''h'' 1 2 1), []], OpHealth 20]"

theorem membership_invariant_witness:
  "mb_wf (fold mb_exec sample_ops (membership_init (new_node ''a'' ''h'' 1 2 0) 5 15 1)) \<and>
   ''a'' \<in> ni_node_id ` set (get_alive_nodes (fold mb_exec sample_ops (membership_init (new_node ''a'' ''h'' 1 2 0) 5 15 1)))"
proof -
  have "ni_state (new_node ''a'' ''h'' 1 2 0) = ALIVE" by (simp add: new_node_def)
  from membership_invariant [OF this, of sample_ops 5 15 1] show ?thesis by (auto simp: sample_ops_def new_node_def)
qed

section \<open>Failure detection works\<close>

definition health :: "time \<Rightarrow> time \<Rightarrow> time \<Rightarrow> node_info \<Rightarrow> node_info" where
  "health failure_timeout dead_timeout now x =
     (if ni_state x = ALIVE \<and> now - ni_last_heartbeat x > failure_timeout then x\<lparr>ni_state := SUSPECT\<rparr>
      else if ni_state x = SUSPECT \<and> now - ni_last_heartbeat x > dead_timeout then x\<lparr>ni_state := DEAD\<rparr>
      else x)"

lemma assign_member_timeouts [simp]:
  "mb_failure_timeout (assign_member mb n f) = mb_failure_timeout mb" "mb_dead_timeout (assign_member mb n f) = mb_dead_timeout mb"
  by (auto simp: assign_member_def split: option.splits member.splits)

lemma check_member_frame [simp]:
  "mb_failure_timeout (snd (check_member now k mb)) = mb_failure_timeout mb"
  "mb_dead_timeout (snd (check_member now k mb)) = mb_dead_timeout mb"
  "ni_node_id (mb_local (snd (check_member now k mb))) = ni_node_id (mb_local mb)"
  by (auto simp: check_member_def Let_def split: option.splits)

lemma check_member_wf: "mb_wf mb \<Longrightarrow> mb_wf (snd (check_member now k mb))"
  by (auto simp: check_member_def Let_def mb_wf_assign split: option.splits)

lemma check_member_at:
  assumes "mb_wf mb" and "n \<noteq> ni_node_id (mb_local mb)"
  shows "member_at (snd (check_member now k mb)) n =
    (if n = k then map_option (health (mb_failure_timeout mb) (mb_dead_timeout mb) now) (member_at mb n) else member_at mb n)"
  using assms(2)
  by (auto simp: check_member_def Let_def health_def member_at_assign [OF assms(1)] split: option.splits)

lemma check_members_at:
  assumes "mb_wf mb" and "n \<noteq> ni_node_id (mb_local mb)" and "distinct ks"
  shows "member_at (snd (check_members now ks mb)) n =
    (if n \<in> set ks then map_option (health (mb_failure_timeout mb) (mb_dead_timeout mb) now) (member_at mb n) else member_at mb n)"
  using assms
proof (induction ks arbitrary: mb)
  case (Cons k ks)
  let ?mb = "snd (check_member now k mb)"
  have IH: "member_at (snd (check_members now ks ?mb)) n =
    (if n \<in> set ks then map_option (health (mb_failure_timeout ?mb) (mb_dead_timeout ?mb) now) (member_at ?mb n) else member_at ?mb n)"
    by (rule Cons.IH) (use Cons.prems check_member_wf in auto)
  show ?case using Cons.prems IH check_member_at [OF Cons.prems(1,2), of now k]
    by (auto simp: case_prod_unfold Let_def)
qed simp

lemma check_node_health_at:
  assumes "mb_wf mb" and "n \<noteq> ni_node_id (mb_local mb)"
  shows "member_at (snd (check_node_health now mb)) n =
    map_option (health (mb_failure_timeout mb) (mb_dead_timeout mb) now) (member_at mb n)"
proof -
  have "distinct (dkeys (mb_members mb))" using assms(1) by (simp add: mb_wf_def)
  moreover have "n \<in> set (dkeys (mb_members mb)) \<longleftrightarrow> member_at mb n \<noteq> None"
    unfolding dict_get_in_keys [symmetric] member_at_def by simp
  ultimately show ?thesis
    using check_members_at [OF assms, of "dkeys (mb_members mb)" now] by (auto simp: check_node_health_def)
qed

lemma check_members_frame:
  "mb_failure_timeout (snd (check_members now ks mb)) = mb_failure_timeout mb \<and>
   mb_dead_timeout (snd (check_members now ks mb)) = mb_dead_timeout mb \<and>
   ni_node_id (mb_local (snd (check_members now ks mb))) = ni_node_id (mb_local mb) \<and>
   (mb_wf mb \<longrightarrow> mb_wf (snd (check_members now ks mb)))"
proof (induction ks arbitrary: mb)
  case (Cons k ks)
  from Cons.IH [of "snd (check_member now k mb)"] check_member_wf [of mb now k] show ?case
    by (simp add: case_prod_unfold Let_def)
qed simp

lemmas check_node_health_frame = check_members_frame [of _ "dkeys (mb_members mb)" mb for mb, folded check_node_health_def]

text \<open>C34: Silent nodes are declared dead. A member other than the local node from which nothing arrives any
  more is dead after two health checks with nothing in between, the first later than the failure timeout and the second later
  than the dead timeout after its last heartbeat; its record is otherwise unchanged.\<close>

theorem silent_node_declared_dead:
  assumes "mb_wf mb" and "n \<noteq> ni_node_id (mb_local mb)" and "member_at mb n = Some x"
    and "t1 - ni_last_heartbeat x > mb_failure_timeout mb" and "t2 - ni_last_heartbeat x > mb_dead_timeout mb"
  shows "member_at (snd (check_node_health t2 (snd (check_node_health t1 mb)))) n = Some (x\<lparr>ni_state := DEAD\<rparr>)"
proof -
  let ?mb = "snd (check_node_health t1 mb)"
  have mb: "mb_wf ?mb" "n \<noteq> ni_node_id (mb_local ?mb)" "mb_failure_timeout ?mb = mb_failure_timeout mb" "mb_dead_timeout ?mb = mb_dead_timeout mb"
    using check_node_health_frame [of t1 mb] assms(1,2) by auto
  have "x\<lparr>ni_state := DEAD\<rparr> = x" if "ni_state x = DEAD" using that by (cases x) simp
  then show ?thesis
    using assms(3-5) check_node_health_at [OF mb(1,2), of t2] check_node_health_at [OF assms(1,2), of t1]
    by (cases "ni_state x") (auto simp: mb(3,4) health_def)
qed

theorem silent_node_declared_dead_witness:
  "member_at (snd (check_node_health 20 (snd (check_node_health 8 (snd (mb_add_node (new_node ''b'' ''h'' 1 2 1)
      (membership_init (new_node ''a'' ''h'' 1 2 0) 5 15 1))))))) ''b'' = Some ((new_node ''b'' ''h'' 1 2 1)\<lparr>ni_state := DEAD\<rparr>)"
  by (rule silent_node_declared_dead)
    (simp_all add: mb_add_node_def membership_init_def new_node_def member_at_def mb_wf_def)

section \<open>Gossip\<close>

definition gossip_one :: "time \<times> node_info \<Rightarrow> membership \<Rightarrow> membership" where
  "gossip_one u mb = snd (handle_gossip (fst u) [node_to_dict (snd u)] mb)"

lemma node_to_dict_id: "bind_res (dict_item (node_to_dict x) ''node_id'') as_str = Inr (ni_node_id x)"
  by (simp add: node_to_dict_def dict_item_def as_str_def)

lemma gossip_one_eq:
  "gossip_one (t, x) mb = (if ni_node_id x = ni_node_id (mb_local mb) then mb else snd (merge_member (x\<lparr>ni_joined_at := t\<rparr>) mb))"
  by (simp add: gossip_one_def node_to_dict_id node_from_to_dict case_prod_unfold Let_def)

lemma handle_gossip_fold:
  "snd (handle_gossip t (map node_to_dict xs) mb) = fold gossip_one (map (Pair t) xs) mb"
  by (induction xs arbitrary: mb) (simp_all add: gossip_one_eq node_to_dict_id node_from_to_dict case_prod_unfold Let_def)

text \<open>Receiving a sequence of gossip messages, each a table at some time.\<close>

definition receive_gossip :: "(time \<times> node_info list) list \<Rightarrow> membership \<Rightarrow> membership" where
  "receive_gossip msgs mb = fold (\<lambda>(t, xs) mb. snd (handle_gossip t (map node_to_dict xs) mb)) msgs mb"

definition gossip_updates :: "(time \<times> node_info list) list \<Rightarrow> (time \<times> node_info) list" where
  "gossip_updates msgs = concat (map (\<lambda>(t, xs). map (Pair t) xs) msgs)"

lemma receive_gossip_fold: "receive_gossip msgs mb = fold gossip_one (gossip_updates msgs) mb"
  by (induction msgs arbitrary: mb) (auto simp: receive_gossip_def gossip_updates_def handle_gossip_fold)

definition undated :: "node_info \<Rightarrow> node_info" where
  "undated x = x\<lparr>ni_joined_at := 0\<rparr>"

lemma undated_simps [simp]:
  "ni_last_heartbeat (undated x) = ni_last_heartbeat x" "ni_incarnation (undated x) = ni_incarnation x"
  "ni_node_id (undated x) = ni_node_id x" "undated (x\<lparr>ni_joined_at := t\<rparr>) = undated x"
  by (simp_all add: undated_def)

text \<open>Gossip about node \<open>n\<close> among records of one incarnation.\<close>

definition about :: "node_id \<Rightarrow> int \<Rightarrow> membership \<Rightarrow> bool" where
  "about n c mb \<longleftrightarrow> n \<noteq> ni_node_id (mb_local mb) \<and> (\<forall>x. member_at mb n = Some x \<longrightarrow> ni_incarnation x = c)"

lemma member_at_put:
  "member_at (mb\<lparr>mb_members := dset n (Own x) (mb_members mb)\<rparr>) k = (if k = n then Some x else member_at mb k)"
  by (cases "dget (mb_members mb) k") (auto simp: member_at_def update_conv')

lemma gossip_one_at:
  "member_at (gossip_one (t, x) mb) n =
    (if n = ni_node_id x \<and> n \<noteq> ni_node_id (mb_local mb)
     then (case member_at mb n of
             None \<Rightarrow> Some (x\<lparr>ni_joined_at := t\<rparr>)
           | Some e \<Rightarrow> if ni_incarnation x > ni_incarnation e \<or> ni_last_heartbeat x > ni_last_heartbeat e
                       then Some (x\<lparr>ni_joined_at := t\<rparr>) else Some e)
     else member_at mb n)"
  by (auto simp: gossip_one_eq merge_member_def Let_def member_at_put split: option.splits)

lemma gossip_one_local [simp]: "mb_local (gossip_one u mb) = mb_local mb"
  by (cases u) (auto simp: gossip_one_eq merge_member_def Let_def split: option.splits)

lemma gossip_fold_local [simp]: "mb_local (fold gossip_one us mb) = mb_local mb"
  by (induction us arbitrary: mb) simp_all

interpretation gossip_register: newest_register ni_last_heartbeat "\<lambda>u. undated (snd u)"
    "\<lambda>u. ni_node_id (snd u) = n \<and> ni_incarnation (snd u) = c" "about n c" "\<lambda>mb. map_option undated (member_at mb n)" gossip_one
  for n c
proof
  fix mb :: membership and u :: "time \<times> node_info"
  assume a: "about n c mb" "ni_node_id (snd u) = n \<and> ni_incarnation (snd u) = c"
  obtain t x where u: "u = (t, x)" by fastforce
  show "\<exists>w. map_option undated (member_at (gossip_one u mb) n) = Some w \<and>
      (w = undated (snd u) \<or> map_option undated (member_at mb n) = Some w) \<and>
      ni_last_heartbeat (undated (snd u)) \<le> ni_last_heartbeat w \<and>
      (\<forall>e. map_option undated (member_at mb n) = Some e \<longrightarrow> ni_last_heartbeat e \<le> ni_last_heartbeat w)"
    using a by (cases "member_at mb n") (auto simp: u gossip_one_at about_def)
  show "about n c (gossip_one u mb)"
    using a by (auto simp: about_def u gossip_one_at split: option.splits if_splits)
qed

lemma gossip_other: "ni_node_id (snd u) \<noteq> n \<Longrightarrow> member_at (gossip_one u mb) n = member_at mb n"
  by (cases u) (auto simp: gossip_one_at)

lemma gossip_filter:
  assumes "member_at mb n = member_at mb' n" and "ni_node_id (mb_local mb) = ni_node_id (mb_local mb')"
  shows "member_at (fold gossip_one us mb) n = member_at (fold gossip_one (filter (\<lambda>u. ni_node_id (snd u) = n) us) mb') n"
  using assms
proof (induction us arbitrary: mb mb')
  case (Cons u us)
  show ?case
  proof (cases "ni_node_id (snd u) = n")
    case True
    obtain t x where u: "u = (t, x)" by fastforce
    with True have "ni_node_id x = n" by simp
    with Cons.prems have "member_at (gossip_one u mb) n = member_at (gossip_one u mb') n" by (auto simp: u gossip_one_at)
    with Cons True show ?thesis by simp
  next
    case False
    with Cons gossip_other [OF False, of mb] show ?thesis by simp
  qed
qed simp

definition records_about :: "node_id \<Rightarrow> (time \<times> node_info list) list \<Rightarrow> node_info set" where
  "records_about n msgs = undated ` set (filter (\<lambda>x. ni_node_id x = n) (concat (map snd msgs)))"

text \<open>C30: Gossip converges. Let two managers that do not know node \<open>n\<close> (and are not \<open>n\<close>) receive gossip
  messages that carry, in any order, grouping and number, the same records about \<open>n\<close>, all of one
  incarnation and with different heartbeats. Then both end with the record that has the latest
  heartbeat (up to the time they first heard of it).\<close>

theorem gossip_converges:
  assumes "member_at mb n = None" and "member_at mb' n = None"
    and "n \<noteq> ni_node_id (mb_local mb)" and "n \<noteq> ni_node_id (mb_local mb')"
    and "records_about n msgs = R" and "records_about n msgs' = R"
    and "\<forall>x \<in> R. ni_incarnation x = c" and "inj_on ni_last_heartbeat R" and "R \<noteq> {}"
  shows "\<exists>w \<in> R. map_option undated (member_at (receive_gossip msgs mb) n) = Some w \<and>
    map_option undated (member_at (receive_gossip msgs' mb') n) = Some w \<and> (\<forall>x \<in> R. ni_last_heartbeat x \<le> ni_last_heartbeat w)"
proof -
  let ?f = "filter (\<lambda>u. ni_node_id (snd u) = n)"
  let ?us = "?f (gossip_updates msgs)" and ?us' = "?f (gossip_updates msgs')"
  have R: "(\<lambda>u. undated (snd u)) ` set (?f (gossip_updates ms)) = records_about n ms" for ms
    by (force simp: gossip_updates_def records_about_def)
  have cand: "gossip_register.candidates n ?us mb = R" "gossip_register.candidates n ?us' mb' = R"
    using assms(1,2,5,6) R by (simp_all add: gossip_register.candidates_def)
  have inc: "ni_incarnation (snd u) = c" if "u \<in> set ?us \<or> u \<in> set ?us'" for u
    using that assms(5-7) R [of msgs] R [of msgs'] by (metis (no_types, lifting) image_eqI undated_simps(2))
  have ok: "list_all (\<lambda>u. ni_node_id (snd u) = n \<and> ni_incarnation (snd u) = c) ?us"
    "list_all (\<lambda>u. ni_node_id (snd u) = n \<and> ni_incarnation (snd u) = c) ?us'"
    using inc by (auto simp: list_all_iff)
  have ab: "about n c mb" "about n c mb'" using assms(1-4) by (simp_all add: about_def)
  from gossip_register.winner [OF ab(1) ok(1)] assms(9) cand obtain w where w: "w \<in> R"
    "map_option undated (member_at (fold gossip_one ?us mb) n) = Some w" "\<forall>x \<in> R. ni_last_heartbeat x \<le> ni_last_heartbeat w" by auto
  moreover have "map_option undated (member_at (fold gossip_one ?us mb) n) = map_option undated (member_at (fold gossip_one ?us' mb') n)"
    using gossip_register.convergence [OF ab(1) ok(1) ab(2) ok(2)] cand assms(8) by simp
  moreover have "member_at (receive_gossip msgs mb) n = member_at (fold gossip_one ?us mb) n"
    "member_at (receive_gossip msgs' mb') n = member_at (fold gossip_one ?us' mb') n"
    unfolding receive_gossip_fold by (rule gossip_filter; simp)+
  ultimately show ?thesis by metis
qed

definition sample_table :: "node_id \<Rightarrow> membership" where
  "sample_table n = membership_init (new_node n ''h'' 1 2 0) 5 15 1"

definition heard :: "time \<Rightarrow> int \<Rightarrow> node_info" where
  "heard t inc = (new_node ''c'' ''h'' 1 2 t)\<lparr>ni_incarnation := inc\<rparr>"

theorem gossip_converges_witness:
  "\<exists>w \<in> {undated (heard 1 0), undated (heard 4 0)}.
     map_option undated (member_at (receive_gossip [(2, [heard 1 0]), (5, [heard 4 0])] (sample_table ''a'')) ''c'') = Some w \<and>
     map_option undated (member_at (receive_gossip [(6, [heard 4 0, heard 1 0]), (7, [heard 1 0])] (sample_table ''b'')) ''c'') = Some w \<and>
     (\<forall>x \<in> {undated (heard 1 0), undated (heard 4 0)}. ni_last_heartbeat x \<le> ni_last_heartbeat w)"
  by (rule gossip_converges)
    (auto simp: records_about_def sample_table_def membership_init_def member_at_def new_node_def inj_on_def heard_def)

text \<open>Gossip can oscillate for ever. A record is replaced when the incoming one has a higher
  incarnation or a later heartbeat, so of two records, one with the higher incarnation and one with the
  later heartbeat, each replaces the other; a manager that keeps receiving both never settles.\<close>

theorem gossip_oscillates:
  assumes "n \<noteq> ni_node_id (mb_local mb)" and "ni_node_id x = n" and "ni_node_id y = n"
    and "ni_incarnation y < ni_incarnation x" and "ni_last_heartbeat x < ni_last_heartbeat y"
    and "member_at mb n = Some y"
  shows "map_option undated (member_at (receive_gossip (concat (replicate k [(t, [x]), (t, [y])])) mb) n) = Some (undated y) \<and>
    map_option undated (member_at (receive_gossip (concat (replicate k [(t, [x]), (t, [y])]) @ [(t, [x])]) mb) n) = Some (undated x)"
proof -
  have step: "map_option undated (member_at (receive_gossip (concat (replicate k [(t, [x]), (t, [y])])) mb) n) = Some (undated y)"
    if "map_option undated (member_at mb n) = Some (undated y)" "n \<noteq> ni_node_id (mb_local mb)" for k mb
    using that
  proof (induction k arbitrary: mb)
    case (Suc k)
    let ?mb = "gossip_one (t, y) (gossip_one (t, x) mb)"
    obtain e where e: "member_at mb n = Some e" "undated e = undated y" using Suc.prems by auto
    then have "ni_incarnation e = ni_incarnation y" "ni_last_heartbeat e = ni_last_heartbeat y" by (metis undated_simps)+
    with e Suc.prems(2) assms(2-5) have "map_option undated (member_at ?mb n) = Some (undated y)" by (simp add: gossip_one_at)
    with Suc.IH [of ?mb] Suc.prems(2) show ?case by (simp add: receive_gossip_fold gossip_updates_def)
  qed (simp add: receive_gossip_def)
  let ?mb = "receive_gossip (concat (replicate k [(t, [x]), (t, [y])])) mb"
  have s: "map_option undated (member_at ?mb n) = Some (undated y)" using step assms(1,6) by simp
  then obtain e where e: "member_at ?mb n = Some e" "undated e = undated y" by auto
  then have "ni_incarnation e = ni_incarnation y" by (metis undated_simps)
  moreover have "ni_node_id (mb_local ?mb) = ni_node_id (mb_local mb)"
    by (simp add: receive_gossip_fold)
  moreover have "receive_gossip (concat (replicate k [(t, [x]), (t, [y])]) @ [(t, [x])]) mb = gossip_one (t, x) ?mb"
    by (simp add: receive_gossip_fold gossip_updates_def)
  ultimately show ?thesis using s e assms(1,2,4) by (simp add: gossip_one_at)
qed

theorem gossip_oscillates_witness:
  "map_option undated (member_at (receive_gossip (concat (replicate 2 [(9, [heard 1 1]), (9, [heard 4 0])]))
      (snd (merge_member (heard 4 0) (sample_table ''a'')))) ''c'') = Some (undated (heard 4 0)) \<and>
   map_option undated (member_at (receive_gossip (concat (replicate 2 [(9, [heard 1 1]), (9, [heard 4 0])]) @ [(9, [heard 1 1])])
      (snd (merge_member (heard 4 0) (sample_table ''a'')))) ''c'') = Some (undated (heard 1 1))"
  by (rule gossip_oscillates)
    (simp_all add: sample_table_def membership_init_def merge_member_def member_at_def heard_def new_node_def Let_def)

end
