(* ===== verification/Coordinator.thy ===== *)
theory Coordinator
  imports Membership ElectionSafety WritePath
begin

text \<open>
  The cluster coordinator (\<^verbatim>\<open>src/minidb/cluster/coordinator.py\<close>): the dispatch of cluster messages to
  membership, election and replication, the callbacks that tie them together, the collection of
  votes, joining a cluster and the messages it sends.

  \<^item> The staged entries and the storage they are applied to are the \<open>follower\<close> of the write path.
  \<^item> Callbacks the code starts in a thread of their own run at once here.
  \<^item> A message whose fields have the wrong types raises \<^verbatim>\<open>TypeError\<close>; the server turns an exception into an
    error response.
\<close>

section \<open>State\<close>

record coordinator =
  co_node_id :: node_id
  co_membership :: membership
  co_election :: election
  co_replication :: replication
  co_follower :: follower
  co_default_consistency :: consistency_level

section \<open>Callbacks\<close>

definition set_own_role :: "node_role \<Rightarrow> coordinator \<Rightarrow> coordinator" where
  "set_own_role role co =
     (let mb = set_node_role (co_node_id co) role (co_membership co)
      in co\<lparr>co_membership := mb\<lparr>mb_local := (mb_local mb)\<lparr>ni_role := role\<rparr>\<rparr>\<rparr>)"

definition on_become_leader :: "coordinator \<Rightarrow> coordinator" where
  "on_become_leader co = set_own_role LEADER co"

definition on_become_follower :: "coordinator \<Rightarrow> coordinator" where
  "on_become_follower co = set_own_role FOLLOWER co"

definition get_followers :: "coordinator \<Rightarrow> node_id list" where
  "get_followers co = map ni_node_id (filter (\<lambda>n. ni_node_id n \<noteq> co_node_id co) (get_alive_nodes (co_membership co)))"

definition election_cluster_size :: "coordinator \<Rightarrow> int" where
  "election_cluster_size co = max 1 (int (node_count (co_membership co)))"

section \<open>Messages sent\<close>

text \<open>\<open>faulty\<close> is the fault injector's answer for a target.\<close>

definition send_gossip_message :: "coordinator \<Rightarrow> (string \<times> json) list list \<Rightarrow> message" where
  "send_gossip_message co members =
     (let m = (create_gossip (co_node_id co) members)\<lparr>ms_term := el_get_term (co_election co)\<rparr>
      in if el_is_leader (co_election co)
         then m\<lparr>ms_payload := dset ''leader_id'' (JStr (co_node_id co)) (ms_payload m)\<rparr> else m)"

definition send_heartbeats :: "(node_id \<Rightarrow> bool) \<Rightarrow> coordinator \<Rightarrow> (node_info \<times> message) list" where
  "send_heartbeats faulty co =
     map (\<lambda>n. (n, create_heartbeat (co_node_id co) (el_current_term (co_election co)) (co_node_id co)
                    (get_members_data (co_membership co))))
       (filter (\<lambda>n. ni_node_id n \<noteq> co_node_id co \<and> \<not> faulty (ni_node_id n)) (get_alive_nodes (co_membership co)))"

section \<open>Collecting votes\<close>

text \<open>\<^verbatim>\<open>_request_votes\<close> over the elections of the other nodes; a request may be dropped, or its answer
  lost.\<close>

fun request_votes ::
  "(node_id \<Rightarrow> bool) \<Rightarrow> (node_id \<Rightarrow> delivery) \<Rightarrow> time \<Rightarrow> node_id \<Rightarrow> vote_request \<Rightarrow> node_id list \<Rightarrow> (node_id \<Rightarrow> election) \<Rightarrow>
   int \<times> (node_id \<Rightarrow> election)" where
  "request_votes faulty net now me req [] w = (1, w)"
| "request_votes faulty net now me req (v # vs) w =
     (if v = me \<or> faulty v \<or> net v = Dropped then request_votes faulty net now me req vs w
      else
        let ((_, granted), el) =
              handle_vote_request (w v) now me (vr_term req) (vr_last_log_index req) (vr_last_log_term req);
            (votes, w') = request_votes faulty net now me req vs (w(v := el))
        in (if granted \<and> net v = Replied then votes + 1 else votes, w'))"

text \<open>One election round: \<^verbatim>\<open>_start_election\<close> with the coordinator's callbacks.
\<close>

definition run_election ::
  "(node_id \<Rightarrow> bool) \<Rightarrow> (node_id \<Rightarrow> delivery) \<Rightarrow> time \<Rightarrow> time \<Rightarrow> node_id \<Rightarrow> node_id list \<Rightarrow> int \<Rightarrow>
   (node_id \<Rightarrow> election) \<Rightarrow> (node_id \<Rightarrow> election)" where
  "run_election faulty net now rt me alive cluster_size w =
     (let (req, el) = start_election (w me) rt;
          (votes, w1) = request_votes faulty net now me req alive (w(me := el))
      in w1(me := finish_election (w1 me) (vr_term req) votes cluster_size))"

section \<open>Message handling\<close>

definition as_dict_list :: "json \<Rightarrow> (string \<times> json) list list res" where
  "as_dict_list j =
     (case j of
        JList vs \<Rightarrow>
          (if list_all (\<lambda>v. case v of JDict _ \<Rightarrow> True | _ \<Rightarrow> False) vs
           then Inr (map (\<lambda>v. case v of JDict d \<Rightarrow> d | _ \<Rightarrow> []) vs) else Inl TypeError)
      | _ \<Rightarrow> Inl TypeError)"

definition response_message :: "response \<Rightarrow> message" where
  "response_message r = (case r of Success d \<Rightarrow> create_response True d JNull | Failure e \<Rightarrow> create_response False JNull (JStr e))"

definition merge_gossip :: "time \<Rightarrow> json \<Rightarrow> coordinator \<Rightarrow> py_error option \<times> coordinator" where
  "merge_gossip now members co =
     (case as_dict_list members of
        Inl e \<Rightarrow> (Some e, co)
      | Inr ds \<Rightarrow> (let ((err, _), mb) = handle_gossip now ds (co_membership co) in (err, co\<lparr>co_membership := mb\<rparr>)))"

definition handle_heartbeat_message :: "time \<Rightarrow> time \<Rightarrow> coordinator \<Rightarrow> message \<Rightarrow> (py_error + message option) \<times> coordinator" where
  "handle_heartbeat_message now rt co m =
     (let leader = dict_get (ms_payload m) ''leader_id'' JNull;
          (err1, co1) =
            (if truthy leader
             then (case as_str leader of
                     Inl e \<Rightarrow> (Some e, co)
                   | Inr l \<Rightarrow>
                       let ((_, notify), el) = receive_heartbeat (co_election co) now rt l (ms_term m);
                           co' = co\<lparr>co_election := el\<rparr>
                       in (None, if notify then on_become_follower co' else co'))
             else (None, co))
      in (case err1 of
            Some e \<Rightarrow> (Inl e, co1)
          | None \<Rightarrow>
              let members = dict_get (ms_payload m) ''members'' (JList []);
                  (err2, co2) = (if truthy members then merge_gossip now members co1 else (None, co1))
              in (case err2 of
                    Some e \<Rightarrow> (Inl e, co2)
                  | None \<Rightarrow> (Inr None, co2\<lparr>co_membership := update_heartbeat now (ms_sender m) (co_membership co2)\<rparr>))))"

definition handle_vote_message :: "time \<Rightarrow> coordinator \<Rightarrow> message \<Rightarrow> (py_error + message option) \<times> coordinator" where
  "handle_vote_message now co m =
     (case (as_int (dict_get (ms_payload m) ''last_log_index'' (JInt 0)), as_int (dict_get (ms_payload m) ''last_log_term'' (JInt 0))) of
        (Inr last_index, Inr last_term) \<Rightarrow>
          (let ((term, granted), el) = handle_vote_request (co_election co) now (ms_sender m) (ms_term m) last_index last_term
           in (Inr (Some (create_vote_response (co_node_id co) term granted)), co\<lparr>co_election := el\<rparr>))
      | _ \<Rightarrow> (Inl TypeError, co))"

definition handle_gossip_message :: "time \<Rightarrow> coordinator \<Rightarrow> message \<Rightarrow> (py_error + message option) \<times> coordinator" where
  "handle_gossip_message now co m =
     (case merge_gossip now (dict_get (ms_payload m) ''members'' (JList [])) co of
        (Some e, co1) \<Rightarrow> (Inl e, co1)
      | (None, co1) \<Rightarrow> (Inr None, co1\<lparr>co_membership := update_heartbeat now (ms_sender m) (co_membership co1)\<rparr>))"

definition handle_join_message :: "time \<Rightarrow> coordinator \<Rightarrow> message \<Rightarrow> (py_error + message option) \<times> coordinator" where
  "handle_join_message now co m =
     (case node_from_dict now (ms_payload m) of
        Inl e \<Rightarrow> (Inl e, co)
      | Inr joining \<Rightarrow>
          let mb = snd (mb_add_node joining (co_membership co))
          in (Inr (Some (create_response True (JDict [(''members'', JList (map JDict (get_members_data mb)))]) JNull)),
              co\<lparr>co_membership := mb\<rparr>))"

definition handle_replicate_message :: "float_codec \<Rightarrow> time \<Rightarrow> coordinator \<Rightarrow> message \<Rightarrow> (py_error + message option) \<times> coordinator" where
  "handle_replicate_message fc now co m =
     (let entry = dict_get (ms_payload m) ''entry'' JNull; phase = dict_get (ms_payload m) ''phase'' JNull
      in if \<not> truthy entry then (Inr (Some (response_message (Failure ''No entry in payload''))), co)
         else
           (case (as_dict entry, if truthy phase then as_str phase else Inr ''prepare'') of
              (Inr d, Inr ph) \<Rightarrow>
                (let (r, fl) = handle_replicate fc (co_follower co) now (Some d) (Some ph)
                 in (map_sum id (\<lambda>x. Some (response_message x)) r, co\<lparr>co_follower := fl\<rparr>))
            | _ \<Rightarrow> (Inl TypeError, co)))"

definition handle_append_message :: "float_codec \<Rightarrow> time \<Rightarrow> time \<Rightarrow> coordinator \<Rightarrow> message \<Rightarrow> (py_error + message option) \<times> coordinator" where
  "handle_append_message fc now rt co m =
     (let p = ms_payload m
      in (case (as_int (dict_get p ''prev_log_index'' (JInt 0)), as_int (dict_get p ''prev_log_term'' (JInt 0)),
                as_dict_list (dict_get p ''entries'' (JList [])), as_int (dict_get p ''leader_commit'' (JInt 0))) of
            (Inr prev_index, Inr prev_term, Inr entries, Inr leader_commit) \<Rightarrow>
              (let (r, el, sg) = handle_append_entries (\<lambda>e s. snd (apply_log_entry fc s now e)) (co_election co) now rt
                     (ms_sender m) (ms_term m) prev_index prev_term entries leader_commit (fl_storage (co_follower co));
                   co' = co\<lparr>co_election := el, co_follower := (co_follower co)\<lparr>fl_storage := sg\<rparr>\<rparr>
               in (case r of
                     Inl e \<Rightarrow> (Inl e, co')
                   | Inr (term, success, match_index) \<Rightarrow>
                       (Inr (Some (new_message APPEND_RESPONSE
                          [(''success'', JBool success), (''match_index'', JInt match_index)] (co_node_id co) term)), co')))
          | _ \<Rightarrow> (Inl TypeError, co)))"

definition handle_cluster_message ::
  "float_codec \<Rightarrow> time \<Rightarrow> time \<Rightarrow> coordinator \<Rightarrow> message \<Rightarrow> (py_error + message option) \<times> coordinator" where
  "handle_cluster_message fc now rt co m =
     (case ms_type m of
        HEARTBEAT \<Rightarrow> handle_heartbeat_message now rt co m
      | VOTE_REQUEST \<Rightarrow> handle_vote_message now co m
      | GOSSIP \<Rightarrow> handle_gossip_message now co m
      | JOIN \<Rightarrow> handle_join_message now co m
      | REPLICATE \<Rightarrow> handle_replicate_message fc now co m
      | APPEND_ENTRIES \<Rightarrow> handle_append_message fc now rt co m
      | _ \<Rightarrow> (Inr None, co))"

section \<open>Joining\<close>

definition join_message :: "coordinator \<Rightarrow> message" where
  "join_message co = new_message JOIN (node_to_dict (mb_local (co_membership co))) (co_node_id co) 0"

text \<open>What \<^verbatim>\<open>join_cluster\<close> does with the response; \<^verbatim>\<open>None\<close> when there was none or something raised before.\<close>

definition join_with_response :: "time \<Rightarrow> coordinator \<Rightarrow> message option \<Rightarrow> bool \<times> coordinator" where
  "join_with_response now co response =
     (case response of
        None \<Rightarrow> (False, co)
      | Some m \<Rightarrow>
          if ms_type m = RESPONSE
          then (case merge_gossip now (dict_get (ms_payload m) ''members'' (JList [])) co of
                  (None, co') \<Rightarrow> (True, co') | (Some _, co') \<Rightarrow> (False, co'))
          else (False, co))"

section \<open>Public operations\<close>

definition get_leader_id :: "coordinator \<Rightarrow> node_id option" where
  "get_leader_id co = el_leader_id (co_election co)"

definition get_leader_address :: "coordinator \<Rightarrow> string option" where
  "get_leader_address co = map_option client_address (get_leader (co_membership co))"

definition append_and_replicate ::
  "float_codec \<Rightarrow> 'w sender \<Rightarrow> time \<Rightarrow> coordinator \<Rightarrow> 'w \<Rightarrow> string \<Rightarrow> string \<Rightarrow> json \<Rightarrow> int option \<Rightarrow> consistency_level option \<Rightarrow>
   (py_error + bool) \<times> coordinator \<times> 'w" where
  "append_and_replicate fc send now co w command key value ttl consistency =
     (if \<not> el_is_leader (co_election co) then (Inr False, co, w)
      else
        (case append_log_entry (co_election co) now command key value ttl of
           (None, el) \<Rightarrow> (Inr False, co\<lparr>co_election := el\<rparr>, w)
         | (Some entry, el) \<Rightarrow>
             let c = (case consistency of Some c \<Rightarrow> c | None \<Rightarrow> co_default_consistency co);
                 co1 = co\<lparr>co_election := el\<rparr>;
                 (success, rp, w') = Replication.replicate (Some send) (Some (\<lambda>_. get_followers co1)) (co_replication co1) w entry (Some c) None;
                 co2 = co1\<lparr>co_replication := rp\<rparr>
             in if success
                then (let (err, sg) = apply_log_entry fc (fl_storage (co_follower co2)) now entry;
                          co3 = co2\<lparr>co_follower := (co_follower co2)\<lparr>fl_storage := sg\<rparr>\<rparr>
                      in (case err of None \<Rightarrow> (Inr True, co3, w') | Some e \<Rightarrow> (Inl e, co3, w')))
                else (Inr False, co2, w')))"

definition get_cluster_info :: "coordinator \<Rightarrow> (string, json) dict" where
  "get_cluster_info co =
     [(''node_id'', JStr (co_node_id co)), (''role'', JStr (role_value (el_role (co_election co)))),
      (''term'', JInt (el_current_term (co_election co))), (''leader_id'', of_opt JStr (el_leader_id (co_election co))),
      (''members'', JList (map JDict (get_members_data (co_membership co)))),
      (''alive_count'', JInt (int (node_count (co_membership co)))),
      (''replication'', JDict [(''pending'', JInt (int (get_pending_count (co_replication co)))),
                               (''async_queue'', JInt (int (get_async_queue_size (co_replication co))))]),
      (''log_length'', JInt (int (length (el_log (co_election co))))),
      (''commit_index'', JInt (el_commit_index (co_election co)))]"

section \<open>Properties\<close>

text \<open>Joining learns nothing. The seed answers a JOIN with the member table inside the \<^verbatim>\<open>data\<close> field of the
  response, but the joining node looks for it at the top of the payload: it reports success and its
  own table is exactly what it was.\<close>

theorem join_learns_nothing:
  assumes "handle_cluster_message fc now rt seed (join_message co) = (Inr (Some response), seed')"
  shows "join_with_response now co (Some response) = (True, co)"
proof -
  have "\<exists>d. response = create_response True d JNull"
    using assms by (auto simp: handle_cluster_message_def join_message_def new_message_def handle_join_message_def Let_def split: sum.splits)
  then obtain d where r: "response = create_response True d JNull" by blast
  have "merge_gossip now (JList []) co = (None, co)" by (simp add: merge_gossip_def as_dict_list_def)
  then show ?thesis
    by (simp add: join_with_response_def r create_response_def new_message_def dict_get_def)
qed

definition sample_coordinator :: "node_id \<Rightarrow> coordinator" where
  "sample_coordinator n =
     \<lparr>co_node_id = n, co_membership = sample_table n, co_election = election_init n (3 / 2) 3 1 0 2,
      co_replication = replication_init n 3 QUORUM 5, co_follower = \<lparr>fl_staged = [], fl_storage = fresh_storage n\<rparr>,
      co_default_consistency = QUORUM\<rparr>"

lemma sample_join:
  "fst (handle_cluster_message whole_codec 1 2 (sample_coordinator ''a'') (join_message (sample_coordinator ''b''))) =
     Inr (Some (create_response True (JDict [(''members'', JList (map JDict (get_members_data (snd (mb_add_node
       (new_node ''b'' ''h'' 1 2 0\<lparr>ni_joined_at := 1\<rparr>) (sample_table ''a''))))))]) JNull))"
  by (simp add: handle_cluster_message_def join_message_def new_message_def handle_join_message_def sample_coordinator_def
      node_from_to_dict sample_table_def membership_init_def Let_def)

theorem join_learns_nothing_witness:
  "\<exists>response seed'. handle_cluster_message whole_codec 1 2 (sample_coordinator ''a'') (join_message (sample_coordinator ''b'')) =
     (Inr (Some response), seed') \<and> join_with_response 1 (sample_coordinator ''b'') (Some response) = (True, sample_coordinator ''b'')"
proof -
  let ?h = "handle_cluster_message whole_codec 1 2 (sample_coordinator ''a'') (join_message (sample_coordinator ''b''))"
  obtain response where "fst ?h = Inr (Some response)" using sample_join by blast
  then have "?h = (Inr (Some response), snd ?h)" by (metis prod.collapse)
  with join_learns_nothing [OF this] show ?thesis by blast
qed

text \<open>Collecting votes as steps of the cluster.\<close>

lemma request_votes_steps:
  assumes "cluster_reach N k c" and "(me, req) \<in> cl_requests c" and "set vs \<subseteq> N" and "distinct vs"
    and "request_votes faulty net now me req vs (cl_node c) = (votes, w)"
    and "cl_tally c me (vr_term req) \<inter> set vs = {}" and "finite (cl_tally c me (vr_term req))"
  shows "\<exists>c'. cluster_reach N k c' \<and> cl_node c' = w \<and> (me, req) \<in> cl_requests c' \<and>
    int (card (cl_tally c' me (vr_term req))) = int (card (cl_tally c me (vr_term req))) + votes - 1"
  using assms
proof (induction vs arbitrary: c votes)
  case Nil
  then show ?case by auto
next
  case (Cons v vs)
  show ?case
  proof (cases "v = me \<or> faulty v \<or> net v = Dropped")
    case True
    with Cons show ?thesis by auto
  next
    case False
    obtain t granted el where h: "handle_vote_request (cl_node c v) now me (vr_term req) (vr_last_log_index req) (vr_last_log_term req) =
        ((t, granted), el)" by (metis prod.exhaust)
    obtain votes' where r: "request_votes faulty net now me req vs ((cl_node c)(v := el)) = (votes', w)"
      and votes: "votes = (if granted \<and> net v = Replied then votes' + 1 else votes')"
      using Cons.prems(5) False h by (auto simp: Let_def split: prod.splits)
    let ?c = "c\<lparr>cl_node := (cl_node c)(v := el),
          cl_votes := (if granted then insert (v, vr_term req, me) (cl_votes c) else cl_votes c),
          cl_tally := (if granted \<and> net v = Replied
                       then (cl_tally c)(me := (cl_tally c me)(vr_term req := insert v (cl_tally c me (vr_term req))))
                       else cl_tally c)\<rparr>"
    have "cluster_step N k c ?c" using cluster_step.vote [OF Cons.prems(2) _ _ h, of N k "net v = Replied"] False Cons.prems(3) by auto
    with Cons.prems(1) have reach: "cluster_reach N k ?c" by (rule cluster_reach.step)
    have "v \<notin> cl_tally c me (vr_term req)" "v \<notin> set vs" using Cons.prems(4,6) by auto
    moreover from this have "\<exists>c'. cluster_reach N k c' \<and> cl_node c' = w \<and> (me, req) \<in> cl_requests c' \<and>
        int (card (cl_tally c' me (vr_term req))) = int (card (cl_tally ?c me (vr_term req))) + votes' - 1"
      using Cons.prems(2-4,6,7) r by (intro Cons.IH [OF reach]) (auto simp: fun_upd_def)
    ultimately show ?thesis using votes Cons.prems(7) by (auto split: if_splits)
  qed
qed

text \<open>C27: An election round is a run of the protocol. Whatever requests and answers are lost, one round of
  a node's election, run over the members it believes alive and counted against a cluster size of at
  least the protocol's, leads from a reachable cluster to a reachable cluster; so the safety of
  elections holds for the rounds the coordinator really runs.\<close>

theorem election_round_reachable:
  assumes "cluster_reach N k c" and "me \<in> N" and "should_start_election (cl_node c me) now"
    and "set alive \<subseteq> N" and "distinct alive" and "k \<le> cluster_size"
  shows "\<exists>c'. cluster_reach N k c' \<and> cl_node c' = run_election faulty net now rt me alive cluster_size (cl_node c)"
proof -
  obtain req el where s: "start_election (cl_node c me) rt = (req, el)" by fastforce
  let ?c1 = "c\<lparr>cl_node := (cl_node c)(me := el), cl_requests := insert (me, req) (cl_requests c),
          cl_tally := (cl_tally c)(me := (cl_tally c me)(vr_term req := {})), cl_votes := insert (me, vr_term req, me) (cl_votes c)\<rparr>"
  have c1: "cluster_reach N k ?c1" using assms(1) cluster_step.start [OF assms(2,3) s] by (rule cluster_reach.step)
  obtain votes w where v: "request_votes faulty net now me req alive ((cl_node c)(me := el)) = (votes, w)" by fastforce
  have "\<exists>c'. cluster_reach N k c' \<and> cl_node c' = w \<and> (me, req) \<in> cl_requests c' \<and>
      int (card (cl_tally c' me (vr_term req))) = int (card (cl_tally ?c1 me (vr_term req))) + votes - 1"
    using assms(4,5) v by (intro request_votes_steps [OF c1]) auto
  then obtain c2 where c2: "cluster_reach N k c2" "cl_node c2 = w" "(me, req) \<in> cl_requests c2"
    "1 + int (card (cl_tally c2 me (vr_term req))) = votes" by auto
  let ?el = "finish_election (cl_node c2 me) (vr_term req) votes cluster_size"
  let ?c3 = "c2\<lparr>cl_node := (cl_node c2)(me := ?el),
          cl_won := (if el_role (cl_node c2 me) = CANDIDATE \<and> el_role ?el = LEADER then insert (vr_term req, me) (cl_won c2) else cl_won c2)\<rparr>"
  have "cluster_step N k c2 ?c3" using cluster_step.finish [OF c2(3) assms(2,6) refl] unfolding c2(4) .
  with c2(1) have "cluster_reach N k ?c3" by (rule cluster_reach.step)
  moreover have "cl_node ?c3 = run_election faulty net now rt me alive cluster_size (cl_node c)"
    by (simp add: run_election_def s v c2(2))
  ultimately show ?thesis by blast
qed

definition three_nodes :: cluster where
  "three_nodes = cluster_init (\<lambda>n. election_init n (3 / 2) 3 1 0 2)"

theorem election_round_reachable_witness:
  "\<exists>c'. cluster_reach {''a'', ''b'', ''c''} 3 c' \<and>
     cl_node c' = run_election (\<lambda>_. False) (\<lambda>n. if n = ''c'' then Dropped else Replied) 5 2 ''a'' [''a'', ''b'', ''c''] 3 (cl_node three_nodes)"
proof (rule election_round_reachable)
  show "cluster_reach {''a'', ''b'', ''c''} 3 three_nodes"
    unfolding three_nodes_def by (rule cluster_reach.init) (unfold fresh_election_def, blast)
qed (simp_all add: three_nodes_def cluster_init_def election_init_def should_start_election_def)

end
