(* ===== verification/RateLimiter.thy ===== *)
theory RateLimiter
  imports Log
begin

text \<open>
  Rate limiting and backpressure (\<^verbatim>\<open>src/minidb/chaos/rate_limiter.py\<close>): the token bucket, the sliding
  window, the adaptive limiter built on the bucket, and the backpressure manager.

  \<^item> Every method takes the clock reading \<open>now\<close>; the readings one call makes are one value. Token counts
    and rates are rationals, rounding is not modelled.
  \<^item> What all limiters promise, their counters, is the locale \<open>rate_limiter\<close>.
\<close>

section \<open>Token bucket\<close>

record rate_limit_stats =
  rl_total :: nat
  rl_allowed :: nat
  rl_rejected :: nat

definition no_requests :: rate_limit_stats where
  "no_requests = \<lparr>rl_total = 0, rl_allowed = 0, rl_rejected = 0\<rparr>"

definition count_request :: "bool \<Rightarrow> rate_limit_stats \<Rightarrow> rate_limit_stats" where
  "count_request ok s =
     \<lparr>rl_total = rl_total s + 1, rl_allowed = rl_allowed s + (if ok then 1 else 0),
      rl_rejected = rl_rejected s + (if ok then 0 else 1)\<rparr>"

record bucket =
  bk_tokens :: rat
  bk_last_update :: time

record token_bucket =
  tb_rate :: rat
  tb_burst :: int
  tb_buckets :: "(string, bucket) dict"
  tb_stats :: rate_limit_stats

definition token_bucket_init :: "rat \<Rightarrow> int \<Rightarrow> token_bucket" where
  "token_bucket_init rate burst = \<lparr>tb_rate = rate, tb_burst = burst, tb_buckets = [], tb_stats = no_requests\<rparr>"

definition get_bucket :: "time \<Rightarrow> string \<Rightarrow> token_bucket \<Rightarrow> bucket" where
  "get_bucket now key tb =
     (case dget (tb_buckets tb) key of
        Some b \<Rightarrow> b
      | None \<Rightarrow> \<lparr>bk_tokens = of_int (tb_burst tb), bk_last_update = now\<rparr>)"

definition refill :: "token_bucket \<Rightarrow> time \<Rightarrow> bucket \<Rightarrow> bucket" where
  "refill tb now b =
     \<lparr>bk_tokens = min (of_int (tb_burst tb)) (bk_tokens b + (now - bk_last_update b) * tb_rate tb),
      bk_last_update = now\<rparr>"

definition tb_try_acquire :: "time \<Rightarrow> string \<Rightarrow> token_bucket \<Rightarrow> bool \<times> token_bucket" where
  "tb_try_acquire now key tb =
     (let b = refill tb now (get_bucket now key tb); ok = (bk_tokens b \<ge> 1);
          b' = (if ok then b\<lparr>bk_tokens := bk_tokens b - 1\<rparr> else b)
      in (ok, tb\<lparr>tb_buckets := dset key b' (tb_buckets tb), tb_stats := count_request ok (tb_stats tb)\<rparr>))"

definition get_available_tokens :: "time \<Rightarrow> string \<Rightarrow> token_bucket \<Rightarrow> rat \<times> token_bucket" where
  "get_available_tokens now key tb =
     (let b = refill tb now (get_bucket now key tb)
      in (bk_tokens b, tb\<lparr>tb_buckets := dset key b (tb_buckets tb)\<rparr>))"

definition rejection_rate :: "rate_limit_stats \<Rightarrow> rat" where
  "rejection_rate s = (if rl_total s > 0 then of_nat (rl_rejected s) / of_nat (rl_total s) else 0)"

definition stats_fields :: "rate_limit_stats \<Rightarrow> (string, json) dict" where
  "stats_fields s =
     [(''total_requests'', JInt (int (rl_total s))), (''allowed'', JInt (int (rl_allowed s))),
      (''rejected'', JInt (int (rl_rejected s))), (''rejection_rate'', JFloat (rejection_rate s))]"

definition tb_get_stats :: "token_bucket \<Rightarrow> (string, json) dict" where
  "tb_get_stats tb =
     [(''type'', JStr ''token_bucket''), (''rate'', JFloat (tb_rate tb)), (''burst'', JInt (tb_burst tb))] @ stats_fields (tb_stats tb)"

section \<open>Sliding window\<close>

record sliding_window =
  sw_max_requests :: int
  sw_window_seconds :: time
  sw_windows :: "(string, time list) dict"
  sw_stats :: rate_limit_stats

definition sliding_window_init :: "int \<Rightarrow> time \<Rightarrow> sliding_window" where
  "sliding_window_init max_requests window =
     \<lparr>sw_max_requests = max_requests, sw_window_seconds = window, sw_windows = [], sw_stats = no_requests\<rparr>"

definition get_window :: "string \<Rightarrow> sliding_window \<Rightarrow> time list" where
  "get_window key sw = (case dget (sw_windows sw) key of Some w \<Rightarrow> w | None \<Rightarrow> [])"

definition cleanup_window :: "sliding_window \<Rightarrow> time \<Rightarrow> time list \<Rightarrow> time list" where
  "cleanup_window sw now w = dropWhile (\<lambda>t. t < now - sw_window_seconds sw) w"

definition sw_try_acquire :: "time \<Rightarrow> string \<Rightarrow> sliding_window \<Rightarrow> bool \<times> sliding_window" where
  "sw_try_acquire now key sw =
     (let w = cleanup_window sw now (get_window key sw); ok = (int (length w) < sw_max_requests sw)
      in (ok, sw\<lparr>sw_windows := dset key (if ok then w @ [now] else w) (sw_windows sw),
                 sw_stats := count_request ok (sw_stats sw)\<rparr>))"

definition get_current_count :: "time \<Rightarrow> string \<Rightarrow> sliding_window \<Rightarrow> nat \<times> sliding_window" where
  "get_current_count now key sw =
     (let w = cleanup_window sw now (get_window key sw) in (length w, sw\<lparr>sw_windows := dset key w (sw_windows sw)\<rparr>))"

definition sw_get_stats :: "sliding_window \<Rightarrow> (string, json) dict" where
  "sw_get_stats sw =
     [(''type'', JStr ''sliding_window''), (''max_requests'', JInt (sw_max_requests sw)),
      (''window_seconds'', JFloat (sw_window_seconds sw))] @ stats_fields (sw_stats sw)"

section \<open>Adaptive limiter\<close>

record adaptive =
  ad_min_rate :: rat
  ad_max_rate :: rat
  ad_adjustment_interval :: time
  ad_current_rate :: rat
  ad_limiter :: token_bucket
  ad_last_adjustment :: time
  ad_recent_latencies :: "time list"
  ad_stats :: rate_limit_stats

definition adaptive_init :: "rat \<Rightarrow> rat \<Rightarrow> rat \<Rightarrow> time \<Rightarrow> time \<Rightarrow> adaptive" where
  "adaptive_init initial_rate min_rate max_rate interval now =
     \<lparr>ad_min_rate = min_rate, ad_max_rate = max_rate, ad_adjustment_interval = interval, ad_current_rate = initial_rate,
      ad_limiter = token_bucket_init initial_rate (py_trunc initial_rate), ad_last_adjustment = now,
      ad_recent_latencies = [], ad_stats = no_requests\<rparr>"

definition update_rate :: "rat \<Rightarrow> adaptive \<Rightarrow> adaptive" where
  "update_rate new_rate ad = ad\<lparr>ad_current_rate := new_rate, ad_limiter := token_bucket_init new_rate (py_trunc new_rate)\<rparr>"

definition average :: "rat list \<Rightarrow> rat" where
  "average xs = sum_list xs / of_nat (length xs)"

definition maybe_adjust_rate :: "time \<Rightarrow> adaptive \<Rightarrow> adaptive" where
  "maybe_adjust_rate now ad =
     (if now - ad_last_adjustment ad < ad_adjustment_interval ad then ad
      else
        let ad1 = ad\<lparr>ad_last_adjustment := now\<rparr>
        in if ad_recent_latencies ad = [] then ad1
           else if average (ad_recent_latencies ad) > 1 / 10
           then update_rate (max (ad_min_rate ad) (ad_current_rate ad * 8 / 10)) ad1
           else if average (ad_recent_latencies ad) < 1 / 100
           then update_rate (min (ad_max_rate ad) (ad_current_rate ad * 11 / 10)) ad1
           else ad1)"

definition ad_try_acquire :: "time \<Rightarrow> string \<Rightarrow> adaptive \<Rightarrow> bool \<times> adaptive" where
  "ad_try_acquire now key ad =
     (let ad1 = maybe_adjust_rate now ad; (ok, tb) = tb_try_acquire now key (ad_limiter ad1)
      in (ok, ad1\<lparr>ad_limiter := tb, ad_stats := count_request ok (ad_stats ad1)\<rparr>))"

text \<open>\<^verbatim>\<open>deque(maxlen=100)\<close> drops from the left.\<close>

definition record_latency :: "time \<Rightarrow> adaptive \<Rightarrow> adaptive" where
  "record_latency l ad =
     (let ls = ad_recent_latencies ad @ [l] in ad\<lparr>ad_recent_latencies := drop (length ls - 100) ls\<rparr>)"

definition apply_backpressure :: "rat \<Rightarrow> adaptive \<Rightarrow> adaptive" where
  "apply_backpressure factor ad = update_rate (max (ad_min_rate ad) (ad_current_rate ad * factor)) ad"

definition ad_get_stats :: "adaptive \<Rightarrow> (string, json) dict" where
  "ad_get_stats ad =
     [(''type'', JStr ''adaptive''), (''current_rate'', JFloat (ad_current_rate ad)), (''min_rate'', JFloat (ad_min_rate ad)),
      (''max_rate'', JFloat (ad_max_rate ad)),
      (''avg_latency_ms'', JFloat ((if ad_recent_latencies ad = [] then 0 else average (ad_recent_latencies ad)) * 1000))] @
     stats_fields (ad_stats ad)"

section \<open>Backpressure\<close>

datatype limiter = TokenBucket token_bucket | SlidingWindow sliding_window | Adaptive adaptive

fun limiter_try_acquire :: "time \<Rightarrow> string \<Rightarrow> limiter \<Rightarrow> bool \<times> limiter" where
  "limiter_try_acquire now key (TokenBucket l) = map_prod id TokenBucket (tb_try_acquire now key l)"
| "limiter_try_acquire now key (SlidingWindow l) = map_prod id SlidingWindow (sw_try_acquire now key l)"
| "limiter_try_acquire now key (Adaptive l) = map_prod id Adaptive (ad_try_acquire now key l)"

fun limiter_stats :: "limiter \<Rightarrow> rate_limit_stats" where
  "limiter_stats (TokenBucket l) = tb_stats l"
| "limiter_stats (SlidingWindow l) = sw_stats l"
| "limiter_stats (Adaptive l) = ad_stats l"

record backpressure =
  bp_limiter :: limiter
  bp_queue_depths :: "(string, int) dict"
  bp_level :: rat

definition backpressure_init :: "limiter option \<Rightarrow> backpressure" where
  "backpressure_init l =
     \<lparr>bp_limiter = (case l of Some x \<Rightarrow> x | None \<Rightarrow> TokenBucket (token_bucket_init 100 100)),
      bp_queue_depths = [], bp_level = 0\<rparr>"

definition depth_level :: "int \<Rightarrow> rat" where
  "depth_level max_depth =
     (if max_depth \<le> 100 then 0 else if max_depth \<ge> 1000 then 1 else of_int (max_depth - 100) / 900)"

definition calculate_backpressure :: "backpressure \<Rightarrow> backpressure" where
  "calculate_backpressure bp =
     (if bp_queue_depths bp = [] then bp\<lparr>bp_level := 0\<rparr>
      else
        let level = depth_level (Max (set (map snd (bp_queue_depths bp))))
        in bp\<lparr>bp_level := level,
              bp_limiter := (case bp_limiter bp of
                               Adaptive ad \<Rightarrow> if level > 1 / 2 then Adaptive (apply_backpressure (1 - level * (1 / 2)) ad) else Adaptive ad
                             | l \<Rightarrow> l)\<rparr>)"

definition update_queue_depth :: "string \<Rightarrow> int \<Rightarrow> backpressure \<Rightarrow> backpressure" where
  "update_queue_depth queue depth bp =
     calculate_backpressure (bp\<lparr>bp_queue_depths := dset queue depth (bp_queue_depths bp)\<rparr>)"

text \<open>\<open>random\<close> is the number \<^verbatim>\<open>random.random()\<close> draws.\<close>

definition should_accept_request :: "rat \<Rightarrow> time \<Rightarrow> string \<Rightarrow> backpressure \<Rightarrow> bool \<times> backpressure" where
  "should_accept_request random now key bp =
     (if bp_level bp > 8 / 10 \<and> random < bp_level bp - 1 / 2 then (False, bp)
      else (let (ok, l) = limiter_try_acquire now key (bp_limiter bp) in (ok, bp\<lparr>bp_limiter := l\<rparr>)))"

fun limiter_get_stats :: "limiter \<Rightarrow> (string, json) dict" where
  "limiter_get_stats (TokenBucket l) = tb_get_stats l"
| "limiter_get_stats (SlidingWindow l) = sw_get_stats l"
| "limiter_get_stats (Adaptive l) = ad_get_stats l"

definition bp_get_stats :: "backpressure \<Rightarrow> (string, json) dict" where
  "bp_get_stats bp =
     [(''backpressure_level'', JFloat (bp_level bp)), (''queue_depths'', JDict (map (\<lambda>(q, d). (q, JInt d)) (bp_queue_depths bp))),
      (''rate_limiter'', JDict (limiter_get_stats (bp_limiter bp)))]"

section \<open>Counters\<close>

text \<open>What every limiter promises its clients: it counts each request once, as it answers it.\<close>

locale rate_limiter =
  fixes acquire :: "time \<Rightarrow> string \<Rightarrow> 'l \<Rightarrow> bool \<times> 'l"
    and stats :: "'l \<Rightarrow> rate_limit_stats"
  assumes counts: "stats (snd (acquire now key l)) = count_request (fst (acquire now key l)) (stats l)"
begin

fun requests :: "(time \<times> string) list \<Rightarrow> 'l \<Rightarrow> bool list \<times> 'l" where
  "requests [] l = ([], l)"
| "requests ((now, key) # rs) l =
     (let (ok, l1) = acquire now key l; (oks, l2) = requests rs l1 in (ok # oks, l2))"

lemma requests_counted:
  assumes "requests rs l = (oks, l')"
  shows "length oks = length rs \<and> rl_total (stats l') = rl_total (stats l) + length rs \<and>
    rl_allowed (stats l') = rl_allowed (stats l) + length (filter id oks) \<and>
    rl_rejected (stats l') = rl_rejected (stats l) + length (filter Not oks)"
  using assms
proof (induction rs arbitrary: l oks)
  case (Cons r rs)
  obtain now key where r: "r = (now, key)" by fastforce
  obtain ok l1 where a: "acquire now key l = (ok, l1)" by fastforce
  obtain oks1 where "requests rs l1 = (oks1, l')" "oks = ok # oks1"
    using Cons.prems by (auto simp: r a split: prod.splits)
  with Cons.IH [OF this(1)] counts [of now key l] show ?case by (auto simp: a count_request_def)
qed simp

end

interpretation tb_limiter: rate_limiter tb_try_acquire tb_stats
  by unfold_locales (simp add: tb_try_acquire_def Let_def)

interpretation sw_limiter: rate_limiter sw_try_acquire sw_stats
  by unfold_locales (simp add: sw_try_acquire_def Let_def)

lemma maybe_adjust_stats [simp]: "ad_stats (maybe_adjust_rate now ad) = ad_stats ad"
  by (simp add: maybe_adjust_rate_def update_rate_def Let_def)

interpretation ad_limiter: rate_limiter ad_try_acquire ad_stats
  by unfold_locales (simp add: ad_try_acquire_def case_prod_unfold Let_def)

interpretation any_limiter: rate_limiter limiter_try_acquire limiter_stats
proof
  fix now key l
  show "limiter_stats (snd (limiter_try_acquire now key l)) = count_request (fst (limiter_try_acquire now key l)) (limiter_stats l)"
    by (cases l) (simp_all add: tb_limiter.counts sw_limiter.counts ad_limiter.counts)
qed

section \<open>Bounds\<close>

text \<open>The requests for a key that were let through.\<close>

definition allowed_times :: "string \<Rightarrow> (time \<times> string) list \<Rightarrow> bool list \<Rightarrow> time list" where
  "allowed_times key rs oks = map (fst \<circ> fst) (filter (\<lambda>(r, ok). snd r = key \<and> ok) (zip rs oks))"

definition tokens_at :: "time \<Rightarrow> string \<Rightarrow> token_bucket \<Rightarrow> rat" where
  "tokens_at now key tb = bk_tokens (refill tb now (get_bucket now key tb))"

lemma tokens_at_mono:
  assumes "0 \<le> tb_rate tb" and "t \<le> t'"
  shows "tokens_at t' key tb \<le> tokens_at t key tb + tb_rate tb * (t' - t)"
proof (cases "dget (tb_buckets tb) key")
  case None
  then show ?thesis using assms by (simp add: tokens_at_def refill_def get_bucket_def)
next
  case (Some b)
  have "(t' - bk_last_update b) * tb_rate tb = (t - bk_last_update b) * tb_rate tb + tb_rate tb * (t' - t)"
    by (simp add: algebra_simps)
  moreover have "0 \<le> tb_rate tb * (t' - t)" using assms by simp
  ultimately show ?thesis using Some by (simp add: tokens_at_def refill_def get_bucket_def min_def)
qed

lemma tb_acquire_frame [simp]:
  "tb_rate (snd (tb_try_acquire now key tb)) = tb_rate tb" "tb_burst (snd (tb_try_acquire now key tb)) = tb_burst tb"
  by (simp_all add: tb_try_acquire_def Let_def)

lemma tb_acquire_tokens:
  "fst (tb_try_acquire now key tb) = (1 \<le> tokens_at now key tb)"
  "tokens_at now key (snd (tb_try_acquire now key tb)) = tokens_at now key tb - (if 1 \<le> tokens_at now key tb then 1 else 0)"
  by (auto simp: tb_try_acquire_def tokens_at_def Let_def get_bucket_def refill_def update_conv' min_def)

lemma tb_acquire_other:
  "key' \<noteq> key \<Longrightarrow> tokens_at t key' (snd (tb_try_acquire now key tb)) = tokens_at t key' tb"
  by (simp add: tb_try_acquire_def tokens_at_def Let_def get_bucket_def refill_def update_conv' split: option.splits)

lemma tokens_at_incr:
  assumes "0 \<le> tb_rate tb" and "t \<le> t'"
  shows "tokens_at t key tb \<le> tokens_at t' key tb"
proof (cases "dget (tb_buckets tb) key")
  case (Some b)
  have "(t - bk_last_update b) * tb_rate tb \<le> (t' - bk_last_update b) * tb_rate tb"
    using assms by (intro mult_right_mono) auto
  then show ?thesis using Some by (auto simp: tokens_at_def refill_def get_bucket_def intro: min.mono)
qed (simp add: tokens_at_def refill_def get_bucket_def)

lemma tb_acquire_key:
  "tokens_at t key (snd (tb_try_acquire t k tb)) = tokens_at t key tb - (if k = key \<and> fst (tb_try_acquire t k tb) then 1 else 0)"
proof (cases "k = key")
  case True
  show ?thesis unfolding True using tb_acquire_tokens [of t key tb] by simp
next
  case False
  then show ?thesis using tb_acquire_other [of key k t t tb] by simp
qed

lemma tb_acquire_nonneg:
  assumes "0 \<le> tb_rate tb" and "a \<le> t" and "0 \<le> tokens_at a key tb"
  shows "0 \<le> tokens_at t key (snd (tb_try_acquire t k tb))"
  using tokens_at_incr [OF assms(1,2), of key] assms(3) tb_acquire_tokens(1) [of t k tb] by (auto simp: tb_acquire_key)

lemma tb_requests_frame:
  "tb_limiter.requests rs tb = (oks, tb') \<Longrightarrow> tb_rate tb' = tb_rate tb \<and> tb_burst tb' = tb_burst tb"
  by (induction rs arbitrary: tb oks) (auto simp: case_prod_unfold Let_def prod_eq_iff)

lemma tb_requests_nonneg:
  assumes "sorted (map fst rs)" and "\<forall>r \<in> set rs. a \<le> fst r \<and> fst r \<le> b" and "a \<le> b" and "0 \<le> tb_rate tb"
    and "0 \<le> tokens_at a key tb" and "tb_limiter.requests rs tb = (oks, tb')"
  shows "0 \<le> tokens_at b key tb'"
  using assms
proof (induction rs arbitrary: a tb oks)
  case Nil
  then show ?case using tokens_at_incr [of tb a b key] by simp
next
  case (Cons r rs)
  obtain t k where r: "r = (t, k)" by fastforce
  have t: "a \<le> t" "t \<le> b" using Cons.prems(2) by (auto simp: r)
  obtain oks1 where "tb_limiter.requests rs (snd (tb_try_acquire t k tb)) = (oks1, tb')"
    using Cons.prems(6) by (auto simp: r case_prod_unfold Let_def prod_eq_iff)
  then show ?case
    using Cons.prems t tb_acquire_nonneg [OF Cons.prems(4) t(1) Cons.prems(5), of k] by (intro Cons.IH [of t]) (auto simp: r)
qed

lemma token_bucket_potential:
  assumes "sorted (map fst rs)" and "\<forall>r \<in> set rs. a \<le> fst r \<and> fst r \<le> b" and "a \<le> b" and "0 \<le> tb_rate tb"
    and "0 \<le> tokens_at a key tb" and "tb_limiter.requests rs tb = (oks, tb')"
  shows "of_nat (length (allowed_times key rs oks)) \<le> tokens_at a key tb + tb_rate tb * (b - a)"
  using assms
proof (induction rs arbitrary: a tb oks)
  case Nil
  then show ?case by (simp add: allowed_times_def)
next
  case (Cons r rs)
  obtain t k where r: "r = (t, k)" by fastforce
  let ?tb = "snd (tb_try_acquire t k tb)" and ?ok = "fst (tb_try_acquire t k tb)"
  obtain oks1 where q: "tb_limiter.requests rs ?tb = (oks1, tb')" "oks = ?ok # oks1"
    using Cons.prems(6) by (auto simp: r case_prod_unfold Let_def prod_eq_iff)
  have t: "a \<le> t" "t \<le> b" using Cons.prems(2) by (auto simp: r)
  have step: "tokens_at t key tb + tb_rate tb * (b - t) \<le> tokens_at a key tb + tb_rate tb * (b - a)"
    using tokens_at_mono [OF Cons.prems(4) t(1), of key] by (simp add: algebra_simps)
  have len: "length (allowed_times key (r # rs) oks) = (if k = key \<and> ?ok then 1 else 0) + length (allowed_times key rs oks1)"
    by (auto simp: allowed_times_def q(2) r)
  note pos = tb_acquire_nonneg [OF Cons.prems(4) t(1) Cons.prems(5), of k]
  have "of_nat (length (allowed_times key rs oks1)) \<le> tokens_at t key ?tb + tb_rate ?tb * (b - t)"
    using Cons.prems t q(1) pos by (intro Cons.IH) (auto simp: r)
  moreover obtain d :: nat where "length (allowed_times key (r # rs) oks) = d + length (allowed_times key rs oks1)"
    "tokens_at t key ?tb = tokens_at t key tb - of_nat d" by (rule that [OF len]) (auto simp: tb_acquire_key)
  ultimately show ?case using step by simp
qed

text \<open>C20: The token bucket keeps its rate. Whatever requests of whatever clients a limiter has served before, of the requests of
  one client that arrive between \<open>a\<close> and \<open>b\<close> it lets through at most burst + rate * (b - a).\<close>

theorem token_bucket_bound:
  assumes "sorted (map fst (before @ rs))" and "\<forall>r \<in> set before. fst r \<le> a" and "\<forall>r \<in> set rs. a \<le> fst r \<and> fst r \<le> b"
    and "a \<le> b" and "0 \<le> rate" and "0 \<le> burst"
    and "tb_limiter.requests before (token_bucket_init rate burst) = (oks0, tb)" and "tb_limiter.requests rs tb = (oks, tb')"
  shows "of_nat (length (allowed_times key rs oks)) \<le> of_int burst + rate * (b - a)"
proof -
  define first where "first = (if before = [] then a else fst (hd before))"
  have start: "tokens_at x key (token_bucket_init rate burst) = of_int burst" for x
    by (simp add: tokens_at_def token_bucket_init_def get_bucket_def refill_def)
  have f: "\<forall>r \<in> set before. first \<le> fst r \<and> fst r \<le> a" "first \<le> a"
    using assms(1,2) by (cases before; auto simp: first_def)+
  have frame: "tb_rate tb = rate" "tb_burst tb = burst"
    using tb_requests_frame [OF assms(7)] by (simp_all add: token_bucket_init_def)
  have "0 \<le> tokens_at a key tb"
    using assms(1,5,6) start f by (intro tb_requests_nonneg [OF _ f _ _ assms(7)]) (auto simp: token_bucket_init_def sorted_append)
  moreover have "tokens_at a key tb \<le> of_int burst" by (simp add: tokens_at_def refill_def frame)
  ultimately show ?thesis
    using token_bucket_potential [OF _ assms(3,4) _ _ assms(8), of key] assms(1,5) by (simp add: frame sorted_append)
qed

theorem token_bucket_bound_witness:
  "of_nat (length (allowed_times ''x'' [(9, ''x''), (9, ''y''), (9, ''x''), (10, ''x'')]
      (fst (tb_limiter.requests [(9, ''x''), (9, ''y''), (9, ''x''), (10, ''x'')]
        (snd (tb_limiter.requests [(1, ''x'')] (token_bucket_init 1 1))))))) \<le> of_int 1 + 1 * (10 - (9 :: rat))"
  by (rule token_bucket_bound [OF _ _ _ _ _ _ prod.collapse [symmetric] prod.collapse [symmetric]]) auto

section \<open>The sliding window\<close>

text \<open>The window of a key holds the admissions that are not older than the window.\<close>

definition window_inv :: "string \<Rightarrow> sliding_window \<Rightarrow> time list \<Rightarrow> time \<Rightarrow> bool" where
  "window_inv key sw ts now \<longleftrightarrow> sorted ts \<and> (\<forall>t \<in> set ts. t \<le> now) \<and>
     (\<exists>old. ts = old @ get_window key sw \<and> (\<forall>t \<in> set old. t < now - sw_window_seconds sw))"

lemma get_window_acquire:
  "get_window key (snd (sw_try_acquire now k sw)) =
     (if k = key then (let w = cleanup_window sw now (get_window key sw) in if fst (sw_try_acquire now k sw) then w @ [now] else w)
      else get_window key sw)"
  by (auto simp: sw_try_acquire_def Let_def get_window_def update_conv')

lemma sw_acquire_frame [simp]:
  "sw_max_requests (snd (sw_try_acquire now k sw)) = sw_max_requests sw"
  "sw_window_seconds (snd (sw_try_acquire now k sw)) = sw_window_seconds sw"
  by (simp_all add: sw_try_acquire_def Let_def)

lemma window_inv_acquire:
  assumes "window_inv key sw ts t0" and "t0 \<le> now"
  shows "window_inv key (snd (sw_try_acquire now k sw)) (if k = key \<and> fst (sw_try_acquire now k sw) then ts @ [now] else ts) now"
proof -
  let ?P = "\<lambda>t. t < now - sw_window_seconds sw"
  from assms(1) obtain old where o: "ts = old @ get_window key sw" "\<forall>t \<in> set old. t < t0 - sw_window_seconds sw"
    and s: "sorted ts" "\<forall>t \<in> set ts. t \<le> t0" by (auto simp: window_inv_def)
  have old: "\<forall>t \<in> set old. ?P t" using o(2) assms(2) by fastforce
  have cl: "ts = (old @ takeWhile ?P (get_window key sw)) @ cleanup_window sw now (get_window key sw)"
    by (simp add: o(1) cleanup_window_def)
  have le: "\<forall>t \<in> set ts. t \<le> now" using s(2) assms(2) by fastforce
  have tw: "\<forall>t \<in> set (old @ takeWhile ?P (get_window key sw)). ?P t" using old by (auto dest: set_takeWhileD)
  show ?thesis
  proof (cases "k = key")
    case True
    obtain pre where pre: "ts = pre @ cleanup_window sw now (get_window key sw)" "\<forall>t \<in> set pre. ?P t" using cl tw by blast
    have "sorted (ts @ [now])" using s(1) le by (simp add: sorted_append)
    with s(1) le pre True show ?thesis
      unfolding window_inv_def get_window_acquire sw_acquire_frame by (auto simp: Let_def intro!: exI [of _ pre])
  next
    case False
    with s le old o(1) show ?thesis unfolding window_inv_def get_window_acquire sw_acquire_frame by auto
  qed
qed

definition spaced :: "nat \<Rightarrow> time \<Rightarrow> time list \<Rightarrow> bool" where
  "spaced m w ts \<longleftrightarrow> (\<forall>i. i + m < length ts \<longrightarrow> ts ! i + w < ts ! (i + m))"

lemma spaced_snoc:
  assumes "spaced m w ts" and "m \<le> length ts \<Longrightarrow> ts ! (length ts - m) + w < t" and "0 < m"
  shows "spaced m w (ts @ [t])"
  unfolding spaced_def
proof (intro allI impI)
  fix i
  assume i: "i + m < length (ts @ [t])"
  show "(ts @ [t]) ! i + w < (ts @ [t]) ! (i + m)"
  proof (cases "i + m < length ts")
    case True
    with assms(1) show ?thesis by (simp add: spaced_def nth_append)
  next
    case False
    with i have "i = length ts - m" "m \<le> length ts" "i + m = length ts" by auto
    with assms(2,3) show ?thesis by (simp add: nth_append)
  qed
qed

lemma sw_allowed_spaced:
  assumes "sorted (map fst rs)" and "\<forall>r \<in> set rs. t0 \<le> fst r" and "window_inv key sw ts t0" and "spaced m (sw_window_seconds sw) ts"
    and "sw_max_requests sw = int m" and "0 < m" and "sw_limiter.requests rs sw = (oks, sw')"
  shows "spaced m (sw_window_seconds sw) (ts @ allowed_times key rs oks)"
  using assms
proof (induction rs arbitrary: t0 sw ts oks)
  case Nil
  then show ?case by (simp add: allowed_times_def)
next
  case (Cons r rs)
  obtain t k where r: "r = (t, k)" by fastforce
  let ?sw = "snd (sw_try_acquire t k sw)" and ?ok = "fst (sw_try_acquire t k sw)"
  let ?ts = "if k = key \<and> ?ok then ts @ [t] else ts"
  obtain oks1 where q: "sw_limiter.requests rs ?sw = (oks1, sw')" "oks = ?ok # oks1"
    using Cons.prems(7) by (auto simp: r case_prod_unfold Let_def prod_eq_iff)
  have t: "t0 \<le> t" using Cons.prems(2) by (simp add: r)
  have inv: "window_inv key ?sw ?ts t" by (rule window_inv_acquire [OF Cons.prems(3) t])
  have sp: "spaced m (sw_window_seconds sw) ?ts"
  proof (cases "k = key \<and> ?ok")
    case True
    from inv True obtain old where o: "ts @ [t] = old @ get_window key ?sw" "\<forall>x \<in> set old. x < t - sw_window_seconds sw"
      by (auto simp: window_inv_def)
    have "length (get_window key ?sw) \<le> m"
      using True Cons.prems(5) by (auto simp: get_window_acquire Let_def) (simp add: sw_try_acquire_def Let_def)
    moreover have "get_window key ?sw \<noteq> []" using True by (auto simp: get_window_acquire Let_def)
    ultimately have "length ts - m < length old" if "m \<le> length ts"
      using arg_cong [OF o(1), of length] that by auto
    then have "ts ! (length ts - m) + sw_window_seconds sw < t" if m: "m \<le> length ts"
    proof -
      have "length ts - m < length old" using m by fact
      then have "old ! (length ts - m) \<in> set old" "(ts @ [t]) ! (length ts - m) = old ! (length ts - m)"
        by (simp_all add: o(1) nth_append)
      moreover have "length ts - m < length ts" using m Cons.prems(6) by simp
      ultimately show ?thesis using o(2) by (auto simp: nth_append algebra_simps)
    qed
    with True Cons.prems(4,6) show ?thesis by (simp add: spaced_snoc)
  next
    case False
    show ?thesis unfolding if_not_P [OF False] by (rule Cons.prems(4))
  qed
  have "spaced m (sw_window_seconds ?sw) (?ts @ allowed_times key rs oks1)"
    using Cons.prems q(1) inv sp by (intro Cons.IH [of t]) (auto simp: r)
  moreover have "allowed_times key (r # rs) oks = (if k = key \<and> ?ok then [t] else []) @ allowed_times key rs oks1"
    by (auto simp: allowed_times_def q(2) r)
  ultimately show ?case by (auto split: if_splits)
qed

text \<open>C35: The sliding window keeps its limit. Of one client's requests, in order of time, any two admissions that
  are \<open>m\<close> apart (with \<open>m\<close> the allowed number of requests) are more than the window apart in time, so no
  window ever contains more than \<open>m\<close> admissions.\<close>

theorem sliding_window_bound:
  assumes "sorted (map fst rs)" and "0 < m" and "sw_limiter.requests rs (sliding_window_init (int m) w) = (oks, sw')"
  shows "spaced m w (allowed_times key rs oks)"
proof (cases rs)
  case Nil
  then show ?thesis by (simp add: allowed_times_def spaced_def)
next
  case (Cons r rs')
  have "\<forall>x \<in> set rs. fst r \<le> fst x" using assms(1) Cons by auto
  from sw_allowed_spaced [OF assms(1) this _ _ _ assms(2,3), of key "[]"] show ?thesis
    by (simp add: window_inv_def spaced_def sliding_window_init_def get_window_def)
qed

theorem sliding_window_bound_witness:
  "spaced 2 1 (allowed_times ''x'' [(1, ''x''), (1, ''x''), (1, ''y''), (2, ''x''), (3, ''x'')]
     (fst (sw_limiter.requests [(1, ''x''), (1, ''x''), (1, ''y''), (2, ''x''), (3, ''x'')] (sliding_window_init (int 2) 1))))"
  by (rule sliding_window_bound [OF _ _ prod.collapse [symmetric]]) auto

section \<open>Adaptation and backpressure\<close>

definition adaptive_ok :: "adaptive \<Rightarrow> bool" where
  "adaptive_ok ad \<longleftrightarrow> 0 \<le> ad_min_rate ad \<and> ad_min_rate ad \<le> ad_current_rate ad \<and> ad_current_rate ad \<le> ad_max_rate ad \<and>
     tb_rate (ad_limiter ad) = ad_current_rate ad \<and> tb_burst (ad_limiter ad) = py_trunc (ad_current_rate ad) \<and>
     length (ad_recent_latencies ad) \<le> 100"

lemma adaptive_ok_init:
  "0 \<le> mn \<Longrightarrow> mn \<le> r \<Longrightarrow> r \<le> mx \<Longrightarrow> adaptive_ok (adaptive_init r mn mx interval now)"
  by (simp add: adaptive_ok_def adaptive_init_def token_bucket_init_def)

lemma adaptive_ok_rate:
  "adaptive_ok ad \<Longrightarrow> ad_min_rate ad \<le> r \<Longrightarrow> r \<le> ad_max_rate ad \<Longrightarrow> adaptive_ok (update_rate r ad)"
  by (simp add: adaptive_ok_def update_rate_def token_bucket_init_def)

lemma adaptive_ok_adjust:
  assumes "adaptive_ok ad"
  shows "adaptive_ok (maybe_adjust_rate now ad)"
proof -
  let ?ad = "ad\<lparr>ad_last_adjustment := now\<rparr>"
  have ok: "adaptive_ok ?ad" using assms by (simp add: adaptive_ok_def)
  have "adaptive_ok (update_rate (max (ad_min_rate ad) (ad_current_rate ad * 8 / 10)) ?ad)"
    "adaptive_ok (update_rate (min (ad_max_rate ad) (ad_current_rate ad * 11 / 10)) ?ad)"
    using assms by (auto intro!: adaptive_ok_rate [OF ok], auto simp: adaptive_ok_def)
  then show ?thesis using assms ok by (simp add: maybe_adjust_rate_def Let_def)
qed

lemma adaptive_ok_acquire: "adaptive_ok ad \<Longrightarrow> adaptive_ok (snd (ad_try_acquire now key ad))"
  using adaptive_ok_adjust [of ad now] by (simp add: ad_try_acquire_def case_prod_unfold Let_def adaptive_ok_def)

lemma adaptive_ok_latency: "adaptive_ok ad \<Longrightarrow> adaptive_ok (record_latency l ad)"
  by (simp add: adaptive_ok_def record_latency_def Let_def)

lemma adaptive_ok_backpressure:
  assumes "adaptive_ok ad" and "0 \<le> f" and "f \<le> 1"
  shows "adaptive_ok (apply_backpressure f ad)"
proof -
  have "ad_current_rate ad * f \<le> ad_current_rate ad" using assms by (intro mult_left_le) (auto simp: adaptive_ok_def)
  then show ?thesis
    using assms(1) unfolding apply_backpressure_def by (intro adaptive_ok_rate) (auto simp: adaptive_ok_def)
qed

definition backpressure_ok :: "backpressure \<Rightarrow> bool" where
  "backpressure_ok bp \<longleftrightarrow> 0 \<le> bp_level bp \<and> bp_level bp \<le> 1 \<and> (\<forall>ad. bp_limiter bp = Adaptive ad \<longrightarrow> adaptive_ok ad)"

lemma depth_level_range: "0 \<le> depth_level d \<and> depth_level d \<le> 1"
  by (auto simp: depth_level_def field_simps)

datatype bp_op = BpDepth string int | BpRequest rat time string | BpLatency time

fun bp_exec :: "bp_op \<Rightarrow> backpressure \<Rightarrow> backpressure" where
  "bp_exec (BpDepth q d) bp = update_queue_depth q d bp"
| "bp_exec (BpRequest random now key) bp = snd (should_accept_request random now key bp)"
| "bp_exec (BpLatency l) bp =
     (case bp_limiter bp of Adaptive ad \<Rightarrow> bp\<lparr>bp_limiter := Adaptive (record_latency l ad)\<rparr> | _ \<Rightarrow> bp)"

lemma backpressure_ok_exec: "backpressure_ok bp \<Longrightarrow> backpressure_ok (bp_exec opr bp)"
proof (induction opr)
  case (BpDepth q d)
  have r: "adaptive_ok ad \<Longrightarrow> adaptive_ok (apply_backpressure (1 - depth_level m / 2) ad)" for ad m
    using depth_level_range [of m] by (intro adaptive_ok_backpressure) auto
  show ?case
    using BpDepth depth_level_range
    by (auto simp: backpressure_ok_def update_queue_depth_def calculate_backpressure_def Let_def r split: limiter.splits if_splits)
next
  case (BpRequest random now key)
  then show ?case
    by (cases "bp_limiter bp") (auto simp: backpressure_ok_def should_accept_request_def case_prod_unfold Let_def adaptive_ok_acquire)
next
  case (BpLatency l)
  then show ?case by (auto simp: backpressure_ok_def adaptive_ok_latency split: limiter.splits)
qed

text \<open>C36: Adaptation stays within its bounds. Whatever queue depths are reported, requests made and
  latencies recorded, the backpressure level stays between 0 and 1, and an adaptive limiter started
  within its bounds keeps its rate between the minimum and the maximum, with a bucket of exactly that
  rate and burst.\<close>

theorem backpressure_bounds:
  assumes "0 \<le> mn" and "mn \<le> r" and "r \<le> mx"
  shows "backpressure_ok (fold bp_exec ops (backpressure_init (Some (Adaptive (adaptive_init r mn mx interval now)))))"
proof -
  have "backpressure_ok bp \<Longrightarrow> backpressure_ok (fold bp_exec ops bp)" for bp
    by (induction ops arbitrary: bp) (simp_all add: backpressure_ok_exec)
  moreover have "backpressure_ok (backpressure_init (Some (Adaptive (adaptive_init r mn mx interval now))))"
    using assms adaptive_ok_init by (simp add: backpressure_ok_def backpressure_init_def)
  ultimately show ?thesis by blast
qed

theorem backpressure_bounds_witness:
  "backpressure_ok (fold bp_exec [BpDepth ''q'' 5000, BpRequest 1 2 ''x'', BpLatency 1, BpRequest 1 4 ''x'']
     (backpressure_init (Some (Adaptive (adaptive_init 100 10 1000 1 0)))))"
  by (rule backpressure_bounds) simp_all

fun report_and_request :: "nat \<Rightarrow> time \<Rightarrow> string \<Rightarrow> backpressure \<Rightarrow> bool list" where
  "report_and_request 0 now key bp = []"
| "report_and_request (Suc n) now key bp =
     (let (ok, bp') = should_accept_request (1 / 2) now key (update_queue_depth ''q'' 1000 bp)
      in ok # report_and_request n now key bp')"

text \<open>Backpressure hands out new tokens. Changing the rate replaces the limiter by a fresh one with a full
  bucket for every client, so under the heaviest backpressure a client whose requests alternate with
  queue reports has all of them admitted at one instant, however many (the random draws aside).\<close>

theorem backpressure_refills_buckets:
  assumes "bp_limiter bp = Adaptive ad" and "bp_queue_depths bp = []" and "1 \<le> ad_min_rate ad" and "ad_recent_latencies ad = []"
  shows "report_and_request n now key bp = replicate n True"
proof -
  have "report_and_request n now key bp = replicate n True"
    if "bp_limiter bp = Adaptive ad" "bp_queue_depths bp = [] \<or> bp_queue_depths bp = [(''q'', 1000)]" "1 \<le> ad_min_rate ad"
      "ad_recent_latencies ad = []" for bp ad
    using that
  proof (induction n arbitrary: bp ad)
    case (Suc n)
    let ?ad = "apply_backpressure (1 - 1 * (1 / 2)) ad"
    let ?bp = "update_queue_depth ''q'' 1000 bp"
    have bp: "?bp = bp\<lparr>bp_queue_depths := [(''q'', 1000)], bp_level := 1, bp_limiter := Adaptive ?ad\<rparr>"
      using Suc.prems(1,2) by (auto simp: update_queue_depth_def calculate_backpressure_def depth_level_def Let_def)
    have keep: "ad_limiter (maybe_adjust_rate now ?ad) = ad_limiter ?ad" "ad_recent_latencies (maybe_adjust_rate now ?ad) = []"
      "ad_min_rate (maybe_adjust_rate now ?ad) = ad_min_rate ad"
      using Suc.prems(4) by (simp_all add: maybe_adjust_rate_def apply_backpressure_def update_rate_def Let_def)
    have "1 \<le> py_trunc (max (ad_min_rate ad) (ad_current_rate ad * (1 / 2)))"
      using Suc.prems(3) by (auto simp: py_trunc_def le_floor_iff)
    then have one: "1 \<le> tokens_at now key (ad_limiter ?ad)"
      by (simp add: tokens_at_def get_bucket_def refill_def apply_backpressure_def update_rate_def token_bucket_init_def)
    obtain ok ad' where a: "ad_try_acquire now key ?ad = (ok, ad')" by fastforce
    then have ad': "ok" "ad_min_rate ad' = ad_min_rate ad" "ad_recent_latencies ad' = []"
      using one keep tb_acquire_tokens(1) [of now key "ad_limiter ?ad"] by (auto simp: ad_try_acquire_def case_prod_unfold Let_def)
    have "should_accept_request (1 / 2) now key ?bp = (True, ?bp\<lparr>bp_limiter := Adaptive ad'\<rparr>)"
      using a ad'(1) by (simp add: should_accept_request_def bp)
    moreover have "report_and_request n now key (?bp\<lparr>bp_limiter := Adaptive ad'\<rparr>) = replicate n True"
      using ad' Suc.prems(3) by (intro Suc.IH [of _ ad']) (simp_all add: bp)
    ultimately show ?case by simp
  qed simp
  with assms show ?thesis by blast
qed

theorem backpressure_refills_buckets_witness:
  "report_and_request 500 3 ''x'' (backpressure_init (Some (Adaptive (adaptive_init 100 10 1000 1 0)))) = replicate 500 True"
  by (rule backpressure_refills_buckets [where ad = "adaptive_init 100 10 1000 1 0"])
    (simp_all add: backpressure_init_def adaptive_init_def)

end
