(* ===== verification/VersionVector.thy ===== *)
theory VersionVector
  imports Log
begin

text \<open>
  Version vectors (\<^verbatim>\<open>src/minidb/repair/version_vector.py\<close>): the vector with its four methods, the
  versioned value and its dictionary form.

  \<^item> The set of nodes \<open>compare\<close> iterates over is a list without duplicates; the result does not depend on
    its order (\<open>compare_flags\<close>).
  \<^item> What the vectors are for is the theorem at the end: replicas that count their own events and merge
    what they receive have vectors that compare exactly as their causal histories do.
\<close>

section \<open>Definitions\<close>

type_synonym version_vector = "(node_id, int) dict"

datatype vv_order = Before | After | Concurrent | Equal

definition vv_get :: "version_vector \<Rightarrow> node_id \<Rightarrow> int" where
  "vv_get v n = (case dget v n of Some i \<Rightarrow> i | None \<Rightarrow> 0)"

definition vv_increment :: "node_id \<Rightarrow> version_vector \<Rightarrow> version_vector" where
  "vv_increment n v = dset n (vv_get v n + 1) v"

definition vv_merge :: "version_vector \<Rightarrow> version_vector \<Rightarrow> version_vector" where
  "vv_merge v other = fold (\<lambda>(n, i) result. dset n (max (vv_get result n) i) result) other v"

fun compare_loop :: "version_vector \<Rightarrow> version_vector \<Rightarrow> node_id list \<Rightarrow> bool \<times> bool \<Rightarrow> bool \<times> bool" where
  "compare_loop v w [] flags = flags"
| "compare_loop v w (n # ns) (self_newer, other_newer) =
     compare_loop v w ns
       (if vv_get v n > vv_get w n then (True, other_newer)
        else if vv_get w n > vv_get v n then (self_newer, True)
        else (self_newer, other_newer))"

definition vv_compare :: "version_vector \<Rightarrow> version_vector \<Rightarrow> vv_order" where
  "vv_compare v w =
     (case compare_loop v w (remdups (dkeys v @ dkeys w)) (False, False) of
        (True, True) \<Rightarrow> Concurrent
      | (True, False) \<Rightarrow> After
      | (False, True) \<Rightarrow> Before
      | (False, False) \<Rightarrow> Equal)"

record versioned_value =
  vl_value :: json
  vl_version :: version_vector
  vl_timestamp :: time

definition vv_to_dict :: "version_vector \<Rightarrow> (string, json) dict" where
  "vv_to_dict v = map (\<lambda>(n, i). (n, JInt i)) v"

fun vv_from_dict :: "(string, json) dict \<Rightarrow> version_vector res" where
  "vv_from_dict [] = Inr []"
| "vv_from_dict ((n, j) # d) =
     bind_res (as_int j) (\<lambda>i. bind_res (vv_from_dict d) (\<lambda>v. Inr ((n, i) # v)))"

definition versioned_to_dict :: "versioned_value \<Rightarrow> (string, json) dict" where
  "versioned_to_dict x =
     [(''value'', vl_value x), (''version'', JDict (vv_to_dict (vl_version x))), (''timestamp'', JFloat (vl_timestamp x))]"

definition versioned_from_dict :: "(string, json) dict \<Rightarrow> versioned_value res" where
  "versioned_from_dict d =
     bind_res (dict_item d ''value'') (\<lambda>value.
     bind_res (dict_item d ''version'') (\<lambda>version.
     bind_res (case version of JDict kvs \<Rightarrow> vv_from_dict kvs | _ \<Rightarrow> Inl TypeError) (\<lambda>v.
     bind_res (as_time (dict_get d ''timestamp'' (JFloat 0))) (\<lambda>t.
     Inr \<lparr>vl_value = value, vl_version = v, vl_timestamp = t\<rparr>))))"

section \<open>Merge and comparison\<close>

lemma vv_get_increment [simp]: "vv_get (vv_increment n v) m = (if m = n then vv_get v n + 1 else vv_get v m)"
  by (simp add: vv_get_def vv_increment_def update_conv')

lemma vv_get_upd [simp]: "vv_get (dset n i v) m = (if m = n then i else vv_get v m)"
  by (simp add: vv_get_def update_conv')

definition vv_nonneg :: "version_vector \<Rightarrow> bool" where
  "vv_nonneg v \<longleftrightarrow> dwf v \<and> (\<forall>(n, i) \<in> set v. 0 \<le> i)"

lemma vv_get_nonneg: "vv_nonneg v \<Longrightarrow> 0 \<le> vv_get v n"
  by (auto simp: vv_nonneg_def vv_get_def split: option.splits dest!: map_of_SomeD)

lemma vv_nonneg_upd: "vv_nonneg v \<Longrightarrow> 0 \<le> i \<Longrightarrow> vv_nonneg (dset n i v)"
  unfolding vv_nonneg_def by (simp add: distinct_update) (induction v, auto split: if_splits)

lemma vv_nonneg_increment: "vv_nonneg v \<Longrightarrow> vv_nonneg (vv_increment n v)"
  unfolding vv_increment_def using vv_get_nonneg [of v n] by (intro vv_nonneg_upd) auto

lemma vv_get_outside: "n \<notin> set (dkeys v) \<Longrightarrow> vv_get v n = 0"
  using map_of_eq_None_iff [of v n] by (simp add: vv_get_def)

lemma vv_merge_core:
  "dwf w \<Longrightarrow> vv_nonneg v \<Longrightarrow>
     vv_nonneg (vv_merge v w) \<and>
     vv_get (vv_merge v w) n = (if n \<in> set (dkeys w) then max (vv_get v n) (vv_get w n) else vv_get v n)"
  unfolding vv_merge_def
proof (induction w arbitrary: v)
  case (Cons p w)
  obtain m i where p: "p = (m, i)" by fastforce
  have "vv_nonneg (dset m (max (vv_get v m) i) v)"
    using Cons.prems vv_get_nonneg [of v m] by (intro vv_nonneg_upd) auto
  moreover have "vv_get (p # w) n = (if n = m then i else vv_get w n)" by (simp add: p vv_get_def)
  ultimately show ?case using Cons.IH [of "dset m (max (vv_get v m) i) v"] Cons.prems by (auto simp: p)
qed simp

lemma vv_get_merge [simp]:
  assumes "vv_nonneg v" and "vv_nonneg w"
  shows "vv_get (vv_merge v w) n = max (vv_get v n) (vv_get w n)"
proof -
  have "dwf w" using assms(2) by (simp add: vv_nonneg_def)
  from vv_merge_core [OF this assms(1), of n] vv_get_outside [of n w] vv_get_nonneg [OF assms(1), of n]
  show ?thesis by (auto split: if_splits)
qed

lemma vv_nonneg_merge: "vv_nonneg v \<Longrightarrow> vv_nonneg w \<Longrightarrow> vv_nonneg (vv_merge v w)"
  using vv_merge_core [of w v] unfolding vv_nonneg_def by blast

lemma compare_flags:
  "compare_loop v w ns (a, b) =
     (a \<or> (\<exists>n \<in> set ns. vv_get v n > vv_get w n), b \<or> (\<exists>n \<in> set ns. vv_get w n > vv_get v n))"
  by (induction ns arbitrary: a b) auto

text \<open>Comparison is the pointwise order.\<close>

definition vv_le :: "version_vector \<Rightarrow> version_vector \<Rightarrow> bool" where
  "vv_le v w \<longleftrightarrow> (\<forall>n. vv_get v n \<le> vv_get w n)"

lemma vv_compare_pointwise:
  "vv_compare v w =
     (if vv_le v w then if vv_le w v then Equal else Before else if vv_le w v then After else Concurrent)"
proof -
  let ?ns = "remdups (dkeys v @ dkeys w)"
  have "(\<exists>n \<in> set ?ns. vv_get a n > vv_get b n) \<longleftrightarrow> \<not> vv_le a b"
    if "(a, b) = (v, w) \<or> (a, b) = (w, v)" for a b
  proof -
    have "vv_get a n \<le> vv_get b n" if "n \<notin> set ?ns" for n
      using that \<open>(a, b) = (v, w) \<or> (a, b) = (w, v)\<close> by (auto simp: vv_get_outside)
    then show ?thesis unfolding vv_le_def by (metis leD not_le_imp_less)
  qed
  from this [of v w] this [of w v] show ?thesis
    by (auto simp: vv_compare_def compare_flags split: prod.splits bool.splits)
qed

section \<open>Causality\<close>

text \<open>Replicas that use the vectors: a write at node \<open>n\<close> is a new event and increments its own entry, a
  replica may send its current vector, and merges vectors it receives, at any later time and any number of
  times. Next to each vector stands its causal history, the set of events it has seen.\<close>

type_synonym stamp = "version_vector \<times> nat set"

record causal =
  cs_at :: "node_id \<Rightarrow> stamp"
  cs_sent :: "stamp set"
  cs_next :: nat

definition causal_init :: causal where
  "causal_init = \<lparr>cs_at = (\<lambda>n. ([], {})), cs_sent = {}, cs_next = 0\<rparr>"

definition local_event :: "node_id \<Rightarrow> nat \<Rightarrow> stamp \<Rightarrow> stamp" where
  "local_event n e s = (vv_increment n (fst s), insert e (snd s))"

definition receive_stamp :: "stamp \<Rightarrow> stamp \<Rightarrow> stamp" where
  "receive_stamp m s = (vv_merge (fst s) (fst m), snd s \<union> snd m)"

inductive causal_step :: "causal \<Rightarrow> causal \<Rightarrow> bool" where
  event: "causal_step s (s\<lparr>cs_at := (cs_at s)(n := local_event n (cs_next s) (cs_at s n)), cs_next := Suc (cs_next s)\<rparr>)"
| send: "causal_step s (s\<lparr>cs_sent := insert (cs_at s n) (cs_sent s)\<rparr>)"
| receive: "m \<in> cs_sent s \<Longrightarrow> causal_step s (s\<lparr>cs_at := (cs_at s)(n := receive_stamp m (cs_at s n))\<rparr>)"

definition stamps :: "causal \<Rightarrow> stamp set" where
  "stamps s = range (cs_at s) \<union> cs_sent s"

text \<open>The invariant: with the events of every node listed in order, a vector entry counts how many of them
  are in the history.\<close>

definition counts :: "(node_id \<Rightarrow> nat list) \<Rightarrow> stamp \<Rightarrow> bool" where
  "counts L s \<longleftrightarrow> vv_nonneg (fst s) \<and> (\<forall>m. vv_get (fst s) m \<le> int (length (L m))) \<and>
     snd s = (\<Union>m. set (take (nat (vv_get (fst s) m)) (L m)))"

definition separate :: "(node_id \<Rightarrow> nat list) \<Rightarrow> nat \<Rightarrow> bool" where
  "separate L k \<longleftrightarrow> (\<forall>m. distinct (L m) \<and> (\<forall>e \<in> set (L m). e < k)) \<and> (\<forall>m m' e. e \<in> set (L m) \<longrightarrow> e \<in> set (L m') \<longrightarrow> m = m')"

definition causal_inv :: "(node_id \<Rightarrow> nat list) \<Rightarrow> causal \<Rightarrow> bool" where
  "causal_inv L s \<longleftrightarrow> separate L (cs_next s) \<and> (\<forall>x \<in> stamps s. counts L x) \<and>
     (\<forall>n. vv_get (fst (cs_at s n)) n = int (length (L n)))"

lemma stamps_step:
  "cs_at s n \<in> stamps s" "x \<in> cs_sent s \<Longrightarrow> x \<in> stamps s"
  by (auto simp: stamps_def)

lemma counts_extend:
  assumes "counts L x" shows "counts (L(n := L n @ [e])) x"
proof -
  have "nat (vv_get (fst x) m) \<le> length (L m)" for m using assms by (simp add: counts_def nat_le_iff)
  then have "take (nat (vv_get (fst x) m)) ((L(n := L n @ [e])) m) = take (nat (vv_get (fst x) m)) (L m)" for m by simp
  with assms show ?thesis unfolding counts_def by (auto simp: le_diff_eq intro: order_trans)
qed

lemma counts_event:
  assumes "counts L x" and "vv_get (fst x) n = int (length (L n))"
  shows "counts (L(n := L n @ [e])) (local_event n e x)"
proof -
  have "nat (vv_get (fst x) m) \<le> length (L m)" for m using assms(1) by (simp add: counts_def nat_le_iff)
  then have "set (take (nat (vv_get (vv_increment n (fst x)) m)) ((L(n := L n @ [e])) m)) =
      set (take (nat (vv_get (fst x) m)) (L m)) \<union> (if m = n then {e} else {})" for m
    using assms(2) by (simp add: nat_add_distrib)
  then have "(\<Union>m. set (take (nat (vv_get (vv_increment n (fst x)) m)) ((L(n := L n @ [e])) m))) = insert e (snd x)"
    using assms(1) by (auto simp: counts_def split: if_splits)
  then show ?thesis
    using assms by (auto simp: counts_def local_event_def vv_nonneg_increment)
qed

lemma counts_receive:
  assumes "counts L x" and "counts L y"
  shows "counts L (receive_stamp y x)"
proof -
  have "set (take (nat (max i j)) (L m)) = set (take (nat i) (L m)) \<union> set (take (nat j) (L m))" for i j m
  proof (cases "i \<le> j")
    case True
    then have "set (take (nat i) (L m)) \<subseteq> set (take (nat j) (L m))" by (intro set_take_subset_set_take nat_mono)
    with True show ?thesis by (simp add: max_absorb2 Un_absorb1)
  next
    case False
    then have "set (take (nat j) (L m)) \<subseteq> set (take (nat i) (L m))" by (intro set_take_subset_set_take nat_mono) simp
    with False show ?thesis by (simp add: max_absorb1 Un_absorb2)
  qed
  with assms show ?thesis by (auto simp: counts_def receive_stamp_def vv_nonneg_merge)
qed

lemma causal_inv_step:
  assumes "causal_inv L s" and "causal_step s t"
  shows "\<exists>L'. causal_inv L' t"
  using assms(2)
proof cases
  case (event n)
  let ?L = "L(n := L n @ [cs_next s])"
  have "separate ?L (Suc (cs_next s))"
    using assms(1) by (auto simp: causal_inv_def separate_def less_Suc_eq) 
  moreover have "counts ?L x" if "x \<in> stamps t" for x
  proof -
    have old: "\<forall>x \<in> stamps s. counts ?L x" using assms(1) counts_extend unfolding causal_inv_def by blast
    have own: "counts ?L (local_event n (cs_next s) (cs_at s n))"
      using assms(1) stamps_step(1) [of s n] unfolding causal_inv_def by (intro counts_event) auto
    from that consider "x = local_event n (cs_next s) (cs_at s n)" | "x \<in> stamps s"
      unfolding event stamps_def by (auto split: if_splits)
    then show ?thesis using old own by cases auto
  qed
  moreover have "vv_get (fst (cs_at t m)) m = int (length (?L m))" for m
    using assms(1) by (simp add: event causal_inv_def local_event_def)
  ultimately have "causal_inv ?L t" by (simp add: causal_inv_def event)
  then show ?thesis by blast
next
  case (send n)
  then have "causal_inv L t" using assms(1) by (auto simp: causal_inv_def stamps_def)
  then show ?thesis by blast
next
  case (receive m n)
  have c: "counts L (cs_at s n)" "counts L m" using assms(1) receive stamps_step by (auto simp: causal_inv_def)
  then have "vv_get (fst (receive_stamp m (cs_at s n))) n = int (length (L n))"
    using assms(1) by (simp add: causal_inv_def receive_stamp_def counts_def)
  then have "causal_inv L t" using assms(1) counts_receive [OF c] unfolding receive causal_inv_def stamps_def by auto
  then show ?thesis by blast
qed

lemma history_iff:
  assumes "counts L x" and "counts L y" and "separate L k"
  shows "vv_le (fst x) (fst y) \<longleftrightarrow> snd x \<subseteq> snd y"
proof
  assume "vv_le (fst x) (fst y)"
  then have "set (take (nat (vv_get (fst x) m)) (L m)) \<subseteq> set (take (nat (vv_get (fst y) m)) (L m))" for m
    by (intro set_take_subset_set_take nat_mono) (simp add: vv_le_def)
  then have "(\<Union>m. set (take (nat (vv_get (fst x) m)) (L m))) \<subseteq> (\<Union>m. set (take (nat (vv_get (fst y) m)) (L m)))" by blast
  with assms show "snd x \<subseteq> snd y" by (simp add: counts_def)
next
  assume sub: "snd x \<subseteq> snd y"
  show "vv_le (fst x) (fst y)" unfolding vv_le_def
  proof (intro allI, rule ccontr)
    fix m assume lt: "\<not> vv_get (fst x) m \<le> vv_get (fst y) m"
    let ?k = "nat (vv_get (fst y) m)"
    have y: "0 \<le> vv_get (fst y) m" using assms(2) by (simp add: counts_def vv_get_nonneg)
    with lt have k: "?k < nat (vv_get (fst x) m)" "?k < length (L m)"
    proof -
      have "vv_get (fst x) m \<le> int (length (L m))" using assms(1) by (simp add: counts_def)
      then show "?k < nat (vv_get (fst x) m)" "?k < length (L m)" using lt y by linarith+
    qed
    then have "L m ! ?k \<in> set (take (nat (vv_get (fst x) m)) (L m))"
      using nth_mem [of ?k "take (nat (vv_get (fst x) m)) (L m)"] by simp
    then have e: "L m ! ?k \<in> snd x" "L m ! ?k \<in> set (L m)"
      using assms(1) k by (auto simp: counts_def)
    then obtain m' where m': "L m ! ?k \<in> set (take (nat (vv_get (fst y) m')) (L m'))"
      using sub assms(2) by (auto simp: counts_def)
    then have "L m ! ?k \<in> set (L m')" by (rule in_set_takeD)
    then have "m' = m" using e(2) assms(3) unfolding separate_def by metis
    with m' obtain j where "j < ?k" "L m ! j = L m ! ?k" "j < length (L m)" by (auto simp: in_set_conv_nth)
    moreover have "distinct (L m)" using assms(3) by (simp add: separate_def)
    ultimately show False using k(2) nth_eq_iff_index_eq [of "L m" j ?k] by simp
  qed
qed

lemma causal_inv_reachable:
  assumes "causal_step\<^sup>*\<^sup>* causal_init s" shows "\<exists>L. causal_inv L s"
  using assms
proof induction
  case base
  have "causal_inv (\<lambda>n. []) causal_init"
    by (auto simp: causal_inv_def causal_init_def separate_def stamps_def counts_def vv_nonneg_def vv_get_def)
  then show ?case by blast
qed (use causal_inv_step in blast)

text \<open>C26: Version vectors track causality exactly. However the replicas write, send and receive, comparing two
  vectors in use answers "before" exactly when the first history is a proper part of the second, "equal" when
  they have seen the same events, and "concurrent" when each has seen an event the other has not.\<close>

theorem version_vectors_track_causality:
  assumes "causal_step\<^sup>*\<^sup>* causal_init s" and "(v, h) \<in> stamps s" and "(w, g) \<in> stamps s"
  shows "vv_compare v w = (if h = g then Equal else if h \<subset> g then Before else if g \<subset> h then After else Concurrent)"
proof -
  obtain L where L: "causal_inv L s" using causal_inv_reachable [OF assms(1)] by blast
  then have "separate L (cs_next s)" "counts L (v, h)" "counts L (w, g)" using assms by (auto simp: causal_inv_def)
  with history_iff [of L "(v, h)" "(w, g)"] history_iff [of L "(w, g)" "(v, h)"] show ?thesis
    by (auto simp: vv_compare_pointwise)
qed

theorem version_vectors_track_causality_witness:
  "vv_compare [(''a'', 1)] [(''b'', 1)] = Concurrent"
proof -
  define s1 where "s1 = causal_init\<lparr>cs_at := (cs_at causal_init)(''a'' := local_event ''a'' (cs_next causal_init) (cs_at causal_init ''a'')), cs_next := Suc (cs_next causal_init)\<rparr>"
  define s2 where "s2 = s1\<lparr>cs_at := (cs_at s1)(''b'' := local_event ''b'' (cs_next s1) (cs_at s1 ''b'')), cs_next := Suc (cs_next s1)\<rparr>"
  have r: "causal_step\<^sup>*\<^sup>* causal_init s2"
    using causal_step.event [of causal_init "''a''"] causal_step.event [of s1 "''b''"]
    unfolding s2_def [symmetric] s1_def [symmetric] by (meson rtranclp.simps)
  have "cs_at s2 ''a'' = ([(''a'', 1)], {0})" "cs_at s2 ''b'' = ([(''b'', 1)], {1})"
    by (simp_all add: s2_def s1_def causal_init_def local_event_def vv_increment_def vv_get_def)
  then have "([(''a'', 1)], {0}) \<in> stamps s2" "([(''b'', 1)], {1}) \<in> stamps s2" using stamps_step(1) by metis+
  from version_vectors_track_causality [OF r this] show ?thesis by (auto simp: psubset_eq)
qed

section \<open>Serialisation\<close>

lemma vv_from_to_dict: "vv_from_dict (vv_to_dict v) = Inr v"
  unfolding vv_to_dict_def by (induction v) (auto simp: as_int_def bind_res_def)

lemma versioned_roundtrip: "versioned_from_dict (versioned_to_dict x) = Inr x"
  by (simp add: versioned_from_dict_def versioned_to_dict_def dict_item_def dict_get_def bind_res_def as_time_def vv_from_to_dict)

end
