(* ===== verification/Merkle.thy ===== *)
theory Merkle
  imports Log
begin

text \<open>
  Merkle trees (\<^verbatim>\<open>src/minidb/repair/merkle.py\<close>): hashing of entries, buckets and inner nodes, the
  bottom-up construction, the comparison of two trees, ranges and the transmitted form.

  \<^item> The truncated SHA-256 digest is a parameter \<open>h\<close>. What the theorems use of it is its format (sixteen
    characters, none of them a colon) and that it does not collide on the texts that are actually hashed.
  \<^item> The text of a value in an f-string is \<open>py_str\<close>.
\<close>

section \<open>Text of values\<close>

fun py_str :: "float_codec \<Rightarrow> json \<Rightarrow> string" where
  "py_str fc (JStr s) = s"
| "py_str fc j = py_repr fc j"

section \<open>The tree\<close>

datatype merkle_node =
  MerkleNode (hash_value: string) (mn_left: "merkle_node option") (mn_right: "merkle_node option")
    (key_range: "string \<times> string") (is_leaf: bool) (mn_keys: "string list")

record merkle_tree =
  mt_bucket_size :: int
  mt_root :: "merkle_node option"
  mt_key_hashes :: "(string, string) dict"

definition merkle_init :: "int \<Rightarrow> merkle_tree" where
  "merkle_init bucket_size = \<lparr>mt_bucket_size = bucket_size, mt_root = None, mt_key_hashes = []\<rparr>"

definition combine_hashes :: "(string \<Rightarrow> string) \<Rightarrow> string \<Rightarrow> string \<Rightarrow> string" where
  "combine_hashes h l r = h (l @ r)"

definition entry_text :: "float_codec \<Rightarrow> string \<Rightarrow> json \<times> int \<Rightarrow> string" where
  "entry_text fc key vv = key @ '':'' @ py_str fc (fst vv) @ '':'' @ str_int (snd vv)"

text \<open>Slices of the sorted keys are the buckets; \<^verbatim>\<open>range(0, n, size)\<close> raises for a size of zero and is
  empty for a negative one.\<close>

function chunks :: "nat \<Rightarrow> 'a list \<Rightarrow> 'a list list" where
  "chunks n xs = (if n = 0 \<or> xs = [] then [] else take n xs # chunks n (drop n xs))"
  by pat_completeness auto
termination by (relation "measure (\<lambda>(n, xs). length xs)") auto

declare chunks.simps [simp del]

definition make_leaf :: "(string \<Rightarrow> string) \<Rightarrow> (string, string) dict \<Rightarrow> string list \<Rightarrow> merkle_node" where
  "make_leaf h key_hashes bucket =
     MerkleNode (h (concat (map (\<lambda>k. the (dget key_hashes k)) bucket))) None None (hd bucket, last bucket) True bucket"

definition make_parent :: "(string \<Rightarrow> string) \<Rightarrow> merkle_node \<Rightarrow> merkle_node \<Rightarrow> merkle_node" where
  "make_parent h l r =
     MerkleNode (combine_hashes h (hash_value l) (hash_value r)) (Some l) (Some r)
       (fst (key_range l), snd (key_range r)) False []"

fun pair_up :: "(string \<Rightarrow> string) \<Rightarrow> merkle_node list \<Rightarrow> merkle_node list" where
  "pair_up h (l # r # ns) = make_parent h l r # pair_up h ns"
| "pair_up h ns = ns"

lemma length_pair_up [simp]: "length (pair_up h ns) = (length ns + 1) div 2"
  by (induction h ns rule: pair_up.induct) auto

function build_tree :: "(string \<Rightarrow> string) \<Rightarrow> merkle_node list \<Rightarrow> merkle_node option" where
  "build_tree h [] = None"
| "build_tree h [n] = Some n"
| "build_tree h (a # b # ns) = build_tree h (pair_up h (a # b # ns))"
  by pat_completeness auto
termination by (relation "measure (\<lambda>(h, ns). length ns)") auto

definition merkle_build ::
  "(string \<Rightarrow> string) \<Rightarrow> float_codec \<Rightarrow> merkle_tree \<Rightarrow> (string, json \<times> int) dict \<Rightarrow> py_error option \<times> merkle_tree" where
  "merkle_build h fc mt kvs =
     (let key_hashes = map (\<lambda>(k, vv). (k, h (entry_text fc k vv))) kvs; mt1 = mt\<lparr>mt_key_hashes := key_hashes\<rparr>
      in if key_hashes = [] then (None, mt1\<lparr>mt_root := None\<rparr>)
         else if mt_bucket_size mt = 0 then (Some ValueError, mt1)
         else (None, mt1\<lparr>mt_root := build_tree h (map (make_leaf h key_hashes)
                 (chunks (nat (mt_bucket_size mt)) (sort (dkeys key_hashes))))\<rparr>))"

definition get_root_hash :: "merkle_tree \<Rightarrow> string option" where
  "get_root_hash mt = map_option hash_value (mt_root mt)"

fun compare_nodes :: "merkle_node \<Rightarrow> merkle_node \<Rightarrow> (string \<times> string) list" where
  "compare_nodes (MerkleNode h1 l1 r1 g1 f1 ks1) (MerkleNode h2 l2 r2 g2 f2 ks2) =
     (if h1 = h2 then []
      else if f1 \<or> f2 then [g1]
      else (case (l1, l2) of (Some a, Some b) \<Rightarrow> compare_nodes a b | _ \<Rightarrow> []) @
           (case (r1, r2) of (Some a, Some b) \<Rightarrow> compare_nodes a b | _ \<Rightarrow> []))"

definition merkle_compare :: "merkle_tree \<Rightarrow> merkle_tree \<Rightarrow> (string \<times> string) list" where
  "merkle_compare t other =
     (case (mt_root t, mt_root other) of (Some a, Some b) \<Rightarrow> compare_nodes a b | _ \<Rightarrow> [])"

definition get_keys_in_range :: "merkle_tree \<Rightarrow> string \<Rightarrow> string \<Rightarrow> string list" where
  "get_keys_in_range mt lo hi = filter (\<lambda>k. lo \<le> k \<and> k \<le> hi) (dkeys (mt_key_hashes mt))"

fun node_to_dict :: "merkle_node \<Rightarrow> json" where
  "node_to_dict (MerkleNode hv l r g f ks) =
     JDict [(''hash'', JStr hv), (''range'', JList [JStr (fst g), JStr (snd g)]), (''is_leaf'', JBool f),
            (''left'', (case l of None \<Rightarrow> JNull | Some a \<Rightarrow> node_to_dict a)),
            (''right'', (case r of None \<Rightarrow> JNull | Some a \<Rightarrow> node_to_dict a))]"

definition merkle_to_dict :: "merkle_tree \<Rightarrow> (string, json) dict" where
  "merkle_to_dict mt = [(''root'', case mt_root mt of None \<Rightarrow> JNull | Some n \<Rightarrow> node_to_dict n)]"

section \<open>What a node stands for\<close>

text \<open>\<open>represents h es X n\<close>: the subtree \<open>n\<close> holds the entries \<open>es\<close>, keys with their texts, in order, and
  was computed by hashing exactly the texts \<open>X\<close>.\<close>

definition bucket_text :: "(string \<Rightarrow> string) \<Rightarrow> (string \<times> string) list \<Rightarrow> string" where
  "bucket_text h es = concat (map (\<lambda>e. h (snd e)) es)"

inductive represents :: "(string \<Rightarrow> string) \<Rightarrow> (string \<times> string) list \<Rightarrow> string set \<Rightarrow> merkle_node \<Rightarrow> bool" for h where
  leaf: "es \<noteq> [] \<Longrightarrow> (\<forall>e \<in> set es. CHR '':'' \<in> set (snd e)) \<Longrightarrow>
    represents h es (insert (bucket_text h es) (snd ` set es))
      (MerkleNode (h (bucket_text h es)) None None (fst (hd es), fst (last es)) True (map fst es))"
| parent: "represents h es X l \<Longrightarrow> represents h es' X' r \<Longrightarrow>
    represents h (es @ es') (insert (hash_value l @ hash_value r) (X \<union> X')) (make_parent h l r)"

inductive_cases represents_parentE: "represents h es X (make_parent h l r)"
inductive_cases represents_leafE: "represents h es X (MerkleNode a None None g True ks)"

definition hash_format :: "(string \<Rightarrow> string) \<Rightarrow> bool" where
  "hash_format h \<longleftrightarrow> (\<forall>s. length (h s) = 16 \<and> CHR '':'' \<notin> set (h s))"

lemma hash_formatD:
  "hash_format h \<Longrightarrow> length (h s) = 16" "hash_format h \<Longrightarrow> CHR '':'' \<notin> set (h s)"
  by (auto simp: hash_format_def)

lemma bucket_text_cons: "bucket_text h (e # es) = h (snd e) @ bucket_text h es"
  by (simp add: bucket_text_def)

lemma length_bucket_text: "hash_format h \<Longrightarrow> length (bucket_text h es) = 16 * length es"
  by (induction es) (auto simp: bucket_text_def hash_formatD)

lemma bucket_text_no_colon: "hash_format h \<Longrightarrow> CHR '':'' \<notin> set (bucket_text h es)"
  by (auto simp: bucket_text_def hash_formatD)

lemma bucket_text_inj:
  "hash_format h \<Longrightarrow> inj_on h (snd ` set es \<union> snd ` set es') \<Longrightarrow> bucket_text h es = bucket_text h es' \<Longrightarrow>
   map snd es = map snd es'"
proof (induction es arbitrary: es')
  case Nil
  then have "length (bucket_text h es') = 0" by (simp add: bucket_text_def)
  then show ?case using length_bucket_text [OF Nil(1), of es'] by simp
next
  case (Cons e es)
  from Cons.prems obtain e' es'' where es': "es' = e' # es''"
    using length_bucket_text [of h "e # es"] length_bucket_text [of h es'] by (cases es') auto
  have "h (snd e) = h (snd e') \<and> bucket_text h es = bucket_text h es''"
    using Cons.prems by (simp add: es' bucket_text_cons append_eq_append_conv hash_formatD)
  moreover from this have "snd e = snd e'"
    by - (rule inj_onD [OF Cons.prems(2)], simp_all add: es')
  moreover have "inj_on h (snd ` set es \<union> snd ` set es'')"
    using Cons.prems(2) by (rule inj_on_subset) (auto simp: es')
  ultimately show ?case using Cons.IH Cons.prems(1) by (simp add: es')
qed

text \<open>The text a node's hash was computed from has no colon, unlike the text of an entry.\<close>

lemma represents_is_hash: "represents h es X n \<Longrightarrow> \<exists>t. hash_value n = h t"
  by (induction rule: represents.induct) (auto simp: make_parent_def combine_hashes_def)

lemma represents_hash:
  assumes "represents h es X n" and "hash_format h"
  shows "\<exists>t \<in> X. hash_value n = h t \<and> CHR '':'' \<notin> set t"
  using assms
proof cases
  case leaf
  then show ?thesis using bucket_text_no_colon [OF assms(2)] by auto
next
  case (parent es1 X1 l es2 X2 r)
  have "\<exists>t. hash_value l = h t" "\<exists>t. hash_value r = h t"
    using represents_is_hash parent(4,5) by blast+
  then have "CHR '':'' \<notin> set (hash_value l @ hash_value r)" using assms(2) by (auto simp: hash_formatD)
  with parent show ?thesis by (auto simp: make_parent_def combine_hashes_def)
qed

lemma represents_hash_length: "represents h es X n \<Longrightarrow> hash_format h \<Longrightarrow> length (hash_value n) = 16"
  using represents_hash [of h es X n] by (auto simp: hash_formatD)

lemma represents_texts: "represents h es X n \<Longrightarrow> snd ` set es \<subseteq> X \<and> es \<noteq> [] \<and> (\<forall>e \<in> set es. CHR '':'' \<in> set (snd e))"
  by (induction rule: represents.induct) auto

text \<open>No bucket of entries has the hash of an inner node.\<close>

lemma leaf_not_parent:
  assumes "hash_format h" and "represents h es X l" and "represents h es' X' r"
    and "\<forall>e \<in> set bs. CHR '':'' \<in> set (snd e)" and "inj_on h (snd ` set bs \<union> X)"
  shows "bucket_text h bs \<noteq> hash_value l @ hash_value r"
proof
  assume eq: "bucket_text h bs = hash_value l @ hash_value r"
  then obtain b bs' where bs: "bs = b # bs'" using represents_hash_length [OF assms(2,1)] by (cases bs) (auto simp: bucket_text_def)
  then have "h (snd b) = hash_value l"
    using eq represents_hash_length [OF assms(2,1)] assms(1) by (simp add: bucket_text_cons append_eq_append_conv hash_formatD)
  with represents_hash [OF assms(2,1)] obtain t where "t \<in> X" "h (snd b) = h t" "CHR '':'' \<notin> set t" by auto
  with inj_onD [OF assms(5), of "snd b" t] assms(4) show False by (auto simp: bs)
qed

lemma represents_inj:
  assumes "represents h es X n" and "represents h es' X' n'" and "hash_format h" and "inj_on h (X \<union> X')"
    and "hash_value n = hash_value n'"
  shows "map snd es = map snd es'"
  using assms(1,2,4,5)
proof (induction arbitrary: es' X' n' rule: represents.induct)
  case (leaf es)
  from leaf(3) show ?case
  proof cases
    case leaf2: leaf
    have "bucket_text h es = bucket_text h es'"
      by (rule inj_onD [OF leaf(4)]) (use leaf(5) in \<open>simp_all add: leaf2\<close>)
    moreover have "inj_on h (snd ` set es \<union> snd ` set es')" using leaf(4) by (rule inj_on_subset) (auto simp: leaf2)
    ultimately show ?thesis using bucket_text_inj [OF assms(3)] by simp
  next
    case (parent es1 X1 l es2 X2 r)
    have "bucket_text h es = hash_value l @ hash_value r"
      by (rule inj_onD [OF leaf(4)]) (use leaf(5) in \<open>simp_all add: parent make_parent_def combine_hashes_def\<close>)
    moreover have "inj_on h (snd ` set es \<union> X1)" using leaf(4) by (rule inj_on_subset) (auto simp: parent)
    ultimately show ?thesis using leaf_not_parent [OF assms(3) parent(4,5) leaf(2)] by blast
  qed
next
  case (parent es1 X1 l es2 X2 r)
  from parent(5) show ?case
  proof cases
    case leaf
    have "bucket_text h es' = hash_value l @ hash_value r"
      by (rule inj_onD [OF parent(6)]) (use parent(7) in \<open>simp_all add: leaf make_parent_def combine_hashes_def\<close>)
    moreover have "inj_on h (snd ` set es' \<union> X1)" using parent(6) by (rule inj_on_subset) (auto simp: leaf)
    ultimately show ?thesis using leaf_not_parent [OF assms(3) parent(1,2) leaf(4)] by blast
  next
    case parent2: (parent es1' X1' l' es2' X2' r')
    have "hash_value l @ hash_value r = hash_value l' @ hash_value r'"
      by (rule inj_onD [OF parent(6)]) (use parent(7) in \<open>simp_all add: parent2 make_parent_def combine_hashes_def\<close>)
    then have "hash_value l = hash_value l'" "hash_value r = hash_value r'"
      using represents_hash_length [OF parent(1) assms(3)] represents_hash_length [OF parent2(4) assms(3)]
      by (simp_all add: append_eq_append_conv)
    moreover have "inj_on h (X1 \<union> X1')" "inj_on h (X2 \<union> X2')"
      by (rule inj_on_subset [OF parent(6)]; auto simp: parent2)+
    ultimately show ?thesis using parent(3) [OF parent2(4)] parent(4) [OF parent2(5)] by (simp add: parent2(1))
  qed
qed

section \<open>Construction\<close>

definition entry_leaf :: "(string \<Rightarrow> string) \<Rightarrow> (string \<times> string) list \<Rightarrow> merkle_node" where
  "entry_leaf h es = MerkleNode (h (bucket_text h es)) None None (fst (hd es), fst (last es)) True (map fst es)"

lemma concat_chunks: "0 < n \<Longrightarrow> concat (chunks n xs) = xs"
  by (induction n xs rule: chunks.induct) (subst chunks.simps, auto)

lemma chunks_nonempty: "ys \<in> set (chunks n xs) \<Longrightarrow> ys \<noteq> []"
proof (induction n xs rule: chunks.induct)
  case (1 n xs)
  then show ?case by (subst (asm) (2) chunks.simps) (auto split: if_splits)
qed

lemma chunks_map: "chunks n (map f xs) = map (map f) (chunks n xs)"
proof (induction n xs rule: chunks.induct)
  case (1 n xs)
  then show ?case
    by (subst chunks.simps, subst (2) chunks.simps) (auto simp: take_map drop_map)
qed

lemma chunks_Nil_iff: "0 < n \<Longrightarrow> chunks n xs = [] \<longleftrightarrow> xs = []"
  by (subst chunks.simps) auto

fun inner_texts :: "merkle_node \<Rightarrow> string list" where
  "inner_texts (MerkleNode hv l r g f ks) =
     (case (l, r) of (Some a, Some b) \<Rightarrow> (hash_value a @ hash_value b) # inner_texts a @ inner_texts b | _ \<Rightarrow> [])"

definition stands_for :: "(string \<Rightarrow> string) \<Rightarrow> string set \<Rightarrow> (string \<times> string) list \<Rightarrow> merkle_node \<Rightarrow> bool" where
  "stands_for h B es n \<longleftrightarrow> (\<exists>X. represents h es X n \<and> X \<subseteq> snd ` set es \<union> B \<union> set (inner_texts n))"

lemma stands_for_parent:
  assumes "stands_for h B es l" and "stands_for h B es' r"
  shows "stands_for h B (es @ es') (make_parent h l r)"
proof -
  from assms obtain X X' where X: "represents h es X l" "represents h es' X' r"
    "X \<subseteq> snd ` set es \<union> B \<union> set (inner_texts l)" "X' \<subseteq> snd ` set es' \<union> B \<union> set (inner_texts r)"
    by (auto simp: stands_for_def)
  have "set (inner_texts (make_parent h l r)) = insert (hash_value l @ hash_value r) (set (inner_texts l) \<union> set (inner_texts r))"
    by (simp add: make_parent_def)
  with represents.parent [OF X(1,2)] X(3,4) show ?thesis
    unfolding stands_for_def by (intro exI [of _ "insert (hash_value l @ hash_value r) (X \<union> X')"]) auto
qed

lemma pair_up_stands_for:
  "list_all2 (stands_for h B) ess ns \<Longrightarrow> \<exists>ess'. list_all2 (stands_for h B) ess' (pair_up h ns) \<and> concat ess' = concat ess"
proof (induction h ns arbitrary: ess rule: pair_up.induct)
  case (1 h l r ns)
  from 1(2) obtain a b as where e: "ess = a # b # as" "stands_for h B a l" "stands_for h B b r" "list_all2 (stands_for h B) as ns"
    by (auto simp: list_all2_Cons2)
  from 1(1) [OF e(4)] obtain as' where "list_all2 (stands_for h B) as' (pair_up h ns)" "concat as' = concat as" by blast
  then show ?case using stands_for_parent [OF e(2,3)] by (intro exI [of _ "(a @ b) # as'"]) (simp add: e(1))
qed auto

lemma build_tree_stands_for:
  "list_all2 (stands_for h B) ess ns \<Longrightarrow> ns \<noteq> [] \<Longrightarrow> \<exists>n. build_tree h ns = Some n \<and> stands_for h B (concat ess) n"
proof (induction h ns arbitrary: ess rule: build_tree.induct)
  case (2 h n)
  then show ?case by (auto simp: list_all2_Cons2)
next
  case (3 h a b ns)
  from pair_up_stands_for [OF 3(2)] obtain ess' where
    "list_all2 (stands_for h B) ess' (pair_up h (a # b # ns))" "concat ess' = concat ess" by blast
  with 3(1) [of ess'] show ?case by simp
qed simp

text \<open>The hash of the root depends only on the hashes of the leaves.\<close>

lemma pair_up_hashes:
  "map hash_value ns = map hash_value ms \<Longrightarrow> map hash_value (pair_up h ns) = map hash_value (pair_up h ms)"
proof (induction h ns arbitrary: ms rule: pair_up.induct)
  case (1 h l r ns)
  then obtain l' r' ms' where "ms = l' # r' # ms'" by (auto simp: Cons_eq_map_conv)
  with 1 show ?case by (simp add: make_parent_def)
qed (auto simp: Cons_eq_map_conv)

lemma build_tree_hashes:
  "map hash_value ns = map hash_value ms \<Longrightarrow> map_option hash_value (build_tree h ns) = map_option hash_value (build_tree h ms)"
proof (induction h ns arbitrary: ms rule: build_tree.induct)
  case (3 h a b ns)
  then obtain a' b' ms' where "ms = a' # b' # ms'" by (auto simp: Cons_eq_map_conv)
  with 3(1) [OF pair_up_hashes [OF 3(2)]] show ?case by simp
qed (auto simp: Cons_eq_map_conv)

section \<open>Root hashes\<close>

text \<open>The entries of a tree, by key, with the texts that are hashed, and all texts hashed for it.\<close>

definition tree_entries :: "float_codec \<Rightarrow> (string, json \<times> int) dict \<Rightarrow> (string \<times> string) list" where
  "tree_entries fc kvs = map (\<lambda>k. (k, entry_text fc k (the (dget kvs k)))) (sort (dkeys kvs))"

definition hashed_texts :: "(string \<Rightarrow> string) \<Rightarrow> float_codec \<Rightarrow> (string, json \<times> int) dict \<Rightarrow> merkle_tree \<Rightarrow> string list" where
  "hashed_texts h fc kvs mt =
     map snd (tree_entries fc kvs) @ map (bucket_text h) (chunks (nat (mt_bucket_size mt)) (tree_entries fc kvs)) @
     (case mt_root mt of None \<Rightarrow> [] | Some n \<Rightarrow> inner_texts n)"

lemma colon_in_text: "CHR '':'' \<in> set (entry_text fc k vv)"
  by (simp add: entry_text_def)

lemma leaves_of_entries:
  assumes "dwf kvs"
  shows "map (make_leaf h (map (\<lambda>(k, vv). (k, h (entry_text fc k vv))) kvs)) (chunks n (sort (dkeys kvs))) =
    map (entry_leaf h) (chunks n (tree_entries fc kvs))"
    (is "map (make_leaf h ?kh) _ = _")
proof -
  have get: "the (dget ?kh (fst e)) = h (snd e)" if "e \<in> set (tree_entries fc kvs)" for e
  proof -
    from that obtain k where k: "e = (k, entry_text fc k (the (dget kvs k)))" "k \<in> set (dkeys kvs)" by (auto simp: tree_entries_def)
    then obtain vv where "dget kvs k = Some vv" using dict_get_in_keys [of kvs k] by auto
    with k show ?thesis by (simp add: dict_get_map_snd)
  qed
  have "chunks n (sort (dkeys kvs)) = map (map fst) (chunks n (tree_entries fc kvs))"
    by (simp add: chunks_map [symmetric] tree_entries_def comp_def)
  moreover have "make_leaf h ?kh (map fst es) =
      entry_leaf h es"
    if "es \<in> set (chunks n (tree_entries fc kvs))" for es
  proof -
    have "n > 0" using that by (auto simp: chunks.simps [of n] split: if_splits)
    then have "set es \<subseteq> set (tree_entries fc kvs)" using that concat_chunks [of n "tree_entries fc kvs"] by (metis Sup_upper image_eqI set_concat)
    then have "map (\<lambda>k. the (dget ?kh k)) (map fst es) = map (\<lambda>e. h (snd e)) es" using get by (auto simp: subset_iff)
    then have "concat (map (\<lambda>k. the (dget ?kh k)) (map fst es)) = bucket_text h es" unfolding bucket_text_def by (rule arg_cong)
    then show ?thesis using chunks_nonempty [OF that] by (simp add: make_leaf_def entry_leaf_def hd_map last_map)
  qed
  ultimately show ?thesis by simp
qed

lemma merkle_build_stands_for:
  assumes "dwf kvs" and "0 < b" and "kvs \<noteq> []"
  shows "\<exists>t n. merkle_build h fc (merkle_init b) kvs = (None, t) \<and> mt_root t = Some n \<and> mt_bucket_size t = b \<and>
    stands_for h (bucket_text h ` set (chunks (nat b) (tree_entries fc kvs))) (tree_entries fc kvs) n"
proof -
  let ?es = "tree_entries fc kvs" and ?B = "bucket_text h ` set (chunks (nat b) (tree_entries fc kvs))"
  have leaf: "stands_for h ?B es (entry_leaf h es)" if "es \<in> set (chunks (nat b) ?es)" for es
  proof -
    have "set es \<subseteq> set ?es" using that concat_chunks [of "nat b" ?es] assms(2) by (metis Sup_upper image_eqI set_concat zero_less_nat_eq)
    then have "\<forall>e \<in> set es. CHR '':'' \<in> set (snd e)" by (auto simp: tree_entries_def colon_in_text)
    from represents.leaf [OF chunks_nonempty [OF that] this] that show ?thesis by (auto simp: stands_for_def entry_leaf_def)
  qed
  have "list_all2 (stands_for h ?B) (chunks (nat b) ?es) (map (entry_leaf h) (chunks (nat b) ?es))"
    using leaf by (simp add: list_all2_conv_all_nth)
  moreover have "?es \<noteq> []" using assms(3) by (simp add: tree_entries_def) (metis length_0_conv length_map length_sort)
  then have "map (entry_leaf h) (chunks (nat b) ?es) \<noteq> []" using assms(2) by (simp add: chunks_Nil_iff)
  ultimately obtain n where "build_tree h (map (entry_leaf h) (chunks (nat b) ?es)) = Some n" "stands_for h ?B (concat (chunks (nat b) ?es)) n"
    using build_tree_stands_for by blast
  then show ?thesis
    using assms leaves_of_entries [OF assms(1), of h fc "nat b"] by (simp add: merkle_build_def merkle_init_def Let_def concat_chunks comp_def case_prod_unfold)
qed

lemma merkle_build_empty: "merkle_build h fc (merkle_init b) [] = (None, merkle_init b)"
  by (simp add: merkle_build_def merkle_init_def)


lemma root_hash_of_entries:
  assumes "dwf kvs" and "0 < b" and "merkle_build h fc (merkle_init b) kvs = (None, t)"
  shows "get_root_hash t = map_option hash_value
    (build_tree h (map (entry_leaf h)
       (chunks (nat b) (tree_entries fc kvs))))"
proof (cases "kvs = []")
  case True
  then show ?thesis using assms(3)
    by (auto simp: merkle_build_def get_root_hash_def merkle_init_def tree_entries_def chunks.simps)
next
  case False
  then show ?thesis
    using assms(2,3) leaves_of_entries [OF assms(1), of h fc "nat b"]
    by (auto simp: merkle_build_def merkle_init_def Let_def get_root_hash_def comp_def case_prod_unfold)
qed

lemma leaf_hashes_of_texts:
  assumes "map snd es = map snd es'"
  shows "map hash_value (map (entry_leaf h) (chunks n es)) =
    map hash_value (map (entry_leaf h) (chunks n es'))"
proof -
  have "map (map snd) (chunks n es) = map (map snd) (chunks n es')" using assms by (metis chunks_map)
  then have "map (\<lambda>ts. h (concat (map h ts))) (map (map snd) (chunks n es)) = map (\<lambda>ts. h (concat (map h ts))) (map (map snd) (chunks n es'))"
    by simp
  then show ?thesis by (simp add: bucket_text_def entry_leaf_def comp_def)
qed

lemma stands_for_hashed:
  assumes "dwf kvs" and "0 < b" and "kvs \<noteq> []" and "merkle_build h fc (merkle_init b) kvs = (None, t)"
  obtains n X where "mt_root t = Some n" and "represents h (tree_entries fc kvs) X n" and "X \<subseteq> set (hashed_texts h fc kvs t)"
proof -
  from merkle_build_stands_for [OF assms(1-3), of h fc] assms(4) obtain n X where n: "mt_root t = Some n" "mt_bucket_size t = b"
    "represents h (tree_entries fc kvs) X n"
    "X \<subseteq> snd ` set (tree_entries fc kvs) \<union> bucket_text h ` set (chunks (nat b) (tree_entries fc kvs)) \<union> set (inner_texts n)"
    by (auto simp: stands_for_def)
  from that [OF n(1,3)] n(1,2,4) show ?thesis by (auto simp: hashed_texts_def)
qed

text \<open>C32: Root hashes decide equality of contents. Two trees with the same bucket size, over stores of any
  sizes, have the same root hash exactly when the sorted entry texts agree, provided the digest has its format
  and does not collide on the texts hashed for the two trees: a bucket is never mistaken for an inner node.\<close>

theorem merkle_root_decides:
  assumes "hash_format h" and "0 < b" and "dwf kvs" and "dwf kvs'"
    and "merkle_build h fc (merkle_init b) kvs = (None, t)" and "merkle_build h fc (merkle_init b) kvs' = (None, t')"
    and "inj_on h (set (hashed_texts h fc kvs t) \<union> set (hashed_texts h fc kvs' t'))"
  shows "get_root_hash t = get_root_hash t' \<longleftrightarrow> map snd (tree_entries fc kvs) = map snd (tree_entries fc kvs')"
proof
  assume "map snd (tree_entries fc kvs) = map snd (tree_entries fc kvs')"
  then show "get_root_hash t = get_root_hash t'"
    unfolding root_hash_of_entries [OF assms(3,2,5)] root_hash_of_entries [OF assms(4,2,6)]
    by (intro build_tree_hashes leaf_hashes_of_texts)
next
  assume eq: "get_root_hash t = get_root_hash t'"
  show "map snd (tree_entries fc kvs) = map snd (tree_entries fc kvs')"
  proof (cases "kvs = [] \<or> kvs' = []")
    case True
    have "get_root_hash t = None \<longleftrightarrow> kvs = []"
      using assms(5) merkle_build_empty [of h fc b] stands_for_hashed [OF assms(3,2) _ assms(5)]
      by (cases "kvs = []") (auto simp: get_root_hash_def merkle_init_def)
    moreover have "get_root_hash t' = None \<longleftrightarrow> kvs' = []"
      using assms(6) merkle_build_empty [of h fc b] stands_for_hashed [OF assms(4,2) _ assms(6)]
      by (cases "kvs' = []") (auto simp: get_root_hash_def merkle_init_def)
    ultimately show ?thesis using True eq by (auto simp: tree_entries_def)
  next
    case False
    then have ne: "kvs \<noteq> []" "kvs' \<noteq> []" by auto
    obtain n X where n: "mt_root t = Some n" "represents h (tree_entries fc kvs) X n" "X \<subseteq> set (hashed_texts h fc kvs t)"
      using stands_for_hashed [OF assms(3,2) ne(1) assms(5)] .
    obtain n' X' where n': "mt_root t' = Some n'" "represents h (tree_entries fc kvs') X' n'" "X' \<subseteq> set (hashed_texts h fc kvs' t')"
      using stands_for_hashed [OF assms(4,2) ne(2) assms(6)] .
    have "inj_on h (X \<union> X')" using assms(7) by (rule inj_on_subset) (use n(3) n'(3) in auto)
    then show ?thesis using represents_inj [OF n(2) n'(2) assms(1)] eq by (simp add: get_root_hash_def n(1) n'(1))
  qed
qed

definition plain_codec :: float_codec where
  "plain_codec = \<lparr>fc_float = (\<lambda>x. False), fc_repr = (\<lambda>x. ''0.0''), fc_read = (\<lambda>s. 0)\<rparr>"

text \<open>A digest for examples: the first and the last eight characters other than colons, padded.\<close>

definition sample_digest :: "string \<Rightarrow> string" where
  "sample_digest s =
     (let s' = filter (\<lambda>c. c \<noteq> CHR '':'') s; pad = replicate 8 CHR ''0'' in take 8 (s' @ pad) @ take 8 (rev s' @ pad))"

lemma sample_digest_format: "hash_format sample_digest"
  by (auto simp: hash_format_def sample_digest_def Let_def dest: in_set_takeD)

definition sample_entries :: "int \<Rightarrow> (string, json \<times> int) dict" where
  "sample_entries i = [(''k1'', JStr ''x'', 1), (''k3'', JNull, i), (''k2'', JInt 5, 2)]"

definition sample_tree :: "int \<Rightarrow> merkle_tree" where
  "sample_tree i = snd (merkle_build sample_digest plain_codec (merkle_init 2) (sample_entries i))"

lemma sample_tree_build: "merkle_build sample_digest plain_codec (merkle_init 2) (sample_entries i) = (None, sample_tree i)"
  by (simp add: sample_tree_def merkle_build_def sample_entries_def merkle_init_def Let_def)

lemma sample_no_collision:
  "inj_on sample_digest (set (hashed_texts sample_digest plain_codec (sample_entries 1) (sample_tree 1)) \<union>
     set (hashed_texts sample_digest plain_codec (sample_entries 4) (sample_tree 4)))"
proof -
  have "distinct (map sample_digest (remdups (hashed_texts sample_digest plain_codec (sample_entries 1) (sample_tree 1) @
      hashed_texts sample_digest plain_codec (sample_entries 4) (sample_tree 4))))"
    by code_simp
  then show ?thesis by (simp add: distinct_map)
qed

theorem merkle_root_decides_witness:
  "get_root_hash (sample_tree 1) \<noteq> get_root_hash (sample_tree 4)"
proof -
  have "map snd (tree_entries plain_codec (sample_entries 1)) \<noteq> map snd (tree_entries plain_codec (sample_entries 4))" by code_simp
  moreover have "dwf (sample_entries i)" for i by (simp add: sample_entries_def)
  ultimately show ?thesis
    using merkle_root_decides [OF sample_digest_format _ _ _ sample_tree_build sample_tree_build sample_no_collision] by simp
qed

text \<open>Different stores may have the same root hash whatever the digest: the text of an entry joins key,
  value and version by colons without escaping them, so a key \<^verbatim>\<open>a\<close> with value \<^verbatim>\<open>b:c\<close> and a key \<^verbatim>\<open>a:b\<close> with
  value \<^verbatim>\<open>c\<close> are the same text.\<close>

theorem merkle_confuses_entries:
  "get_root_hash (snd (merkle_build h fc (merkle_init 100) [(''a'', JStr ''b:c'', 1)])) =
   get_root_hash (snd (merkle_build h fc (merkle_init 100) [(''a:b'', JStr ''c'', 1)]))"
proof -
  let ?k1 = "[(''a'', JStr ''b:c'', 1)] :: (string, json \<times> int) dict" and ?k2 = "[(''a:b'', JStr ''c'', 1)] :: (string, json \<times> int) dict"
  obtain t1 t2 where t: "merkle_build h fc (merkle_init 100) ?k1 = (None, t1)" "merkle_build h fc (merkle_init 100) ?k2 = (None, t2)"
    using merkle_build_stands_for [of ?k1 100 h fc] merkle_build_stands_for [of ?k2 100 h fc] by auto
  have "map snd (tree_entries fc ?k1) = map snd (tree_entries fc ?k2)" by (simp add: tree_entries_def entry_text_def)
  then show ?thesis
    unfolding t snd_conv root_hash_of_entries [OF _ _ t(1), simplified] root_hash_of_entries [OF _ _ t(2), simplified]
    by (intro build_tree_hashes leaf_hashes_of_texts)
qed

section \<open>Comparison\<close>

text \<open>Trees over the same keys have the same shape.\<close>

inductive same_shape :: "(string \<Rightarrow> string) \<Rightarrow> merkle_node \<Rightarrow> merkle_node \<Rightarrow> bool" for h where
  leaf: "same_shape h (MerkleNode a None None g True ks) (MerkleNode b None None g True ks)"
| parent: "same_shape h l l' \<Longrightarrow> same_shape h r r' \<Longrightarrow> same_shape h (make_parent h l r) (make_parent h l' r')"

lemma same_shape_pair_up:
  "list_all2 (same_shape h) ns ms \<Longrightarrow> list_all2 (same_shape h) (pair_up h ns) (pair_up h ms)"
proof (induction h ns arbitrary: ms rule: pair_up.induct)
  case (1 h l r ns)
  then show ?case by (auto simp: list_all2_Cons1 same_shape.parent)
qed (auto simp: list_all2_Cons1)

lemma same_shape_build_tree:
  "list_all2 (same_shape h) ns ms \<Longrightarrow> build_tree h ns = Some n \<Longrightarrow> build_tree h ms = Some m \<Longrightarrow> same_shape h n m"
proof (induction h ns arbitrary: ms rule: build_tree.induct)
  case (3 h a b ns)
  then obtain a' b' ms' where ms: "ms = a' # b' # ms'" by (auto simp: list_all2_Cons1)
  show ?case using 3(1) [OF same_shape_pair_up [OF 3(2)]] 3(3,4) by (simp add: ms)
qed (auto simp: list_all2_Cons1)

lemma represents_parent:
  assumes "represents h es X (make_parent h l r)"
  obtains es1 X1 es2 X2 where "es = es1 @ es2" and "represents h es1 X1 l" and "represents h es2 X2 r" and "X1 \<subseteq> X" and "X2 \<subseteq> X"
  using assms by (rule represents_parentE) (auto simp: make_parent_def)

lemma represents_leaf:
  assumes "represents h es X (MerkleNode a None None g True ks)"
  shows "a = h (bucket_text h es)" and "g = (fst (hd es), fst (last es))" and "ks = map fst es" and "es \<noteq> []"
    and "X = insert (bucket_text h es) (snd ` set es)"
  using assms by (auto elim!: represents_leafE simp: make_parent_def)

lemma same_shape_keys:
  "same_shape h n m \<Longrightarrow> represents h es X n \<Longrightarrow> represents h es' X' m \<Longrightarrow> map fst es = map fst es'"
proof (induction arbitrary: es X es' X' rule: same_shape.induct)
  case (leaf a g ks b)
  then show ?case using represents_leaf(3) by metis
next
  case (parent l l' r r')
  from parent.prems(1) obtain es1 X1 es2 X2 where 1: "es = es1 @ es2" "represents h es1 X1 l" "represents h es2 X2 r"
    by (rule represents_parent)
  from parent.prems(2) obtain es1' X1' es2' X2' where 2: "es' = es1' @ es2'" "represents h es1' X1' l'" "represents h es2' X2' r'"
    by (rule represents_parent)
  show ?case using parent.IH(1) [OF 1(2) 2(2)] parent.IH(2) [OF 1(3) 2(3)] by (simp add: 1 2)
qed

lemma same_entries:
  assumes "map fst es = map fst es'" and "map snd es = map snd es'"
  shows "es = es'"
  using assms by (metis zip_map_fst_snd)

lemma sorted_ends:
  assumes "sorted ks" and "k \<in> set ks"
  shows "hd ks \<le> k \<and> k \<le> last ks"
proof -
  obtain i where i: "i < length ks" "ks ! i = k" using assms(2) by (auto simp: in_set_conv_nth)
  then have "ks ! 0 \<le> k" "k \<le> ks ! (length ks - 1)" using assms(1) by (auto simp: sorted_iff_nth_mono)
  moreover have "ks \<noteq> []" using i by auto
  ultimately show ?thesis by (simp add: hd_conv_nth last_conv_nth)
qed

definition covers :: "(string \<times> string) list \<Rightarrow> string \<Rightarrow> bool" where
  "covers rs k \<longleftrightarrow> (\<exists>(lo, hi) \<in> set rs. lo \<le> k \<and> k \<le> hi)"

lemma compare_nodes_parent:
  "compare_nodes (make_parent h l r) (make_parent h l' r') =
     (if hash_value (make_parent h l r) = hash_value (make_parent h l' r') then []
      else compare_nodes l l' @ compare_nodes r r')"
  by (simp add: make_parent_def)

lemma compare_finds:
  assumes "hash_format h" and "same_shape h n m" and "represents h es X n" and "represents h es' X' m" and "inj_on h (X \<union> X')"
    and "sorted (map fst es)" and "(e, e') \<in> set (zip es es')" and "e \<noteq> e'"
  shows "covers (compare_nodes n m) (fst e)"
  using assms(2-)
proof (induction arbitrary: es X es' X' rule: same_shape.induct)
  case (leaf a g ks b)
  note l = represents_leaf [OF leaf(1)]
  have ks: "map fst es = map fst es'" using l(3) represents_leaf(3) [OF leaf(2)] by simp
  have "a \<noteq> b"
  proof
    assume "a = b"
    then have "map snd es = map snd es'" using represents_inj [OF leaf(1,2) assms(1) leaf(3)] by simp
    with same_entries [OF ks] leaf(5,6) show False by (auto simp: in_set_zip)
  qed
  moreover have "fst e \<in> set (map fst es)" using leaf(5) by (auto dest: set_zip_leftD)
  then have "fst (hd es) \<le> fst e \<and> fst e \<le> fst (last es)"
    using sorted_ends [OF leaf(4), of "fst e"] l(4) by (simp add: hd_map last_map)
  ultimately show ?case by (simp add: covers_def l(2))
next
  case (parent l l' r r')
  from parent.prems(1) obtain es1 X1 es2 X2 where 1: "es = es1 @ es2" "represents h es1 X1 l" "represents h es2 X2 r" "X1 \<subseteq> X" "X2 \<subseteq> X"
    by (rule represents_parent)
  from parent.prems(2) obtain es1' X1' es2' X2' where 2: "es' = es1' @ es2'" "represents h es1' X1' l'" "represents h es2' X2' r'" "X1' \<subseteq> X'" "X2' \<subseteq> X'"
    by (rule represents_parent)
  have "same_shape h (make_parent h l r) (make_parent h l' r')" using parent.hyps by (rule same_shape.parent)
  then have ks: "map fst es = map fst es'" using parent.prems(1,2) by (rule same_shape_keys)
  have ne: "hash_value (make_parent h l r) \<noteq> hash_value (make_parent h l' r')"
  proof
    assume "hash_value (make_parent h l r) = hash_value (make_parent h l' r')"
    then have "map snd es = map snd es'" using represents_inj [OF parent.prems(1,2) assms(1) parent.prems(3)] by simp
    with same_entries [OF ks] parent.prems(5,6) show False by (auto simp: in_set_zip)
  qed
  have "length es1 = length es1'" using same_shape_keys [OF parent.hyps(1) 1(2) 2(2)] by (metis length_map)
  then consider "(e, e') \<in> set (zip es1 es1')" | "(e, e') \<in> set (zip es2 es2')" using parent.prems(5) by (auto simp: 1(1) 2(1))
  then have "covers (compare_nodes l l') (fst e) \<or> covers (compare_nodes r r') (fst e)"
  proof cases
    case a: 1
    have "inj_on h (X1 \<union> X1')" using parent.prems(3) by (rule inj_on_subset) (use 1(4) 2(4) in auto)
    with parent.IH(1) [OF 1(2) 2(2) _ _ a parent.prems(6)] parent.prems(4) show ?thesis by (simp add: 1(1) sorted_append)
  next
    case a: 2
    have "inj_on h (X2 \<union> X2')" using parent.prems(3) by (rule inj_on_subset) (use 1(5) 2(5) in auto)
    with parent.IH(2) [OF 1(3) 2(3) _ _ a parent.prems(6)] parent.prems(4) show ?thesis by (simp add: 1(1) sorted_append)
  qed
  then show ?case using ne by (auto simp: compare_nodes_parent covers_def)
qed

text \<open>Every reported range is that of a bucket with a difference.\<close>

lemma compare_sound:
  assumes "same_shape h n m" and "represents h es X n" and "represents h es' X' m"
    and "sorted (map fst es)" and "(lo, hi) \<in> set (compare_nodes n m)"
  shows "\<exists>e e'. (e, e') \<in> set (zip es es') \<and> e \<noteq> e' \<and> lo \<le> fst e \<and> fst e \<le> hi"
  using assms
proof (induction arbitrary: es X es' X' rule: same_shape.induct)
  case (leaf a g ks b)
  note l = represents_leaf [OF leaf(1)] and l' = represents_leaf [OF leaf(2)]
  from leaf(4) have "a \<noteq> b" and g: "g = (lo, hi)" by (auto split: if_splits)
  then have "es \<noteq> es'" using l(1) l'(1) by auto
  moreover have len: "length es = length es'" using l(3) l'(3) by (metis length_map)
  ultimately obtain i where i: "i < length es" "es ! i \<noteq> es' ! i" by (auto simp: list_eq_iff_nth_eq)
  then have "(es ! i, es' ! i) \<in> set (zip es es')" using len by (auto simp: in_set_zip)
  moreover have "fst (hd es) \<le> fst (es ! i) \<and> fst (es ! i) \<le> fst (last es)"
    using sorted_ends [OF leaf(3), of "fst (es ! i)"] l(4) i(1) by (simp add: hd_map last_map)
  ultimately show ?case using i(2) g l(2) by (intro exI [of _ "es ! i"] exI [of _ "es' ! i"]) auto
next
  case (parent l l' r r')
  from parent.prems(1) obtain es1 X1 es2 X2 where 1: "es = es1 @ es2" "represents h es1 X1 l" "represents h es2 X2 r"
    by (rule represents_parent)
  from parent.prems(2) obtain es1' X1' es2' X2' where 2: "es' = es1' @ es2'" "represents h es1' X1' l'" "represents h es2' X2' r'"
    by (rule represents_parent)
  have len: "length es1 = length es1'" using same_shape_keys [OF parent.hyps(1) 1(2) 2(2)] by (metis length_map)
  from parent.prems(4) consider "(lo, hi) \<in> set (compare_nodes l l')" | "(lo, hi) \<in> set (compare_nodes r r')"
    by (auto simp: compare_nodes_parent split: if_splits)
  then show ?case
  proof cases
    case a: 1
    have "sorted (map fst es1)" using parent.prems(3) by (simp add: 1(1) sorted_append)
    from parent.IH(1) [OF 1(2) 2(2) this a] len show ?thesis by (simp add: 1(1) 2(1)) blast
  next
    case a: 2
    have "sorted (map fst es2)" using parent.prems(3) by (simp add: 1(1) sorted_append)
    from parent.IH(2) [OF 1(3) 2(3) this a] len show ?thesis by (simp add: 1(1) 2(1)) blast
  qed
qed

definition differs :: "float_codec \<Rightarrow> (string, json \<times> int) dict \<Rightarrow> (string, json \<times> int) dict \<Rightarrow> string \<Rightarrow> bool" where
  "differs fc kvs kvs' k \<longleftrightarrow> k \<in> set (dkeys kvs) \<and> entry_text fc k (the (dget kvs k)) \<noteq> entry_text fc k (the (dget kvs' k))"

lemma sorted_keys_eq:
  assumes "dwf kvs" and "dwf kvs'" and "set (dkeys kvs) = set (dkeys kvs')"
  shows "sort (dkeys kvs) = sort (dkeys kvs')"
  using assms by (metis sorted_list_of_set_sort_remdups remdups_id_iff_distinct)

lemma entries_zip:
  assumes "sort (dkeys kvs) = sort (dkeys kvs')"
  shows "zip (tree_entries fc kvs) (tree_entries fc kvs') =
    map (\<lambda>k. ((k, entry_text fc k (the (dget kvs k))), (k, entry_text fc k (the (dget kvs' k))))) (sort (dkeys kvs))"
  unfolding tree_entries_def assms by (simp add: zip_map_map zip_same_conv_map)

lemma same_shape_leaves:
  assumes "map fst es = map fst es'"
  shows "list_all2 (same_shape h) (map (entry_leaf h) (chunks n es)) (map (entry_leaf h) (chunks n es'))"
proof -
  have c: "map (map fst) (chunks n es) = map (map fst) (chunks n es')" using assms by (metis chunks_map)
  then have len: "length (chunks n es) = length (chunks n es')" by (metis length_map)
  have "same_shape h (entry_leaf h (chunks n es ! i)) (entry_leaf h (chunks n es' ! i))" if "i < length (chunks n es)" for i
  proof -
    have k: "map fst (chunks n es ! i) = map fst (chunks n es' ! i)"
      using c that len by (metis nth_map)
    have "chunks n es ! i \<noteq> []" "chunks n es' ! i \<noteq> []" using that len chunks_nonempty nth_mem by metis+
    then have "fst (hd (chunks n es ! i)) = fst (hd (chunks n es' ! i))" "fst (last (chunks n es ! i)) = fst (last (chunks n es' ! i))"
      using k by (metis hd_map, metis last_map)
    then show ?thesis by (simp add: entry_leaf_def k same_shape.leaf)
  qed
  with len show ?thesis by (simp add: list_all2_conv_all_nth)
qed

lemma merkle_root_build:
  assumes "dwf kvs" and "0 < b" and "kvs \<noteq> []" and "merkle_build h fc (merkle_init b) kvs = (None, t)"
  shows "mt_root t = build_tree h (map (entry_leaf h) (chunks (nat b) (tree_entries fc kvs)))"
  using assms(2-4) leaves_of_entries [OF assms(1), of h fc "nat b"]
  by (auto simp: merkle_build_def merkle_init_def Let_def comp_def case_prod_unfold)

text \<open>C33: Comparing two trees over the same keys finds the differences: every key whose entry differs lies in a
  reported range, and every reported range holds such a key (no collisions among the texts hashed for the two
  trees).\<close>

theorem merkle_compare_exact:
  assumes "hash_format h" and "0 < b" and "dwf kvs" and "dwf kvs'" and "set (dkeys kvs) = set (dkeys kvs')"
    and "merkle_build h fc (merkle_init b) kvs = (None, t)" and "merkle_build h fc (merkle_init b) kvs' = (None, t')"
    and "inj_on h (set (hashed_texts h fc kvs t) \<union> set (hashed_texts h fc kvs' t'))"
  shows "(differs fc kvs kvs' k \<longrightarrow> covers (merkle_compare t t') k) \<and>
    ((lo, hi) \<in> set (merkle_compare t t') \<longrightarrow> (\<exists>k'. differs fc kvs kvs' k' \<and> lo \<le> k' \<and> k' \<le> hi))"
proof (cases "kvs = []")
  case True
  then show ?thesis using assms(6) by (auto simp: differs_def merkle_build_def merkle_init_def merkle_compare_def)
next
  case False
  then have ne: "kvs \<noteq> []" "kvs' \<noteq> []" using assms(5) by auto
  let ?es = "tree_entries fc kvs" and ?es' = "tree_entries fc kvs'"
  obtain n X where n: "mt_root t = Some n" "represents h ?es X n" "X \<subseteq> set (hashed_texts h fc kvs t)"
    using stands_for_hashed [OF assms(3,2) ne(1) assms(6)] .
  obtain n' X' where n': "mt_root t' = Some n'" "represents h ?es' X' n'" "X' \<subseteq> set (hashed_texts h fc kvs' t')"
    using stands_for_hashed [OF assms(4,2) ne(2) assms(7)] .
  note keys = sorted_keys_eq [OF assms(3-5)]
  have "map fst ?es = map fst ?es'" by (simp add: tree_entries_def comp_def keys)
  from same_shape_build_tree [OF same_shape_leaves [OF this, of h "nat b"]] have shape: "same_shape h n n'"
    using merkle_root_build [OF assms(3,2) ne(1) assms(6)] merkle_root_build [OF assms(4,2) ne(2) assms(7)] n(1) n'(1) by simp
  have inj: "inj_on h (X \<union> X')" using assms(8) by (rule inj_on_subset) (use n(3) n'(3) in auto)
  have sorted: "sorted (map fst ?es)" by (simp add: tree_entries_def comp_def)
  have cmp: "merkle_compare t t' = compare_nodes n n'" by (simp add: merkle_compare_def n(1) n'(1))
  have "covers (compare_nodes n n') k" if "differs fc kvs kvs' k"
    using that compare_finds [OF assms(1) shape n(2) n'(2) inj sorted,
        of "(k, entry_text fc k (the (dget kvs k)))" "(k, entry_text fc k (the (dget kvs' k)))"]
    by (auto simp: differs_def entries_zip [OF keys])
  moreover have "\<exists>k'. differs fc kvs kvs' k' \<and> lo \<le> k' \<and> k' \<le> hi" if "(lo, hi) \<in> set (compare_nodes n n')"
    using compare_sound [OF shape n(2) n'(2) sorted that] by (auto simp: differs_def entries_zip [OF keys])
  ultimately show ?thesis by (simp add: cmp)
qed

theorem merkle_compare_exact_witness: "covers (merkle_compare (sample_tree 1) (sample_tree 4)) ''k3''"
proof -
  have "dwf (sample_entries i)" for i by (simp add: sample_entries_def)
  moreover have "set (dkeys (sample_entries 1)) = set (dkeys (sample_entries 4))" by (simp add: sample_entries_def)
  moreover have "differs plain_codec (sample_entries 1) (sample_entries 4) ''k3''" by code_simp
  ultimately show ?thesis
    using merkle_compare_exact [OF sample_digest_format _ _ _ _ sample_tree_build sample_tree_build sample_no_collision, of "''k3''"] by simp
qed

text \<open>Comparison is blind to keys the local tree does not cover: against an empty tree it reports no
  difference whatever the other side holds.\<close>

lemma merkle_compare_empty:
  "merkle_compare (merkle_init b) t = [] \<and> merkle_compare t (merkle_init b) = []"
  by (auto simp: merkle_compare_def merkle_init_def split: option.splits)

end
