(* ===== verification/AntiEntropy.thy ===== *)
theory AntiEntropy
  imports NodeStore Merkle
begin

text \<open>
  Anti-entropy repair (\<^verbatim>\<open>src/minidb/repair/anti_entropy.py\<close>) and how the node configures it
  (\<^verbatim>\<open>Node._setup_repair_callbacks\<close>).

  \<^item> The callbacks act on a state \<open>'w\<close> of the caller; one that is not set is \<^const>\<open>None\<close>. What a peer
    answers is a parameter.
  \<^item> The set of local keys sent to the peer is a list in dictionary order.
  \<^item> What a repair with a peer achieves is proved once in the locale \<open>repairable_store\<close>, which states what the
    manager relies on, and holds for the node's own callbacks by interpretation.
\<close>

section \<open>Definitions\<close>

type_synonym versioned_data = "(string, json \<times> int) dict"

record 'w repair_callbacks =
  rc_get_local_data :: "('w \<Rightarrow> versioned_data \<times> 'w) option"
  rc_get_remote_merkle :: "(node_id \<Rightarrow> 'w \<Rightarrow> (py_error + (string, json) dict option) \<times> 'w) option"
  rc_get_remote_keys :: "(node_id \<Rightarrow> string list \<Rightarrow> 'w \<Rightarrow> (py_error + versioned_data) \<times> 'w) option"
  rc_apply_repair_data :: "(string \<Rightarrow> json \<Rightarrow> int \<Rightarrow> 'w \<Rightarrow> py_error option \<times> 'w) option"
  rc_get_peers :: "('w \<Rightarrow> node_id list) option"

record anti_entropy =
  ae_node_id :: node_id
  ae_repair_interval :: time
  ae_merkle_tree :: merkle_tree

definition anti_entropy_init :: "node_id \<Rightarrow> time \<Rightarrow> anti_entropy" where
  "anti_entropy_init me interval = \<lparr>ae_node_id = me, ae_repair_interval = interval, ae_merkle_tree = merkle_init 100\<rparr>"

text \<open>\<^verbatim>\<open>remote_merkle_data.get("root", {}).get("hash")\<close>: a root that is no dictionary has no method \<^verbatim>\<open>get\<close>.\<close>

definition remote_root_hash :: "(string, json) dict \<Rightarrow> json res" where
  "remote_root_hash d =
     (case dict_get d ''root'' (JDict []) of
        JDict node \<Rightarrow> Inr (dict_get node ''hash'' JNull)
      | _ \<Rightarrow> Inl AttributeError)"

fun apply_newer ::
  "(string \<Rightarrow> json \<Rightarrow> int \<Rightarrow> 'w \<Rightarrow> py_error option \<times> 'w) \<Rightarrow> versioned_data \<Rightarrow> versioned_data \<Rightarrow> 'w \<Rightarrow> py_error option \<times> 'w" where
  "apply_newer apply local_data [] w = (None, w)"
| "apply_newer apply local_data ((key, value, version) # remote) w =
     (let local_version = (case dget local_data key of Some x \<Rightarrow> snd x | None \<Rightarrow> 0)
      in if version > local_version
         then (case apply key value version w of
                 (Some err, w') \<Rightarrow> (Some err, w')
               | (None, w') \<Rightarrow> apply_newer apply local_data remote w')
         else apply_newer apply local_data remote w)"

text \<open>\<^verbatim>\<open>_repair_with_peer\<close>; every exception inside its \<^verbatim>\<open>try\<close> is printed and dropped.\<close>

definition exchange_with_peer ::
  "'w repair_callbacks \<Rightarrow> anti_entropy \<Rightarrow> node_id \<Rightarrow>
   (node_id \<Rightarrow> string list \<Rightarrow> 'w \<Rightarrow> (py_error + versioned_data) \<times> 'w) \<Rightarrow> 'w \<Rightarrow> 'w" where
  "exchange_with_peer cb am peer get_remote_keys w =
     (case rc_get_local_data cb of
        None \<Rightarrow> w
      | Some get_local \<Rightarrow>
          let (local_data, w1) = get_local w
          in (case get_remote_keys peer (dkeys local_data) w1 of
                (Inl err, w2) \<Rightarrow> w2
              | (Inr remote_keys, w2) \<Rightarrow>
                  (case rc_apply_repair_data cb of
                     None \<Rightarrow> w2
                   | Some apply \<Rightarrow> snd (apply_newer apply local_data remote_keys w2))))"

definition repair_with_peer :: "'w repair_callbacks \<Rightarrow> anti_entropy \<Rightarrow> node_id \<Rightarrow> 'w \<Rightarrow> 'w" where
  "repair_with_peer cb am peer w =
     (case (rc_get_remote_merkle cb, rc_get_remote_keys cb) of
        (Some get_remote_merkle, Some get_remote_keys) \<Rightarrow>
          (case get_remote_merkle peer w of
             (Inr (Some d), w1) \<Rightarrow>
               if d = [] then w1
               else (case remote_root_hash d of
                       Inl err \<Rightarrow> w1
                     | Inr remote_hash \<Rightarrow>
                         if remote_hash = of_opt JStr (get_root_hash (ae_merkle_tree am)) then w1
                         else exchange_with_peer cb am peer get_remote_keys w1)
           | (_, w1) \<Rightarrow> w1)
      | _ \<Rightarrow> w)"

definition run_repair_cycle ::
  "(string \<Rightarrow> string) \<Rightarrow> float_codec \<Rightarrow> 'w repair_callbacks \<Rightarrow> anti_entropy \<Rightarrow> 'w \<Rightarrow> py_error option \<times> anti_entropy \<times> 'w" where
  "run_repair_cycle h fc cb am w =
     (case (rc_get_local_data cb, rc_get_peers cb) of
        (Some get_local, Some get_peers) \<Rightarrow>
          let (local_data, w1) = get_local w;
              (err, tree) = merkle_build h fc (ae_merkle_tree am) local_data;
              am1 = am\<lparr>ae_merkle_tree := tree\<rparr>
          in (case err of
                Some e \<Rightarrow> (Some e, am1, w1)
              | None \<Rightarrow> (None, am1, fold (\<lambda>peer w. if peer = ae_node_id am then w else repair_with_peer cb am1 peer w) (get_peers w1) w1))
      | _ \<Rightarrow> (None, am, w))"

definition rebuild_tree :: "(string \<Rightarrow> string) \<Rightarrow> float_codec \<Rightarrow> versioned_data \<Rightarrow> anti_entropy \<Rightarrow> py_error option \<times> anti_entropy" where
  "rebuild_tree h fc data am =
     (let (err, tree) = merkle_build h fc (ae_merkle_tree am) data in (err, am\<lparr>ae_merkle_tree := tree\<rparr>))"

definition get_merkle_root :: "anti_entropy \<Rightarrow> string option" where
  "get_merkle_root am = get_root_hash (ae_merkle_tree am)"

definition get_keys_for_repair :: "(string \<times> string) list \<Rightarrow> anti_entropy \<Rightarrow> string list" where
  "get_keys_for_repair ranges am = concat (map (\<lambda>(lo, hi). get_keys_in_range (ae_merkle_tree am) lo hi) ranges)"

text \<open>The callbacks the node sets: those that ask a peer are left unset.\<close>

definition repair_now :: "float_codec \<Rightarrow> time \<Rightarrow> string \<Rightarrow> json \<Rightarrow> int \<Rightarrow> storage \<Rightarrow> py_error option \<times> storage" where
  "repair_now fc now key value version s =
     apply_repair_data fc s now key value version
       \<lparr>rm_updated_at = None, rm_created_at = None, rm_expires_at = None, rm_coordinator_id = None\<rparr>"

definition node_repair_callbacks :: "float_codec \<Rightarrow> time \<Rightarrow> node_id list \<Rightarrow> storage repair_callbacks" where
  "node_repair_callbacks fc now alive =
     \<lparr>rc_get_local_data = Some (\<lambda>s. get_data_for_repair s now), rc_get_remote_merkle = None, rc_get_remote_keys = None,
      rc_apply_repair_data = Some (repair_now fc now), rc_get_peers = Some (\<lambda>s. alive)\<rparr>"

section \<open>What a repair achieves\<close>

definition newer_than :: "(json \<times> int) option \<Rightarrow> int \<Rightarrow> bool" where
  "newer_than x v \<longleftrightarrow> (case x of None \<Rightarrow> 0 | Some y \<Rightarrow> snd y) < v"

definition newest :: "(json \<times> int) option \<Rightarrow> (json \<times> int) option \<Rightarrow> (json \<times> int) option" where
  "newest x y = (case y of None \<Rightarrow> x | Some (v, i) \<Rightarrow> if newer_than x i then Some (v, i) else x)"

text \<open>What the manager relies on: the data it reads is what the store shows, reading shows the same afterwards,
  and applying a newer version makes the store show it and nothing else new.\<close>

locale repairable_store =
  fixes local_data :: "'w \<Rightarrow> versioned_data \<times> 'w"
    and put :: "string \<Rightarrow> json \<Rightarrow> int \<Rightarrow> 'w \<Rightarrow> py_error option \<times> 'w"
    and shows_key :: "'w \<Rightarrow> string \<Rightarrow> (json \<times> int) option"
    and ok :: "'w \<Rightarrow> bool"
  assumes data_shown: "ok w \<Longrightarrow> dget (fst (local_data w)) k = shows_key w k"
    and data_keeps: "ok w \<Longrightarrow> ok (snd (local_data w)) \<and> shows_key (snd (local_data w)) = shows_key w"
    and apply_shown: "ok w \<Longrightarrow> 0 < v \<Longrightarrow> newer_than (shows_key w k) v \<Longrightarrow>
      fst (put k x v w) = None \<and> ok (snd (put k x v w)) \<and> shows_key (snd (put k x v w)) = (shows_key w)(k \<mapsto> (x, v))"
    and versions_nonneg: "ok w \<Longrightarrow> shows_key w k = Some (x, v) \<Longrightarrow> 0 \<le> v"
begin

lemma apply_newer_shown:
  assumes "ok w" and "dwf remote" and "\<And>k. k \<in> set (dkeys remote) \<Longrightarrow> shows_key w k = dget local k"
  shows "fst (apply_newer put local remote w) = None \<and> ok (snd (apply_newer put local remote w)) \<and>
    (\<forall>k. shows_key (snd (apply_newer put local remote w)) k = newest (shows_key w k) (dget remote k))"
  using assms
proof (induction remote arbitrary: w)
  case Nil
  then show ?case by (simp add: newest_def)
next
  case (Cons r remote)
  obtain key x v where r: "r = (key, x, v)" by (metis prod_cases3)
  have new: "(case dget local key of Some y \<Rightarrow> snd y | None \<Rightarrow> 0) < v \<longleftrightarrow> newer_than (shows_key w key) v"
    using Cons.prems(3) [of key] by (simp add: r newer_than_def split: option.splits)
  have fresh: "dget remote key = None" using Cons.prems(2) by (simp add: r map_of_eq_None_iff)
  show ?case
  proof (cases "newer_than (shows_key w key) v")
    case False
    with Cons.IH [OF Cons.prems(1)] Cons.prems(2,3) new fresh show ?thesis by (auto simp: r newest_def split: option.splits)
  next
    case True
    have "0 < v" using True versions_nonneg [OF Cons.prems(1), of key] by (auto simp: newer_than_def split: option.splits)
    from apply_shown [OF Cons.prems(1) this True, of x] obtain w' where
      w': "put key x v w = (None, w')" "ok w'" "shows_key w' = (shows_key w)(key \<mapsto> (x, v))"
      by (metis prod.collapse)
    have "\<And>k. k \<in> set (dkeys remote) \<Longrightarrow> shows_key w' k = dget local k"
      using Cons.prems(2,3) by (auto simp: r w'(3))
    with Cons.IH [OF w'(2)] Cons.prems(2) True new fresh w' show ?thesis
      by (auto simp: r newest_def split: option.splits)
  qed
qed

end

context repairable_store
begin

lemma exchange_shown:
  assumes "ok w" and "dwf remote" and "rc_get_local_data cb = Some local_data" and "rc_apply_repair_data cb = Some put"
  shows "ok (exchange_with_peer cb am peer (\<lambda>p ks w. (Inr remote, w)) w) \<and>
    shows_key (exchange_with_peer cb am peer (\<lambda>p ks w. (Inr remote, w)) w) k = newest (shows_key w k) (dget remote k)"
proof -
  obtain d w1 where d: "local_data w = (d, w1)" by fastforce
  have w1: "ok w1" "shows_key w1 = shows_key w" "\<And>k. dget d k = shows_key w1 k"
    using data_keeps [OF assms(1)] data_shown [OF assms(1)] by (simp_all add: d)
  from apply_newer_shown [OF w1(1) assms(2), of d] w1(2,3) show ?thesis
    by (simp add: exchange_with_peer_def assms(3,4) d)
qed

end

section \<open>The node\<close>

definition shown_entry :: "time \<Rightarrow> storage \<Rightarrow> string \<Rightarrow> (json \<times> int) option" where
  "shown_entry now s k = map_option (\<lambda>m. (md_value m, md_version m)) (kv_view now (sg_store s) k)"

definition aof_open :: "storage \<Rightarrow> bool" where
  "aof_open s \<longleftrightarrow> (case sg_aof s of None \<Rightarrow> True | Some a \<Rightarrow> aof_handle a)"

lemma aof_open_store [simp]: "aof_open (s\<lparr>sg_store := st\<rparr>) = aof_open s"
  by (simp add: aof_open_def)

definition storage_ok :: "time \<Rightarrow> storage \<Rightarrow> bool" where
  "storage_ok now s \<longleftrightarrow> kv_wf (sg_store s) \<and> aof_open s \<and>
     (\<forall>k m. kv_view now (sg_store s) k = Some m \<longrightarrow> 0 \<le> md_version m)"

lemma data_for_repair:
  assumes "kv_wf (sg_store s)"
  shows "dget (fst (get_data_for_repair s now)) k = shown_entry now s k"
    and "shown_entry now (snd (get_data_for_repair s now)) = shown_entry now s"
proof -
  let ?c = "kv_cleanup_expired (sg_store s) now"
  have view: "kv_view now ?c = kv_view now (sg_store s)" using kv_view_cleanup [OF assms order_refl] .
  have "kv_view now ?c k = dget (kv_store ?c) k"
    using kv_get_all_data_live [OF assms, of now]
    by (auto simp: kv_view_apply entry_view_def list_all_iff split: option.splits dest!: map_of_SomeD)
  then show "dget (fst (get_data_for_repair s now)) k = shown_entry now s k"
    using dict_get_map_snd [of "\<lambda>k m. (md_value m, md_version m)" "kv_store ?c" k]
    by (simp add: get_data_for_repair_def shown_entry_def kv_get_all_data_def Let_def view [symmetric] comp_def case_prod_unfold)
  show "shown_entry now (snd (get_data_for_repair s now)) = shown_entry now s"
    by (simp add: fun_eq_iff get_data_for_repair_def shown_entry_def kv_get_all_data_def Let_def view case_prod_unfold)
qed

lemma data_for_repair_ok: "storage_ok now s \<Longrightarrow> storage_ok now (snd (get_data_for_repair s now))"
  using kv_view_cleanup [of "sg_store s" now now]
  by (simp add: storage_ok_def get_data_for_repair_def kv_get_all_data_def Let_def kv_wf_cleanup)

lemma aof_write_open:
  "aof_open s \<Longrightarrow> fst (aof_write fc s now e sync) = None \<and> aof_open (snd (aof_write fc s now e sync))"
  by (auto simp: aof_open_def aof_write_def aof_append_def aof_do_fsync_def Let_def split: option.splits if_splits)

lemma lww_apply_open:
  "aof_open s \<Longrightarrow> fst (fst (lww_apply fc s now k x v e c u co)) = None \<and> aof_open (snd (lww_apply fc s now k x v e c u co))"
  using aof_write_open by (simp add: lww_apply_def set_and_append_def case_prod_unfold Let_def)

lemma repair_now_newer:
  assumes "storage_ok now s" and "0 < v" and "newer_than (shown_entry now s k) v"
  shows "fst (repair_now fc now k x v s) = None \<and> storage_ok now (snd (repair_now fc now k x v s)) \<and>
    shown_entry now (snd (repair_now fc now k x v s)) = (shown_entry now s)(k \<mapsto> (x, v))"
proof -
  let ?m = "\<lparr>md_value = x, md_created_at = now, md_updated_at = now, md_expires_at = None, md_version = v, md_coordinator_id = sg_node_id s\<rparr>"
  let ?r = "lww_apply fc s now k x v None now now (sg_node_id s)"
  have r: "repair_now fc now k x v s = (fst (fst ?r), snd ?r)" "snd ?r = lww_write fc k (now, ?m) s"
    by (simp_all add: repair_now_def apply_repair_data_def lww_write_def or_time_def truthy_time_def Let_def case_prod_unfold)
  have "(case kv_view now (sg_store s) k of
      Some c \<Rightarrow> if metadata_sort_key ?m < metadata_sort_key c then Some c else Some ?m | None \<Rightarrow> Some ?m) = Some ?m"
    using assms(3) by (auto simp: newer_than_def shown_entry_def metadata_sort_key_def split: option.splits)
  then have view: "kv_view now (sg_store (snd ?r)) = (kv_view now (sg_store s))(k \<mapsto> ?m)"
    using lww_write_view [of ?m now fc k s] assms(2) by (simp add: r(2) md_is_expired_def truthy_time_def)
  have "kv_wf (sg_store (snd ?r))" using assms(1) by (simp add: r(2) lww_write_wf storage_ok_def)
  moreover have "fst (fst ?r) = None \<and> aof_open (snd ?r)" using assms(1) by (intro lww_apply_open) (simp add: storage_ok_def)
  moreover have "0 \<le> md_version c" if "kv_view now (sg_store (snd ?r)) k' = Some c" for k' c
    using that assms(1,2) by (auto simp: view storage_ok_def split: if_splits)
  moreover have "shown_entry now (snd ?r) = (shown_entry now s)(k \<mapsto> (x, v))" by (simp add: fun_eq_iff shown_entry_def view)
  ultimately show ?thesis by (simp add: r(1) storage_ok_def)
qed

interpretation node_repair: repairable_store "\<lambda>s. get_data_for_repair s now" "repair_now fc now" "shown_entry now" "storage_ok now"
  for fc :: float_codec and now :: time
proof
  fix w :: storage and k x and v :: int
  assume ok: "storage_ok now w"
  then have wf: "kv_wf (sg_store w)" by (simp add: storage_ok_def)
  show "dget (fst (get_data_for_repair w now)) k = shown_entry now w k" by (rule data_for_repair(1) [OF wf])
  show "storage_ok now (snd (get_data_for_repair w now)) \<and> shown_entry now (snd (get_data_for_repair w now)) = shown_entry now w"
    using data_for_repair(2) [OF wf] data_for_repair_ok [OF ok] by blast
  show "shown_entry now w k = Some (x, v) \<Longrightarrow> 0 \<le> v" using ok by (auto simp: storage_ok_def shown_entry_def)
  show "fst (repair_now fc now k x v w) = None \<and> storage_ok now (snd (repair_now fc now k x v w)) \<and>
      shown_entry now (snd (repair_now fc now k x v w)) = (shown_entry now w)(k \<mapsto> (x, v))"
    if "0 < v" "newer_than (shown_entry now w k) v"
    using repair_now_newer [OF ok that] .
qed

text \<open>A repair with a peer pulls exactly what is newer. With a peer whose tree has another root hash and
  which answers with its entries, the node shows afterwards, for every key, the peer's entry if its version is
  greater and its own otherwise. (The callbacks that reach a peer are given here; the node sets none, see
  \<open>node_repair_cycle_inert\<close>.)\<close>

theorem repair_with_peer_newest:
  assumes "storage_ok now s" and "dwf remote" and "d \<noteq> []" and "remote_root_hash d = Inr rh"
    and "rh \<noteq> of_opt JStr (get_merkle_root am)"
  shows "shown_entry now
      (repair_with_peer ((node_repair_callbacks fc now alive)\<lparr>rc_get_remote_merkle := Some (\<lambda>p s. (Inr (Some d), s)),
          rc_get_remote_keys := Some (\<lambda>p ks s. (Inr remote, s))\<rparr>) am peer s) k =
    newest (shown_entry now s k) (dget remote k)"
  using assms node_repair.exchange_shown [OF assms(1,2)]
  by (simp add: repair_with_peer_def node_repair_callbacks_def get_merkle_root_def)

lemma fresh_storage_empty: "kv_wf (sg_store (fresh_storage n))" "shown_entry t (fresh_storage n) k = None"
  by (simp_all add: fresh_storage_def kv_wf_init shown_entry_def kv_view_apply) (simp_all add: kv_init_def)

theorem repair_with_peer_newest_witness:
  "shown_entry 5 (repair_with_peer ((node_repair_callbacks plain_codec 5 [])\<lparr>rc_get_remote_merkle := Some (\<lambda>p s. (Inr (Some [(''root'', JDict [(''hash'', JStr ''x'')])]), s)),
          rc_get_remote_keys := Some (\<lambda>p ks s. (Inr [(''a'', JInt 1, 2)], s))\<rparr>) (anti_entropy_init ''n1'' 60) ''n2'' (fresh_storage ''n1'')) ''a'' = Some (JInt 1, 2)"
proof -
  have "storage_ok 5 (fresh_storage ''n1'')"
    using fresh_storage_empty(1) [of "''n1''"] fresh_storage_empty(2) [of 5 "''n1''"]
    by (auto simp: storage_ok_def shown_entry_def) (simp add: fresh_storage_def aof_open_def)
  from repair_with_peer_newest [OF this, of "[(''a'', JInt 1, 2)]" "[(''root'', JDict [(''hash'', JStr ''x'')])]" "JStr ''x''" "anti_entropy_init ''n1'' 60" plain_codec "[]" "''n2''" "''a''"]
  show ?thesis
    by (simp add: remote_root_hash_def dict_get_def get_merkle_root_def get_root_hash_def anti_entropy_init_def merkle_init_def of_opt_def
        newest_def newer_than_def fresh_storage_empty)
qed

text \<open>As the node configures it, repair does nothing. A repair cycle rebuilds the local tree and, for
  any peers and whatever they hold, leaves the node showing what it showed.\<close>

theorem node_repair_cycle_inert:
  assumes "kv_wf (sg_store s)" and "run_repair_cycle h fc (node_repair_callbacks fc now alive) am s = (err, am', s')"
  shows "s' = snd (get_data_for_repair s now) \<and> shown_entry now s' = shown_entry now s"
proof -
  have "fold (\<lambda>peer w. if peer = ae_node_id am then w else repair_with_peer (node_repair_callbacks fc now alive) am1 peer w) ps w = w" for ps w am1
    by (induction ps) (simp_all add: repair_with_peer_def node_repair_callbacks_def)
  note inert = this [unfolded node_repair_callbacks_def]
  have "s' = snd (get_data_for_repair s now)"
    using assms(2) by (auto simp: run_repair_cycle_def node_repair_callbacks_def case_prod_unfold Let_def inert split: option.splits)
  with data_for_repair(2) [OF assms(1)] show ?thesis by simp
qed

theorem node_repair_cycle_inert_witness:
  "shown_entry 5 (snd (snd (run_repair_cycle sample_digest plain_codec (node_repair_callbacks plain_codec 5 [''n1'', ''n2'']) (anti_entropy_init ''n1'' 60) (fresh_storage ''n1'')))) ''a'' = None"
proof -
  obtain err am' s' where r: "run_repair_cycle sample_digest plain_codec (node_repair_callbacks plain_codec 5 [''n1'', ''n2'']) (anti_entropy_init ''n1'' 60) (fresh_storage ''n1'') = (err, am', s')"
    by (metis prod_cases3)
  from node_repair_cycle_inert [OF fresh_storage_empty(1) r]
  have "shown_entry 5 s' = shown_entry 5 (fresh_storage ''n1'')" by blast
  then show ?thesis by (simp add: r fresh_storage_empty)
qed

end
