(* ===== verification/Migration.thy ===== *)
theory Migration
  imports Ring NodeReads
begin

text \<open>
  Shard migration (\<^verbatim>\<open>src/minidb/sharding/migration.py\<close>) and the node's side of it
  (\<^verbatim>\<open>_send_migration_keys\<close>, \<^verbatim>\<open>_handle_import_keys\<close> and the callbacks of \<^verbatim>\<open>src/minidb/node.py\<close>).

  \<^item> The manager's callbacks act on a state \<open>'w\<close>; for the node this is the cluster's map from node
    identifiers to storages. The clock readings of one call are one value \<open>now\<close>.
  \<^item> A task is the same object in the table of active migrations and in the migration thread: changes
    made while it runs are written to the table.
  \<^item> \<open>show_err\<close> is \<^verbatim>\<open>str()\<close> of a raised exception.
\<close>

section \<open>Tasks\<close>

datatype migration_state = Pending | InProgress | Completed | Failed | Cancelled

definition migration_state_value :: "migration_state \<Rightarrow> string" where
  "migration_state_value s =
     (case s of Pending \<Rightarrow> ''PENDING'' | InProgress \<Rightarrow> ''IN_PROGRESS'' | Completed \<Rightarrow> ''COMPLETED'' | Failed \<Rightarrow> ''FAILED''
      | Cancelled \<Rightarrow> ''CANCELLED'')"

record migration_task =
  tk_task_id :: string
  tk_source_node :: node_id
  tk_target_node :: node_id
  tk_keys :: "string list"
  tk_state :: migration_state
  tk_progress :: nat
  tk_started_at :: "time option"
  tk_completed_at :: "time option"
  tk_error :: "string option"

definition new_task :: "string \<Rightarrow> node_id \<Rightarrow> node_id \<Rightarrow> string list \<Rightarrow> migration_task" where
  "new_task task_id source target ks =
     \<lparr>tk_task_id = task_id, tk_source_node = source, tk_target_node = target, tk_keys = ks, tk_state = Pending,
      tk_progress = 0, tk_started_at = None, tk_completed_at = None, tk_error = None\<rparr>"

record migration_stats =
  ms_total_migrations :: nat
  ms_successful_migrations :: nat
  ms_failed_migrations :: nat
  ms_keys_migrated :: nat
  ms_bytes_transferred :: nat
  ms_last_migration_time :: "time option"

record migration =
  mg_local_node_id :: node_id
  mg_replication_factor :: int
  mg_active :: "(string, migration_task) dict"
  mg_history :: "migration_task list"
  mg_stats :: migration_stats

definition migration_init :: "node_id \<Rightarrow> int \<Rightarrow> migration" where
  "migration_init me rf =
     \<lparr>mg_local_node_id = me, mg_replication_factor = rf, mg_active = [], mg_history = [],
      mg_stats = \<lparr>ms_total_migrations = 0, ms_successful_migrations = 0, ms_failed_migrations = 0, ms_keys_migrated = 0,
                  ms_bytes_transferred = 0, ms_last_migration_time = None\<rparr>\<rparr>"

type_synonym stored_data = "(string, data_item) dict"

record 'w migration_callbacks =
  mc_get_local_keys :: "('w \<Rightarrow> stored_data \<times> 'w) option"
  mc_send_keys :: "(node_id \<Rightarrow> stored_data \<Rightarrow> 'w \<Rightarrow> (py_error + bool) \<times> 'w) option"
  mc_receive_keys :: "(stored_data \<Rightarrow> 'w \<Rightarrow> (py_error + bool) \<times> 'w) option"
  mc_delete_keys :: "(string list \<Rightarrow> 'w \<Rightarrow> py_error option \<times> 'w) option"

section \<open>Which keys move\<close>

definition migration_task_id :: "string \<Rightarrow> node_id \<Rightarrow> node_id \<Rightarrow> time \<Rightarrow> string" where
  "migration_task_id kind source target now = kind @ ''-'' @ source @ ''-to-'' @ target @ ''-'' @ str_int (py_trunc now)"

definition on_node_join ::
  "(string \<Rightarrow> nat) \<Rightarrow> ring \<Rightarrow> 'w migration_callbacks \<Rightarrow> time \<Rightarrow> node_id \<Rightarrow> migration \<Rightarrow> 'w \<Rightarrow> migration_task option \<times> migration \<times> 'w" where
  "on_node_join h rg cb now new mg w =
     (case mc_get_local_keys cb of
        None \<Rightarrow> (None, mg, w)
      | Some get_local \<Rightarrow>
          let (local_keys, w1) = get_local w;
              moved = filter (\<lambda>k. get_node h rg k = Some new) (dkeys local_keys)
          in if moved = [] then (None, mg, w1)
             else let task = new_task (migration_task_id ''migrate'' (mg_local_node_id mg) new now) (mg_local_node_id mg) new moved
                  in (Some task, mg\<lparr>mg_active := dset (tk_task_id task) task (mg_active mg)\<rparr>, w1))"

definition on_node_leave :: "'w migration_callbacks \<Rightarrow> node_id \<Rightarrow> migration_task list" where
  "on_node_leave cb n = []"

definition group_key :: "string \<Rightarrow> node_id \<Rightarrow> (node_id, string list) dict \<Rightarrow> (node_id, string list) dict" where
  "group_key key target ms = dset target ((case dget ms target of Some ks \<Rightarrow> ks | None \<Rightarrow> []) @ [key]) ms"

fun group_misplaced ::
  "(string \<Rightarrow> nat) \<Rightarrow> ring \<Rightarrow> migration \<Rightarrow> string list \<Rightarrow> (node_id, string list) dict \<Rightarrow> (node_id, string list) dict" where
  "group_misplaced h rg mg [] ms = ms"
| "group_misplaced h rg mg (key # ks) ms =
     group_misplaced h rg mg ks
       (if mg_local_node_id mg \<in> set (get_nodes h rg key (mg_replication_factor mg)) then ms
        else (case get_node h rg key of
                Some owner \<Rightarrow> if owner \<noteq> [] \<and> owner \<noteq> mg_local_node_id mg then group_key key owner ms else ms
              | None \<Rightarrow> ms))"

definition calculate_rebalance_migrations ::
  "(string \<Rightarrow> nat) \<Rightarrow> ring \<Rightarrow> 'w migration_callbacks \<Rightarrow> time \<Rightarrow> migration \<Rightarrow> 'w \<Rightarrow> migration_task list \<times> migration \<times> 'w" where
  "calculate_rebalance_migrations h rg cb now mg w =
     (case mc_get_local_keys cb of
        None \<Rightarrow> ([], mg, w)
      | Some get_local \<Rightarrow>
          let (local_keys, w1) = get_local w;
              me = mg_local_node_id mg;
              tasks = map (\<lambda>(target, ks). new_task (migration_task_id ''rebalance'' me target now) me target ks)
                        (group_misplaced h rg mg (dkeys local_keys) [])
          in (tasks, mg\<lparr>mg_active := fold (\<lambda>t. dset (tk_task_id t) t) tasks (mg_active mg)\<rparr>, w1))"

section \<open>Executing a task\<close>

text \<open>One call of \<^verbatim>\<open>_send_keys\<close>: what went wrong, if anything.\<close>

definition send_batch ::
  "(py_error \<Rightarrow> string) \<Rightarrow> (node_id \<Rightarrow> stored_data \<Rightarrow> 'w \<Rightarrow> (py_error + bool) \<times> 'w) \<Rightarrow> string \<Rightarrow> node_id \<Rightarrow> stored_data \<Rightarrow> 'w \<Rightarrow>
   string option \<times> 'w" where
  "send_batch show_err send what target batch w =
     (case send target batch w of
        (Inl e, w') \<Rightarrow> (Some (show_err e), w')
      | (Inr ok, w') \<Rightarrow> (if ok then None else Some (''Failed to send '' @ what @ '' to '' @ target), w'))"

fun transfer_loop ::
  "(py_error \<Rightarrow> string) \<Rightarrow> (node_id \<Rightarrow> stored_data \<Rightarrow> 'w \<Rightarrow> (py_error + bool) \<times> 'w) \<Rightarrow> node_id \<Rightarrow> stored_data \<Rightarrow>
   string list \<Rightarrow> stored_data \<Rightarrow> nat \<Rightarrow> 'w \<Rightarrow> string option \<times> nat \<times> 'w" where
  "transfer_loop show_err send target local_keys [] keys_data progress w =
     (if keys_data = [] then (None, progress, w)
      else (case send_batch show_err send ''final batch'' target keys_data w of
              (Some e, w') \<Rightarrow> (Some e, progress, w')
            | (None, w') \<Rightarrow> (None, progress + length keys_data, w')))"
| "transfer_loop show_err send target local_keys (key # ks) keys_data progress w =
     (case dget local_keys key of
        None \<Rightarrow> transfer_loop show_err send target local_keys ks keys_data progress w
      | Some d \<Rightarrow>
          let batch = dset key d keys_data
          in if length batch \<ge> 100
             then (case send_batch show_err send ''batch'' target batch w of
                     (Some e, w') \<Rightarrow> (Some e, progress, w')
                   | (None, w') \<Rightarrow> transfer_loop show_err send target local_keys ks [] (progress + length batch) w')
             else transfer_loop show_err send target local_keys ks batch progress w)"

definition delete_step ::
  "(py_error \<Rightarrow> string) \<Rightarrow> (string \<Rightarrow> nat) \<Rightarrow> ring \<Rightarrow> migration \<Rightarrow> (string list \<Rightarrow> 'w \<Rightarrow> py_error option \<times> 'w) option \<Rightarrow>
   string list \<Rightarrow> 'w \<Rightarrow> string option \<times> 'w" where
  "delete_step show_err h rg mg delete_keys ks w =
     (case delete_keys of
        None \<Rightarrow> (None, w)
      | Some del \<Rightarrow>
          let gone = filter (\<lambda>k. mg_local_node_id mg \<notin> set (get_nodes h rg k (mg_replication_factor mg))) ks
          in if gone = [] then (None, w)
             else (let (e, w') = del gone w in (map_option show_err e, w')))"

definition keep_last :: "nat \<Rightarrow> 'a list \<Rightarrow> 'a list" where
  "keep_last n xs = (if length xs > n then drop (length xs - n) xs else xs)"

definition begin_task :: "time \<Rightarrow> migration_task \<Rightarrow> migration_task" where
  "begin_task now task = task\<lparr>tk_state := InProgress, tk_started_at := Some now\<rparr>"

text \<open>The outcome written to the task and the counters; the task leaves the table for the history.\<close>

definition finish_task :: "time \<Rightarrow> string option \<Rightarrow> nat \<Rightarrow> migration_task \<Rightarrow> migration \<Rightarrow> migration_task \<times> migration" where
  "finish_task now err sent task mg =
     (let task' = task\<lparr>tk_state := (if err = None then Completed else Failed), tk_progress := tk_progress task + sent,
                       tk_completed_at := Some now, tk_error := (if err = None then tk_error task else err)\<rparr>;
          st = mg_stats mg
      in (task',
          mg\<lparr>mg_stats := st\<lparr>ms_total_migrations := ms_total_migrations st + 1,
                ms_successful_migrations := ms_successful_migrations st + (if err = None then 1 else 0),
                ms_failed_migrations := ms_failed_migrations st + (if err = None then 0 else 1),
                ms_keys_migrated := ms_keys_migrated st + sent, ms_last_migration_time := Some now\<rparr>,
             mg_active := ddel (tk_task_id task) (mg_active mg),
             mg_history := keep_last 100 (mg_history mg @ [task'])\<rparr>))"

definition execute_migration ::
  "(py_error \<Rightarrow> string) \<Rightarrow> (string \<Rightarrow> nat) \<Rightarrow> ring \<Rightarrow> 'w migration_callbacks \<Rightarrow> time \<Rightarrow> migration_task \<Rightarrow> migration \<Rightarrow> 'w \<Rightarrow>
   migration_task \<times> migration \<times> 'w" where
  "execute_migration show_err h rg cb now task mg w =
     (case (mc_get_local_keys cb, mc_send_keys cb) of
        (Some get_local, Some send) \<Rightarrow>
          let task1 = begin_task now task;
              (local_keys, w1) = get_local w;
              (err, sent, w2) = transfer_loop show_err send (tk_target_node task1) local_keys (tk_keys task1) [] 0 w1;
              (err', w3) = (if err = None then delete_step show_err h rg mg (mc_delete_keys cb) (tk_keys task1) w2 else (err, w2));
              (task2, mg') = finish_task now err' sent task1 mg
          in (task2, mg', w3)
      | _ \<Rightarrow>
          let task1 = task\<lparr>tk_state := Failed, tk_error := Some ''Missing callbacks''\<rparr>
          in (task1, mg\<lparr>mg_active := (case dget (mg_active mg) (tk_task_id task) of
                 Some _ \<Rightarrow> dset (tk_task_id task) task1 (mg_active mg) | None \<Rightarrow> mg_active mg)\<rparr>, w))"

text \<open>One round of the migration thread.\<close>

definition migration_round ::
  "(py_error \<Rightarrow> string) \<Rightarrow> (string \<Rightarrow> nat) \<Rightarrow> ring \<Rightarrow> 'w migration_callbacks \<Rightarrow> time \<Rightarrow> migration \<Rightarrow> 'w \<Rightarrow> migration \<times> 'w" where
  "migration_round show_err h rg cb now mg w =
     fold (\<lambda>task (mg, w). snd (execute_migration show_err h rg cb now task mg w))
       (filter (\<lambda>t. tk_state t = Pending) (map snd (mg_active mg))) (mg, w)"

definition receive_migration_data :: "'w migration_callbacks \<Rightarrow> stored_data \<Rightarrow> 'w \<Rightarrow> (py_error + bool) \<times> 'w" where
  "receive_migration_data cb data w = (case mc_receive_keys cb of Some f \<Rightarrow> f data w | None \<Rightarrow> (Inr False, w))"

definition task_status :: "migration_task \<Rightarrow> json" where
  "task_status t =
     JDict [(''task_id'', JStr (tk_task_id t)), (''source'', JStr (tk_source_node t)), (''target'', JStr (tk_target_node t)),
            (''state'', JStr (migration_state_value (tk_state t))), (''progress'', JInt (int (tk_progress t))),
            (''total_keys'', JInt (int (length (tk_keys t))))]"

definition get_migration_status :: "migration \<Rightarrow> (string, json) dict" where
  "get_migration_status mg =
     [(''active_migrations'', JList (map (task_status \<circ> snd) (mg_active mg))),
      (''stats'', JDict
         [(''total_migrations'', JInt (int (ms_total_migrations (mg_stats mg)))),
          (''successful'', JInt (int (ms_successful_migrations (mg_stats mg)))),
          (''failed'', JInt (int (ms_failed_migrations (mg_stats mg)))),
          (''keys_migrated'', JInt (int (ms_keys_migrated (mg_stats mg))))])]"

definition cancel_migration :: "string \<Rightarrow> migration \<Rightarrow> bool \<times> migration" where
  "cancel_migration task_id mg =
     (case dget (mg_active mg) task_id of
        None \<Rightarrow> (False, mg)
      | Some task \<Rightarrow>
          if tk_state task \<in> {Pending, InProgress}
          then (True, mg\<lparr>mg_active := dset task_id (task\<lparr>tk_state := Cancelled\<rparr>) (mg_active mg)\<rparr>)
          else (False, mg))"

section \<open>The rebalance coordinator\<close>

record rebalancer =
  rb_local_node_id :: node_id
  rb_rebalancing :: bool

definition start_rebalance ::
  "(string \<Rightarrow> nat) \<Rightarrow> ring \<Rightarrow> 'w migration_callbacks \<Rightarrow> time \<Rightarrow> rebalancer \<Rightarrow> migration \<Rightarrow> 'w \<Rightarrow> bool \<times> rebalancer \<times> migration \<times> 'w" where
  "start_rebalance h rg cb now rb mg w =
     (if rb_rebalancing rb then (False, rb, mg, w)
      else let (tasks, mg', w') = calculate_rebalance_migrations h rg cb now mg w
           in (True, rb\<lparr>rb_rebalancing := True\<rparr>, mg', w'))"

definition is_rebalancing :: "rebalancer \<Rightarrow> bool" where
  "is_rebalancing rb = rb_rebalancing rb"

definition get_rebalance_progress :: "rebalancer \<Rightarrow> migration \<Rightarrow> (string, json) dict" where
  "get_rebalance_progress rb mg =
     (let active = map snd (mg_active mg);
          total_keys = sum_list (map (\<lambda>t. length (tk_keys t)) active);
          migrated_keys = sum_list (map tk_progress active)
      in [(''is_rebalancing'', JBool (rb_rebalancing rb)), (''active_migrations'', JInt (int (length active))),
          (''total_keys'', JInt (int total_keys)), (''migrated_keys'', JInt (int migrated_keys)),
          (''progress_percent'', if total_keys > 0 then JFloat (of_nat migrated_keys / of_nat total_keys * 100) else JInt 100)])"

end
