(* ===== verification/MigrationNode.thy ===== *)
theory MigrationNode
  imports Migration
begin

text \<open>
  The node's side of shard migration (\<^verbatim>\<open>src/minidb/node.py\<close>): sending a batch, importing it at the target
  with the fan-out to the other replicas, and the callbacks the node gives its migration manager.

  \<^item> What one node knows of the others and what the network does to the messages of a migration are fields
    of \<open>migration_env\<close>; \<open>me_int\<close> and \<open>me_float\<close> are \<^verbatim>\<open>int()\<close> and \<^verbatim>\<open>float()\<close> on strings.
  \<^item> An \<^verbatim>\<open>expires_at\<close> or \<^verbatim>\<open>coordinator_id\<close> of another JSON type than the store's is rejected when it is
    imported (the code stores it and fails when it is used).
\<close>

record migration_env =
  me_int :: "string \<Rightarrow> int option"
  me_float :: "string \<Rightarrow> time option"
  me_codec :: float_codec
  me_hash :: "string \<Rightarrow> nat"
  me_ring :: ring
  me_factor :: int
  me_peers :: "node_id \<Rightarrow> peers"
  me_delivery :: "node_id \<Rightarrow> delivery"

section \<open>The import payload\<close>

definition import_json :: "node_id \<Rightarrow> time \<Rightarrow> data_item \<Rightarrow> json" where
  "import_json me now item =
     (let (value, expires_at, version, created_at, updated_at, coordinator_id) =
        (case item of Full v e ver c u coord \<Rightarrow> (v, e, ver, c, u, coord) | Short v e ver \<Rightarrow> (v, e, ver, now, now, me))
      in JDict [(''value'', value), (''expires_at'', of_opt JFloat expires_at), (''version'', JInt version),
                (''created_at'', JFloat created_at), (''updated_at'', JFloat updated_at), (''coordinator_id'', JStr coordinator_id)])"

text \<open>\<^verbatim>\<open>int(x)\<close> and \<^verbatim>\<open>float(x)\<close> of a JSON value.\<close>

fun py_int :: "(string \<Rightarrow> int option) \<Rightarrow> json \<Rightarrow> int res" where
  "py_int pint (JInt i) = Inr i"
| "py_int pint (JBool b) = Inr (if b then 1 else 0)"
| "py_int pint (JFloat x) = Inr (py_trunc x)"
| "py_int pint (JStr s) = (case pint s of Some i \<Rightarrow> Inr i | None \<Rightarrow> Inl ValueError)"
| "py_int pint _ = Inl TypeError"

fun py_float :: "(string \<Rightarrow> time option) \<Rightarrow> json \<Rightarrow> time res" where
  "py_float pflt (JInt i) = Inr (of_int i)"
| "py_float pflt (JBool b) = Inr (if b then 1 else 0)"
| "py_float pflt (JFloat x) = Inr x"
| "py_float pflt (JStr s) = (case pflt s of Some x \<Rightarrow> Inr x | None \<Rightarrow> Inl ValueError)"
| "py_float pflt _ = Inl TypeError"

definition float_or :: "(string \<Rightarrow> time option) \<Rightarrow> json \<Rightarrow> time option res" where
  "float_or pflt j = (if truthy j then bind_res (py_float pflt j) (\<lambda>t. Inr (Some t)) else Inr None)"

definition decode_import :: "migration_env \<Rightarrow> json \<Rightarrow> (import_item \<times> bool) res" where
  "decode_import env j =
     bind_res (as_dict j) (\<lambda>d.
     bind_res (dict_item d ''version'') (\<lambda>ver.
     bind_res (py_int (me_int env) ver) (\<lambda>version.
     bind_res (float_or (me_float env) (dict_get d ''updated_at'' JNull)) (\<lambda>updated_at.
     bind_res (float_or (me_float env) (dict_get d ''created_at'' JNull)) (\<lambda>created_at.
     bind_res (as_opt as_time (dict_get d ''expires_at'' JNull)) (\<lambda>expires_at.
     bind_res (as_str (dict_get d ''coordinator_id'' (JStr []))) (\<lambda>coordinator_id.
       Inr (\<lparr>im_value = dict_get d ''value'' JNull, im_version = version, im_updated_at = updated_at,
             im_created_at = created_at, im_expires_at = expires_at, im_coordinator_id = coordinator_id\<rparr>,
            dget d ''value'' \<noteq> None))))))))"

text \<open>The loop over the payload. A missing value raises only when the item is to be stored.\<close>

fun import_payload ::
  "migration_env \<Rightarrow> time \<Rightarrow> (string, json) dict \<Rightarrow> import_counts \<times> storage \<Rightarrow> py_error option \<times> import_counts \<times> storage" where
  "import_payload env now [] (c, s) = (None, c, s)"
| "import_payload env now ((key, j) # kvs) (c, s) =
     (case decode_import env j of
        Inl e \<Rightarrow> (Some e, c, s)
      | Inr (item, has_value) \<Rightarrow>
          (case import_key (get_node (me_hash env) (me_ring env)) (me_codec env) now (key, item) (c, s) of
             (Some e, c', s') \<Rightarrow> (Some e, c', s')
           | (None, c', s') \<Rightarrow>
               if \<not> has_value \<and> ic_imported c' \<noteq> ic_imported c
               then (Some KeyError, c, s\<lparr>sg_store := snd (kv_get_with_metadata (sg_store s) now key)\<rparr>)
               else import_payload env now kvs (c', s')))"

fun fan_out_items ::
  "migration_env \<Rightarrow> time \<Rightarrow> node_id \<Rightarrow> (string \<times> json \<times> int \<times> repair_metadata) list \<Rightarrow> node_stores \<Rightarrow> nat \<times> node_stores" where
  "fan_out_items env now n [] w = (0, w)"
| "fan_out_items env now n ((key, value, version, metadata) # items) w =
     (let targets = filter (\<lambda>r. r \<noteq> n) (get_nodes (me_hash env) (me_ring env) key (me_factor env));
          (k, w1) = replicate_value_to_nodes (me_int env) (me_float env) (me_codec env) (me_peers env n) n now key value version
                      metadata targets w;
          (k', w2) = fan_out_items env now n items w1
      in (k + k', w2))"

definition no_imports :: import_counts where
  "no_imports = \<lparr>ic_imported = 0, ic_skipped = 0, ic_fanout = []\<rparr>"

definition handle_import_keys ::
  "migration_env \<Rightarrow> time \<Rightarrow> node_id \<Rightarrow> string list \<Rightarrow> node_stores \<Rightarrow> (py_error + response) \<times> node_stores" where
  "handle_import_keys env now n args w =
     (if args = [] then (Inr (Failure ''__IMPORT_KEYS requires a payload''), w)
      else
        (case loads (me_codec env) (hd args) of
           Inl e \<Rightarrow> (Inr (Failure ''Invalid import payload''), w)
         | Inr (JDict kvs) \<Rightarrow>
             (case import_payload env now kvs (no_imports, w n) of
                (Some e, c, s) \<Rightarrow> (Inl e, w(n := s))
              | (None, c, s) \<Rightarrow>
                  let (replicated, w') = fan_out_items env now n (ic_fanout c) (w(n := s))
                  in (Inr (Success (JDict [(''imported'', JInt (int (ic_imported c))), (''skipped'', JInt (int (ic_skipped c))),
                        (''replicated'', JInt (int replicated))])), w'))
         | Inr _ \<Rightarrow> (Inl AttributeError, w)))"

section \<open>The manager's callbacks\<close>

definition send_migration_keys :: "migration_env \<Rightarrow> time \<Rightarrow> node_id \<Rightarrow> node_id \<Rightarrow> stored_data \<Rightarrow> node_stores \<Rightarrow> bool \<times> node_stores" where
  "send_migration_keys env now me target keys_data w =
     (if \<not> pe_known (me_peers env me) target \<or> me_delivery env target = Dropped then (False, w)
      else
        let payload = JDict (map (\<lambda>(k, item). (k, import_json me now item)) keys_data);
            (r, w') = handle_import_keys env now target [dumps (me_codec env) payload] w
        in (me_delivery env target = Replied \<and> is_success r, w'))"

definition node_send :: "migration_env \<Rightarrow> time \<Rightarrow> node_id \<Rightarrow> node_id \<Rightarrow> stored_data \<Rightarrow> node_stores \<Rightarrow> (py_error + bool) \<times> node_stores" where
  "node_send env now me target data w = (let (ok, w') = send_migration_keys env now me target data w in (Inr ok, w'))"

definition node_migration_callbacks :: "migration_env \<Rightarrow> time \<Rightarrow> node_id \<Rightarrow> node_stores migration_callbacks" where
  "node_migration_callbacks env now me =
     \<lparr>mc_get_local_keys = Some (\<lambda>w. let (data, st) = kv_get_all_data (sg_store (w me)) now in (data, w(me := (w me)\<lparr>sg_store := st\<rparr>))),
      mc_send_keys = Some (node_send env now me),
      mc_receive_keys = Some (\<lambda>data w. let (e, s) = receive_migration_keys (me_codec env) (w me) now data
          in (case e of Some err \<Rightarrow> Inl err | None \<Rightarrow> Inr True, w(me := s))),
      mc_delete_keys = Some (\<lambda>ks w. let (e, s) = delete_migrated_keys (me_codec env) (w me) now ks in (e, w(me := s)))\<rparr>"

section \<open>Nothing is lost\<close>

definition holds_order :: "order_key \<Rightarrow> time \<Rightarrow> string \<Rightarrow> storage \<Rightarrow> bool" where
  "holds_order K now k s \<longleftrightarrow> (\<exists>m. kv_view now (sg_store s) k = Some m \<and> K \<le> metadata_sort_key m)"

definition movable :: "migration_env \<Rightarrow> time \<Rightarrow> key_metadata \<Rightarrow> bool" where
  "movable env now m \<longleftrightarrow> md_version m \<noteq> 0 \<and> md_updated_at m \<noteq> 0 \<and> md_created_at m \<noteq> 0 \<and> \<not> md_is_expired now m \<and>
     args_ok (me_int env) (me_float env) (me_codec env) m \<and> json_wf (me_codec env) (import_json [] now (item_of_meta m))"

text \<open>A storage that shows, for every key, an entry as new as another one shows.\<close>

definition no_worse :: "time \<Rightarrow> storage \<Rightarrow> storage \<Rightarrow> bool" where
  "no_worse now s s' \<longleftrightarrow> (\<forall>K k. holds_order K now k s \<longrightarrow> holds_order K now k s')"

lemma no_worse_refl [simp]: "no_worse now s s"
  by (simp add: no_worse_def)

lemma no_worse_trans [trans]: "no_worse now s s' \<Longrightarrow> no_worse now s' s'' \<Longrightarrow> no_worse now s s''"
  by (simp add: no_worse_def)

lemma no_worseD: "no_worse now s s' \<Longrightarrow> holds_order K now k s \<Longrightarrow> holds_order K now k s'"
  unfolding no_worse_def by blast

lemma no_worse_view: "kv_view now (sg_store s') = kv_view now (sg_store s) \<Longrightarrow> no_worse now s s'"
  by (simp add: no_worse_def holds_order_def)

lemma lww_write_no_worse:
  "md_version m \<noteq> 0 \<Longrightarrow> \<not> md_is_expired now m \<Longrightarrow> no_worse now s (lww_write fc k (now, m) s)"
  by (auto simp: no_worse_def holds_order_def lww_write_view split: option.splits)

lemma lww_write_holds:
  assumes "md_version m \<noteq> 0" and "\<not> md_is_expired now m"
  shows "holds_order (metadata_sort_key m) now k (lww_write fc k (now, m) s)"
  unfolding holds_order_def lww_write_view [OF assms] by (auto split: option.splits)

lemma import_key_write:
  assumes "movable env now m"
    and "item = \<lparr>im_value = md_value m, im_version = md_version m, im_updated_at = Some (md_updated_at m),
      im_created_at = Some (md_created_at m), im_expires_at = md_expires_at m, im_coordinator_id = md_coordinator_id m\<rparr>"
    and "import_key owner fc now (k, item) (c, s) = (e, c', s')"
  shows "s' = lww_write fc k (now, m) s" and "ic_fanout c' = ic_fanout c \<or> ic_fanout c' = ic_fanout c @ [(k, md_value m, md_version m, meta_dict m)]"
proof -
  let ?r = "lww_apply fc s now k (md_value m) (md_version m) (md_expires_at m) (md_created_at m) (md_updated_at m) (md_coordinator_id m)"
  obtain err st s1 where r: "?r = ((err, st), s1)" by (metis prod.exhaust)
  have "or_time (Some (md_updated_at m)) now = md_updated_at m" "or_time (Some (md_created_at m)) t = md_created_at m" for t
    using assms(1) by (simp_all add: movable_def or_time_def truthy_time_def)
  with assms(3) r have "s' = s1 \<and> (ic_fanout c' = ic_fanout c \<or> ic_fanout c' = ic_fanout c @ [(k, md_value m, md_version m, meta_dict m)])"
    by (cases err; cases st) (auto simp: import_key_def assms(2) meta_dict_def Let_def)
  then show "s' = lww_write fc k (now, m) s" "ic_fanout c' = ic_fanout c \<or> ic_fanout c' = ic_fanout c @ [(k, md_value m, md_version m, meta_dict m)]"
    using r by (auto simp: lww_write_def)
qed

lemma decode_import_json:
  assumes "movable env now m"
  shows "decode_import env (import_json me now (item_of_meta m)) =
    Inr (\<lparr>im_value = md_value m, im_version = md_version m, im_updated_at = Some (md_updated_at m),
      im_created_at = Some (md_created_at m), im_expires_at = md_expires_at m, im_coordinator_id = md_coordinator_id m\<rparr>, True)"
proof -
  have "as_opt as_time (of_opt JFloat x) = Inr x" for x by (cases x) (simp_all add: as_opt_def of_opt_def as_time_def)
  with assms show ?thesis
    by (simp add: movable_def decode_import_def import_json_def item_of_meta_def as_dict_def dict_item_def dict_get_def
        bind_res_def float_or_def as_str_def)
qed

definition import_dict :: "node_id \<Rightarrow> time \<Rightarrow> (string \<times> key_metadata) list \<Rightarrow> (string, json) dict" where
  "import_dict me now kms = map (\<lambda>(k, m). (k, import_json me now (item_of_meta m))) kms"

definition moved_item :: "migration_env \<Rightarrow> time \<Rightarrow> string \<times> json \<times> int \<times> repair_metadata \<Rightarrow> bool" where
  "moved_item env now x \<longleftrightarrow> (\<exists>k m. movable env now m \<and> x = (k, md_value m, md_version m, meta_dict m))"

lemma import_payload_step:
  assumes "movable env now m" and "import_payload env now ((k, import_json me now (item_of_meta m)) # kvs) (c, s) = (e, c', s')"
  obtains c1 where "set (ic_fanout c1) \<subseteq> set (ic_fanout c) \<union> Collect (moved_item env now)"
    and "e \<noteq> None \<and> s' = lww_write (me_codec env) k (now, m) s \<and> c' = c1 \<or>
      import_payload env now kvs (c1, lww_write (me_codec env) k (now, m) s) = (e, c', s')"
proof -
  let ?item = "\<lparr>im_value = md_value m, im_version = md_version m, im_updated_at = Some (md_updated_at m),
      im_created_at = Some (md_created_at m), im_expires_at = md_expires_at m, im_coordinator_id = md_coordinator_id m\<rparr>"
  obtain e1 c1 s1 where i: "import_key (get_node (me_hash env) (me_ring env)) (me_codec env) now (k, ?item) (c, s) = (e1, c1, s1)"
    by (metis prod_cases3)
  note w = import_key_write [OF assms(1) refl i]
  have "set (ic_fanout c1) \<subseteq> set (ic_fanout c) \<union> Collect (moved_item env now)"
    using w(2) assms(1) by (auto simp: moved_item_def)
  then show ?thesis
    using assms(2) w(1) by (intro that [of c1]) (auto simp: decode_import_json [OF assms(1)] i split: option.splits)
qed

lemma import_payload_effect:
  assumes "\<forall>(k, m) \<in> set kms. movable env now m" and "import_payload env now (import_dict me now kms) (c, s) = (e, c', s')"
  shows "no_worse now s s' \<and>
    (e = None \<longrightarrow> (\<forall>(k, m) \<in> set kms. holds_order (metadata_sort_key m) now k s')) \<and>
    set (ic_fanout c') \<subseteq> set (ic_fanout c) \<union> Collect (moved_item env now)"
  using assms
proof (induction kms arbitrary: c s)
  case Nil
  then show ?case by (simp add: import_dict_def)
next
  case (Cons km kms)
  obtain k0 m0 where km: "km = (k0, m0)" by fastforce
  have m0: "movable env now m0" "md_version m0 \<noteq> 0" "\<not> md_is_expired now m0" using Cons.prems(1) by (auto simp: km movable_def)
  let ?s = "lww_write (me_codec env) k0 (now, m0) s"
  have "import_payload env now ((k0, import_json me now (item_of_meta m0)) # import_dict me now kms) (c, s) = (e, c', s')"
    using Cons.prems(2) by (simp add: import_dict_def km)
  from import_payload_step [OF m0(1) this] obtain c1 where
    f: "set (ic_fanout c1) \<subseteq> set (ic_fanout c) \<union> Collect (moved_item env now)" and
    n: "e \<noteq> None \<and> s' = ?s \<and> c' = c1 \<or> import_payload env now (import_dict me now kms) (c1, ?s) = (e, c', s')" .
  note keep = lww_write_no_worse [OF m0(2,3), of s "me_codec env" k0]
  note new = lww_write_holds [OF m0(2,3), of k0 "me_codec env" s]
  from n show ?case
  proof
    assume "e \<noteq> None \<and> s' = ?s \<and> c' = c1"
    then show ?thesis using f keep by auto
  next
    assume i: "import_payload env now (import_dict me now kms) (c1, ?s) = (e, c', s')"
    have IH: "no_worse now ?s s'" "e = None \<Longrightarrow> \<forall>(k, m) \<in> set kms. holds_order (metadata_sort_key m) now k s'"
        "set (ic_fanout c') \<subseteq> set (ic_fanout c1) \<union> Collect (moved_item env now)"
      using Cons.IH [OF _ i] Cons.prems(1) by simp_all
    have "holds_order (metadata_sort_key m0) now k0 s'" using no_worseD [OF IH(1) new] .
    with IH(2,3) f no_worse_trans [OF keep IH(1)] show ?thesis by (auto simp: km)
  qed
qed

lemma replicate_value_no_worse:
  assumes "movable env now m"
  shows "no_worse now (w x) (snd (replicate_value_to_nodes (me_int env) (me_float env) (me_codec env) pe n now k
    (md_value m) (md_version m) (meta_dict m) ts w) x)"
proof (induction ts arbitrary: w)
  case (Cons t ts)
  have m: "args_ok (me_int env) (me_float env) (me_codec env) m" "md_version m \<noteq> 0" "\<not> md_is_expired now m"
    using assms by (auto simp: movable_def)
  let ?w = "w(t := lww_write (me_codec env) k (now, m) (w t))"
  let ?rest = "\<lambda>w. snd (replicate_value_to_nodes (me_int env) (me_float env) (me_codec env) pe n now k (md_value m) (md_version m) (meta_dict m) ts w)"
  have "no_worse now (w x) (?w x)" using lww_write_no_worse [OF m(2,3)] by simp
  then have "no_worse now (w x) (?rest ?w x)" by (rule no_worse_trans [OF _ Cons.IH])
  moreover have "snd (replicate_value_to_nodes (me_int env) (me_float env) (me_codec env) pe n now k (md_value m) (md_version m)
      (meta_dict m) (t # ts) w) = ?rest w \<or>
    snd (replicate_value_to_nodes (me_int env) (me_float env) (me_codec env) pe n now k (md_value m) (md_version m)
      (meta_dict m) (t # ts) w) = ?rest ?w"
    using replica_set_applies [OF m(1), of "w t" now k] by (simp add: meta_dict_def Let_def case_prod_unfold)
  ultimately show ?case using Cons.IH [of w] by metis
qed simp

lemma fan_out_no_worse:
  "\<forall>i \<in> set items. moved_item env now i \<Longrightarrow> no_worse now (w x) (snd (fan_out_items env now n items w) x)"
proof (induction items arbitrary: w)
  case (Cons i items)
  from Cons.prems obtain k m where m: "movable env now m" "i = (k, md_value m, md_version m, meta_dict m)"
    by (auto simp: moved_item_def)
  let ?w = "snd (replicate_value_to_nodes (me_int env) (me_float env) (me_codec env) (me_peers env n) n now k (md_value m) (md_version m)
    (meta_dict m) (filter (\<lambda>r. r \<noteq> n) (get_nodes (me_hash env) (me_ring env) k (me_factor env))) w)"
  have "no_worse now (?w x) (snd (fan_out_items env now n items ?w) x)" using Cons by simp
  from no_worse_trans [OF replicate_value_no_worse [OF m(1)] this] show ?case by (simp add: m(2) case_prod_unfold Let_def)
qed simp

text \<open>One batch: no node is worse off, and if the sender hears of success the target holds all of it.\<close>

lemma send_migration_effect:
  assumes "float_codec_ok (me_codec env)" and "distinct (map fst kms)" and "\<forall>(k, m) \<in> set kms. movable env now m"
    and "send_migration_keys env now me target (map (\<lambda>(k, m). (k, item_of_meta m)) kms) w = (ok, w')"
  shows "no_worse now (w x) (w' x) \<and> (ok \<longrightarrow> (\<forall>(k, m) \<in> set kms. holds_order (metadata_sort_key m) now k (w' target)))"
proof (cases "\<not> pe_known (me_peers env me) target \<or> me_delivery env target = Dropped")
  case True
  then show ?thesis using assms(4) by (auto simp: send_migration_keys_def)
next
  case False
  let ?p = "JDict (import_dict me now kms)"
  have "json_wf (me_codec env) (import_json me now (item_of_meta m)) = json_wf (me_codec env) (import_json [] now (item_of_meta m))" for m
    by (simp add: import_json_def item_of_meta_def)
  then have "json_wf (me_codec env) ?p"
    using assms(2,3) by (auto simp: import_dict_def movable_def list_all_iff case_prod_unfold comp_def)
  then have l: "loads (me_codec env) (dumps (me_codec env) ?p) = Inr ?p" by (rule loads_dumps [OF assms(1)])
  obtain e c s where i: "import_payload env now (import_dict me now kms) (no_imports, w target) = (e, c, s)" by (metis prod_cases3)
  from import_payload_effect [OF assms(3) i] have eff: "no_worse now (w target) s"
    "e = None \<Longrightarrow> \<forall>(k, m) \<in> set kms. holds_order (metadata_sort_key m) now k s" "\<forall>x \<in> set (ic_fanout c). moved_item env now x"
    by (auto simp: no_imports_def)
  have up: "no_worse now (w x) ((w(target := s)) x)" for x using eff(1) by simp
  obtain r w1 where h: "handle_import_keys env now target [dumps (me_codec env) ?p] w = (r, w1)" by fastforce
  have pay: "JDict (map (\<lambda>(k, item). (k, import_json me now item)) (map (\<lambda>(k, m). (k, item_of_meta m)) kms)) = ?p"
    by (simp add: import_dict_def case_prod_unfold comp_def)
  have "(ok, w') = (me_delivery env target = Replied \<and> is_success r, w1)"
    using assms(4) False unfolding send_migration_keys_def Let_def pay h by simp
  then have w': "w' = w1" "ok \<Longrightarrow> is_success r" by auto
  show ?thesis
  proof (cases e)
    case (Some err)
    then have "w1 = w(target := s)" "r = Inl err" using h by (auto simp: handle_import_keys_def l i simp del: dumps.simps)
    then show ?thesis using up w' by (auto simp: is_success_def)
  next
    case None
    then have w1: "w1 = snd (fan_out_items env now target (ic_fanout c) (w(target := s)))"
      using h by (auto simp: handle_import_keys_def l i case_prod_unfold Let_def simp del: dumps.simps)
    note fan = fan_out_no_worse [OF eff(3), of "w(target := s)" _ target]
    from fan [of target] eff(2) [OF None] have "\<forall>(k, m) \<in> set kms. holds_order (metadata_sort_key m) now k (w1 target)"
      by (auto simp: w1 intro: no_worseD)
    with no_worse_trans [OF up fan] show ?thesis by (simp add: w'(1) w1)
  qed
qed

lemma dict_update_map: "dset k (f v) (map (\<lambda>(k, v). (k, f v)) d) = map (\<lambda>(k, v). (k, f v)) (dset k v d)"
  by (induction d) auto

lemma dict_update_subset: "set (dset k v d) \<subseteq> insert (k, v) (set d)"
  by (induction d) auto

abbreviation as_items :: "(string \<times> key_metadata) list \<Rightarrow> stored_data" where
  "as_items kms \<equiv> map (\<lambda>(k, m). (k, item_of_meta m)) kms"

lemma send_batch_effect:
  assumes "float_codec_ok (me_codec env)" and "distinct (map fst kms)" and "\<forall>(k, m) \<in> set kms. movable env now m"
    and "send_batch se (node_send env now me) what target (as_items kms) w = (err, w')"
  shows "no_worse now (w x) (w' x) \<and> (err = None \<longrightarrow> (\<forall>(k, m) \<in> set kms. holds_order (metadata_sort_key m) now k (w' target)))"
proof -
  obtain ok w1 where s: "send_migration_keys env now me target (as_items kms) w = (ok, w1)" by fastforce
  with assms(4) have "w' = w1" "err = None \<Longrightarrow> ok" by (auto simp: send_batch_def node_send_def split: if_splits)
  with send_migration_effect [OF assms(1-3) s] show ?thesis by auto
qed

lemma transfer_effect:
  assumes codec: "float_codec_ok (me_codec env)" and wf: "distinct (map fst lms)" and mov: "\<forall>(k, m) \<in> set lms. movable env now m"
    and "distinct (map fst kms)" and "set kms \<subseteq> set lms"
    and "transfer_loop se (node_send env now me) target (as_items lms) ks (as_items kms) p w = (err, n, w')"
  shows "(\<forall>x. no_worse now (w x) (w' x)) \<and>
    (err = None \<longrightarrow> (\<forall>(k, m) \<in> set kms. holds_order (metadata_sort_key m) now k (w' target)) \<and>
       (\<forall>k \<in> set ks. \<forall>m. map_of lms k = Some m \<longrightarrow> holds_order (metadata_sort_key m) now k (w' target)))"
  using assms(4-)
proof (induction ks arbitrary: kms p w)
  case Nil
  then have mv: "\<forall>(k, m) \<in> set kms. movable env now m" using mov by auto
  show ?case
  proof (cases "kms = []")
    case True
    then show ?thesis using Nil by auto
  next
    case False
    obtain e w1 where s: "send_batch se (node_send env now me) ''final batch'' target (as_items kms) w = (e, w1)" by fastforce
    with Nil.prems(3) False have "w' = w1" "err = e" by (auto split: option.splits)
    with send_batch_effect [OF codec Nil.prems(1) mv s] show ?thesis by auto
  qed
next
  case (Cons k ks)
  show ?case
  proof (cases "map_of lms k")
    case None
    then have "dget (as_items lms) k = None" by (simp add: dict_get_map_snd)
    with Cons.prems(3) have "transfer_loop se (node_send env now me) target (as_items lms) ks (as_items kms) p w = (err, n, w')" by simp
    from Cons.IH [OF Cons.prems(1,2) this] None show ?thesis by simp
  next
    case (Some m)
    let ?kms = "dset k m kms"
    have d: "dget (as_items lms) k = Some (item_of_meta m)" using Some by (simp add: dict_get_map_snd)
    have kms: "distinct (map fst ?kms)" "set ?kms \<subseteq> set lms" "set kms \<subseteq> insert (k, m) (set kms)" 
      using Cons.prems(1,2) map_of_SomeD [OF Some] dict_update_subset [of k m kms] by (auto simp: distinct_update)
    then have mv: "\<forall>(k, m) \<in> set ?kms. movable env now m" using mov by auto
    have upd: "map_of ?kms k' = (if k' = k then Some m else map_of kms k')" for k' by (simp add: update_conv')
    have old: "(k', m') \<in> set ?kms" if "(k', m') \<in> set kms" for k' m'
    proof (cases "k' = k")
      case True
      then have "m' = m" using that Cons.prems(2) wf Some by (metis map_of_is_SomeI option.inject subsetD)
      with True show ?thesis using upd [of k] map_of_SomeD by fastforce
    next
      case False
      then show ?thesis using that Cons.prems(1) upd [of k'] by (metis map_of_SomeD map_of_is_SomeI)
    qed
    have new: "(k, m) \<in> set ?kms" using upd [of k] map_of_SomeD by fastforce
    show ?thesis
    proof (cases "length ?kms \<ge> 100")
      case True
      obtain e w1 where s: "send_batch se (node_send env now me) ''batch'' target (as_items ?kms) w = (e, w1)" by fastforce
      note eff = send_batch_effect [OF codec kms(1) mv s]
      show ?thesis
      proof (cases e)
        case (Some x)
        then have "w' = w1" "err = Some x" using Cons.prems(3) True s d by (auto simp: dict_update_map)
        then show ?thesis using eff by auto
      next
        case None
        then have "transfer_loop se (node_send env now me) target (as_items lms) ks (as_items []) (p + length ?kms) w1 = (err, n, w')"
          using Cons.prems(3) True s d by (auto simp: dict_update_map)
        from Cons.IH [OF _ _ this] have IH: "\<forall>x. no_worse now (w1 x) (w' x)"
          "err = None \<Longrightarrow> \<forall>k \<in> set ks. \<forall>m. map_of lms k = Some m \<longrightarrow> holds_order (metadata_sort_key m) now k (w' target)" by auto
        have "no_worse now (w x) (w' x)" for x by (rule no_worse_trans [OF conjunct1 [OF eff] spec [OF IH(1)]])
        moreover have "holds_order (metadata_sort_key m') now k' (w' target)" if "(k', m') \<in> set ?kms" for k' m'
          using eff None that by (intro no_worseD [OF spec [OF IH(1)]]) auto
        ultimately show ?thesis using IH(2) old new \<open>map_of lms k = Some m\<close> by auto
      qed
    next
      case False
      then have "transfer_loop se (node_send env now me) target (as_items lms) ks (as_items ?kms) p w = (err, n, w')"
        using Cons.prems(3) d by (auto simp: dict_update_map)
      from Cons.IH [OF kms(1,2) this] have IH: "\<forall>x. no_worse now (w x) (w' x)"
        "err = None \<Longrightarrow> (k', m') \<in> set ?kms \<Longrightarrow> holds_order (metadata_sort_key m') now k' (w' target)"
        "err = None \<Longrightarrow> \<forall>k \<in> set ks. \<forall>m. map_of lms k = Some m \<longrightarrow> holds_order (metadata_sort_key m) now k (w' target)" for k' m'
        by auto
      then show ?thesis using old new Some by auto
    qed
  qed
qed

lemma delete_migrated_keeps:
  "k \<notin> set ks \<Longrightarrow> kv_view now (sg_store (snd (delete_migrated_keys fc s now ks))) k = kv_view now (sg_store s) k"
proof (induction ks arbitrary: s)
  case (Cons key ks)
  obtain md st1 where g: "kv_get_with_metadata (sg_store s) now key = (md, st1)" by fastforce
  then have "kv_view now st1 = kv_view now (sg_store s)" using kv_view_get_with_metadata [of now now "sg_store s" key] by simp
  then show ?case using Cons by (simp add: g case_prod_unfold Let_def kv_view_delete)
qed simp

lemma live_store:
  assumes "kv_wf st"
  shows "kv_view now st = map_of (kv_store (kv_cleanup_expired st now))"
proof -
  have "kv_view now (kv_cleanup_expired st now) k = dget (kv_store (kv_cleanup_expired st now)) k" for k
    using kv_get_all_data_live [OF assms, of now]
    by (auto simp: kv_view_apply entry_view_def list_all_iff split: option.splits dest!: map_of_SomeD)
  with kv_view_cleanup [OF assms order_refl, of now] show ?thesis by auto
qed

lemma node_get_local:
  assumes "kv_wf (sg_store (w me))"
  shows "\<exists>lms w1. the (mc_get_local_keys (node_migration_callbacks env now me)) w = (as_items lms, w1) \<and> dwf lms \<and>
    map_of lms = kv_view now (sg_store (w me)) \<and> (\<forall>x. kv_view now (sg_store (w1 x)) = kv_view now (sg_store (w x)))"
proof -
  let ?c = "kv_cleanup_expired (sg_store (w me)) now"
  have "kv_wf ?c" using assms by (rule kv_wf_cleanup)
  then have "dwf (kv_store ?c)" by (simp add: kv_wf_def)
  then show ?thesis
    using live_store [OF assms, of now] kv_view_cleanup [OF assms order_refl, of now]
    by (intro exI [of _ "kv_store ?c"] exI [of _ "w(me := (w me)\<lparr>sg_store := ?c\<rparr>)"])
      (simp add: node_migration_callbacks_def kv_get_all_data_def Let_def)
qed

text \<open>C12: Migration loses no key. Whatever the network does to the batches, the imports and their fan-out,
  after a task has run every key the node showed is still shown as new or newer by the node itself or by
  the target of the task, and no other node is worse off for any key. (Entries have a non-zero version and
  timestamps and survive printing and parsing.)\<close>

theorem migration_loses_nothing:
  assumes "float_codec_ok (me_codec env)" and "kv_wf (sg_store (w me))" and "tk_target_node task \<noteq> me"
    and "\<forall>k m. kv_view now (sg_store (w me)) k = Some m \<longrightarrow> movable env now m"
    and "execute_migration show_err h rg (node_migration_callbacks env now me) now task mg w = (task', mg', w')"
    and "kv_view now (sg_store (w me)) k = Some m"
  shows "(holds_order (metadata_sort_key m) now k (w' me) \<or> holds_order (metadata_sort_key m) now k (w' (tk_target_node task))) \<and>
    (x = me \<or> no_worse now (w x) (w' x))"
proof -
  let ?cb = "node_migration_callbacks env now me" and ?t = "tk_target_node task"
  obtain lms w1 where l: "the (mc_get_local_keys ?cb) w = (as_items lms, w1)" "dwf lms"
    "map_of lms = kv_view now (sg_store (w me))" "\<forall>x. kv_view now (sg_store (w1 x)) = kv_view now (sg_store (w x))"
    using node_get_local [where w = w and me = me and env = env and now = now, OF assms(2)] by blast
  have mov: "\<forall>(k, m) \<in> set lms. movable env now m" using assms(4) map_of_is_SomeI [OF l(2)] by (fastforce simp flip: l(3))
  obtain err n w2 where t: "transfer_loop show_err (node_send env now me) ?t (as_items lms) (tk_keys task) [] 0 w1 = (err, n, w2)"
    by (metis prod_cases3)
  with transfer_effect [OF assms(1) l(2) mov, of "[]" show_err me ?t "tk_keys task" 0 w1 err n w2]
  have eff: "\<forall>x. no_worse now (w1 x) (w2 x)"
    "err = None \<Longrightarrow> \<forall>k \<in> set (tk_keys task). \<forall>m. map_of lms k = Some m \<longrightarrow> holds_order (metadata_sort_key m) now k (w2 ?t)" by auto
  have w2: "no_worse now (w x) (w2 x)" for x using eff(1) no_worse_view [of now "w1 x" "w x"] l(4) no_worse_trans by metis
  have here: "holds_order (metadata_sort_key m) now k (w2 me)"
    using assms(6) by (intro no_worseD [OF w2]) (simp add: holds_order_def)
  obtain gl where gl: "mc_get_local_keys ?cb = Some gl" by (simp add: node_migration_callbacks_def)
  then have glw: "gl w = (as_items lms, w1)" using l(1) by simp
  have cb: "mc_send_keys ?cb = Some (node_send env now me)"
    "mc_delete_keys ?cb = Some (\<lambda>ks w. let (e, s) = delete_migrated_keys (me_codec env) (w me) now ks in (e, w(me := s)))"
    by (simp_all add: node_migration_callbacks_def)
  obtain err' w3 where d: "(if err = None then delete_step show_err h rg mg (mc_delete_keys ?cb) (tk_keys task) w2 else (err, w2)) = (err', w3)"
    by fastforce
  have w': "w' = w3"
    using assms(5) unfolding execute_migration_def gl cb(1)
    by (simp add: begin_task_def glw t d Let_def cong: if_cong split: prod.splits)
  let ?gone = "filter (\<lambda>k. mg_local_node_id mg \<notin> set (get_nodes h rg k (mg_replication_factor mg))) (tk_keys task)"
  have "w3 = w2 \<or> err = None \<and> w3 = w2(me := snd (delete_migrated_keys (me_codec env) (w2 me) now ?gone))"
    using d unfolding delete_step_def cb(2) by (auto simp: case_prod_unfold Let_def split: if_splits)
  then show ?thesis
  proof (elim disjE conjE)
    assume "w3 = w2"
    then show ?thesis using here w2 by (simp add: w')
  next
    assume e: "err = None" and g: "w3 = w2(me := snd (delete_migrated_keys (me_codec env) (w2 me) now ?gone))"
    have "holds_order (metadata_sort_key m) now k (w3 me) \<or> holds_order (metadata_sort_key m) now k (w3 ?t)"
    proof (cases "k \<in> set ?gone")
      case True
      then show ?thesis using eff(2) [OF e] g assms(3,6) l(3) by auto
    next
      case False
      then show ?thesis using here delete_migrated_keeps [of k ?gone now "me_codec env" "w2 me"] by (simp add: g holds_order_def)
    qed
    then show ?thesis using w2 by (simp add: w' g)
  qed
qed

definition sample_env :: migration_env where
  "sample_env = \<lparr>me_int = whole_int, me_float = whole_time, me_codec = whole_codec, me_hash = length,
     me_ring = add_node length (ring_init 1) ''b'', me_factor = 1, me_peers = (\<lambda>_. all_up), me_delivery = (\<lambda>_. Replied)\<rparr>"

definition two_nodes :: node_stores where
  "two_nodes = (\<lambda>n. if n = ''a'' then stored n [(''k'', sample_value 1 1)] else fresh_storage n)"

definition sample_task :: migration_task where
  "sample_task = new_task ''t'' ''a'' ''b'' [''k'']"

lemma sample_movable: "movable sample_env 5 (sample_value 1 1)"
proof -
  have "args_ok whole_int whole_time whole_codec (sample_value 1 1)"
    by (simp add: args_ok_def sample_value_def whole_int_def whole_time_def) code_simp
  moreover have "fc_float whole_codec 1" by code_simp
  ultimately show ?thesis
    by (simp add: movable_def sample_env_def sample_value_def md_is_expired_def truthy_time_def import_json_def item_of_meta_def of_opt_def)
qed

theorem migration_loses_nothing_witness:
  "let w' = snd (snd (execute_migration (\<lambda>_. []) length (me_ring sample_env) (node_migration_callbacks sample_env 5 ''a'') 5
       sample_task (migration_init ''a'' 1) two_nodes))
   in kv_view 5 (sg_store (w' ''a'')) ''k'' = None \<and> holds_order (1, 1, ''a'') 5 ''k'' (w' ''b'')"
proof -
  let ?r = "execute_migration (\<lambda>_. []) length (me_ring sample_env) (node_migration_callbacks sample_env 5 ''a'') 5
       sample_task (migration_init ''a'' 1) two_nodes"
  obtain t mg w' where r: "?r = (t, mg, w')" by (metis prod_cases3)
  have v: "kv_view 5 (sg_store (two_nodes ''a'')) = [''k'' \<mapsto> sample_value 1 1]"
    by (auto simp: fun_eq_iff kv_view_apply two_nodes_def stored_def sample_value_def md_is_expired_def truthy_time_def)
  have gone: "kv_view 5 (sg_store (w' ''a'')) ''k'' = None"
  proof -
    have "kv_view 5 (sg_store (snd (snd ?r) ''a'')) ''k'' = None" by code_simp
    then show ?thesis by (simp add: r)
  qed
  have "float_codec_ok (me_codec sample_env)" "kv_wf (sg_store (two_nodes ''a''))" "tk_target_node sample_task \<noteq> ''a''"
    by (simp_all add: sample_env_def whole_codec_ok two_nodes_def stored_def kv_wf_def sample_task_def new_task_def kv_init_def)
  moreover have "\<forall>k m. kv_view 5 (sg_store (two_nodes ''a'')) k = Some m \<longrightarrow> movable sample_env 5 m"
    using sample_movable by (simp add: v)
  ultimately have "holds_order (metadata_sort_key (sample_value 1 1)) 5 ''k'' (w' ''a'') \<or>
      holds_order (metadata_sort_key (sample_value 1 1)) 5 ''k'' (w' (tk_target_node sample_task))"
    using migration_loses_nothing [OF _ _ _ _ r, of "''k''" "sample_value 1 1" "''a''"] v by simp
  then have "holds_order (1, 1, ''a'') 5 ''k'' (w' ''b'')"
    using gone by (simp add: holds_order_def sample_task_def new_task_def metadata_sort_key_def sample_value_def)
  with gone show ?thesis unfolding r by simp
qed

text \<open>Migration may lose a concurrent write. Nothing stops a client from writing a key between the transfer
  of its batch and the deletion of the moved keys: the new value is deleted with the others, and the target
  keeps the old one.\<close>

theorem migration_loses_concurrent_write:
  "let cb = node_migration_callbacks sample_env 5 ''a'';
       (data, w1) = the (mc_get_local_keys cb) two_nodes;
       (err, sent, w2) = transfer_loop (\<lambda>_. []) (the (mc_send_keys cb)) ''b'' data [''k''] [] 0 w1;
       w3 = w2(''a'' := lww_write whole_codec ''k'' (5, sample_value 7 2) (w2 ''a''));
       (err', w4) = delete_step (\<lambda>_. []) length (me_ring sample_env) (migration_init ''a'' 1) (mc_delete_keys cb) [''k''] w3
   in (err, sent, err') = (None, 1, None) \<and> map_option md_value (kv_view 5 (sg_store (w3 ''a'')) ''k'') = Some (JInt 7) \<and>
      kv_view 5 (sg_store (w4 ''a'')) ''k'' = None \<and> map_option md_value (kv_view 5 (sg_store (w4 ''b'')) ''k'') = Some (JInt 1)"
  by code_simp

section \<open>Rounds and cancellation\<close>

definition table_ok :: "migration \<Rightarrow> bool" where
  "table_ok mg \<longleftrightarrow> dwf (mg_active mg) \<and> (\<forall>(task_id, t) \<in> set (mg_active mg). tk_task_id t = task_id)"

lemma execute_leaves_table:
  assumes "mc_get_local_keys cb \<noteq> None" and "mc_send_keys cb \<noteq> None"
    and "execute_migration se h rg cb now task mg w = (task', mg', w')"
  shows "mg_active mg' = ddel (tk_task_id task) (mg_active mg) \<and>
    ms_total_migrations (mg_stats mg') = ms_total_migrations (mg_stats mg) + 1"
  using assms by (auto simp: execute_migration_def finish_task_def begin_task_def Let_def split: prod.splits)

lemma execute_all:
  assumes "mc_get_local_keys cb \<noteq> None" and "mc_send_keys cb \<noteq> None"
    and "fold (\<lambda>task (mg, w). snd (execute_migration se h rg cb now task mg w)) ts (mg, w) = (mg', w')"
  shows "mg_active mg' = fold AList.delete (map tk_task_id ts) (mg_active mg) \<and>
    ms_total_migrations (mg_stats mg') = ms_total_migrations (mg_stats mg) + length ts"
  using assms(3)
proof (induction ts arbitrary: mg w)
  case (Cons t ts)
  obtain t1 mg1 w1 where e: "execute_migration se h rg cb now t mg w = (t1, mg1, w1)" by (metis prod_cases3)
  with Cons.prems have "fold (\<lambda>task (mg, w). snd (execute_migration se h rg cb now task mg w)) ts (mg1, w1) = (mg', w')" by simp
  from Cons.IH [OF this] execute_leaves_table [OF assms(1,2) e] show ?case by simp
qed simp

text \<open>A round of the migration thread drains the queue. With the callbacks set, every pending task is
  executed exactly once and leaves the table, whatever the transfers do; other tasks stay as they are.\<close>

theorem migration_round_drains:
  assumes "table_ok mg" and "mc_get_local_keys cb \<noteq> None" and "mc_send_keys cb \<noteq> None"
    and "migration_round se h rg cb now mg w = (mg', w')"
  shows "mg_active mg' = filter (\<lambda>(task_id, t). tk_state t \<noteq> Pending) (mg_active mg) \<and>
    ms_total_migrations (mg_stats mg') =
      ms_total_migrations (mg_stats mg) + length (filter (\<lambda>(task_id, t). tk_state t = Pending) (mg_active mg))"
proof -
  let ?ts = "filter (\<lambda>t. tk_state t = Pending) (map snd (mg_active mg))"
  have ts: "?ts = map snd (filter (\<lambda>(task_id, t). tk_state t = Pending) (mg_active mg))"
    by (simp add: filter_map comp_def case_prod_unfold)
  have "map tk_task_id ?ts = map fst (filter (\<lambda>(task_id, t). tk_state t = Pending) (mg_active mg))"
    unfolding ts using assms(1) by (auto simp: table_ok_def)
  note ids = this
  from execute_all [OF assms(2,3) assms(4) [unfolded migration_round_def]]
  have "mg_active mg' = filter (\<lambda>(task_id, t). task_id \<notin> set (map tk_task_id ?ts)) (mg_active mg)"
    "ms_total_migrations (mg_stats mg') = ms_total_migrations (mg_stats mg) + length ?ts"
    by (simp_all add: fold_del_filter)
  moreover have "filter (\<lambda>(task_id, t). task_id \<notin> set (map tk_task_id ?ts)) (mg_active mg) =
      filter (\<lambda>(task_id, t). tk_state t \<noteq> Pending) (mg_active mg)"
    unfolding ids using assms(1) dict_filter_keys_iff [where P = "\<lambda>t. tk_state t = Pending" and d = "mg_active mg"]
    by (intro filter_cong refl) (auto simp: table_ok_def simp del: set_map)
  ultimately show ?thesis by (simp add: ts)
qed

theorem migration_round_drains_witness:
  "mg_active (fst (migration_round (\<lambda>_. []) length (me_ring sample_env) (node_migration_callbacks sample_env 5 ''a'') 5
     ((migration_init ''a'' 1)\<lparr>mg_active := [(''t'', sample_task)]\<rparr>) two_nodes)) = []"
proof -
  let ?mg = "(migration_init ''a'' 1)\<lparr>mg_active := [(''t'', sample_task)]\<rparr>"
  obtain mg' w' where r: "migration_round (\<lambda>_. []) length (me_ring sample_env) (node_migration_callbacks sample_env 5 ''a'') 5 ?mg two_nodes = (mg', w')"
    by fastforce
  have "table_ok ?mg" by (simp add: table_ok_def sample_task_def new_task_def)
  moreover have "mc_get_local_keys (node_migration_callbacks sample_env 5 ''a'') \<noteq> None" "mc_send_keys (node_migration_callbacks sample_env 5 ''a'') \<noteq> None"
    by (simp_all add: node_migration_callbacks_def)
  ultimately have "mg_active mg' = filter (\<lambda>(task_id, t). tk_state t \<noteq> Pending) (mg_active ?mg)"
    using migration_round_drains [OF _ _ _ r] by blast
  then show ?thesis unfolding r by (simp add: sample_task_def new_task_def)
qed

text \<open>Cancelling a task that is being executed has no effect on it: the outcome overwrites the state.\<close>

lemma cancel_running_ignored:
  assumes "dget (mg_active mg) (tk_task_id task) = Some (begin_task now task)"
  shows "fst (cancel_migration (tk_task_id task) mg) \<and>
    tk_state (fst (finish_task later None sent ((begin_task now task)\<lparr>tk_state := Cancelled\<rparr>) (snd (cancel_migration (tk_task_id task) mg)))) = Completed"
  using assms by (simp add: cancel_migration_def begin_task_def finish_task_def Let_def)

text \<open>A rebalance can be started once: nothing resets the flag.\<close>

lemma second_rebalance_refused:
  "start_rebalance h rg cb now rb mg w = (ok, rb', mg', w') \<Longrightarrow> fst (start_rebalance h' rg' cb' now' rb' mg'' w'') = False"
  by (auto simp: start_rebalance_def split: if_splits prod.splits)

end
