(* ===== verification/FaultInjection.thy ===== *)
theory FaultInjection
  imports Log
begin

text \<open>
  Fault injection (\<^verbatim>\<open>src/minidb/chaos/fault_injection.py\<close>): the injector, its queries and the functions that create
  faults.

  \<^item> A call consults \<^verbatim>\<open>random.random()\<close> at most once per fault; \<open>draw\<close> gives the number drawn for a fault
    identifier in this call, \<open>spread\<close> the position of \<^verbatim>\<open>random.uniform(-j, j)\<close> between -1 and 1.
  \<^item> The callbacks act on a state \<open>'w\<close>; the pause callback runs in a thread of its own.
\<close>

section \<open>Faults\<close>

datatype fault_type =
    NETWORK_DELAY | NETWORK_DROP | NETWORK_PARTITION | DISK_SLOW | DISK_FAIL
  | PROCESS_PAUSE | MEMORY_PRESSURE | CLOCK_SKEW | LEADER_KILL | RANDOM_CRASH

definition fault_type_value :: "fault_type \<Rightarrow> string" where
  "fault_type_value t =
     (case t of NETWORK_DELAY \<Rightarrow> ''NETWORK_DELAY'' | NETWORK_DROP \<Rightarrow> ''NETWORK_DROP'' | NETWORK_PARTITION \<Rightarrow> ''NETWORK_PARTITION''
      | DISK_SLOW \<Rightarrow> ''DISK_SLOW'' | DISK_FAIL \<Rightarrow> ''DISK_FAIL'' | PROCESS_PAUSE \<Rightarrow> ''PROCESS_PAUSE''
      | MEMORY_PRESSURE \<Rightarrow> ''MEMORY_PRESSURE'' | CLOCK_SKEW \<Rightarrow> ''CLOCK_SKEW'' | LEADER_KILL \<Rightarrow> ''LEADER_KILL''
      | RANDOM_CRASH \<Rightarrow> ''RANDOM_CRASH'')"

record fault =
  ft_fault_id :: string
  ft_fault_type :: fault_type
  ft_target_nodes :: "string list"
  ft_probability :: rat
  ft_duration_seconds :: time
  ft_parameters :: "(string, json) dict"
  ft_start_time :: "time option"
  ft_active :: bool

definition new_fault :: "string \<Rightarrow> fault_type \<Rightarrow> fault" where
  "new_fault fid t =
     \<lparr>ft_fault_id = fid, ft_fault_type = t, ft_target_nodes = [], ft_probability = 1, ft_duration_seconds = 0,
      ft_parameters = [], ft_start_time = None, ft_active = True\<rparr>"

record fault_stats =
  fs_total_faults_injected :: nat
  fs_network_delays_injected :: nat
  fs_packets_dropped :: nat
  fs_disk_failures_injected :: nat
  fs_partitions_created :: nat
  fs_leader_kills :: nat

record injector =
  fi_node_id :: node_id
  fi_enabled :: bool
  fi_faults :: "(string, fault) dict"
  fi_partitioned_from :: "string set"
  fi_stats :: fault_stats

definition injector_init :: "node_id \<Rightarrow> bool \<Rightarrow> injector" where
  "injector_init n enabled =
     \<lparr>fi_node_id = n, fi_enabled = enabled, fi_faults = [], fi_partitioned_from = {},
      fi_stats = \<lparr>fs_total_faults_injected = 0, fs_network_delays_injected = 0, fs_packets_dropped = 0,
                  fs_disk_failures_injected = 0, fs_partitions_created = 0, fs_leader_kills = 0\<rparr>\<rparr>"

record 'w fault_callbacks =
  fk_on_leader_kill :: "('w \<Rightarrow> 'w) option"
  fk_on_pause :: "(json \<Rightarrow> 'w \<Rightarrow> 'w) option"
  fk_on_crash :: "('w \<Rightarrow> 'w) option"

definition fi_enable :: "injector \<Rightarrow> injector" where
  "fi_enable fi = fi\<lparr>fi_enabled := True\<rparr>"

definition fi_disable :: "injector \<Rightarrow> injector" where
  "fi_disable fi = fi\<lparr>fi_enabled := False\<rparr>"

text \<open>Iterating over the value of \<^verbatim>\<open>partition_from\<close> as \<^verbatim>\<open>set.update\<close> does: elements that are not strings never
  equal a node identifier; an unhashable one raises after the elements before it were taken.\<close>

fun hashable :: "json \<Rightarrow> bool" where
  "hashable (JList _) = False"
| "hashable (JDict _) = False"
| "hashable _ = True"

definition json_strings :: "json list \<Rightarrow> string list" where
  "json_strings vs = concat (map (\<lambda>v. case v of JStr s \<Rightarrow> [s] | _ \<Rightarrow> []) vs)"

fun iter_strings :: "json \<Rightarrow> string list \<times> py_error option" where
  "iter_strings (JList vs) =
     (json_strings (takeWhile hashable vs), if list_all hashable vs then None else Some TypeError)"
| "iter_strings (JStr s) = (map (\<lambda>c. [c]) s, None)"
| "iter_strings (JDict kvs) = (map fst kvs, None)"
| "iter_strings _ = ([], Some TypeError)"

definition partition_targets :: "fault \<Rightarrow> string list \<times> py_error option" where
  "partition_targets f = iter_strings (dict_get (ft_parameters f) ''partition_from'' (JList []))"

definition call_opt :: "('w \<Rightarrow> 'w) option \<Rightarrow> 'w \<Rightarrow> 'w" where
  "call_opt f w = (case f of Some g \<Rightarrow> g w | None \<Rightarrow> w)"

definition inject_fault ::
  "rat \<Rightarrow> time \<Rightarrow> 'w fault_callbacks \<Rightarrow> fault \<Rightarrow> injector \<Rightarrow> 'w \<Rightarrow> (py_error + bool) \<times> injector \<times> 'w" where
  "inject_fault random now cb f fi w =
     (if \<not> fi_enabled fi then (Inr False, fi, w)
      else
        let f1 = f\<lparr>ft_start_time := Some now\<rparr>;
            st = fi_stats fi;
            fi1 = fi\<lparr>fi_faults := dset (ft_fault_id f1) f1 (fi_faults fi),
                     fi_stats := st\<lparr>fs_total_faults_injected := fs_total_faults_injected st + 1\<rparr>\<rparr>;
            st1 = fi_stats fi1
        in (case ft_fault_type f1 of
              NETWORK_PARTITION \<Rightarrow>
                (let (ts, err) = partition_targets f1;
                     fi2 = fi1\<lparr>fi_partitioned_from := fi_partitioned_from fi1 \<union> set ts\<rparr>
                 in (case err of
                       Some e \<Rightarrow> (Inl e, fi2, w)
                     | None \<Rightarrow> (Inr True, fi2\<lparr>fi_stats := st1\<lparr>fs_partitions_created := fs_partitions_created st1 + 1\<rparr>\<rparr>, w)))
            | LEADER_KILL \<Rightarrow>
                (Inr True, fi1\<lparr>fi_stats := st1\<lparr>fs_leader_kills := fs_leader_kills st1 + 1\<rparr>\<rparr>, call_opt (fk_on_leader_kill cb) w)
            | PROCESS_PAUSE \<Rightarrow>
                (Inr True, fi1, call_opt (map_option (\<lambda>g. g (dict_get (ft_parameters f1) ''pause_duration'' (JFloat 5))) (fk_on_pause cb)) w)
            | RANDOM_CRASH \<Rightarrow>
                (Inr True, fi1, if random < ft_probability f1 then call_opt (fk_on_crash cb) w else w)
            | _ \<Rightarrow> (Inr True, fi1, w)))"

definition clear_fault :: "string \<Rightarrow> injector \<Rightarrow> (py_error + bool) \<times> injector" where
  "clear_fault fid fi =
     (case dget (fi_faults fi) fid of
        None \<Rightarrow> (Inr False, fi)
      | Some f \<Rightarrow>
          let (ts, err) = (if ft_fault_type f = NETWORK_PARTITION then partition_targets f else ([], None));
              fi1 = fi\<lparr>fi_partitioned_from := fi_partitioned_from fi - set ts\<rparr>
          in (case err of
                Some e \<Rightarrow> (Inl e, fi1)
              | None \<Rightarrow> (Inr True, fi1\<lparr>fi_faults := ddel fid (fi_faults fi1)\<rparr>)))"

definition clear_all_faults :: "injector \<Rightarrow> injector" where
  "clear_all_faults fi = fi\<lparr>fi_faults := [], fi_partitioned_from := {}\<rparr>"

section \<open>Queries\<close>

definition fault_is_expired :: "time \<Rightarrow> fault \<Rightarrow> bool" where
  "fault_is_expired now f =
     (if ft_duration_seconds f \<le> 0 then False
      else (case ft_start_time f of None \<Rightarrow> False | Some t \<Rightarrow> now - t > ft_duration_seconds f))"

definition targets_node :: "fault \<Rightarrow> string \<Rightarrow> bool" where
  "targets_node f n = (ft_target_nodes f = [] \<or> n \<in> set (ft_target_nodes f))"

definition fault_live :: "time \<Rightarrow> fault \<Rightarrow> bool" where
  "fault_live now f = (ft_active f \<and> \<not> fault_is_expired now f)"

fun drop_loop :: "time \<Rightarrow> (string \<Rightarrow> rat) \<Rightarrow> string \<Rightarrow> fault list \<Rightarrow> bool" where
  "drop_loop now draw n [] = False"
| "drop_loop now draw n (f # fs) =
     (if fault_live now f \<and> ft_fault_type f = NETWORK_DROP \<and> targets_node f n \<and> draw (ft_fault_id f) < ft_probability f then True
      else drop_loop now draw n fs)"

definition should_fail_network :: "time \<Rightarrow> (string \<Rightarrow> rat) \<Rightarrow> string \<Rightarrow> injector \<Rightarrow> bool \<times> injector" where
  "should_fail_network now draw n fi =
     (if \<not> fi_enabled fi then (False, fi)
      else if n \<in> fi_partitioned_from fi then (True, fi)
      else if drop_loop now draw n (map snd (fi_faults fi))
      then (True, fi\<lparr>fi_stats := (fi_stats fi)\<lparr>fs_packets_dropped := fs_packets_dropped (fi_stats fi) + 1\<rparr>\<rparr>)
      else (False, fi))"

definition param_number :: "fault \<Rightarrow> string \<Rightarrow> rat \<Rightarrow> rat res" where
  "param_number f name dflt = (case json_number (dict_get (ft_parameters f) name (JFloat dflt)) of Some x \<Rightarrow> Inr x | None \<Rightarrow> Inl TypeError)"

text \<open>The sum of the delays and how many there were; an exception leaves the counter where it was raised.\<close>

fun delay_loop ::
  "time \<Rightarrow> (string \<Rightarrow> rat) \<Rightarrow> (string \<Rightarrow> rat) \<Rightarrow> string \<Rightarrow> fault list \<Rightarrow> rat \<Rightarrow> nat \<Rightarrow> rat res \<times> nat" where
  "delay_loop now draw spread n [] acc k = (Inr acc, k)"
| "delay_loop now draw spread n (f # fs) acc k =
     (if fault_live now f \<and> ft_fault_type f = NETWORK_DELAY \<and> targets_node f n \<and> draw (ft_fault_id f) < ft_probability f
      then (case (param_number f ''delay_ms'' 100, param_number f ''jitter_ms'' 0) of
              (Inr d, Inr j) \<Rightarrow> delay_loop now draw spread n fs (acc + (d / 1000 + spread (ft_fault_id f) * (j / 1000))) (k + 1)
            | _ \<Rightarrow> (Inl TypeError, k))
      else delay_loop now draw spread n fs acc k)"

definition get_network_delay ::
  "time \<Rightarrow> (string \<Rightarrow> rat) \<Rightarrow> (string \<Rightarrow> rat) \<Rightarrow> string \<Rightarrow> injector \<Rightarrow> rat res \<times> injector" where
  "get_network_delay now draw spread n fi =
     (if \<not> fi_enabled fi then (Inr 0, fi)
      else
        let (r, k) = delay_loop now draw spread n (map snd (fi_faults fi)) 0 0;
            fi' = fi\<lparr>fi_stats := (fi_stats fi)\<lparr>fs_network_delays_injected := fs_network_delays_injected (fi_stats fi) + k\<rparr>\<rparr>
        in (case r of Inl e \<Rightarrow> (Inl e, fi') | Inr acc \<Rightarrow> (Inr (max 0 acc), fi')))"

definition first_fault :: "time \<Rightarrow> (fault \<Rightarrow> bool) \<Rightarrow> injector \<Rightarrow> fault option" where
  "first_fault now P fi = List.find (\<lambda>f. fault_live now f \<and> P f) (map snd (fi_faults fi))"

definition should_fail_disk :: "time \<Rightarrow> (string \<Rightarrow> rat) \<Rightarrow> injector \<Rightarrow> bool \<times> injector" where
  "should_fail_disk now draw fi =
     (if \<not> fi_enabled fi then (False, fi)
      else (case first_fault now (\<lambda>f. ft_fault_type f = DISK_FAIL \<and> draw (ft_fault_id f) < ft_probability f) fi of
              Some f \<Rightarrow> (True, fi\<lparr>fi_stats := (fi_stats fi)\<lparr>fs_disk_failures_injected := fs_disk_failures_injected (fi_stats fi) + 1\<rparr>\<rparr>)
            | None \<Rightarrow> (False, fi)))"

definition get_disk_delay :: "time \<Rightarrow> (string \<Rightarrow> rat) \<Rightarrow> injector \<Rightarrow> rat res" where
  "get_disk_delay now draw fi =
     (if \<not> fi_enabled fi then Inr 0
      else (case first_fault now (\<lambda>f. ft_fault_type f = DISK_SLOW \<and> draw (ft_fault_id f) < ft_probability f) fi of
              Some f \<Rightarrow> bind_res (param_number f ''delay_ms'' 50) (\<lambda>d. Inr (d / 1000))
            | None \<Rightarrow> Inr 0))"

definition get_clock_skew :: "time \<Rightarrow> injector \<Rightarrow> json" where
  "get_clock_skew now fi =
     (if \<not> fi_enabled fi then JFloat 0
      else (case first_fault now (\<lambda>f. ft_fault_type f = CLOCK_SKEW) fi of
              Some f \<Rightarrow> dict_get (ft_parameters f) ''skew_seconds'' (JFloat 0)
            | None \<Rightarrow> JFloat 0))"

definition fault_to_dict :: "time \<Rightarrow> fault \<Rightarrow> json" where
  "fault_to_dict now f =
     JDict [(''fault_id'', JStr (ft_fault_id f)), (''type'', JStr (fault_type_value (ft_fault_type f))),
            (''targets'', JList (map JStr (ft_target_nodes f))), (''probability'', JFloat (ft_probability f)),
            (''active'', JBool (fault_live now f)), (''parameters'', JDict (ft_parameters f))]"

definition get_active_faults :: "time \<Rightarrow> injector \<Rightarrow> json" where
  "get_active_faults now fi = JList (map (fault_to_dict now) (map snd (fi_faults fi)))"

definition fi_get_stats :: "injector \<Rightarrow> (string, json) dict" where
  "fi_get_stats fi =
     [(''enabled'', JBool (fi_enabled fi)), (''total_faults'', JInt (int (fs_total_faults_injected (fi_stats fi)))),
      (''network_delays'', JInt (int (fs_network_delays_injected (fi_stats fi)))),
      (''packets_dropped'', JInt (int (fs_packets_dropped (fi_stats fi)))),
      (''disk_failures'', JInt (int (fs_disk_failures_injected (fi_stats fi)))),
      (''partitions'', JInt (int (fs_partitions_created (fi_stats fi)))),
      (''leader_kills'', JInt (int (fs_leader_kills (fi_stats fi)))),
      (''active_faults'', JInt (int (length (fi_faults fi))))]"

section \<open>Creating faults\<close>

definition fault_id_at :: "string \<Rightarrow> time \<Rightarrow> string" where
  "fault_id_at kind now = kind @ str_int (py_trunc (now * 1000))"

definition create_network_delay :: "time \<Rightarrow> int \<Rightarrow> int \<Rightarrow> rat \<Rightarrow> string list \<Rightarrow> fault" where
  "create_network_delay now delay_ms jitter_ms probability targets =
     (new_fault (fault_id_at ''net-delay-'' now) NETWORK_DELAY)\<lparr>ft_target_nodes := targets, ft_probability := probability,
       ft_parameters := [(''delay_ms'', JInt delay_ms), (''jitter_ms'', JInt jitter_ms)]\<rparr>"

definition create_network_partition :: "time \<Rightarrow> string list \<Rightarrow> time \<Rightarrow> fault" where
  "create_network_partition now nodes duration =
     (new_fault (fault_id_at ''partition-'' now) NETWORK_PARTITION)\<lparr>ft_duration_seconds := duration,
       ft_parameters := [(''partition_from'', JList (map JStr nodes))]\<rparr>"

definition create_packet_drop :: "time \<Rightarrow> rat \<Rightarrow> string list \<Rightarrow> fault" where
  "create_packet_drop now probability targets =
     (new_fault (fault_id_at ''drop-'' now) NETWORK_DROP)\<lparr>ft_target_nodes := targets, ft_probability := probability\<rparr>"

definition create_disk_failure :: "time \<Rightarrow> rat \<Rightarrow> fault" where
  "create_disk_failure now probability = (new_fault (fault_id_at ''disk-fail-'' now) DISK_FAIL)\<lparr>ft_probability := probability\<rparr>"

definition create_leader_kill :: "time \<Rightarrow> fault" where
  "create_leader_kill now = new_fault (fault_id_at ''leader-kill-'' now) LEADER_KILL"

section \<open>Partitions\<close>

text \<open>The nodes a fault cuts off.\<close>

definition cut_by :: "fault \<Rightarrow> string set" where
  "cut_by f = (if ft_fault_type f = NETWORK_PARTITION then set (fst (partition_targets f)) else {})"

definition readable_fault :: "fault \<Rightarrow> bool" where
  "readable_fault f \<longleftrightarrow> (ft_fault_type f = NETWORK_PARTITION \<longrightarrow> snd (partition_targets f) = None)"

text \<open>The cut nodes are those of the present faults, no two of which cut the same node.\<close>

definition disjoint_cuts :: "(string, fault) dict \<Rightarrow> bool" where
  "disjoint_cuts d \<longleftrightarrow> (\<forall>(i, f) \<in> set d. \<forall>(j, g) \<in> set d. i \<noteq> j \<longrightarrow> cut_by f \<inter> cut_by g = {})"

definition partition_inv :: "injector \<Rightarrow> bool" where
  "partition_inv fi \<longleftrightarrow> dwf (fi_faults fi) \<and> (\<forall>f \<in> snd ` set (fi_faults fi). readable_fault f) \<and>
     fi_partitioned_from fi = (\<Union>f \<in> snd ` set (fi_faults fi). cut_by f) \<and> disjoint_cuts (fi_faults fi)"

lemma cut_by_start [simp]: "cut_by (f\<lparr>ft_start_time := t\<rparr>) = cut_by f" "readable_fault (f\<lparr>ft_start_time := t\<rparr>) = readable_fault f"
  by (simp_all add: cut_by_def readable_fault_def partition_targets_def)

lemma targets_start [simp]: "partition_targets (f\<lparr>ft_start_time := t\<rparr>) = partition_targets f"
  by (simp add: partition_targets_def)

lemma disjoint_cutsD:
  assumes "disjoint_cuts d" and "(i, f) \<in> set d" and "(j, g) \<in> set d" and "i \<noteq> j"
  shows "cut_by f \<inter> cut_by g = {}"
  using assms unfolding disjoint_cuts_def by blast

lemma disjoint_cuts_snoc:
  assumes "disjoint_cuts d" and "\<And>j g. (j, g) \<in> set d \<Longrightarrow> cut_by g \<inter> cut_by f = {}"
  shows "disjoint_cuts (d @ [(i, f)])"
  unfolding disjoint_cuts_def
proof clarify
  fix a g b h assume "(a, g) \<in> set (d @ [(i, f)])" "(b, h) \<in> set (d @ [(i, f)])" "a \<noteq> b"
  then show "cut_by g \<inter> cut_by h = {}"
    using disjoint_cutsD [OF assms(1), of a g b h] assms(2) [of a g] assms(2) [of b h] by (auto simp: Int_commute)
qed

lemma inject_faults:
  assumes "fi_enabled fi" and "readable_fault f" and "inject_fault random now cb f fi w = (r, fi', w')"
  shows "r = Inr True \<and> fi_enabled fi' \<and> fi_faults fi' = dset (ft_fault_id f) (f\<lparr>ft_start_time := Some now\<rparr>) (fi_faults fi) \<and>
    fi_partitioned_from fi' = fi_partitioned_from fi \<union> cut_by f"
  using assms
  by (cases "ft_fault_type f") (auto simp: inject_fault_def Let_def cut_by_def readable_fault_def split: prod.splits)

lemma partition_inv_inject:
  assumes "partition_inv fi" and "fi_enabled fi" and "readable_fault f" and "ft_fault_id f \<notin> set (dkeys (fi_faults fi))"
    and "cut_by f \<inter> fi_partitioned_from fi = {}" and "inject_fault random now cb f fi w = (r, fi', w')"
  shows "partition_inv fi'"
proof -
  have "dget (fi_faults fi) (ft_fault_id f) = None" using assms(4) by (metis dict_get_in_keys)
  with inject_faults [OF assms(2,3,6)] have fi': "fi_faults fi' = fi_faults fi @ [(ft_fault_id f, f\<lparr>ft_start_time := Some now\<rparr>)]"
    "fi_partitioned_from fi' = fi_partitioned_from fi \<union> cut_by f" by (simp_all add: dict_update_append)
  have "cut_by g \<inter> cut_by f = {}" if "(j, g) \<in> set (fi_faults fi)" for j g
    using that assms(1,5) by (force simp: partition_inv_def)
  then have "disjoint_cuts (fi_faults fi')"
    using assms(1) unfolding fi' by (intro disjoint_cuts_snoc) (auto simp: partition_inv_def)
  then show ?thesis using assms(1,3,4) by (auto simp: partition_inv_def fi')
qed

lemma partition_inv_clear:
  assumes "partition_inv fi" and "clear_fault fid fi = (r, fi')"
  shows "partition_inv fi' \<and> fid \<notin> set (dkeys (fi_faults fi')) \<and> fi_faults fi' = ddel fid (fi_faults fi) \<and> fi_enabled fi' = fi_enabled fi"
proof (cases "dget (fi_faults fi) fid")
  case None
  then have "fid \<notin> set (dkeys (fi_faults fi))" by (metis dict_get_in_keys)
  moreover from this have "ddel fid (fi_faults fi) = fi_faults fi" by (force simp: AList.delete_eq filter_id_conv)
  ultimately show ?thesis using assms None by (auto simp: clear_fault_def)
next
  case (Some f)
  then have f: "(fid, f) \<in> set (fi_faults fi)" by (rule map_of_SomeD)
  then have "readable_fault f" using assms(1) by (force simp: partition_inv_def)
  then have fi': "fi_faults fi' = ddel fid (fi_faults fi)" "fi_partitioned_from fi' = fi_partitioned_from fi - cut_by f"
    "fi_enabled fi' = fi_enabled fi"
    using assms(2) Some by (auto simp: clear_fault_def cut_by_def readable_fault_def split: prod.splits if_splits)
  have set: "set (fi_faults fi') = {(j, g) \<in> set (fi_faults fi). j \<noteq> fid}" by (auto simp: fi'(1) AList.delete_eq)
  have disj: "disjoint_cuts (fi_faults fi)" using assms(1) by (simp add: partition_inv_def)
  have uniq: "g = f" if "(fid, g) \<in> set (fi_faults fi)" for g
    using that f assms(1) by (auto simp: partition_inv_def dest: eq_key_imp_eq_value)
  have "fi_partitioned_from fi' = (\<Union>f \<in> snd ` set (fi_faults fi'). cut_by f)"
  proof (intro set_eqI iffI)
    fix n assume "n \<in> fi_partitioned_from fi'"
    then obtain j g where g: "(j, g) \<in> set (fi_faults fi)" "n \<in> cut_by g" "n \<notin> cut_by f"
      using assms(1) by (auto simp: fi'(2) partition_inv_def)
    with uniq have "(j, g) \<in> set (fi_faults fi')" unfolding set by auto
    with g(2) show "n \<in> (\<Union>f \<in> snd ` set (fi_faults fi'). cut_by f)" by force
  next
    fix n assume "n \<in> (\<Union>f \<in> snd ` set (fi_faults fi'). cut_by f)"
    then obtain j g where g: "(j, g) \<in> set (fi_faults fi)" "j \<noteq> fid" "n \<in> cut_by g" unfolding set by auto
    with disjoint_cutsD [OF disj g(1) f g(2)] show "n \<in> fi_partitioned_from fi'"
      using assms(1) by (force simp: fi'(2) partition_inv_def)
  qed
  moreover have "dwf (fi_faults fi')" using assms(1) by (simp add: fi'(1) partition_inv_def distinct_delete)
  moreover have "\<forall>f \<in> snd ` set (fi_faults fi'). readable_fault f" using assms(1) unfolding partition_inv_def set by auto
  moreover have "disjoint_cuts (fi_faults fi')" using disj unfolding disjoint_cuts_def set by fast
  moreover have "fid \<notin> set (dkeys (fi_faults fi'))" unfolding set_map set by auto
  ultimately show ?thesis using fi'(1,3) by (metis partition_inv_def)
qed

text \<open>Sequences of operations on the injector.\<close>

datatype fault_op = Inject fault | Clear string | Clear_all | Enable | Disable

definition fault_step :: "rat \<Rightarrow> time \<Rightarrow> fault_op \<Rightarrow> injector \<Rightarrow> injector" where
  "fault_step random now a fi =
     (case a of
        Inject f \<Rightarrow> fst (snd (inject_fault random now \<lparr>fk_on_leader_kill = None, fk_on_pause = None, fk_on_crash = None\<rparr> f fi ()))
      | Clear fid \<Rightarrow> snd (clear_fault fid fi)
      | Clear_all \<Rightarrow> clear_all_faults fi
      | Enable \<Rightarrow> fi_enable fi
      | Disable \<Rightarrow> fi_disable fi)"

text \<open>Injected faults have fresh identifiers and cut nodes no present fault cuts.\<close>

definition op_separate :: "injector \<Rightarrow> fault_op \<Rightarrow> bool" where
  "op_separate fi a =
     (case a of
        Inject f \<Rightarrow> readable_fault f \<and> ft_fault_id f \<notin> set (dkeys (fi_faults fi)) \<and> cut_by f \<inter> fi_partitioned_from fi = {}
      | _ \<Rightarrow> True)"

fun run_faults :: "(rat \<times> time \<times> fault_op) list \<Rightarrow> injector \<Rightarrow> injector" where
  "run_faults [] fi = fi"
| "run_faults ((random, now, a) # ops) fi = run_faults ops (fault_step random now a fi)"

fun ops_separate :: "(rat \<times> time \<times> fault_op) list \<Rightarrow> injector \<Rightarrow> bool" where
  "ops_separate [] fi = True"
| "ops_separate ((random, now, a) # ops) fi = (op_separate fi a \<and> ops_separate ops (fault_step random now a fi))"

lemma partition_inv_step:
  assumes "partition_inv fi" and "op_separate fi a"
  shows "partition_inv (fault_step random now a fi)"
proof (cases a)
  case (Inject f)
  show ?thesis
  proof (cases "fi_enabled fi")
    case True
    let ?r = "inject_fault random now \<lparr>fk_on_leader_kill = None, fk_on_pause = None, fk_on_crash = None\<rparr> f fi ()"
    have "?r = (fst ?r, fst (snd ?r), snd (snd ?r))" unfolding prod.collapse ..
    from partition_inv_inject [OF assms(1) True _ _ _ this] assms(2) Inject show ?thesis
      by (simp add: fault_step_def op_separate_def)
  qed (use assms Inject in \<open>simp add: fault_step_def inject_fault_def\<close>)
next
  case (Clear fid)
  then show ?thesis using partition_inv_clear [OF assms(1), of fid "fst (clear_fault fid fi)" "snd (clear_fault fid fi)"]
    by (simp add: fault_step_def)
qed (use assms in \<open>simp_all add: fault_step_def partition_inv_def clear_all_faults_def fi_enable_def fi_disable_def disjoint_cuts_def\<close>)

lemma partition_inv_run:
  "partition_inv fi \<Longrightarrow> ops_separate ops fi \<Longrightarrow> partition_inv (run_faults ops fi)"
  by (induction ops fi rule: run_faults.induct) (auto simp: partition_inv_step)

lemma partition_inv_init: "partition_inv (injector_init n e)"
  by (simp add: partition_inv_def injector_init_def disjoint_cuts_def)

text \<open>C37: Whatever sequence of injections, clearings, enabling and disabling an injector has been through, as long as no
  partition overlaps one that is present and identifiers are not reused, it drops a message to a node (with no packet-drop
  fault present) exactly when it is enabled and a present partition fault names the node.\<close>

theorem partition_cuts_exactly:
  fixes ops :: "(rat \<times> time \<times> fault_op) list"
  assumes "ops_separate ops (injector_init self e)"
    and "\<forall>f \<in> snd ` set (fi_faults (run_faults ops (injector_init self e))). ft_fault_type f \<noteq> NETWORK_DROP"
  shows "fst (should_fail_network now draw n (run_faults ops (injector_init self e))) \<longleftrightarrow>
    fi_enabled (run_faults ops (injector_init self e)) \<and>
    (\<exists>f \<in> snd ` set (fi_faults (run_faults ops (injector_init self e))).
       ft_fault_type f = NETWORK_PARTITION \<and> n \<in> set (fst (partition_targets f)))"
proof -
  define fi where "fi = run_faults ops (injector_init self e)"
  have inv: "partition_inv fi" using partition_inv_run [OF partition_inv_init assms(1)] by (simp add: fi_def)
  have "\<not> drop_loop now draw n fs" if "\<forall>f \<in> set fs. ft_fault_type f \<noteq> NETWORK_DROP" for fs
    using that by (induction fs) auto
  then have "\<not> drop_loop now draw n (map snd (fi_faults fi))" using assms(2) by (simp add: fi_def)
  then have "fst (should_fail_network now draw n fi) \<longleftrightarrow> fi_enabled fi \<and> n \<in> fi_partitioned_from fi"
    by (simp add: should_fail_network_def)
  also have "\<dots> \<longleftrightarrow> fi_enabled fi \<and> (\<exists>f \<in> snd ` set (fi_faults fi). ft_fault_type f = NETWORK_PARTITION \<and> n \<in> set (fst (partition_targets f)))"
    using inv by (auto simp: partition_inv_def cut_by_def split: if_splits)
  finally show ?thesis unfolding fi_def .
qed

definition cut_fault :: "string \<Rightarrow> string \<Rightarrow> fault" where
  "cut_fault fid n = (new_fault fid NETWORK_PARTITION)\<lparr>ft_parameters := [(''partition_from'', JList [JStr n])]\<rparr>"

lemma cut_fault_targets:
  "partition_targets (cut_fault fid n) = ([n], None)" "ft_fault_type (cut_fault fid n) = NETWORK_PARTITION" "ft_fault_id (cut_fault fid n) = fid"
  by (simp_all add: partition_targets_def cut_fault_def new_fault_def dict_get_def json_strings_def)

theorem partition_cuts_exactly_witness:
  "fst (should_fail_network 9 (\<lambda>_. 0) ''a''
     (run_faults [(0, 1, Inject (cut_fault ''x'' ''a'')), (0, 2, Inject (cut_fault ''y'' ''b'')), (0, 3, Clear ''y'')]
        (injector_init ''n'' True)))"
  using partition_cuts_exactly [of "[(0, 1, Inject (cut_fault ''x'' ''a'')), (0, 2, Inject (cut_fault ''y'' ''b'')), (0, 3, Clear ''y'')]"
      "''n''" True 9 "\<lambda>_. 0" "''a''"]
  by (simp add: injector_init_def fault_step_def op_separate_def inject_fault_def clear_fault_def cut_by_def readable_fault_def
      cut_fault_targets Let_def)

text \<open>A partition with a duration does not end: at every later time the injector still drops messages to the node, although
  the fault counts as expired and is listed as inactive.\<close>

theorem partition_outlives_duration:
  assumes "fi_enabled fi" and "0 < d" and "t + d < now" and "n \<in> set ns"
    and "fi' = fst (snd (inject_fault random t cb (create_network_partition t0 ns d) fi w))"
  shows "fst (should_fail_network now draw n fi') \<and>
    (\<exists>f. dget (fi_faults fi') (ft_fault_id (create_network_partition t0 ns d)) = Some f \<and> fault_is_expired now f)"
proof -
  let ?f = "create_network_partition t0 ns d"
  have "partition_targets ?f = (ns, None)"
    by (induction ns) (auto simp: create_network_partition_def new_fault_def partition_targets_def dict_get_def json_strings_def list.pred_map)
  then have "readable_fault ?f" "cut_by ?f = set ns"
    by (simp_all add: readable_fault_def cut_by_def create_network_partition_def new_fault_def)
  with inject_faults [OF assms(1), of ?f random t cb w "fst (inject_fault random t cb ?f fi w)" fi'
      "snd (snd (inject_fault random t cb ?f fi w))"] show ?thesis using assms(2-5)
    by (auto simp: should_fail_network_def fault_is_expired_def create_network_partition_def new_fault_def update_conv)
qed

theorem partition_outlives_duration_witness:
  "fst (should_fail_network 100 (\<lambda>_. 0) ''a''
     (fst (snd (inject_fault 0 1 \<lparr>fk_on_leader_kill = None, fk_on_pause = None, fk_on_crash = None\<rparr>
        (create_network_partition 1 [''a''] 5) (injector_init ''n'' True) ()))))"
  using partition_outlives_duration [of "injector_init ''n'' True" 5 1 100 "''a''" "[''a'']"
      _ 0 "\<lparr>fk_on_leader_kill = None, fk_on_pause = None, fk_on_crash = None\<rparr>" 1 "()"]
  by (simp add: injector_init_def)

text \<open>Clearing one of two overlapping partitions heals the nodes the other still names.\<close>

lemma clear_heals_overlap:
  assumes "dget (fi_faults fi) fid = Some f" and "readable_fault f" and "n \<in> cut_by f" and "clear_fault fid fi = (r, fi')"
  shows "n \<notin> fi_partitioned_from fi'"
  using assms by (auto simp: clear_fault_def cut_by_def readable_fault_def split: prod.splits if_splits)

end
