(* ===== verification/Node.thy ===== *)
theory Node
  imports Coordinator MigrationNode AntiEntropy FaultInjection RateLimiter Partition
begin

text \<open>
  The database node (\<^verbatim>\<open>src/minidb/node.py\<close>) as the composition of its components: construction, start, topology
  synchronisation, maintenance, fault callbacks and cluster messages.

  \<^item> \<open>db_node\<close> is \<^verbatim>\<open>DatabaseNode\<close>; its store, log file and snapshots are the storage of the coordinator's \<open>follower\<close>, because
    the apply callback writes them. The cluster is a map from node identifiers to nodes.
  \<^item> \<open>node_env\<close> holds what one request takes from outside: the clock, random draws, the hash function, number parsing
    and printing, and the fate of every message sent to another node.
  \<^item> Command arguments are strings, as the handlers' signatures say.
\<close>

section \<open>Parsing integers\<close>

text \<open>\<^verbatim>\<open>int(s)\<close> on ASCII text: surrounding white space, a sign, digits with single underscores between them.\<close>

fun int_digits :: "nat \<Rightarrow> bool \<Rightarrow> string \<Rightarrow> nat option" where
  "int_digits acc after_digit [] = (if after_digit then Some acc else None)"
| "int_digits acc after_digit (c # cs) =
     (if is_digit c then int_digits (10 * acc + (code c - 48)) True cs
      else if c = CHR ''_'' \<and> after_digit then int_digits acc False cs
      else None)"

definition py_int_str :: "string \<Rightarrow> int option" where
  "py_int_str s =
     (case py_strip s of
        [] \<Rightarrow> None
      | c # cs \<Rightarrow>
          if c = CHR ''-'' then map_option (\<lambda>n. - int n) (int_digits 0 False cs)
          else if c = CHR ''+'' then map_option int (int_digits 0 False cs)
          else map_option int (int_digits 0 False (c # cs)))"

lemma int_digits_append:
  "cs \<noteq> [] \<Longrightarrow> list_all is_digit cs \<Longrightarrow> int_digits acc b (cs @ ds) = int_digits (foldl (\<lambda>a c. 10 * a + (code c - 48)) acc cs) True ds"
proof (induction cs arbitrary: acc b)
  case (Cons c cs)
  show ?case
  proof (cases "cs = []")
    case False
    then show ?thesis using Cons.IH [of "10 * acc + (code c - 48)" True] Cons.prems by simp
  qed (use Cons.prems in simp)
qed simp

lemma code_digit: "n < 10 \<Longrightarrow> code (char_of (48 + n)) = 48 + n"
  by simp

lemma digits_of_str_nat: "str_nat n \<noteq> [] \<and> list_all is_digit (str_nat n) \<and> foldl (\<lambda>a c. 10 * a + (code c - 48)) 0 (str_nat n) = n"
proof (induction n rule: str_nat.induct)
  case (1 n)
  show ?case
  proof (cases "n < 10")
    case True
    then show ?thesis by (subst (1 2 3) str_nat.simps) (simp add: is_digit_def)
  next
    case False
    have "is_digit (char_of (48 + n mod 10))" by (simp add: is_digit_def less_Suc_eq_le [symmetric])
    with False show ?thesis using 1 by (subst (1 2 3) str_nat.simps) simp
  qed
qed

lemma digit_no_space: "is_digit c \<Longrightarrow> \<not> is_space c \<and> c \<noteq> CHR ''-'' \<and> c \<noteq> CHR ''+''"
  by (auto simp: is_space_def is_digit_def)

lemma py_strip_id: "s \<noteq> [] \<Longrightarrow> \<not> is_space (hd s) \<Longrightarrow> \<not> is_space (last s) \<Longrightarrow> py_strip s = s"
proof -
  assume s: "s \<noteq> []" "\<not> is_space (hd s)" "\<not> is_space (last s)"
  then have "dropWhile is_space s = s" by (cases s) auto
  moreover have "dropWhile is_space (rev s) = rev s" using s by (cases "rev s") (auto simp: last_conv_nth hd_rev [symmetric])
  ultimately show ?thesis by (simp add: py_strip_def)
qed

text \<open>\<^verbatim>\<open>int(str(i)) == i\<close>.\<close>

lemma py_int_str_int [simp]: "py_int_str (str_int i) = Some i"
proof -
  have d: "int_digits 0 False (str_nat n) = Some n" "str_nat n \<noteq> []" "list_all is_digit (str_nat n)" for n
    using digits_of_str_nat [of n] int_digits_append [of "str_nat n" 0 False "[]"] by auto
  have last: "is_digit (last (str_nat n))" "is_digit (hd (str_nat n))" for n
    using d(2,3) [of n] by (auto simp: list_all_iff)
  have "\<not> is_space CHR ''-''" by (simp add: is_space_def)
  then have "py_strip (str_int i) = str_int i"
    using d(2) last by (intro py_strip_id) (auto simp: str_int_def digit_no_space)
  moreover obtain c cs where "str_nat (nat i) = c # cs" using d(2) [of "nat i"] by (cases "str_nat (nat i)") auto
  moreover from this have "c \<noteq> CHR ''-''" "c \<noteq> CHR ''+''" using last(2) [of "nat i"] digit_no_space [of c] by auto
  ultimately show ?thesis using d(1) [of "nat i"] d(1) [of "nat (- i)"]
    by (cases "i < 0") (auto simp: py_int_str_def str_int_def simp del: int_digits.simps)
qed

section \<open>State\<close>

record db_node =
  dn_config :: node_config
  dn_cluster :: coordinator
  dn_ring :: ring
  dn_partitions :: partition_manager
  dn_router :: router
  dn_migration :: migration
  dn_fault_injector :: injector
  dn_read_coordinator :: read_coordinator
  dn_backpressure :: backpressure
  dn_known_ring_nodes :: "node_id set"
  dn_write_sequence :: int

type_synonym db_cluster = "node_id \<Rightarrow> db_node"

record node_env =
  ev_codec :: float_codec
  ev_float :: "string \<Rightarrow> time option"
  ev_hash :: "string \<Rightarrow> nat"
  ev_show :: "py_error \<Rightarrow> string"
  ev_now :: time
  ev_timeout :: time
  ev_random :: rat
  ev_draw :: "string \<Rightarrow> rat"
  ev_spread :: "string \<Rightarrow> rat"
  ev_order :: completion
  ev_sender :: "node_id \<Rightarrow> string"
  ev_connect :: "node_id \<Rightarrow> bool"
  ev_send :: "node_id \<Rightarrow> delivery"
  ev_prepare :: "node_id \<Rightarrow> delivery"
  ev_commit :: "node_id \<Rightarrow> delivery"
  ev_read :: "node_id \<Rightarrow> delivery"
  ev_repair :: "node_id \<Rightarrow> delivery"
  ev_leader :: "nat \<Rightarrow> node_id option"

abbreviation dn_membership :: "db_node \<Rightarrow> membership" where
  "dn_membership d \<equiv> co_membership (dn_cluster d)"

abbreviation dn_election :: "db_node \<Rightarrow> election" where
  "dn_election d \<equiv> co_election (dn_cluster d)"

definition node_storage :: "db_node \<Rightarrow> storage" where
  "node_storage d = fl_storage (co_follower (dn_cluster d))"

definition set_follower :: "follower \<Rightarrow> db_node \<Rightarrow> db_node" where
  "set_follower fl d = d\<lparr>dn_cluster := (dn_cluster d)\<lparr>co_follower := fl\<rparr>\<rparr>"

definition set_storage :: "storage \<Rightarrow> db_node \<Rightarrow> db_node" where
  "set_storage s d = set_follower ((co_follower (dn_cluster d))\<lparr>fl_storage := s\<rparr>) d"

definition stores_of :: "db_cluster \<Rightarrow> node_stores" where
  "stores_of c n = node_storage (c n)"

definition put_stores :: "node_stores \<Rightarrow> db_cluster \<Rightarrow> db_cluster" where
  "put_stores w c n = set_storage (w n) (c n)"

definition followers_of :: "db_cluster \<Rightarrow> world" where
  "followers_of c n = co_follower (dn_cluster (c n))"

definition put_followers :: "world \<Rightarrow> db_cluster \<Rightarrow> db_cluster" where
  "put_followers w c n = set_follower (w n) (c n)"

text \<open>What the node knows of the others, for the read, repair and migration callbacks.\<close>

definition peers_of :: "node_env \<Rightarrow> db_node \<Rightarrow> peers" where
  "peers_of ev d =
     \<lparr>pe_known = (\<lambda>n. member_at (dn_membership d) n \<noteq> None),
      pe_alive = (\<lambda>n. case member_at (dn_membership d) n of Some x \<Rightarrow> ni_state x = ALIVE | None \<Rightarrow> False),
      pe_read = ev_read ev, pe_repair = ev_repair ev\<rparr>"

definition migration_env_of :: "node_env \<Rightarrow> db_cluster \<Rightarrow> node_id \<Rightarrow> migration_env" where
  "migration_env_of ev c n =
     \<lparr>me_int = py_int_str, me_float = ev_float ev, me_codec = ev_codec ev, me_hash = ev_hash ev, me_ring = dn_ring (c n),
      me_factor = cf_replication_factor (dn_config (c n)), me_peers = (\<lambda>m. peers_of ev (c m)), me_delivery = ev_send ev\<rparr>"

definition migration_callbacks_of :: "node_env \<Rightarrow> db_cluster \<Rightarrow> node_id \<Rightarrow> node_stores migration_callbacks" where
  "migration_callbacks_of ev c n = node_migration_callbacks (migration_env_of ev c n) (ev_now ev) n"

definition read_callbacks_of :: "node_env \<Rightarrow> db_node \<Rightarrow> node_stores read_callbacks" where
  "read_callbacks_of ev d =
     node_read_callbacks py_int_str (ev_float ev) (ev_codec ev) (peers_of ev d) (cf_node_id (dn_config d)) (ev_now ev)
       (\<lambda>key. get_nodes (ev_hash ev) (dn_ring d) key (cf_replication_factor (dn_config d)))
       (\<lambda>key. get_leader_id (dn_cluster d))"

section \<open>Construction\<close>

text \<open>\<^verbatim>\<open>ClusterCoordinator.__init__\<close>; the replication timeout is the default of its constructor.\<close>

definition coordinator_init :: "node_config \<Rightarrow> storage \<Rightarrow> time \<Rightarrow> time \<Rightarrow> coordinator" where
  "coordinator_init cfg sg now rt =
     \<lparr>co_node_id = cf_node_id cfg,
      co_membership = membership_init (new_node (cf_node_id cfg) (cf_host cfg) (cf_client_port cfg) (cf_cluster_port cfg) now)
        (cf_failure_timeout cfg) (cf_dead_timeout cfg) (cf_heartbeat_interval cfg),
      co_election = election_init (cf_node_id cfg) (cf_election_timeout_min cfg) (cf_election_timeout_max cfg)
        (cf_heartbeat_interval cfg) now rt,
      co_replication = replication_init (cf_node_id cfg) (cf_replication_factor cfg) (cf_default_consistency cfg) 5,
      co_follower = \<lparr>fl_staged = [], fl_storage = sg\<rparr>,
      co_default_consistency = cf_default_consistency cfg\<rparr>"

text \<open>The files of the data directory are what the node finds there.\<close>

definition storage_init :: "node_config \<Rightarrow> aof_dir \<Rightarrow> snapshot_dir \<Rightarrow> time \<Rightarrow> storage" where
  "storage_init cfg ad sd now =
     \<lparr>sg_node_id = cf_node_id cfg, sg_store = kv_init now,
      sg_aof = (if cf_aof_enabled cfg then Some (aof_init ad (cf_aof_fsync_interval cfg) now) else None),
      sg_snapshot = (if cf_snapshot_enabled cfg then Some (snapshot_init sd (cf_snapshot_interval cfg)) else None)\<rparr>"

definition node_init :: "(string \<Rightarrow> nat) \<Rightarrow> node_config \<Rightarrow> aof_dir \<Rightarrow> snapshot_dir \<Rightarrow> time \<Rightarrow> time \<Rightarrow> db_node" where
  "node_init h cfg ad sd now rt =
     (let me = cf_node_id cfg; rf = cf_replication_factor cfg
      in \<lparr>dn_config = cfg,
          dn_cluster = coordinator_init cfg (storage_init cfg ad sd now) now rt,
          dn_ring = add_node h (ring_init (cf_virtual_nodes cfg)) me,
          dn_partitions = \<lparr>pm_local_node_id = me, pm_replication_factor = rf\<rparr>,
          dn_router = set_node_health (update_node_address (router_init me rf) me (cf_host cfg @ '':'' @ str_int (cf_client_port cfg))) me True,
          dn_migration = migration_init me rf,
          dn_fault_injector = injector_init me False,
          dn_read_coordinator = read_coordinator_init me rf 5,
          dn_backpressure = backpressure_init (Some (TokenBucket (token_bucket_init 1000 100))),
          dn_known_ring_nodes = {me},
          dn_write_sequence = 0\<rparr>)"

section \<open>Topology\<close>

fun sync_router :: "node_info list \<Rightarrow> router \<Rightarrow> router" where
  "sync_router [] rt = rt"
| "sync_router (m # ms) rt =
     sync_router ms
       (if ni_state m = DEAD then router_remove_node rt (ni_node_id m)
        else set_node_health (update_node_address rt (ni_node_id m) (client_address m)) (ni_node_id m) (ni_state m = ALIVE))"

definition active_node_ids :: "membership \<Rightarrow> node_id set" where
  "active_node_ids mb = set (map ni_node_id (filter (\<lambda>m. ni_state m \<noteq> DEAD) (all_members mb)))"

definition join_step :: "node_env \<Rightarrow> node_id \<Rightarrow> node_id \<Rightarrow> db_cluster \<Rightarrow> db_cluster" where
  "join_step ev me n c =
     (let rg = pm_add_node (ev_hash ev) (dn_ring (c me)) n;
          (task, mg, w) = on_node_join (ev_hash ev) rg (migration_callbacks_of ev c me) (ev_now ev) n (dn_migration (c me)) (stores_of c);
          c1 = put_stores w c
      in c1(me := (c1 me)\<lparr>dn_ring := rg, dn_migration := mg\<rparr>))"

text \<open>\<^verbatim>\<open>on_node_leave\<close> has no effect and an ignored result (\<open>on_node_leave\<close> of Migration), so the step leaves the migrations alone.\<close>

definition leave_step :: "node_id \<Rightarrow> node_id \<Rightarrow> db_cluster \<Rightarrow> db_cluster" where
  "leave_step me n c =
     c(me := (c me)\<lparr>dn_ring := pm_remove_node (dn_ring (c me)) n, dn_router := router_remove_node (dn_router (c me)) n\<rparr>)"

definition sync_topology :: "node_env \<Rightarrow> node_id \<Rightarrow> db_cluster \<Rightarrow> db_cluster" where
  "sync_topology ev me c =
     (let members = all_members (dn_membership (c me));
          active = active_node_ids (dn_membership (c me));
          known = dn_known_ring_nodes (c me);
          c1 = c(me := (c me)\<lparr>dn_router := sync_router members (dn_router (c me))\<rparr>);
          c2 = fold (join_step ev me) (sorted_list_of_set (active - known)) c1;
          c3 = fold (leave_step me) (filter (\<lambda>n. n \<noteq> me) (sorted_list_of_set (known - active))) c2
      in c3(me := (c3 me)\<lparr>dn_known_ring_nodes := active\<rparr>))"

section \<open>Life cycle\<close>

text \<open>\<^verbatim>\<open>start\<close>: recovery, then the first synchronisation; servers and threads are started in between.\<close>

definition node_start :: "node_env \<Rightarrow> node_id \<Rightarrow> db_cluster \<Rightarrow> py_error option \<times> db_cluster" where
  "node_start ev me c =
     (case recover_data (ev_codec ev) (node_storage (c me)) (ev_now ev) of
        (Some e, s) \<Rightarrow> (Some e, c(me := set_storage s (c me)))
      | (None, s) \<Rightarrow> (None, sync_topology ev me (c(me := set_storage s (c me)))))"

definition node_stop :: "node_env \<Rightarrow> (string \<Rightarrow> nat) \<Rightarrow> nat \<Rightarrow> db_node \<Rightarrow> db_node" where
  "node_stop ev gz_size fail d = set_storage (stop_storage (ev_codec ev) gz_size (node_storage d) (ev_now ev) fail) d"

text \<open>One pass of \<^verbatim>\<open>_maintenance_loop\<close>; \<open>between\<close> is what other threads do to the storage after the snapshot data was copied.\<close>

definition maintenance_round ::
  "node_env \<Rightarrow> (string \<Rightarrow> nat) \<Rightarrow> nat \<Rightarrow> (storage \<Rightarrow> storage) \<Rightarrow> node_id \<Rightarrow> db_cluster \<Rightarrow> db_cluster" where
  "maintenance_round ev gz_size fail between me c =
     (let s = node_storage (c me);
          c1 = c(me := set_storage (s\<lparr>sg_store := kv_cleanup_expired (sg_store s) (ev_now ev)\<rparr>) (c me));
          c2 = sync_topology ev me c1;
          d3 = set_storage (maintenance_persist (ev_codec ev) gz_size (node_storage (c2 me)) (ev_now ev) fail between) (c2 me);
          pending = get_pending_count (co_replication (dn_cluster d3))
      in c2(me := d3\<lparr>dn_backpressure := update_queue_depth ''pending_writes'' (int pending) (dn_backpressure d3)\<rparr>))"

section \<open>Fault callbacks\<close>

definition node_step_down :: "node_env \<Rightarrow> db_node \<Rightarrow> db_node" where
  "node_step_down ev d =
     (if el_is_leader (dn_election d)
      then d\<lparr>dn_cluster := on_become_follower ((dn_cluster d)\<lparr>co_election := step_down (dn_election d) (ev_now ev) (ev_timeout ev)\<rparr>)\<rparr>
      else d)"

definition handle_leader_kill :: "node_env \<Rightarrow> db_node \<Rightarrow> db_node" where
  "handle_leader_kill ev d = (if el_is_leader (dn_election d) then node_step_down ev d else d)"

definition node_fault_callbacks :: "node_env \<Rightarrow> (string \<Rightarrow> nat) \<Rightarrow> nat \<Rightarrow> db_node fault_callbacks" where
  "node_fault_callbacks ev gz_size fail =
     \<lparr>fk_on_leader_kill = Some (handle_leader_kill ev), fk_on_pause = Some (\<lambda>duration d. d),
      fk_on_crash = Some (node_stop ev gz_size fail)\<rparr>"

definition node_inject :: "node_env \<Rightarrow> (string \<Rightarrow> nat) \<Rightarrow> nat \<Rightarrow> fault \<Rightarrow> db_node \<Rightarrow> (py_error + bool) \<times> db_node" where
  "node_inject ev gz_size fail f d =
     (let (r, fi, d') = inject_fault (ev_random ev) (ev_now ev) (node_fault_callbacks ev gz_size fail) f (dn_fault_injector d) d
      in (r, d'\<lparr>dn_fault_injector := fi\<rparr>))"

text \<open>A cluster message: dropped by the injector, or delayed and passed to the coordinator.\<close>

definition node_cluster_message :: "node_env \<Rightarrow> db_node \<Rightarrow> message \<Rightarrow> (py_error + message option) \<times> db_node" where
  "node_cluster_message ev d m =
     (let (dropped, fi1) = should_fail_network (ev_now ev) (ev_draw ev) (ms_sender m) (dn_fault_injector d)
      in if dropped then (Inr None, d\<lparr>dn_fault_injector := fi1\<rparr>)
         else
           let (delay, fi2) = get_network_delay (ev_now ev) (ev_draw ev) (ev_spread ev) (ms_sender m) fi1;
               d2 = d\<lparr>dn_fault_injector := fi2\<rparr>
           in (case delay of
                 Inl e \<Rightarrow> (Inl e, d2)
               | Inr _ \<Rightarrow>
                   (let (r, co) = handle_cluster_message (ev_codec ev) (ev_now ev) (ev_timeout ev) (dn_cluster d2) m
                    in (r, d2\<lparr>dn_cluster := co\<rparr>))))"

end
