(* ===== verification/NodeCommands.thy ===== *)
theory NodeCommands
  imports Node
begin

text \<open>
  The client commands of a node (\<^verbatim>\<open>src/minidb/node.py\<close>): the dispatcher with its rate limit, the write commands and
  their forwarding to the leader, the key listing over the cluster, the reports and the fault commands.

  \<^item> A handler answers or raises; the dispatcher turns an exception into a failure with its text (\<open>ev_show\<close>).
  \<^item> A command a node sends to another goes through the dispatcher of that node. \<open>ev_connect\<close> says whether the connection
    is made, \<open>ev_send\<close> what happens to the command sent on it.
  \<^item> \<open>ev_leader i\<close> is the leader the forwarding node knows of when it asks again after the \<open>i\<close>-th refusal; heartbeats
    handled by other threads may change it while a write is being forwarded.
\<close>

section \<open>Serving a command\<close>

type_synonym handler_result = "(py_error + response) \<times> db_cluster"

definition admit :: "node_env \<Rightarrow> string \<Rightarrow> node_id \<Rightarrow> db_cluster \<Rightarrow> bool \<times> db_cluster" where
  "admit ev sender n c =
     (let (ok, bp) = should_accept_request (ev_random ev) (ev_now ev) (if sender \<noteq> [] then sender else ''default'') (dn_backpressure (c n))
      in (ok, c(n := (c n)\<lparr>dn_backpressure := bp\<rparr>)))"

definition catch :: "node_env \<Rightarrow> handler_result \<Rightarrow> response \<times> db_cluster" where
  "catch ev r = (case r of (Inl e, c) \<Rightarrow> (Failure (ev_show ev e), c) | (Inr x, c) \<Rightarrow> (x, c))"

definition serve :: "node_env \<Rightarrow> string \<Rightarrow> node_id \<Rightarrow> (db_cluster \<Rightarrow> handler_result) \<Rightarrow> db_cluster \<Rightarrow> response \<times> db_cluster" where
  "serve ev sender n handler c =
     (case admit ev sender n c of
        (False, c1) \<Rightarrow> (Failure ''Rate limited - try again later'', c1)
      | (True, c1) \<Rightarrow> catch ev (handler c1))"

section \<open>Writes\<close>

definition network_of :: "node_env \<Rightarrow> db_node \<Rightarrow> network" where
  "network_of ev d =
     \<lparr>nw_known = (\<lambda>n. member_at (dn_membership d) n \<noteq> None), nw_prepare = ev_prepare ev, nw_commit = ev_commit ev\<rparr>"

definition clock_skew_of :: "node_env \<Rightarrow> db_node \<Rightarrow> time option" where
  "clock_skew_of ev d = json_number (get_clock_skew (ev_now ev) (dn_fault_injector d))"

definition leader_of :: "node_env \<Rightarrow> db_node \<Rightarrow> leader_node" where
  "leader_of ev d =
     \<lparr>ld_node_id = cf_node_id (dn_config d), ld_is_leader = el_is_leader (dn_election d),
      ld_term = el_current_term (dn_election d), ld_write_sequence = dn_write_sequence d, ld_storage = node_storage d,
      ld_replication = co_replication (dn_cluster d), ld_replication_factor = cf_replication_factor (dn_config d),
      ld_consistency = cf_default_consistency (dn_config d), ld_ring_size = int (get_node_count (dn_ring d)),
      ld_alive = map ni_node_id (get_alive_nodes (dn_membership d)),
      ld_clock_skew = (case clock_skew_of ev d of Some t \<Rightarrow> t | None \<Rightarrow> 0)\<rparr>"

definition put_leader :: "leader_node \<Rightarrow> db_node \<Rightarrow> db_node" where
  "put_leader ld d =
     (let d1 = set_storage (ld_storage ld) d
      in d1\<lparr>dn_cluster := (dn_cluster d1)\<lparr>co_replication := ld_replication ld\<rparr>, dn_write_sequence := ld_write_sequence ld\<rparr>)"

text \<open>\<^verbatim>\<open>_apply_partition_write\<close> on the node's state; a clock skew that is not a number raises once the current value was read.\<close>

definition node_apply_write :: "node_env \<Rightarrow> node_id \<Rightarrow> string \<Rightarrow> string \<Rightarrow> json \<Rightarrow> int option \<Rightarrow> db_cluster \<Rightarrow> handler_result" where
  "node_apply_write ev me operation key value ttl c =
     (let ld = leader_of ev (c me)
      in if ld_is_leader ld \<and> ld_replication_factor ld \<le> ld_ring_size ld \<and> clock_skew_of ev (c me) = None
         then (Inl TypeError,
               c(me := set_storage ((ld_storage ld)\<lparr>sg_store := snd (kv_get_with_metadata (sg_store (ld_storage ld)) (ev_now ev) key)\<rparr>) (c me)))
         else
           let (r, ld', w) = apply_partition_write (ev_codec ev) (ev_now ev) (network_of ev (c me)) ld (followers_of c) operation key value ttl;
               c1 = put_followers w c
           in (r, c1(me := put_leader ld' (c1 me))))"

text \<open>The arguments of an internal write: operation, key, value as JSON, time to live.\<close>

definition parse_write :: "node_env \<Rightarrow> string \<Rightarrow> string list \<Rightarrow> string + (string \<times> string \<times> json \<times> int option)" where
  "parse_write ev role args =
     (let operation = py_upper (args ! 0); key = args ! 1
      in if operation = ''SET''
         then if length args < 3 then Inl ''SET requires value''
              else
                let value = (case loads (ev_codec ev) (args ! 2) of Inr v \<Rightarrow> v | Inl e \<Rightarrow> JStr (args ! 2))
                in if length args > 3 \<and> args ! 3 \<notin> {'''', ''None'', ''null''}
                   then (case py_int_str (args ! 3) of
                           Some ttl \<Rightarrow> Inr (operation, key, value, Some ttl)
                         | None \<Rightarrow> Inl ''TTL must be an integer'')
                   else Inr (operation, key, value, None)
         else if operation \<noteq> ''DELETE'' then Inl (''Unsupported '' @ role @ '' write: '' @ operation)
         else Inr (operation, key, JNull, None))"

definition handle_leader_write :: "node_env \<Rightarrow> node_id \<Rightarrow> string list \<Rightarrow> db_cluster \<Rightarrow> handler_result" where
  "handle_leader_write ev me args c =
     (if length args < 2 then (Inr (Failure ''__LEADER_WRITE requires command and key''), c)
      else
        (case parse_write ev ''leader'' args of
           Inl err \<Rightarrow> (Inr (Failure err), c)
         | Inr (operation, key, value, ttl) \<Rightarrow>
             if \<not> el_is_leader (dn_election (c me))
             then (Inr (Failure (''Leader mismatch for key '' @ key @ '': this node is not the write leader'')), c)
             else node_apply_write ev me operation key value ttl c))"

definition handle_owner_write :: "node_env \<Rightarrow> node_id \<Rightarrow> string list \<Rightarrow> db_cluster \<Rightarrow> handler_result" where
  "handle_owner_write ev me args c =
     (if length args < 2 then (Inr (Failure ''__OWNER_WRITE requires command and key''), c)
      else
        (case parse_write ev ''owner'' args of
           Inl err \<Rightarrow> (Inr (Failure err), c)
         | Inr (operation, key, value, ttl) \<Rightarrow>
             let owner = get_node (ev_hash ev) (dn_ring (c me)) key
             in if owner \<noteq> Some me
                then (Inr (Failure (''Owner mismatch for key '' @ key @ '': expected '' @
                        (case owner of Some n \<Rightarrow> n | None \<Rightarrow> ''None'') @ '', got '' @ me)), c)
                else node_apply_write ev me operation key value ttl c))"

definition write_args :: "node_env \<Rightarrow> string \<Rightarrow> string \<Rightarrow> json \<Rightarrow> int option \<Rightarrow> string list" where
  "write_args ev operation key value ttl =
     (if operation = ''SET''
      then [operation, key, dumps (ev_codec ev) value, case ttl of None \<Rightarrow> '''' | Some t \<Rightarrow> str_int t]
      else [operation, key])"

text \<open>\<^verbatim>\<open>needle in text\<close>.\<close>

fun py_contains :: "string \<Rightarrow> string \<Rightarrow> bool" where
  "py_contains needle [] = (needle = [])"
| "py_contains needle (c # cs) = (take (length needle) (c # cs) = needle \<or> py_contains needle cs)"

definition mismatch :: "response \<Rightarrow> bool" where
  "mismatch r = (case r of Failure err \<Rightarrow> py_contains ''Leader mismatch'' err | Success _ \<Rightarrow> False)"

text \<open>\<^verbatim>\<open>_forward_write\<close> calls itself when the addressed node answers that it is not the leader and another leader is known by
  now. \<open>depth\<close> is what the interpreter's recursion limit leaves: the call that exceeds it raises, and the handler of the
  calling frame answers that forwarding failed.\<close>

fun forward_write ::
  "node_env \<Rightarrow> node_id \<Rightarrow> nat \<Rightarrow> nat \<Rightarrow> node_id \<Rightarrow> string \<Rightarrow> string \<Rightarrow> json \<Rightarrow> int option \<Rightarrow> db_cluster \<Rightarrow> response \<times> db_cluster" where
  "forward_write ev me 0 i n operation key value ttl c = (Failure (''Failed to forward write for key: '' @ key), c)"
| "forward_write ev me (Suc depth) i n operation key value ttl c =
     (case member_at (dn_membership (c me)) n of
        None \<Rightarrow> (Failure (''Write coordinator unavailable for key: '' @ key), c)
      | Some node \<Rightarrow>
          if ni_state node \<noteq> ALIVE then (Failure (''Write coordinator unavailable for key: '' @ key), c)
          else if \<not> ev_connect ev n then (Failure (''Failed to reach write coordinator '' @ n), c)
          else if ev_send ev n = Dropped then (Failure (''Failed to forward write for key: '' @ key), c)
          else
            let (r, c1) = serve ev (ev_sender ev me) n (handle_leader_write ev n (write_args ev operation key value ttl)) c
            in if ev_send ev n = ReplyLost then (Failure (''Failed to forward write for key: '' @ key), c1)
               else if mismatch r
               then (case ev_leader ev i of
                       Some l \<Rightarrow>
                         if l \<noteq> [] \<and> l \<noteq> n then forward_write ev me depth (Suc i) l operation key value ttl c1 else (r, c1)
                     | None \<Rightarrow> (r, c1))
               else (r, c1))"

definition coordinate_or_forward_write :: "node_env \<Rightarrow> node_id \<Rightarrow> string \<Rightarrow> string \<Rightarrow> json \<Rightarrow> int option \<Rightarrow> db_cluster \<Rightarrow> handler_result" where
  "coordinate_or_forward_write ev me operation key value ttl c =
     (if \<not> el_is_leader (dn_election (c me))
      then (case get_leader_id (dn_cluster (c me)) of
              Some l \<Rightarrow>
                if l = [] then (Inr (Failure ''No cluster leader for write''), c)
                else (let (r, c1) = forward_write ev me recursion_limit 0 l operation key value ttl c in (Inr r, c1))
            | None \<Rightarrow> (Inr (Failure ''No cluster leader for write''), c))
      else node_apply_write ev me operation key value ttl c)"

definition handle_set :: "node_env \<Rightarrow> node_id \<Rightarrow> string list \<Rightarrow> db_cluster \<Rightarrow> handler_result" where
  "handle_set ev me args c =
     (if length args < 2 then (Inr (Failure ''SET requires key and value''), c)
      else
        let key = args ! 0; value = JStr (args ! 1)
        in if length args > 2
           then (case py_int_str (args ! 2) of
                   None \<Rightarrow> (Inr (Failure ''TTL must be an integer''), c)
                 | Some ttl \<Rightarrow> coordinate_or_forward_write ev me ''SET'' key value (Some ttl) c)
           else coordinate_or_forward_write ev me ''SET'' key value None c)"

definition handle_setex :: "node_env \<Rightarrow> node_id \<Rightarrow> string list \<Rightarrow> db_cluster \<Rightarrow> handler_result" where
  "handle_setex ev me args c =
     (if length args < 3 then (Inr (Failure ''SETEX requires key, ttl, and value''), c)
      else
        (case py_int_str (args ! 1) of
           None \<Rightarrow> (Inr (Failure ''TTL must be an integer''), c)
         | Some ttl \<Rightarrow> coordinate_or_forward_write ev me ''SET'' (args ! 0) (JStr (args ! 2)) (Some ttl) c))"

definition handle_delete :: "node_env \<Rightarrow> node_id \<Rightarrow> string list \<Rightarrow> db_cluster \<Rightarrow> handler_result" where
  "handle_delete ev me args c =
     (if length args < 1 then (Inr (Failure ''DELETE requires key''), c)
      else coordinate_or_forward_write ev me ''DELETE'' (args ! 0) JNull None c)"

section \<open>Reads and listings\<close>

definition node_get :: "node_env \<Rightarrow> node_id \<Rightarrow> string list \<Rightarrow> db_cluster \<Rightarrow> handler_result" where
  "node_get ev me args c =
     (let d = c me;
          (r, rc, w) = handle_get (ev_order ev) (read_callbacks_of ev d) (cf_default_consistency (dn_config d)) (dn_read_coordinator d)
                         (ev_now ev) args (stores_of c);
          c1 = put_stores w c
      in (Inr r, c1(me := (c1 me)\<lparr>dn_read_coordinator := rc\<rparr>)))"

definition handle_exists :: "node_env \<Rightarrow> node_id \<Rightarrow> string list \<Rightarrow> db_cluster \<Rightarrow> handler_result" where
  "handle_exists ev me args c =
     (if length args < 1 then (Inr (Failure ''EXISTS requires key''), c)
      else
        let ((value, found, report), rc, w) = coordinator_read (ev_order ev) (read_callbacks_of ev (c me)) (dn_read_coordinator (c me))
              (args ! 0) ANY (ev_now ev) (ev_now ev) (stores_of c);
            c1 = put_stores w c
        in (Inr (Success (JInt (if found then 1 else 0))), c1(me := (c1 me)\<lparr>dn_read_coordinator := rc\<rparr>)))"

definition node_local_keys :: "node_env \<Rightarrow> node_id \<Rightarrow> string list \<Rightarrow> db_cluster \<Rightarrow> handler_result" where
  "node_local_keys ev n args c =
     (let (r, s) = handle_local_keys (node_storage (c n)) (ev_now ev) args in (Inr r, c(n := set_storage s (c n))))"

definition node_local_read :: "node_env \<Rightarrow> node_id \<Rightarrow> string list \<Rightarrow> db_cluster \<Rightarrow> handler_result" where
  "node_local_read ev n args c =
     (let (r, s) = handle_local_read (node_storage (c n)) (ev_now ev) args in (Inr r, c(n := set_storage s (c n))))"

definition node_replica_set :: "node_env \<Rightarrow> node_id \<Rightarrow> string list \<Rightarrow> db_cluster \<Rightarrow> handler_result" where
  "node_replica_set ev n args c =
     (let (r, s) = handle_replica_set py_int_str (ev_float ev) (ev_codec ev) (node_storage (c n)) (ev_now ev) args
      in (r, c(n := set_storage s (c n))))"

definition node_import_keys :: "node_env \<Rightarrow> node_id \<Rightarrow> string list \<Rightarrow> db_cluster \<Rightarrow> handler_result" where
  "node_import_keys ev n args c =
     (let (r, w) = handle_import_keys (migration_env_of ev c n) (ev_now ev) n args (stores_of c) in (r, put_stores w c))"

text \<open>The strings of an answer to a listing.\<close>

definition listed_keys :: "response \<Rightarrow> string list" where
  "listed_keys r = (case r of Success (JList vs) \<Rightarrow> json_strings vs | _ \<Rightarrow> [])"

fun collect_remote_keys :: "node_env \<Rightarrow> node_id \<Rightarrow> string \<Rightarrow> node_info list \<Rightarrow> string list \<Rightarrow> db_cluster \<Rightarrow> string list \<times> db_cluster" where
  "collect_remote_keys ev me pattern [] ks c = (ks, c)"
| "collect_remote_keys ev me pattern (x # xs) ks c =
     (let n = ni_node_id x
      in if n = me \<or> \<not> ev_connect ev n \<or> ev_send ev n = Dropped then collect_remote_keys ev me pattern xs ks c
         else
           let (r, c1) = serve ev (ev_sender ev me) n (node_local_keys ev n [pattern]) c
           in collect_remote_keys ev me pattern xs (if ev_send ev n = Replied then ks @ listed_keys r else ks) c1)"

definition collect_cluster_keys :: "node_env \<Rightarrow> node_id \<Rightarrow> string \<Rightarrow> db_cluster \<Rightarrow> string list \<times> db_cluster" where
  "collect_cluster_keys ev me pattern c =
     (let (ks, st) = kv_keys (sg_store (node_storage (c me))) (ev_now ev) pattern;
          c1 = c(me := set_storage ((node_storage (c me))\<lparr>sg_store := st\<rparr>) (c me));
          (ks', c2) = collect_remote_keys ev me pattern (get_alive_nodes (dn_membership (c1 me))) ks c1
      in (sorted_list_of_set (set ks'), c2))"

definition handle_keys :: "node_env \<Rightarrow> node_id \<Rightarrow> string list \<Rightarrow> db_cluster \<Rightarrow> handler_result" where
  "handle_keys ev me args c =
     (let (ks, c1) = collect_cluster_keys ev me (if args = [] then ''*'' else args ! 0) c in (Inr (Success (JList (map JStr ks))), c1))"

definition handle_shards :: "node_env \<Rightarrow> node_id \<Rightarrow> db_cluster \<Rightarrow> handler_result" where
  "handle_shards ev me c =
     (let (ks, c1) = collect_cluster_keys ev me ''*'' c; d = c1 me; h = ev_hash ev
      in (Inr (Success (JDict
            [(''total_keys'', JInt (int (length ks))),
             (''distribution'', JDict (map (\<lambda>(n, k). (n, JInt k)) (get_key_distribution h (dn_ring d) ks))),
             (''local_keys'', JInt (int (length (filter (pm_is_local_key h (dn_partitions d) (dn_ring d)) ks)))),
             (''primary_keys'', JInt (int (length (filter (pm_is_primary_owner h (dn_partitions d) (dn_ring d)) ks))))])), c1))"

section \<open>Reports\<close>

definition node_info_dict :: "node_env \<Rightarrow> db_node \<Rightarrow> (string, json) dict" where
  "node_info_dict ev d =
     (let stats = kv_get_stats (sg_store (node_storage d)) (ev_now ev)
      in [(''node_id'', JStr (cf_node_id (dn_config d))), (''role'', JStr (role_value (el_role (dn_election d)))),
          (''leader_id'', of_opt JStr (get_leader_id (dn_cluster d))), (''term'', JInt (el_current_term (dn_election d))),
          (''keys'', JInt (int (kv_size (sg_store (node_storage d))))), (''stats'', JDict stats),
          (''cluster_size'', JInt (int (node_count (dn_membership d)))), (''uptime'', dict_get stats ''uptime_seconds'' (JInt 0))])"

definition info_section :: "node_env \<Rightarrow> db_node \<Rightarrow> string \<Rightarrow> (string, json) dict option" where
  "info_section ev d sec =
     (let info = node_info_dict ev d; pick = map (\<lambda>k. (k, dict_get info k JNull))
      in if sec = ''node'' then Some (pick [''node_id'', ''role'', ''leader_id'', ''term'', ''uptime''])
         else if sec = ''storage'' then Some (pick [''keys'', ''stats''])
         else if sec = ''cluster'' then Some (pick [''leader_id'', ''cluster_size'', ''role'', ''term''])
         else if sec = ''reads'' then Some (rc_get_stats (dn_read_coordinator d))
         else if sec = ''migration'' then Some (get_migration_status (dn_migration d))
         else None)"

definition handle_info :: "node_env \<Rightarrow> db_node \<Rightarrow> string list \<Rightarrow> response" where
  "handle_info ev d args =
     (if args = [] then Success (JDict (node_info_dict ev d))
      else
        (case info_section ev d (py_lower (args ! 0)) of
           Some sec \<Rightarrow> Success (JDict sec)
         | None \<Rightarrow> Failure (''Unknown INFO section: '' @ py_lower (args ! 0))))"

definition handle_nodes :: "db_node \<Rightarrow> response" where
  "handle_nodes d = Success (JDict [(''nodes'', JList (map (\<lambda>n. JDict (Membership.node_to_dict n)) (all_members (dn_membership d))))])"

definition handle_leader :: "db_node \<Rightarrow> response" where
  "handle_leader d =
     (let leader = get_leader_id (dn_cluster d)
      in Success (JDict [(''leader_id'', of_opt JStr leader), (''leader_address'', of_opt JStr (get_leader_address (dn_cluster d))),
           (''is_self'', JBool (leader = Some (cf_node_id (dn_config d))))]))"

definition handle_ring :: "db_node \<Rightarrow> string list \<Rightarrow> py_error + response" where
  "handle_ring d args =
     (case (if args = [] then Some 20 else py_int_str (args ! 0)) of
        None \<Rightarrow> Inl ValueError
      | Some samples \<Rightarrow>
          Inr (Success (JDict
            [(''ring'', JList (map (\<lambda>(h, n). JDict [(''hash'', JInt (int h)), (''node'', JStr n)]) (py_take (get_ring_state (dn_ring d)) samples))),
             (''node_count'', JInt (int (get_node_count (dn_ring d)))), (''virtual_nodes'', JInt (cf_virtual_nodes (dn_config d)))])))"

definition handle_replicas :: "node_env \<Rightarrow> db_node \<Rightarrow> string list \<Rightarrow> response" where
  "handle_replicas ev d args =
     (if args = []
      then Success (JDict
        [(''replication_factor'', JInt (cf_replication_factor (dn_config d))),
         (''default_consistency'', JStr (consistency_value (cf_default_consistency (dn_config d)))),
         (''pending_requests'', JInt (int (get_pending_count (co_replication (dn_cluster d))))),
         (''async_queue_size'', JInt (int (get_async_queue_size (co_replication (dn_cluster d)))))])
      else
        let key = args ! 0; replicas = get_nodes (ev_hash ev) (dn_ring d) key (cf_replication_factor (dn_config d))
        in Success (JDict
             [(''key'', JStr key), (''primary'', of_opt JStr (get_node (ev_hash ev) (dn_ring d) key)),
              (''replicas'', JList (map JStr replicas)), (''is_local_replica'', JBool (cf_node_id (dn_config d) \<in> set replicas))]))"

definition handle_route :: "node_env \<Rightarrow> db_node \<Rightarrow> string list \<Rightarrow> response" where
  "handle_route ev d args =
     (if args = [] then Failure ''ROUTE requires key''
      else
        let ri = get_routing_info (ev_hash ev) (dn_router d) (dn_ring d) (args ! 0)
        in Success (JDict
             [(''key'', JStr (ri_key ri)), (''primary_owner'', of_opt JStr (ri_primary_owner ri)),
              (''replicas'', JList (map JStr (ri_replicas ri))), (''is_local'', JBool (ri_is_local ri)),
              (''is_primary'', JBool (ri_is_primary ri)), (''healthy_replicas'', JList (map JStr (ri_healthy_replicas ri)))]))"

definition handle_stats :: "node_env \<Rightarrow> db_node \<Rightarrow> response" where
  "handle_stats ev d =
     Success (JDict
       [(''storage'', JDict (kv_get_stats (sg_store (node_storage d)) (ev_now ev))),
        (''cluster'', JDict [(''members'', JInt (int (node_count (dn_membership d)))), (''leader'', of_opt JStr (get_leader_id (dn_cluster d))),
           (''term'', JInt (el_current_term (dn_election d)))]),
        (''replication'', JDict [(''pending'', JInt (int (get_pending_count (co_replication (dn_cluster d))))),
           (''async_queue'', JInt (int (get_async_queue_size (co_replication (dn_cluster d)))))]),
        (''reads'', JDict (rc_get_stats (dn_read_coordinator d))),
        (''rate_limit'', JDict (limiter_get_stats (bp_limiter (dn_backpressure d)))),
        (''backpressure'', JDict [(''level'', JFloat (bp_level (dn_backpressure d)))]),
        (''migration'', JDict (get_migration_status (dn_migration d)))])"

definition handle_rebalance :: "node_env \<Rightarrow> node_id \<Rightarrow> db_cluster \<Rightarrow> handler_result" where
  "handle_rebalance ev me c =
     (let (tasks, mg, w) = calculate_rebalance_migrations (ev_hash ev) (dn_ring (c me)) (migration_callbacks_of ev c me) (ev_now ev)
            (dn_migration (c me)) (stores_of c);
          c1 = put_stores w c
      in (Inr (Success (JDict [(''migrations_started'', JInt (int (length tasks))), (''status'', JDict (get_migration_status mg))])),
          c1(me := (c1 me)\<lparr>dn_migration := mg\<rparr>)))"

definition handle_migrate :: "db_node \<Rightarrow> response" where
  "handle_migrate d = Success (JDict (get_migration_status (dn_migration d)))"

definition handle_failover :: "node_env \<Rightarrow> node_id \<Rightarrow> db_cluster \<Rightarrow> handler_result" where
  "handle_failover ev me c =
     (if \<not> el_is_leader (dn_election (c me))
      then (Inr (case get_leader_address (dn_cluster (c me)) of
                   Some addr \<Rightarrow> if addr \<noteq> [] then Failure (''Not leader. Redirect to '' @ addr) else Failure ''No leader available''
                 | None \<Rightarrow> Failure ''No leader available''), c)
      else
        let d = node_step_down ev (c me)
        in (Inr (Success (JDict [(''message'', JStr ''Stepping down as leader''), (''old_term'', JInt (el_current_term (dn_election d)))])),
            c(me := d)))"

section \<open>Fault commands\<close>

text \<open>\<^verbatim>\<open>handle_fault\<close>: the result of an injection is not looked at; the faults of the command cannot raise.\<close>

definition handle_fault :: "node_env \<Rightarrow> (string \<Rightarrow> nat) \<Rightarrow> nat \<Rightarrow> db_node \<Rightarrow> string list \<Rightarrow> response \<times> db_node" where
  "handle_fault ev gz_size fail d args =
     (if args = [] then (Success (JDict (fi_get_stats (dn_fault_injector d))), d)
      else
        let action = py_upper (args ! 0); inject = (\<lambda>f. snd (node_inject ev gz_size fail f d))
        in if action = ''ENABLE'' then (Success (JStr ''Fault injection enabled''), d\<lparr>dn_fault_injector := fi_enable (dn_fault_injector d)\<rparr>)
           else if action = ''DISABLE'' then (Success (JStr ''Fault injection disabled''), d\<lparr>dn_fault_injector := fi_disable (dn_fault_injector d)\<rparr>)
           else if action = ''CLEAR'' then (Success (JStr ''All faults cleared''), d\<lparr>dn_fault_injector := clear_all_faults (dn_fault_injector d)\<rparr>)
           else if action = ''PARTITION''
           then (if length args < 2 then (Failure ''Usage: FAULT PARTITION <node_id>'', d)
                 else (Success (JStr (''Partitioned from '' @ args ! 1)), inject (create_network_partition (ev_now ev) [args ! 1] 0)))
           else if action = ''LIST'' then (Success (get_active_faults (ev_now ev) (dn_fault_injector d)), d)
           else if action = ''DELAY''
           then (if length args < 2 then (Failure ''Usage: FAULT DELAY <ms> [jitter]'', d)
                 else (case (py_int_str (args ! 1), if length args > 2 then py_int_str (args ! 2) else Some 0) of
                         (Some ms, Some jitter) \<Rightarrow>
                           (Success (JStr (''Injected '' @ str_int ms @ ''ms delay'')), inject (create_network_delay (ev_now ev) ms jitter 1 []))
                       | _ \<Rightarrow> (Failure ''Invalid delay value'', d)))
           else if action = ''DROP''
           then (if length args < 2 then (Failure ''Usage: FAULT DROP <percentage>'', d)
                 else (case ev_float ev (args ! 1) of
                         Some x \<Rightarrow>
                           let pct = (if x > 1 then x / 100 else x)
                           in (Success (JStr (''Injected '' @ fc_repr (ev_codec ev) (pct * 100) @ ''% packet drop'')),
                               inject (create_packet_drop (ev_now ev) pct []))
                       | None \<Rightarrow> (Failure ''Invalid percentage'', d)))
           else (Failure (''Unknown fault action: '' @ action), d))"

definition handle_ratelimit :: "db_node \<Rightarrow> response" where
  "handle_ratelimit d = Success (JDict (bp_get_stats (dn_backpressure d)))"

section \<open>The dispatcher\<close>

text \<open>A handler that only reports on the node.\<close>

definition report :: "node_id \<Rightarrow> (db_node \<Rightarrow> response) \<Rightarrow> db_cluster \<Rightarrow> handler_result" where
  "report me f c = (Inr (f (c me)), c)"

definition dispatch ::
  "node_env \<Rightarrow> (string \<Rightarrow> nat) \<Rightarrow> nat \<Rightarrow> node_id \<Rightarrow> string \<Rightarrow> string list \<Rightarrow> db_cluster \<Rightarrow> handler_result" where
  "dispatch ev gz_size fail me cmd args c =
     (if cmd = ''SET'' then handle_set ev me args c
      else if cmd = ''SETEX'' then handle_setex ev me args c
      else if cmd = ''GET'' then node_get ev me args c
      else if cmd = ''DELETE'' \<or> cmd = ''DEL'' then handle_delete ev me args c
      else if cmd = ''EXISTS'' then handle_exists ev me args c
      else if cmd = ''KEYS'' then handle_keys ev me args c
      else if cmd = ''INFO'' then report me (\<lambda>d. handle_info ev d args) c
      else if cmd = ''CLUSTER'' then report me (\<lambda>d. Success (JDict (get_cluster_info (dn_cluster d)))) c
      else if cmd = ''PING'' then report me (\<lambda>d. Success (JStr ''PONG'')) c
      else if cmd = ''NODES'' then report me handle_nodes c
      else if cmd = ''LEADER'' then report me handle_leader c
      else if cmd = ''RING'' then (handle_ring (c me) args, c)
      else if cmd = ''SHARDS'' then handle_shards ev me c
      else if cmd = ''REPLICAS'' then report me (\<lambda>d. handle_replicas ev d args) c
      else if cmd = ''ROUTE'' then report me (\<lambda>d. handle_route ev d args) c
      else if cmd = ''STATS'' then report me (handle_stats ev) c
      else if cmd = ''REBALANCE'' then handle_rebalance ev me c
      else if cmd = ''MIGRATE'' then report me handle_migrate c
      else if cmd = ''FAILOVER'' then handle_failover ev me c
      else if cmd = ''FAULT'' then (let (r, d) = handle_fault ev gz_size fail (c me) args in (Inr r, c(me := d)))
      else if cmd = ''RATELIMIT'' then report me handle_ratelimit c
      else if cmd = ''__LEADER_WRITE'' then handle_leader_write ev me args c
      else if cmd = ''__OWNER_WRITE'' then handle_owner_write ev me args c
      else if cmd = ''__LOCAL_READ'' then node_local_read ev me args c
      else if cmd = ''__LOCAL_KEYS'' then node_local_keys ev me args c
      else if cmd = ''__REPLICA_SET'' then node_replica_set ev me args c
      else if cmd = ''__IMPORT_KEYS'' then node_import_keys ev me args c
      else (Inr (Failure (''Unknown command: '' @ cmd)), c))"

text \<open>\<^verbatim>\<open>_handle_client_message\<close> for the payloads the clients of the program send, a command string with a list of strings. Other
  payloads, for which the source depends on the dynamic type of each argument, are answered with a type error here.\<close>

definition string_args :: "json \<Rightarrow> string list res" where
  "string_args j =
     (case j of
        JList vs \<Rightarrow> if list_all (\<lambda>v. case v of JStr _ \<Rightarrow> True | _ \<Rightarrow> False) vs then Inr (json_strings vs) else Inl TypeError
      | _ \<Rightarrow> Inl TypeError)"

definition handle_client_message ::
  "node_env \<Rightarrow> (string \<Rightarrow> nat) \<Rightarrow> nat \<Rightarrow> node_id \<Rightarrow> message \<Rightarrow> db_cluster \<Rightarrow> response \<times> db_cluster" where
  "handle_client_message ev gz_size fail me m c =
     serve ev (ms_sender m) me
       (\<lambda>c. let (cmd, args) = parse_command (ms_payload m)
            in (case (as_str cmd, string_args args) of
                  (Inr cmd, Inr args) \<Rightarrow> dispatch ev gz_size fail me cmd args c
                | _ \<Rightarrow> (Inl TypeError, c))) c"

end
