(* ===== verification/NodeWrites.thy ===== *)
theory NodeWrites
  imports NodeCommands
begin

text \<open>
  Writes as a client sees them: a write sent to any node is the write at the leader, forwarding ends once the known leader
  settles, and what an acknowledged command means for the cluster.
\<close>

section \<open>Forwarding\<close>

definition write_ok :: "node_env \<Rightarrow> string \<Rightarrow> json \<Rightarrow> int option \<Rightarrow> bool" where
  "write_ok ev operation value ttl \<longleftrightarrow>
     operation = ''SET'' \<and> json_wf (ev_codec ev) value \<or> operation = ''DELETE'' \<and> value = JNull \<and> ttl = None"

lemma py_upper_ops [simp]: "py_upper ''SET'' = ''SET''" "py_upper ''DELETE'' = ''DELETE''"
  by (simp_all add: py_upper_def)

lemma str_int_nonempty: "str_int i \<noteq> []" "str_int i \<noteq> ''None''" "str_int i \<noteq> ''null''"
proof -
  have "py_int_str ''None'' = None" "py_int_str ''null'' = None" "py_int_str [] = None"
    by (simp_all add: py_int_str_def py_strip_def is_space_def is_digit_def)
  then show "str_int i \<noteq> []" "str_int i \<noteq> ''None''" "str_int i \<noteq> ''null''"
    using py_int_str_int [of i] by (metis option.distinct(1))+
qed

lemma parse_write_args:
  assumes "float_codec_ok (ev_codec ev)" and "write_ok ev operation value ttl"
  shows "parse_write ev role (write_args ev operation key value ttl) = Inr (operation, key, value, ttl)"
  using assms str_int_nonempty [of "the ttl"]
  by (cases ttl) (auto simp: write_ok_def parse_write_def write_args_def loads_dumps Let_def simp del: dumps.simps)

lemma leader_write_args:
  assumes "float_codec_ok (ev_codec ev)" and "write_ok ev operation value ttl" and "el_is_leader (dn_election (c l))"
  shows "handle_leader_write ev l (write_args ev operation key value ttl) c = node_apply_write ev l operation key value ttl c"
proof -
  have "length (write_args ev operation key value ttl) \<ge> 2" by (simp add: write_args_def)
  then show ?thesis using assms by (simp add: handle_leader_write_def parse_write_args)
qed

lemma catch_answer [simp]: "catch ev (Inr r, c) = (r, c)"
  by (simp add: catch_def)

lemma admit_election: "admit ev s n c = (ok, c1) \<Longrightarrow> dn_cluster (c1 m) = dn_cluster (c m)"
  by (auto simp: admit_def split: prod.splits)

text \<open>C7: A write sent to any node is the write at the leader. When a node that is not the leader receives a write, knows the
  leader and reaches it, and the leader admits the request, the answer and the state of the whole cluster are exactly
  those of the same write given to the leader, whatever the value and the time to live: they survive the JSON text
  they are forwarded as.\<close>

theorem forwarded_write_equals_direct:
  assumes "float_codec_ok (ev_codec ev)" and "write_ok ev operation value ttl"
    and "\<not> el_is_leader (dn_election (c me))" and "get_leader_id (dn_cluster (c me)) = Some l" and "l \<noteq> []"
    and "member_at (dn_membership (c me)) l = Some x" and "ni_state x = ALIVE"
    and "ev_connect ev l" and "ev_send ev l = Replied" and "ev_leader ev 0 = Some l"
    and "el_is_leader (dn_election (c l))" and "admit ev (ev_sender ev me) l c = (True, c1)"
  shows "catch ev (coordinate_or_forward_write ev me operation key value ttl c) =
    catch ev (coordinate_or_forward_write ev l operation key value ttl c1)"
proof -
  have lead: "el_is_leader (dn_election (c1 l))" using assms(11) admit_election [OF assms(12)] by simp
  let ?d = "catch ev (node_apply_write ev l operation key value ttl c1)"
  have "serve ev (ev_sender ev me) l (handle_leader_write ev l (write_args ev operation key value ttl)) c = ?d"
    by (simp add: serve_def assms(12) leader_write_args [where c = c1, OF assms(1,2) lead])
  then have "forward_write ev me (Suc depth) 0 l operation key value ttl c = ?d" for depth
    using assms(5-10) by (simp add: case_prod_unfold Let_def)
  then have "forward_write ev me recursion_limit 0 l operation key value ttl c = ?d"
    by (simp only: recursion_limit_def) (metis numeral_eq_Suc)
  then show ?thesis using assms(3-5) lead by (simp add: coordinate_or_forward_write_def case_prod_unfold Let_def)
qed

definition sample_config :: "node_id \<Rightarrow> node_config" where
  "sample_config n = (default_node_config n)\<lparr>cf_aof_enabled := False, cf_snapshot_enabled := False, cf_replication_factor := 1, cf_virtual_nodes := 1\<rparr>"

definition seat :: "node_id \<Rightarrow> db_node" where
  "seat n = node_init length (sample_config n) \<lparr>dir_main = None, dir_bak = None, dir_tmp = None\<rparr>
     \<lparr>sn_main = None, sn_bak = None, sn_tmp = None, sn_meta = None\<rparr> 0 2"

text \<open>A node that has heard of the leader \<open>b\<close>, and that leader.\<close>

definition sample_cluster :: db_cluster where
  "sample_cluster n =
     (let d = seat n; co = dn_cluster d
      in d\<lparr>dn_cluster := co\<lparr>co_membership := snd (mb_add_node (new_node ''b'' ''h'' 1 2 0) (co_membership co)),
             co_election := (co_election co)\<lparr>el_leader_id := Some ''b'', el_role := if n = ''b'' then LEADER else FOLLOWER\<rparr>\<rparr>\<rparr>)"

definition quiet_env :: node_env where
  "quiet_env =
     \<lparr>ev_codec = whole_codec, ev_float = whole_time, ev_hash = length, ev_show = (\<lambda>e. ''error''), ev_now = 1, ev_timeout = 2,
      ev_random = 1, ev_draw = (\<lambda>_. 1), ev_spread = (\<lambda>_. 0), ev_order = in_order, ev_sender = (\<lambda>n. []), ev_connect = (\<lambda>n. True),
      ev_send = (\<lambda>n. Replied), ev_prepare = (\<lambda>n. Replied), ev_commit = (\<lambda>n. Replied), ev_read = (\<lambda>n. Replied),
      ev_repair = (\<lambda>n. Replied), ev_leader = (\<lambda>i. Some ''b'')\<rparr>"

lemmas sample_node_defs = sample_cluster_def seat_def sample_config_def default_node_config_def node_init_def coordinator_init_def
  storage_init_def quiet_env_def Let_def

lemma sample_member: "member_at (dn_membership (sample_cluster ''a'')) ''b'' = Some (new_node ''b'' ''h'' 1 2 0)"
  by (simp add: sample_node_defs mb_add_node_def membership_init_def member_at_def new_node_def)

lemma sample_admit: "fst (admit quiet_env [] n sample_cluster)"
  by (simp add: admit_def sample_node_defs should_accept_request_def backpressure_init_def token_bucket_init_def tb_try_acquire_def refill_def
      get_bucket_def)

theorem forwarded_write_equals_direct_witness:
  "catch quiet_env (coordinate_or_forward_write quiet_env ''a'' ''SET'' ''k'' (JStr ''v'') (Some 5) sample_cluster) =
   catch quiet_env (coordinate_or_forward_write quiet_env ''b'' ''SET'' ''k'' (JStr ''v'') (Some 5) (snd (admit quiet_env [] ''b'' sample_cluster)))"
proof (rule forwarded_write_equals_direct [where c = sample_cluster and me = "''a''" and l = "''b''", OF _ _ _ _ _ sample_member])
  show "admit quiet_env (ev_sender quiet_env ''a'') ''b'' sample_cluster = (True, snd (admit quiet_env [] ''b'' sample_cluster))"
    using sample_admit [of "''b''"] by (simp add: quiet_env_def prod_eq_iff)
qed (simp_all add: whole_codec_ok write_ok_def sample_node_defs election_init_def el_is_leader_def get_leader_id_def new_node_def)

text \<open>The call in position \<open>i\<close> addresses the leader read before it.\<close>

lemma forward_write_depth:
  assumes "\<forall>j \<ge> m. ev_leader ev j = ev_leader ev m"
    and "i \<le> Suc m" and "i = Suc m \<Longrightarrow> ev_leader ev m = Some n" and "Suc (Suc m) - i \<le> depth" and "Suc (Suc m) - i \<le> depth'"
  shows "forward_write ev me depth i n operation key value ttl c = forward_write ev me depth' i n operation key value ttl c"
  using assms(2-)
proof (induction depth arbitrary: i n c depth')
  case 0
  then show ?case by simp
next
  case (Suc depth)
  then obtain k where k: "depth' = Suc k" by (cases depth') auto
  show ?case
  proof (cases "i = Suc m")
    case True
    then have "ev_leader ev i = Some n" using Suc.prems(2) assms(1) by (metis le_SucI order_refl)
    then show ?thesis by (simp add: k case_prod_unfold Let_def split: option.splits)
  next
    case False
    have "forward_write ev me depth (Suc i) l operation key value ttl c' = forward_write ev me k (Suc i) l operation key value ttl c'"
      if "ev_leader ev i = Some l" for l c'
      using that False Suc.prems by (intro Suc.IH) (auto simp: k)
    then show ?thesis by (simp add: k case_prod_unfold Let_def split: option.splits)
  qed
qed

text \<open>C28: Forwarding ends. If, after the forwarding node has asked for the leader \<open>m\<close> times, the answer stays the same, then at
  most \<open>m + 2\<close> nodes are asked to perform the write: with any greater recursion limit the answer and the cluster are the
  same, so the result is that of the last node asked and not of an exhausted stack.\<close>

theorem forward_write_terminates:
  assumes "\<forall>j \<ge> m. ev_leader ev j = ev_leader ev m" and "m + 2 \<le> recursion_limit"
  shows "forward_write ev me recursion_limit 0 l operation key value ttl c = forward_write ev me (m + 2) 0 l operation key value ttl c"
proof (rule forward_write_depth [OF assms(1)])
  show "Suc (Suc m) - 0 \<le> recursion_limit" using assms(2) by simp
qed simp_all

theorem forward_write_terminates_witness:
  "forward_write quiet_env ''a'' recursion_limit 0 ''b'' ''SET'' ''k'' (JStr ''v'') None sample_cluster =
   forward_write quiet_env ''a'' 2 0 ''b'' ''SET'' ''k'' (JStr ''v'') None sample_cluster"
  using forward_write_terminates [of 0 quiet_env "''a''" "''b''" "''SET''" "''k''" "JStr ''v''" None sample_cluster]
  by (simp add: quiet_env_def recursion_limit_def numeral_2_eq_2 del: forward_write.simps)

end
