(* ===== verification/NodeTopology.thy ===== *)
theory NodeTopology
  imports NodeWrites
begin

text \<open>
  What topology synchronisation establishes: the ring and the routing table of a node follow its membership table, so nodes
  whose tables agree place every key on the same replicas.
\<close>

section \<open>Views of the cluster\<close>

lemma set_follower_frame [simp]:
  "dn_config (set_follower fl d) = dn_config d" "dn_ring (set_follower fl d) = dn_ring d"
  "dn_partitions (set_follower fl d) = dn_partitions d" "dn_router (set_follower fl d) = dn_router d"
  "dn_migration (set_follower fl d) = dn_migration d" "dn_fault_injector (set_follower fl d) = dn_fault_injector d"
  "dn_read_coordinator (set_follower fl d) = dn_read_coordinator d" "dn_backpressure (set_follower fl d) = dn_backpressure d"
  "dn_known_ring_nodes (set_follower fl d) = dn_known_ring_nodes d" "dn_write_sequence (set_follower fl d) = dn_write_sequence d"
  "co_membership (dn_cluster (set_follower fl d)) = co_membership (dn_cluster d)"
  "co_election (dn_cluster (set_follower fl d)) = co_election (dn_cluster d)"
  "co_replication (dn_cluster (set_follower fl d)) = co_replication (dn_cluster d)"
  "co_node_id (dn_cluster (set_follower fl d)) = co_node_id (dn_cluster d)"
  "co_follower (dn_cluster (set_follower fl d)) = fl"
  by (simp_all add: set_follower_def)

lemma set_storage_frame [simp]:
  "dn_config (set_storage s d) = dn_config d" "dn_ring (set_storage s d) = dn_ring d"
  "dn_partitions (set_storage s d) = dn_partitions d" "dn_router (set_storage s d) = dn_router d"
  "dn_migration (set_storage s d) = dn_migration d" "dn_fault_injector (set_storage s d) = dn_fault_injector d"
  "dn_read_coordinator (set_storage s d) = dn_read_coordinator d" "dn_backpressure (set_storage s d) = dn_backpressure d"
  "dn_known_ring_nodes (set_storage s d) = dn_known_ring_nodes d" "dn_write_sequence (set_storage s d) = dn_write_sequence d"
  "co_membership (dn_cluster (set_storage s d)) = co_membership (dn_cluster d)"
  "co_election (dn_cluster (set_storage s d)) = co_election (dn_cluster d)"
  "co_replication (dn_cluster (set_storage s d)) = co_replication (dn_cluster d)"
  "co_node_id (dn_cluster (set_storage s d)) = co_node_id (dn_cluster d)"
  "node_storage (set_storage s d) = s"
  by (simp_all add: set_storage_def node_storage_def)

lemma stores_put [simp]: "stores_of (put_stores w c) = w"
  by (rule ext) (simp add: stores_of_def put_stores_def)

lemma put_stores_at: "put_stores w c n = set_storage (w n) (c n)"
  by (simp add: put_stores_def)

lemma node_storage_frame [simp]:
  "node_storage (d\<lparr>dn_ring := r\<rparr>) = node_storage d" "node_storage (d\<lparr>dn_migration := mg\<rparr>) = node_storage d"
  "node_storage (d\<lparr>dn_router := rt\<rparr>) = node_storage d" "node_storage (d\<lparr>dn_known_ring_nodes := k\<rparr>) = node_storage d"
  "node_storage (d\<lparr>dn_backpressure := bp\<rparr>) = node_storage d" "node_storage (d\<lparr>dn_read_coordinator := rc\<rparr>) = node_storage d"
  "node_storage (d\<lparr>dn_fault_injector := fi\<rparr>) = node_storage d"
  by (simp_all add: node_storage_def)

section \<open>The steps\<close>

definition shows_same :: "time \<Rightarrow> db_cluster \<Rightarrow> db_cluster \<Rightarrow> bool" where
  "shows_same t c c' \<longleftrightarrow> (\<forall>n. kv_view t (sg_store (node_storage (c' n))) = kv_view t (sg_store (node_storage (c n))))"

definition stores_wf :: "db_cluster \<Rightarrow> bool" where
  "stores_wf c \<longleftrightarrow> (\<forall>n. kv_wf (sg_store (node_storage (c n))))"

lemma shows_same_refl [simp]: "shows_same t c c"
  by (simp add: shows_same_def)

lemma shows_same_trans [trans]: "shows_same t a b \<Longrightarrow> shows_same t b c \<Longrightarrow> shows_same t a c"
  by (simp add: shows_same_def)

lemma local_keys_of:
  "the (mc_get_local_keys (migration_callbacks_of ev c me)) w =
     (fst (kv_get_all_data (sg_store (w me)) (ev_now ev)), w(me := (w me)\<lparr>sg_store := kv_cleanup_expired (sg_store (w me)) (ev_now ev)\<rparr>))"
  by (simp add: migration_callbacks_of_def node_migration_callbacks_def kv_get_all_data_def Let_def)

lemma on_node_join_stores:
  "snd (snd (on_node_join h rg (migration_callbacks_of ev c me) now n mg w)) =
     w(me := (w me)\<lparr>sg_store := kv_cleanup_expired (sg_store (w me)) (ev_now ev)\<rparr>)"
proof -
  obtain f where "mc_get_local_keys (migration_callbacks_of ev c me) = Some f"
    by (simp add: migration_callbacks_of_def node_migration_callbacks_def)
  with local_keys_of [of ev c me w] show ?thesis by (simp add: on_node_join_def Let_def)
qed

lemma join_step_at:
  "join_step ev me n c me =
     (set_storage ((node_storage (c me))\<lparr>sg_store := kv_cleanup_expired (sg_store (node_storage (c me))) (ev_now ev)\<rparr>) (c me))
       \<lparr>dn_ring := add_node (ev_hash ev) (dn_ring (c me)) n,
        dn_migration := fst (snd (on_node_join (ev_hash ev) (add_node (ev_hash ev) (dn_ring (c me)) n) (migration_callbacks_of ev c me) (ev_now ev) n
          (dn_migration (c me)) (stores_of c)))\<rparr>"
  by (simp add: join_step_def pm_add_node_def Let_def case_prod_unfold on_node_join_stores put_stores_at stores_of_def)

lemma put_same_storage [simp]: "set_storage (node_storage d) d = d"
  by (simp add: set_storage_def set_follower_def node_storage_def)

lemma join_step_other: "m \<noteq> me \<Longrightarrow> join_step ev me n c m = c m"
  by (simp add: join_step_def Let_def case_prod_unfold on_node_join_stores put_stores_at stores_of_def)

definition keeps_tables :: "node_id \<Rightarrow> db_cluster \<Rightarrow> db_cluster \<Rightarrow> bool" where
  "keeps_tables me c c' \<longleftrightarrow> dn_known_ring_nodes (c' me) = dn_known_ring_nodes (c me) \<and> dn_membership (c' me) = dn_membership (c me) \<and>
     dn_config (c' me) = dn_config (c me) \<and> co_node_id (dn_cluster (c' me)) = co_node_id (dn_cluster (c me)) \<and>
     (\<forall>m. m \<noteq> me \<longrightarrow> c' m = c m)"

lemma join_fold:
  "dn_ring (fold (join_step ev me) ns c me) = fold (\<lambda>n r. add_node (ev_hash ev) r n) ns (dn_ring (c me)) \<and>
   dn_router (fold (join_step ev me) ns c me) = dn_router (c me) \<and> keeps_tables me c (fold (join_step ev me) ns c)"
proof (induction ns arbitrary: c)
  case (Cons n ns)
  show ?case using Cons.IH [of "join_step ev me n c"] by (simp add: join_step_at join_step_other keeps_tables_def)
qed (simp add: keeps_tables_def)

lemma join_fold_shows:
  assumes "stores_wf c" and "ev_now ev \<le> t"
  shows "stores_wf (fold (join_step ev me) ns c) \<and> shows_same t c (fold (join_step ev me) ns c)"
  using assms(1)
proof (induction ns arbitrary: c)
  case (Cons n ns)
  have wf: "kv_wf (sg_store (node_storage (c me)))" using Cons.prems by (simp add: stores_wf_def)
  have st: "node_storage (join_step ev me n c m) = (if m = me
      then (node_storage (c me))\<lparr>sg_store := kv_cleanup_expired (sg_store (node_storage (c me))) (ev_now ev)\<rparr> else node_storage (c m))" for m
    by (simp add: join_step_at join_step_other)
  have "stores_wf (join_step ev me n c)" using Cons.prems by (simp add: stores_wf_def st kv_wf_cleanup)
  moreover have "shows_same t c (join_step ev me n c)"
    using kv_view_cleanup [OF wf assms(2)] by (simp add: shows_same_def st)
  ultimately show ?case using Cons.IH [of "join_step ev me n c"] by (auto intro: shows_same_trans)
qed simp

lemma leave_fold:
  "dn_ring (fold (leave_step me) ns c me) = fold (\<lambda>n r. remove_node r n) ns (dn_ring (c me)) \<and>
   dn_router (fold (leave_step me) ns c me) = fold (\<lambda>n rt. router_remove_node rt n) ns (dn_router (c me)) \<and>
   keeps_tables me c (fold (leave_step me) ns c) \<and> (\<forall>m. node_storage (fold (leave_step me) ns c m) = node_storage (c m))"
proof (induction ns arbitrary: c)
  case (Cons n ns)
  show ?case using Cons.IH [of "leave_step me n c"] by (simp add: leave_step_def pm_remove_node_def node_storage_def keeps_tables_def)
qed (simp add: keeps_tables_def)

lemma add_nodes_wf:
  "ring_wf h r \<Longrightarrow> ring_wf h (fold (\<lambda>n r. add_node h r n) ns r)"
  "rg_nodes (fold (\<lambda>n r. add_node h r n) ns r) = rg_nodes r \<union> set ns"
  "rg_virtual_nodes (fold (\<lambda>n r. add_node h r n) ns r) = rg_virtual_nodes r"
  by (induction ns arbitrary: r) (auto simp: ring_wf_add_node)

lemma remove_nodes_wf:
  "ring_wf h r \<Longrightarrow> ring_wf h (fold (\<lambda>n r. remove_node r n) ns r)"
  "rg_nodes (fold (\<lambda>n r. remove_node r n) ns r) = rg_nodes r - set ns"
  "rg_virtual_nodes (fold (\<lambda>n r. remove_node r n) ns r) = rg_virtual_nodes r"
  by (induction ns arbitrary: r) (auto simp: ring_wf_remove_node)

section \<open>The routing table\<close>

lemma sync_router_other:
  "n \<notin> ni_node_id ` set ms \<Longrightarrow> dget (rt_node_addresses (sync_router ms rt)) n = dget (rt_node_addresses rt) n \<and>
     dget (rt_node_health (sync_router ms rt)) n = dget (rt_node_health rt) n"
  by (induction ms arbitrary: rt) (auto simp: router_remove_node_def set_node_health_def update_node_address_def update_conv' delete_conv')

definition routed_as :: "router \<Rightarrow> node_info \<Rightarrow> bool" where
  "routed_as rt m \<longleftrightarrow>
     dget (rt_node_addresses rt) (ni_node_id m) = (if ni_state m = DEAD then None else Some (client_address m)) \<and>
     dget (rt_node_health rt) (ni_node_id m) = (if ni_state m = DEAD then None else Some (ni_state m = ALIVE))"

lemma sync_router_at:
  "distinct (map ni_node_id ms) \<Longrightarrow> m \<in> set ms \<Longrightarrow> routed_as (sync_router ms rt) m"
proof (induction ms arbitrary: rt)
  case (Cons x xs)
  show ?case
  proof (cases "m = x")
    case True
    then have "ni_node_id x \<notin> ni_node_id ` set xs" using Cons.prems by auto
    from sync_router_other [OF this] True show ?thesis
      by (simp add: routed_as_def router_remove_node_def set_node_health_def update_node_address_def update_conv' delete_conv')
  next
    case False
    then have "m \<in> set xs" "distinct (map ni_node_id xs)" using Cons.prems by auto
    from Cons.IH [OF this(2,1)] show ?thesis by simp
  qed
qed simp

lemma removes_other:
  "n \<notin> set ns \<Longrightarrow> dget (rt_node_addresses (fold (\<lambda>n rt. router_remove_node rt n) ns rt)) n = dget (rt_node_addresses rt) n \<and>
     dget (rt_node_health (fold (\<lambda>n rt. router_remove_node rt n) ns rt)) n = dget (rt_node_health rt) n"
  by (induction ns arbitrary: rt) (auto simp: router_remove_node_def delete_conv')

lemma removes_at:
  "n \<in> set ns \<Longrightarrow> dget (rt_node_addresses (fold (\<lambda>n rt. router_remove_node rt n) ns rt)) n = None \<and>
     dget (rt_node_health (fold (\<lambda>n rt. router_remove_node rt n) ns rt)) n = None"
proof (induction ns arbitrary: rt)
  case (Cons x xs)
  show ?case
  proof (cases "n \<in> set xs")
    case True
    then show ?thesis using Cons.IH by simp
  next
    case False
    from removes_other [OF this, of "router_remove_node rt x"] False Cons.prems show ?thesis
      by (simp add: router_remove_node_def delete_conv')
  qed
qed simp

lemma all_members_ids: "mb_wf mb \<Longrightarrow> map ni_node_id (all_members mb) = dkeys (mb_members mb)"
  unfolding all_members_def mb_wf_def by (auto simp: map_of_is_SomeI)

section \<open>Synchronisation\<close>

definition topology_inv :: "(string \<Rightarrow> nat) \<Rightarrow> node_id \<Rightarrow> db_node \<Rightarrow> bool" where
  "topology_inv h me d \<longleftrightarrow> ring_wf h (dn_ring d) \<and> rg_nodes (dn_ring d) = insert me (dn_known_ring_nodes d)"

lemma topology_init: "topology_inv h (cf_node_id cfg) (node_init h cfg ad sd now rt)"
  by (simp add: topology_inv_def node_init_def Let_def ring_wf_add_node ring_wf_init) (simp add: ring_init_def)

lemma sync_topology_parts:
  fixes c :: db_cluster and ev :: node_env
  assumes "topology_inv (ev_hash ev) me (c me)"
  defines "active \<equiv> active_node_ids (dn_membership (c me))"
  shows "topology_inv (ev_hash ev) me (sync_topology ev me c me)"
    and "rg_nodes (dn_ring (sync_topology ev me c me)) = insert me active"
    and "rg_virtual_nodes (dn_ring (sync_topology ev me c me)) = rg_virtual_nodes (dn_ring (c me))"
    and "dn_known_ring_nodes (sync_topology ev me c me) = active"
    and "dn_membership (sync_topology ev me c me) = dn_membership (c me)"
    and "dn_router (sync_topology ev me c me) =
      fold (\<lambda>n rt. router_remove_node rt n) (filter (\<lambda>n. n \<noteq> me) (sorted_list_of_set (dn_known_ring_nodes (c me) - active)))
        (sync_router (all_members (dn_membership (c me))) (dn_router (c me)))"
    and "m \<noteq> me \<Longrightarrow> sync_topology ev me c m = c m"
    and "dn_config (sync_topology ev me c me) = dn_config (c me)"
    and "co_node_id (dn_cluster (sync_topology ev me c me)) = co_node_id (dn_cluster (c me))"
proof -
  let ?known = "dn_known_ring_nodes (c me)"
  let ?js = "sorted_list_of_set (active - ?known)" and ?ls = "filter (\<lambda>n. n \<noteq> me) (sorted_list_of_set (?known - active))"
  define c1 where "c1 = c(me := (c me)\<lparr>dn_router := sync_router (all_members (dn_membership (c me))) (dn_router (c me))\<rparr>)"
  define c2 where "c2 = fold (join_step ev me) ?js c1"
  define c3 where "c3 = fold (leave_step me) ?ls c2"
  have s: "sync_topology ev me c = c3(me := (c3 me)\<lparr>dn_known_ring_nodes := active\<rparr>)"
    by (simp add: sync_topology_def Let_def c3_def c2_def c1_def active_def)
  have fin: "finite ?known" "finite active" using assms(1)
    by (auto simp: topology_inv_def ring_wf_def active_def active_node_ids_def dest: finite_subset [rotated])
  note j = join_fold [of ev me ?js c1, folded c2_def] and l = leave_fold [of me ?ls c2, folded c3_def]
  have ring: "dn_ring (c3 me) = fold (\<lambda>n r. remove_node r n) ?ls (fold (\<lambda>n r. add_node (ev_hash ev) r n) ?js (dn_ring (c me)))"
    using j l by (simp add: c1_def)
  have nodes: "rg_nodes (dn_ring (c3 me)) = insert me active"
    using assms(1) fin unfolding ring add_nodes_wf(2) remove_nodes_wf(2) topology_inv_def by auto
  have "ring_wf (ev_hash ev) (dn_ring (c3 me))"
    using assms(1) unfolding ring by (auto simp: topology_inv_def add_nodes_wf remove_nodes_wf)
  with nodes show "topology_inv (ev_hash ev) me (sync_topology ev me c me)" by (simp add: s topology_inv_def)
  show "rg_nodes (dn_ring (sync_topology ev me c me)) = insert me active" using nodes by (simp add: s)
  show "rg_virtual_nodes (dn_ring (sync_topology ev me c me)) = rg_virtual_nodes (dn_ring (c me))"
    by (simp add: s ring add_nodes_wf(3) remove_nodes_wf(3))
  show "dn_known_ring_nodes (sync_topology ev me c me) = active" by (simp add: s)
  show "dn_membership (sync_topology ev me c me) = dn_membership (c me)" using j l by (simp add: s keeps_tables_def c1_def)
  show "dn_router (sync_topology ev me c me) =
      fold (\<lambda>n rt. router_remove_node rt n) ?ls (sync_router (all_members (dn_membership (c me))) (dn_router (c me)))"
    using j l by (simp add: s c1_def)
  show "sync_topology ev me c m = c m" if "m \<noteq> me" using that j l by (simp add: s keeps_tables_def c1_def)
  show "dn_config (sync_topology ev me c me) = dn_config (c me)" using j l by (simp add: s keeps_tables_def c1_def)
  show "co_node_id (dn_cluster (sync_topology ev me c me)) = co_node_id (dn_cluster (c me))"
    using j l by (simp add: s keeps_tables_def c1_def)
qed

lemma sync_topology_shows:
  assumes "stores_wf c" and "ev_now ev \<le> t"
  shows "stores_wf (sync_topology ev me c) \<and> shows_same t c (sync_topology ev me c)"
proof -
  let ?c1 = "c(me := (c me)\<lparr>dn_router := sync_router (all_members (dn_membership (c me))) (dn_router (c me))\<rparr>)"
  have c1: "stores_wf ?c1" "shows_same t c ?c1" using assms(1) by (simp_all add: stores_wf_def shows_same_def)
  from join_fold_shows [OF c1(1) assms(2)] c1(2) show ?thesis
    using leave_fold unfolding sync_topology_def Let_def
    by (auto simp: stores_wf_def shows_same_def)
qed

text \<open>C13: The ring and the routes follow the membership table. After a synchronisation the ring holds exactly the node itself and
  the members that are not dead, with all their points and no others; every such member is routed to at its current
  address and counts as healthy exactly when it is alive, a dead member is routed to nowhere, and so is a node that
  left the table; the node remembers the members it synchronised with, and keeps its membership table and configuration; no other node's
  state changes, and no node shows a different value for any key. (Joins also queue migration tasks and purge expired keys of the
  node itself.)\<close>

theorem sync_topology_spec:
  assumes "topology_inv (ev_hash ev) me (c me)" and "mb_wf (dn_membership (c me))" and "stores_wf c" and "ev_now ev \<le> t"
  shows "rg_nodes (dn_ring (sync_topology ev me c me)) = insert me (active_node_ids (dn_membership (c me))) \<and>
    ring_wf (ev_hash ev) (dn_ring (sync_topology ev me c me)) \<and>
    (\<forall>m \<in> set (all_members (dn_membership (c me))). routed_as (dn_router (sync_topology ev me c me)) m) \<and>
    (\<forall>n \<in> dn_known_ring_nodes (c me). n \<noteq> me \<and> member_at (dn_membership (c me)) n = None \<longrightarrow>
       dget (rt_node_addresses (dn_router (sync_topology ev me c me))) n = None) \<and>
    dn_known_ring_nodes (sync_topology ev me c me) = active_node_ids (dn_membership (c me)) \<and>
    dn_membership (sync_topology ev me c me) = dn_membership (c me) \<and> dn_config (sync_topology ev me c me) = dn_config (c me) \<and>
    (\<forall>m. m \<noteq> me \<longrightarrow> sync_topology ev me c m = c m) \<and> shows_same t c (sync_topology ev me c)"
proof -
  let ?mb = "dn_membership (c me)" and ?rt = "dn_router (sync_topology ev me c me)" and ?active = "active_node_ids (dn_membership (c me))"
  let ?ls = "filter (\<lambda>n. n \<noteq> me) (sorted_list_of_set (dn_known_ring_nodes (c me) - ?active))"
  note parts = sync_topology_parts [where ev = ev and me = me and c = c, OF assms(1)]
  have fin: "finite (dn_known_ring_nodes (c me))" using assms(1) by (auto simp: topology_inv_def ring_wf_def dest: finite_subset [rotated])
  have "routed_as ?rt m" if m: "m \<in> set (all_members ?mb)" for m
  proof -
    have at: "routed_as (sync_router (all_members ?mb) (dn_router (c me))) m"
      using m assms(2) by (intro sync_router_at) (auto simp: all_members_ids mb_wf_def)
    show ?thesis
    proof (cases "ni_node_id m \<in> set ?ls")
      case True
      then have "ni_state m = DEAD" using m fin by (auto simp: active_node_ids_def)
      with removes_at [OF True] show ?thesis by (simp add: routed_as_def parts(6))
    next
      case False
      from removes_other [OF this] at show ?thesis by (simp add: routed_as_def parts(6))
    qed
  qed
  moreover have "dget (rt_node_addresses ?rt) n = None"
    if n: "n \<in> dn_known_ring_nodes (c me)" "n \<noteq> me" "member_at ?mb n = None" for n
  proof -
    have "n \<notin> set (map ni_node_id (all_members ?mb))"
      unfolding all_members_ids [OF assms(2)] using n(3) by (simp add: member_at_def map_of_eq_None_iff)
    then have "n \<in> set ?ls" using n(1,2) fin by (auto simp: active_node_ids_def)
    from removes_at [OF this] show ?thesis by (simp add: parts(6))
  qed
  ultimately show ?thesis
    using parts(1,2,4,5,7,8) sync_topology_shows [OF assms(3,4)] by (simp add: topology_inv_def)
qed

lemma sample_topology: "topology_inv length n (sample_cluster n)"
  using topology_init [of length "sample_config n" "\<lparr>dir_main = None, dir_bak = None, dir_tmp = None\<rparr>"
      "\<lparr>sn_main = None, sn_bak = None, sn_tmp = None, sn_meta = None\<rparr>" 0 2]
  by (simp add: topology_inv_def sample_cluster_def seat_def Let_def sample_config_def default_node_config_def)

lemma sample_stores: "stores_wf sample_cluster"
  by (simp add: stores_wf_def sample_node_defs node_storage_def kv_wf_init)

lemma sample_members: "mb_members (dn_membership (sample_cluster ''a'')) = [(''a'', LocalRef), (''b'', Own (new_node ''b'' ''h'' 1 2 0))]"
  "mb_local (dn_membership (sample_cluster ''a'')) = new_node ''a'' ''localhost'' 7001 8001 0"
  by (simp_all add: sample_node_defs mb_add_node_def membership_init_def member_at_def new_node_def)

lemma sample_active: "active_node_ids (dn_membership (sample_cluster ''a'')) = {''a'', ''b''}"
  by (simp add: active_node_ids_def all_members_def sample_members new_node_def)

theorem sync_topology_spec_witness:
  "rg_nodes (dn_ring (sync_topology quiet_env ''a'' sample_cluster ''a'')) = {''a'', ''b''} \<and>
   routed_as (dn_router (sync_topology quiet_env ''a'' sample_cluster ''a'')) (new_node ''b'' ''h'' 1 2 0)"
proof -
  have "topology_inv (ev_hash quiet_env) ''a'' (sample_cluster ''a'')" using sample_topology by (simp add: quiet_env_def)
  moreover have "mb_wf (dn_membership (sample_cluster ''a''))" by (simp add: mb_wf_def sample_members new_node_def)
  ultimately show ?thesis
    using sync_topology_spec [of quiet_env "''a''" sample_cluster 1] sample_stores sample_active
    by (simp add: all_members_def sample_members quiet_env_def)
qed

text \<open>C14: Agreement on placement. Two nodes, whatever joins, failures and departures each has seen before, whose membership
  tables now name the same members that are not dead (themselves among them), place every key on the same owner and
  the same replicas, in the same order, after each has synchronised.\<close>

theorem synced_nodes_agree:
  assumes "topology_inv (ev_hash ev) a (c a)" and "topology_inv (ev_hash ev) b (c' b)"
    and "active_node_ids (dn_membership (c a)) = active_node_ids (dn_membership (c' b))"
    and "a \<in> active_node_ids (dn_membership (c a))" and "b \<in> active_node_ids (dn_membership (c' b))"
    and "rg_virtual_nodes (dn_ring (c a)) = rg_virtual_nodes (dn_ring (c' b))"
  shows "get_nodes (ev_hash ev) (dn_ring (sync_topology ev a c a)) key k = get_nodes (ev_hash ev) (dn_ring (sync_topology ev b c' b)) key k \<and>
    get_node (ev_hash ev) (dn_ring (sync_topology ev a c a)) key = get_node (ev_hash ev) (dn_ring (sync_topology ev b c' b)) key"
proof -
  note pa = sync_topology_parts [where ev = ev and me = a and c = c, OF assms(1)]
    and pb = sync_topology_parts [where ev = ev and me = b and c = c', OF assms(2)]
  have "dn_ring (sync_topology ev a c a) = dn_ring (sync_topology ev b c' b)"
  proof (rule ring_wf_unique)
    show "ring_wf (ev_hash ev) (dn_ring (sync_topology ev a c a))" using pa(1) by (simp add: topology_inv_def)
    show "ring_wf (ev_hash ev) (dn_ring (sync_topology ev b c' b))" using pb(1) by (simp add: topology_inv_def)
    show "rg_nodes (dn_ring (sync_topology ev a c a)) = rg_nodes (dn_ring (sync_topology ev b c' b))"
      using pa(2) pb(2) assms(3-5) by auto
    show "rg_virtual_nodes (dn_ring (sync_topology ev a c a)) = rg_virtual_nodes (dn_ring (sync_topology ev b c' b))"
      using pa(3) pb(3) assms(6) by simp
  qed
  then show ?thesis by simp
qed

theorem synced_nodes_agree_witness:
  "get_nodes length (dn_ring (sync_topology quiet_env ''a'' sample_cluster ''a'')) ''key'' 2 =
   get_nodes length (dn_ring (sync_topology quiet_env ''a'' (sync_topology quiet_env ''a'' sample_cluster) ''a'')) ''key'' 2"
proof -
  have inv: "topology_inv (ev_hash quiet_env) ''a'' (sample_cluster ''a'')" using sample_topology by (simp add: quiet_env_def)
  note parts = sync_topology_parts [where ev = quiet_env and me = "''a''" and c = sample_cluster, OF inv]
  show ?thesis
    using synced_nodes_agree [of quiet_env "''a''" sample_cluster "''a''" "sync_topology quiet_env ''a'' sample_cluster" "''key''" 2]
      inv parts(1,3,5) sample_active by (simp add: quiet_env_def)
qed

end
