(* ===== verification/NodeRounds.thy ===== *)
theory NodeRounds
  imports Node
begin

text \<open>
  The background threads of a node over the whole cluster: a pass of the election loop (\<^verbatim>\<open>cluster/election.py\<close>) with the
  callbacks of the coordinator, of the gossip loop (\<^verbatim>\<open>cluster/membership.py\<close>) and of the migration loop
  (\<^verbatim>\<open>sharding/migration.py\<close>), and joining a cluster.

  \<^item> A message to another node is stopped by the sender's fault injector, dropped (\<open>ev_send\<close>), or handled by the cluster port of
    that node, whose own injector may drop it too.
  \<^item> The sleeping of the loops is not modelled; a pass may run at any time.
\<close>

section \<open>Sending\<close>

definition set_election :: "election \<Rightarrow> db_node \<Rightarrow> db_node" where
  "set_election el d = d\<lparr>dn_cluster := (dn_cluster d)\<lparr>co_election := el\<rparr>\<rparr>"

definition deliver :: "node_env \<Rightarrow> node_id \<Rightarrow> message \<Rightarrow> db_cluster \<Rightarrow> (py_error + message option) \<times> db_cluster" where
  "deliver ev n m c = (let (r, d) = node_cluster_message ev (c n) m in (r, c(n := d)))"

text \<open>Whether the sender's injector lets a message to \<open>n\<close> out.\<close>

definition sends_to :: "node_env \<Rightarrow> node_id \<Rightarrow> node_id \<Rightarrow> db_cluster \<Rightarrow> bool \<times> db_cluster" where
  "sends_to ev me n c =
     (let (blocked, fi) = should_fail_network (ev_now ev) (ev_draw ev) n (dn_fault_injector (c me))
      in (\<not> blocked, c(me := (c me)\<lparr>dn_fault_injector := fi\<rparr>)))"

text \<open>Messages that expect no answer.\<close>

fun send_all :: "node_env \<Rightarrow> node_id \<Rightarrow> (node_id \<times> message) list \<Rightarrow> db_cluster \<Rightarrow> db_cluster" where
  "send_all ev me [] c = c"
| "send_all ev me ((n, m) # ms) c =
     (let (ok, c1) = sends_to ev me n c
      in send_all ev me ms (if ok \<and> ev_send ev n \<noteq> Dropped then snd (deliver ev n m c1) else c1))"

section \<open>The election loop\<close>

definition vote_granted :: "py_error + message option \<Rightarrow> bool" where
  "vote_granted r = (case r of Inr (Some m) \<Rightarrow> truthy (dict_get (ms_payload m) ''vote_granted'' JNull) | _ \<Rightarrow> False)"

fun collect_votes :: "node_env \<Rightarrow> node_id \<Rightarrow> message \<Rightarrow> node_id list \<Rightarrow> db_cluster \<Rightarrow> int \<times> db_cluster" where
  "collect_votes ev me m [] c = (1, c)"
| "collect_votes ev me m (n # ns) c =
     (if n = me then collect_votes ev me m ns c
      else
        let (ok, c1) = sends_to ev me n c
        in if \<not> ok \<or> ev_send ev n = Dropped then collect_votes ev me m ns c1
           else
             let (r, c2) = deliver ev n m c1; (votes, c3) = collect_votes ev me m ns c2
             in (if ev_send ev n = Replied \<and> vote_granted r then votes + 1 else votes, c3))"

definition node_elect :: "node_env \<Rightarrow> node_id \<Rightarrow> db_cluster \<Rightarrow> db_cluster" where
  "node_elect ev me c =
     (let (req, el) = start_election (dn_election (c me)) (ev_timeout ev);
          c1 = c(me := set_election el (c me));
          m = create_vote_request me (vr_term req) (vr_last_log_index req) (vr_last_log_term req);
          (votes, c2) = collect_votes ev me m (map ni_node_id (get_alive_nodes (dn_membership (c1 me)))) c1;
          el2 = finish_election (dn_election (c2 me)) (vr_term req) votes (election_cluster_size (dn_cluster (c2 me)));
          d = set_election el2 (c2 me)
      in c2(me := if el_is_leader el2 \<and> \<not> el_is_leader (dn_election (c2 me)) then d\<lparr>dn_cluster := on_become_leader (dn_cluster d)\<rparr> else d))"

definition heartbeat_messages :: "node_id \<Rightarrow> db_node \<Rightarrow> (node_id \<times> message) list" where
  "heartbeat_messages me d = map (\<lambda>(n, m). (ni_node_id n, m)) (send_heartbeats (\<lambda>_. False) (dn_cluster d))"

definition election_pass :: "node_env \<Rightarrow> node_id \<Rightarrow> db_cluster \<Rightarrow> db_cluster" where
  "election_pass ev me c =
     (if el_role (dn_election (c me)) = LEADER then send_all ev me (heartbeat_messages me (c me)) c
      else if should_start_election (dn_election (c me)) (ev_now ev) then node_elect ev me c
      else c)"

section \<open>The gossip loop\<close>

definition gossip_pass :: "node_env \<Rightarrow> (node_info list \<Rightarrow> nat \<Rightarrow> node_info list) \<Rightarrow> node_id \<Rightarrow> db_cluster \<Rightarrow> db_cluster" where
  "gossip_pass ev pick me c =
     (let co = dn_cluster (c me);
          co1 = co\<lparr>co_membership := snd (check_node_health (ev_now ev) (co_membership co))\<rparr>;
          c1 = c(me := (c me)\<lparr>dn_cluster := co1\<rparr>)
      in send_all ev me (map (\<lambda>(n, members). (ni_node_id n, send_gossip_message co1 members)) (gossip_messages pick (co_membership co1))) c1)"

section \<open>The migration loop\<close>

definition migration_pass :: "node_env \<Rightarrow> node_id \<Rightarrow> db_cluster \<Rightarrow> db_cluster" where
  "migration_pass ev me c =
     (let (mg, w) = migration_round (ev_show ev) (ev_hash ev) (dn_ring (c me)) (migration_callbacks_of ev c me) (ev_now ev)
            (dn_migration (c me)) (stores_of c);
          c1 = put_stores w c
      in c1(me := (c1 me)\<lparr>dn_migration := mg\<rparr>))"

section \<open>Joining\<close>

text \<open>\<^verbatim>\<open>join_cluster\<close> with the node at the seed address, if there is one and it can be reached.\<close>

definition node_join :: "node_env \<Rightarrow> node_id \<Rightarrow> node_id option \<Rightarrow> db_cluster \<Rightarrow> bool \<times> db_cluster" where
  "node_join ev me seed c =
     (case seed of
        None \<Rightarrow> (False, c)
      | Some n \<Rightarrow>
          if \<not> ev_connect ev n \<or> ev_send ev n = Dropped then (False, c)
          else
            let (r, c1) = deliver ev n (join_message (dn_cluster (c me))) c;
                response = (if ev_send ev n = Replied then (case r of Inr x \<Rightarrow> x | Inl e \<Rightarrow> Some (error_response (ev_show ev) e)) else None);
                (ok, co) = join_with_response (ev_now ev) (dn_cluster (c1 me)) response
            in (ok, c1(me := (c1 me)\<lparr>dn_cluster := co\<rparr>)))"

end
