(* ===== verification/NodeIdentity.thy ===== *)
theory NodeIdentity
  imports NodeTopology NodeRounds
begin

text \<open>
  The identifiers the components of a node were built with. No operation of a component changes its own, so no event of the cluster
  changes any. Storage, configuration, coordinator and membership table are part of \<open>node_wf\<close> in NodeSafety; this theory
  covers the others.
\<close>

definition identity :: "db_node \<Rightarrow> node_id list" where
  "identity d =
     [el_node_id (dn_election d), rp_node_id (co_replication (dn_cluster d)), pm_local_node_id (dn_partitions d),
      rt_local_node_id (dn_router d), mg_local_node_id (dn_migration d), fi_node_id (dn_fault_injector d),
      rc_local_node_id (dn_read_coordinator d)]"

definition identities :: "db_cluster \<Rightarrow> node_id \<Rightarrow> node_id list" where
  "identities c = (\<lambda>n. identity (c n))"

named_theorems keeps_identity \<open>operations that keep the identifiers\<close>

lemma identities_upd [simp]: "identity d = identity (c n) \<Longrightarrow> identities (c(n := d)) = identities c"
  by (auto simp: identities_def fun_eq_iff)

lemma identities_at: "identities c = identities c' \<Longrightarrow> identity (c n) = identity (c' n)"
  by (metis identities_def)

section \<open>Components\<close>

lemma election_id [keeps_identity]:
  "el_node_id (snd (start_election el rt)) = el_node_id el" "el_node_id (finish_election el t v sz) = el_node_id el"
  "el_node_id (snd (handle_vote_request el now cand t li lt)) = el_node_id el"
  "el_node_id (snd (receive_heartbeat el now rt l t)) = el_node_id el" "el_node_id (step_down el now rt) = el_node_id el"
  by (auto simp: start_election_def finish_election_def become_leader_def handle_vote_request_def receive_heartbeat_def step_down_def Let_def
      split: option.splits)

lemma apply_committed_id: "el_node_id (fst (snd (apply_committed f el s))) = el_node_id el"
proof (induction f el s rule: apply_committed.induct)
  case (1 f el s)
  then show ?case by (subst apply_committed.simps) (auto simp: Let_def split: sum.splits)
qed

lemma append_entries_id [keeps_identity]:
  "el_node_id (fst (snd (handle_append_entries f el now rt l t pidx pt es lc s))) = el_node_id el"
  by (simp add: handle_append_entries_def Let_def case_prod_unfold apply_committed_id election_id split: option.split)

lemma injector_id [keeps_identity]:
  "fi_node_id (snd (should_fail_network now draw n fi)) = fi_node_id fi"
  "fi_node_id (fi_enable fi) = fi_node_id fi" "fi_node_id (fi_disable fi) = fi_node_id fi" "fi_node_id (clear_all_faults fi) = fi_node_id fi"
  "fi_node_id (fst (snd (inject_fault rnd now cb f fi w))) = fi_node_id fi"
  by (auto simp: should_fail_network_def fi_enable_def fi_disable_def clear_all_faults_def inject_fault_def Let_def case_prod_unfold
      split: fault_type.splits option.splits)

lemma router_id [keeps_identity]:
  "rt_local_node_id (router_remove_node rt n) = rt_local_node_id rt" "rt_local_node_id (sync_router ms rt) = rt_local_node_id rt"
proof -
  show "rt_local_node_id (router_remove_node rt n) = rt_local_node_id rt" by (simp add: router_remove_node_def)
  show "rt_local_node_id (sync_router ms rt) = rt_local_node_id rt"
    by (induction ms arbitrary: rt) (simp_all add: router_remove_node_def set_node_health_def update_node_address_def)
qed

lemma migration_id [keeps_identity]:
  "mg_local_node_id (fst (snd (on_node_join h rg cb now n mg w))) = mg_local_node_id mg"
  "mg_local_node_id (fst (snd (calculate_rebalance_migrations h rg cb now mg w))) = mg_local_node_id mg"
  "mg_local_node_id (fst (snd (execute_migration se h rg cb now task mg w))) = mg_local_node_id mg"
  by (auto simp: on_node_join_def calculate_rebalance_migrations_def execute_migration_def finish_task_def Let_def case_prod_unfold
      split: option.splits)

lemma migration_round_id [keeps_identity]: "mg_local_node_id (fst (migration_round se h rg cb now mg w)) = mg_local_node_id mg"
proof -
  have "mg_local_node_id (fst (fold (\<lambda>task (mg, w). snd (execute_migration se h rg cb now task mg w)) ts (mg, w))) = mg_local_node_id mg" for ts
  proof (induction ts arbitrary: mg w)
    case (Cons t ts)
    then show ?case using migration_id(3) [of se h rg cb now t mg w] by (cases "execute_migration se h rg cb now t mg w") auto
  qed simp
  then show ?thesis by (simp add: migration_round_def)
qed

lemma read_first_remote_id: "rc_local_node_id (fst (snd (read_first_remote cb rc key ns w))) = rc_local_node_id rc"
  by (induction cb rc key ns w rule: read_first_remote.induct) (auto split: prod.splits option.splits)

lemma decide_read_id: "rc_local_node_id (fst (snd (decide_read cb rc key k rs w))) = rc_local_node_id rc"
  by (auto simp: decide_read_def trigger_read_repair_def bump_read_repairs_def bump_stale_reads_def Let_def case_prod_unfold split: option.splits)

lemma read_coordinator_id [keeps_identity]:
  "rc_local_node_id (fst (snd (coordinator_read order cb rc key level t1 t2 w))) = rc_local_node_id rc"
  "rc_local_node_id (fst (snd (handle_get order cb level rc now args w))) = rc_local_node_id rc"
proof -
  have wo: "rc_local_node_id (fst (snd (read_without_replicas cb rc key w))) = rc_local_node_id rc" for rc key w
    by (simp add: read_without_replicas_def split: prod.splits option.splits)
  show r: "rc_local_node_id (fst (snd (coordinator_read order cb rc key level t1 t2 w))) = rc_local_node_id rc" for key level t1 t2
    by (simp add: coordinator_read_def read_strong_def read_quorum_def read_all_def read_any_def decide_read_id read_first_remote_id wo
        Let_def case_prod_unfold split: option.splits)
  show "rc_local_node_id (fst (snd (handle_get order cb level rc now args w))) = rc_local_node_id rc"
    by (simp add: handle_get_def Let_def case_prod_unfold r)
qed

lemma replicate_to_followers_id: "rp_node_id (fst (replicate_to_followers send e ns b (rp, w))) = rp_node_id rp"
proof (induction ns arbitrary: b rp w)
  case (Cons n ns)
  have "rp_node_id (acknowledge rp i n) = rp_node_id rp" for i by (simp add: acknowledge_def Let_def split: option.splits)
  with Cons show ?case by (simp split: prod.splits option.splits bool.splits)
qed simp

lemma replicate_id: "rp_node_id (fst (snd (replicate send fs rp w e level ts))) = rp_node_id rp"
  by (simp add: replicate_def Let_def case_prod_unfold replicate_to_followers_id split: option.splits)

lemma replication_id [keeps_identity]:
  "rp_node_id (ld_replication (fst (snd (apply_partition_write fc t nw ld w operation key value ttl)))) = rp_node_id (ld_replication ld)"
  by (simp add: apply_partition_write_def next_write_index_def replicate_id Let_def case_prod_unfold split: option.splits)

section \<open>Updates of a node\<close>

lemma identity_frame [simp]:
  "rc_local_node_id rc = rc_local_node_id (dn_read_coordinator d) \<Longrightarrow> identity (d\<lparr>dn_read_coordinator := rc\<rparr>) = identity d"
  "mg_local_node_id mg = mg_local_node_id (dn_migration d) \<Longrightarrow> identity (d\<lparr>dn_migration := mg\<rparr>) = identity d"
  "fi_node_id fi = fi_node_id (dn_fault_injector d) \<Longrightarrow> identity (d\<lparr>dn_fault_injector := fi\<rparr>) = identity d"
  "rt_local_node_id rt = rt_local_node_id (dn_router d) \<Longrightarrow> identity (d\<lparr>dn_router := rt\<rparr>) = identity d"
  "el_node_id (co_election co) = el_node_id (dn_election d) \<Longrightarrow> rp_node_id (co_replication co) = rp_node_id (co_replication (dn_cluster d)) \<Longrightarrow>
     identity (d\<lparr>dn_cluster := co\<rparr>) = identity d"
  "identity (d\<lparr>dn_backpressure := bp\<rparr>) = identity d" "identity (d\<lparr>dn_ring := rg\<rparr>) = identity d"
  "identity (d\<lparr>dn_write_sequence := i\<rparr>) = identity d" "identity (d\<lparr>dn_known_ring_nodes := ks\<rparr>) = identity d"
  "identity (set_storage s d) = identity d" "identity (set_follower fl d) = identity d"
  by (simp_all add: identity_def set_storage_def)

lemma identities_put [simp]:
  "identities (put_stores w c) = identities c" "identities (put_followers w' c) = identities c"
  by (simp_all add: identities_def put_stores_def put_followers_def)


section \<open>Commands\<close>

lemma node_apply_write_id [keeps_identity]: "identities (snd (node_apply_write ev me operation key value ttl c)) = identities c"
proof -
  let ?ld = "leader_of ev (c me)"
  obtain r ld' w where a: "apply_partition_write (ev_codec ev) (ev_now ev) (network_of ev (c me)) ?ld (followers_of c) operation key value ttl = (r, ld', w)"
    by (metis prod.exhaust)
  from replication_id [of "ev_codec ev" "ev_now ev" "network_of ev (c me)" ?ld "followers_of c" operation key "value" ttl] a
  have rp: "rp_node_id (ld_replication ld') = rp_node_id (co_replication (dn_cluster (c me)))" by (simp add: leader_of_def)
  have "identity (put_leader ld' (put_followers w c me)) = identity (c me)"
    using rp by (simp add: identity_def put_leader_def Let_def put_followers_def set_storage_def)
  then have "identities ((put_followers w c)(me := put_leader ld' (put_followers w c me))) = identities c"
    by (auto simp: identities_def fun_eq_iff put_followers_def)
  then show ?thesis by (simp add: node_apply_write_def Let_def a)
qed

lemma admit_id [keeps_identity]: "identities (snd (admit ev s n c)) = identities c"
  by (simp add: admit_def case_prod_unfold Let_def)

lemma serve_id [keeps_identity]:
  "(\<And>c. identities (snd (handler c)) = identities c) \<Longrightarrow> identities (snd (serve ev s n handler c)) = identities c"
  using admit_id [of ev s n c] by (auto simp: serve_def catch_def split: prod.splits bool.splits sum.splits) (metis snd_conv)+

lemma internal_write_id [keeps_identity]:
  "identities (snd (handle_leader_write ev me args c)) = identities c" "identities (snd (handle_owner_write ev me args c)) = identities c"
  by (auto simp: handle_leader_write_def handle_owner_write_def Let_def node_apply_write_id split: sum.splits)

lemma forward_write_id [keeps_identity]: "identities (snd (forward_write ev me depth i n operation key value ttl c)) = identities c"
  by (induction depth arbitrary: i n c) (simp_all add: case_prod_unfold Let_def serve_id internal_write_id split: option.splits)

lemma coordinate_id [keeps_identity]: "identities (snd (coordinate_or_forward_write ev me operation key value ttl c)) = identities c"
  by (simp add: coordinate_or_forward_write_def case_prod_unfold Let_def keeps_identity split: option.splits)

lemma write_commands_id [keeps_identity]:
  "identities (snd (handle_set ev me args c)) = identities c" "identities (snd (handle_setex ev me args c)) = identities c"
  "identities (snd (handle_delete ev me args c)) = identities c"
  by (simp_all add: handle_set_def handle_setex_def handle_delete_def Let_def coordinate_id split: option.splits)

lemma at_stores [simp]:
  "identity (put_stores w c n) = identity (c n)" "dn_read_coordinator (put_stores w c n) = dn_read_coordinator (c n)"
  "dn_migration (put_stores w c n) = dn_migration (c n)"
  by (simp_all add: put_stores_def set_storage_def set_follower_def identity_def)

lemma identities_put_upd [simp]:
  "identity d = identity (c n) \<Longrightarrow> identities ((put_stores w c)(n := d)) = identities c"
  by simp

lemma read_commands_id [keeps_identity]:
  "identities (snd (node_get ev me args c)) = identities c" "identities (snd (handle_exists ev me args c)) = identities c"
  by (simp_all add: node_get_def handle_exists_def case_prod_unfold Let_def read_coordinator_id)

lemma local_commands_id [keeps_identity]:
  "identities (snd (node_local_keys ev n args c)) = identities c" "identities (snd (node_local_read ev n args c)) = identities c"
  "identities (snd (node_replica_set ev n args c)) = identities c" "identities (snd (node_import_keys ev n args c)) = identities c"
  by (simp_all add: node_local_keys_def node_local_read_def node_replica_set_def node_import_keys_def case_prod_unfold Let_def)

lemma collect_remote_keys_id [keeps_identity]: "identities (snd (collect_remote_keys ev me pattern xs ks c)) = identities c"
  by (induction xs arbitrary: ks c) (simp_all add: case_prod_unfold Let_def serve_id local_commands_id)

lemma listing_commands_id [keeps_identity]:
  "identities (snd (handle_keys ev me args c)) = identities c" "identities (snd (handle_shards ev me c)) = identities c"
  by (simp_all add: handle_keys_def handle_shards_def collect_cluster_keys_def case_prod_unfold Let_def collect_remote_keys_id)

lemma rebalance_id [keeps_identity]: "identities (snd (handle_rebalance ev me c)) = identities c"
  by (simp add: handle_rebalance_def case_prod_unfold Let_def migration_id)

lemma own_role_id [keeps_identity]:
  "el_node_id (co_election (set_own_role r co)) = el_node_id (co_election co)" "co_replication (set_own_role r co) = co_replication co"
  by (simp_all add: set_own_role_def Let_def)

lemma node_step_down_id [keeps_identity]: "identity (node_step_down ev d) = identity d"
  by (simp add: node_step_down_def on_become_follower_def own_role_id election_id)

lemma failover_id [keeps_identity]: "identities (snd (handle_failover ev me c)) = identities c"
  by (simp add: handle_failover_def Let_def node_step_down_id)

lemma leader_kill_id: "identity (handle_leader_kill ev d) = identity d" "fi_node_id (dn_fault_injector (handle_leader_kill ev d)) = fi_node_id (dn_fault_injector d)"
  by (simp_all add: handle_leader_kill_def node_step_down_id) (simp add: node_step_down_def)

lemma node_stop_id: "identity (node_stop ev gz fail d) = identity d" "fi_node_id (dn_fault_injector (node_stop ev gz fail d)) = fi_node_id (dn_fault_injector d)"
  by (simp_all add: node_stop_def)

lemma node_inject_id [keeps_identity]: "identity (snd (node_inject ev gz fail f d)) = identity d"
proof -
  let ?r = "inject_fault (ev_random ev) (ev_now ev) (node_fault_callbacks ev gz fail) f (dn_fault_injector d) d"
  have "identity (snd (snd ?r)) = identity d \<and> fi_node_id (dn_fault_injector (snd (snd ?r))) = fi_node_id (dn_fault_injector d)"
    by (cases "ft_fault_type f") (auto simp: inject_fault_def Let_def case_prod_unfold node_fault_callbacks_def call_opt_def leader_kill_id node_stop_id
        split: option.splits)
  then show ?thesis by (simp add: node_inject_def case_prod_unfold Let_def injector_id)
qed

lemma fault_id [keeps_identity]: "identity (snd (handle_fault ev gz fail d args)) = identity d"
  by (simp add: handle_fault_def Let_def keeps_identity split: option.splits)

lemma dispatch_id [keeps_identity]: "identities (snd (dispatch ev gz fail me cmd args c)) = identities c"
  by (simp add: dispatch_def report_def case_prod_unfold Let_def keeps_identity)

lemma client_message_id [keeps_identity]: "identities (snd (handle_client_message ev gz fail me m c)) = identities c"
  unfolding handle_client_message_def
  by (rule serve_id) (auto simp: dispatch_id case_prod_unfold Let_def split: sum.splits)

section \<open>Cluster messages and passes\<close>

definition coordinator_ids :: "coordinator \<Rightarrow> node_id \<times> node_id" where
  "coordinator_ids co = (el_node_id (co_election co), rp_node_id (co_replication co))"

lemma coordinator_ids_frame [simp]:
  "coordinator_ids (co\<lparr>co_membership := mb\<rparr>) = coordinator_ids co" "coordinator_ids (co\<lparr>co_follower := fl\<rparr>) = coordinator_ids co"
  "el_node_id el = el_node_id (co_election co) \<Longrightarrow> coordinator_ids (co\<lparr>co_election := el\<rparr>) = coordinator_ids co"
  "coordinator_ids (set_own_role r co) = coordinator_ids co"
  by (simp_all add: coordinator_ids_def own_role_id)

lemma merge_gossip_ids [simp]: "coordinator_ids (snd (merge_gossip now members co)) = coordinator_ids co"
  by (auto simp: merge_gossip_def case_prod_unfold Let_def split: sum.splits)

lemma cluster_message_ids: "coordinator_ids (snd (handle_cluster_message fc now rt co m)) = coordinator_ids co"
proof -
  have hb: "coordinator_ids (snd (handle_heartbeat_message now rt co m)) = coordinator_ids co"
    by (auto simp: handle_heartbeat_message_def on_become_follower_def election_id Let_def case_prod_unfold split: option.splits sum.splits)
  have vote: "coordinator_ids (snd (handle_vote_message now co m)) = coordinator_ids co"
    by (auto simp: handle_vote_message_def election_id case_prod_unfold Let_def split: sum.splits)
  have gossip: "coordinator_ids (snd (handle_gossip_message now co m)) = coordinator_ids co"
    by (simp add: handle_gossip_message_def case_prod_unfold Let_def split: option.split)
  have join: "coordinator_ids (snd (handle_join_message now co m)) = coordinator_ids co"
    by (auto simp: handle_join_message_def Let_def split: sum.splits)
  have repl: "coordinator_ids (snd (handle_replicate_message fc now co m)) = coordinator_ids co"
    by (auto simp: handle_replicate_message_def Let_def case_prod_unfold split: sum.splits)
  have app: "coordinator_ids (snd (handle_append_message fc now rt co m)) = coordinator_ids co"
    by (auto simp: handle_append_message_def coordinator_ids_def append_entries_id Let_def case_prod_unfold split: sum.splits)
  show ?thesis using hb vote gossip join repl app by (simp add: handle_cluster_message_def split: message_type.splits)
qed

lemma identity_coordinator: "coordinator_ids co = coordinator_ids (dn_cluster d) \<Longrightarrow> identity (d\<lparr>dn_cluster := co\<rparr>) = identity d"
  by (simp add: coordinator_ids_def)

lemma delay_id: "fi_node_id (snd (get_network_delay now draw spread n fi)) = fi_node_id fi"
  by (simp add: get_network_delay_def Let_def case_prod_unfold split: sum.splits)

lemma node_message_id [keeps_identity]: "identity (snd (node_cluster_message ev d m)) = identity d"
  by (auto simp: node_cluster_message_def case_prod_unfold Let_def injector_id delay_id
      identity_coordinator [OF trans [OF cluster_message_ids]] split: sum.splits)

lemma deliver_id [keeps_identity]: "identities (snd (deliver ev n m c)) = identities c"
  by (simp add: deliver_def case_prod_unfold Let_def node_message_id)

lemma sends_to_id [keeps_identity]: "identities (snd (sends_to ev me n c)) = identities c"
  by (simp add: sends_to_def case_prod_unfold Let_def injector_id)

lemma send_all_id [keeps_identity]: "identities (send_all ev me ms c) = identities c"
  by (induction ms arbitrary: c) (auto simp: case_prod_unfold Let_def deliver_id sends_to_id)

lemma collect_votes_id [keeps_identity]: "identities (snd (collect_votes ev me m ns c)) = identities c"
  by (induction ns arbitrary: c) (simp_all add: case_prod_unfold Let_def deliver_id sends_to_id)

lemma set_election_id [keeps_identity]: "el_node_id el = el_node_id (dn_election d) \<Longrightarrow> identity (set_election el d) = identity d"
  by (simp add: set_election_def)

lemma election_pass_id [keeps_identity]: "identities (election_pass ev me c) = identities c"
proof -
  let ?el = "snd (start_election (dn_election (c me)) (ev_timeout ev))"
  have s: "identities (c(me := set_election ?el (c me))) = identities c" by (simp add: set_election_id election_id)
  have "identities (node_elect ev me c) = identities c"
    unfolding node_elect_def Let_def case_prod_unfold
    by (subst identities_upd) (auto simp: keeps_identity s on_become_leader_def)
  then show ?thesis by (simp add: election_pass_def send_all_id)
qed

lemma gossip_pass_id [keeps_identity]: "identities (gossip_pass ev pick me c) = identities c"
  by (simp add: gossip_pass_def Let_def send_all_id)

lemma migration_pass_id [keeps_identity]: "identities (migration_pass ev me c) = identities c"
  by (simp add: migration_pass_def Let_def case_prod_unfold migration_round_id)

lemma node_join_id [keeps_identity]: "identities (snd (node_join ev me seed c)) = identities c"
proof -
  have j: "coordinator_ids (snd (join_with_response now co r)) = coordinator_ids co" for now co r
    by (auto simp: join_with_response_def case_prod_unfold split: option.splits)
  have "identities (c'(me := (c' me)\<lparr>dn_cluster := snd (join_with_response now (dn_cluster (c' me)) r)\<rparr>)) = identities c'" for c' now r
    by (intro identities_upd identity_coordinator j)
  then show ?thesis by (simp add: node_join_def case_prod_unfold Let_def deliver_id split: option.splits)
qed

lemma sync_topology_id [keeps_identity]: "identities (sync_topology ev me c) = identities c"
proof -
  have "identities (join_step ev me n c) = identities c" for n c
    by (simp add: join_step_def Let_def case_prod_unfold migration_id)
  then have j: "identities (fold (join_step ev me) ns c) = identities c" for ns c
    by (induction ns arbitrary: c) simp_all
  have "identities (leave_step me n c) = identities c" for n c
    by (simp add: leave_step_def router_id)
  then have l: "identities (fold (leave_step me) ns c) = identities c" for ns c
    by (induction ns arbitrary: c) simp_all
  show ?thesis by (simp add: sync_topology_def Let_def j l router_id)
qed

lemma maintenance_id [keeps_identity]: "identities (maintenance_round ev gz fail between me c) = identities c"
  by (simp add: maintenance_round_def Let_def sync_topology_id)

lemma node_init_id: "set (identity (node_init h cfg ad sd now rt)) = {cf_node_id cfg}"
  by (simp add: identity_def node_init_def coordinator_init_def election_init_def replication_init_def set_node_health_def update_node_address_def
      router_init_def migration_init_def injector_init_def read_coordinator_init_def Let_def)

end
