(* ===== verification/StoreInvariant.thy ===== *)
theory StoreInvariant
  imports MigrationNode
begin

text \<open>
  Invariants of a node's storage. A property of a storage that survives the primitive accesses (a read, an expiry pass, a
  logged write, a logged deletion) survives every handler that works on the storages of a cluster: replica writes,
  repair, imports, migration, both phases of replication, the leader's write and the reads with their repairs.
\<close>

section \<open>The interface\<close>

locale storage_invariant =
  fixes inv :: "node_id \<Rightarrow> storage \<Rightarrow> bool"
  assumes read: "inv n s \<Longrightarrow> inv n (s\<lparr>sg_store := snd (kv_get_with_metadata (sg_store s) now k)\<rparr>)"
    and expire: "inv n s \<Longrightarrow> inv n (s\<lparr>sg_store := kv_cleanup_expired (sg_store s) now\<rparr>)"
    and put: "inv n s \<Longrightarrow> inv n (snd (aof_write fc (s\<lparr>sg_store := kv_set (sg_store s) now k v ttl ver e cr u coord\<rparr>) now entry sync))"
    and drop_key: "inv n s \<Longrightarrow> inv n (snd (aof_write fc (s\<lparr>sg_store := snd (kv_delete (sg_store s) k)\<rparr>) now entry sync))"
begin

definition all_inv :: "node_stores \<Rightarrow> bool" where
  "all_inv w \<longleftrightarrow> (\<forall>n. inv n (w n))"

lemma all_inv_upd: "all_inv w \<Longrightarrow> inv n s \<Longrightarrow> all_inv (w(n := s))"
  by (simp add: all_inv_def)

lemma all_invD: "all_inv w \<Longrightarrow> inv n (w n)"
  by (simp add: all_inv_def)

text \<open>Handlers of one storage.\<close>

lemma set_and_append_inv: "inv n s \<Longrightarrow> inv n (snd (set_and_append fc s now k v ttl ver e cr u coord sync))"
  unfolding set_and_append_def by (rule put)

lemma apply_log_entry_inv: "inv n s \<Longrightarrow> inv n (snd (apply_log_entry fc s now e))"
  by (simp add: apply_log_entry_def set_and_append_inv drop_key)

lemma lww_apply_inv:
  assumes "inv n s"
  shows "inv n (snd (lww_apply fc s now k v ver e cr u coord))"
  using read [OF assms, of now k] by (simp add: lww_apply_def case_prod_unfold Let_def set_and_append_inv)

lemma replica_set_inv: "inv n s \<Longrightarrow> inv n (snd (handle_replica_set pint pflt fc s now args))"
  using lww_apply_inv [of n s]
  by (fastforce simp: handle_replica_set_def Let_def case_prod_unfold split: option.splits prod.splits dest: sym)

lemma repair_data_inv: "inv n s \<Longrightarrow> inv n (snd (apply_repair_data fc s now k v ver m))"
  by (simp add: apply_repair_data_def Let_def case_prod_unfold lww_apply_inv)

lemma local_value_inv: "inv n s \<Longrightarrow> inv n (snd (get_local_value_for_read s now k))"
  by (simp add: get_local_value_for_read_def case_prod_unfold Let_def read)

lemma local_read_inv: "inv n s \<Longrightarrow> inv n (snd (handle_local_read s now args))"
  by (simp add: handle_local_read_def case_prod_unfold Let_def read)

lemma local_keys_inv: "inv n s \<Longrightarrow> inv n (snd (handle_local_keys s now args))"
  by (simp add: handle_local_keys_def kv_keys_def Let_def expire)

lemma import_key_inv: "inv n s \<Longrightarrow> inv n (snd (snd (import_key owner fc now ki (c, s))))"
  using lww_apply_inv [of n s]
  by (fastforce simp: import_key_def Let_def case_prod_unfold split: option.splits bool.splits prod.splits dest: sym)

lemma import_payload_inv: "inv n s \<Longrightarrow> inv n (snd (snd (import_payload env now kvs (c, s))))"
proof (induction kvs arbitrary: c s)
  case (Cons kv kvs)
  obtain k j where kv: "kv = (k, j)" by fastforce
  show ?case
  proof (cases "decode_import env j")
    case (Inr p)
    obtain item has where p: "p = (item, has)" by fastforce
    obtain e c' s' where i: "import_key (get_node (me_hash env) (me_ring env)) (me_codec env) now (k, item) (c, s) = (e, c', s')"
      by (metis prod.exhaust)
    have "inv n s'" using import_key_inv [OF Cons.prems, of "get_node (me_hash env) (me_ring env)" "me_codec env" now "(k, item)" c] i by simp
    with Cons show ?thesis by (auto simp: kv Inr p i read split: option.splits)
  qed (use Cons.prems in \<open>simp add: kv\<close>)
qed simp

lemma receive_inv: "inv n s \<Longrightarrow> inv n (snd (receive_migration_keys fc s now kvs))"
proof (induction kvs arbitrary: s)
  case (Cons kv kvs)
  obtain k item where kv: "kv = (k, item)" by fastforce
  show ?case
  proof (cases item)
    case (Full v e ver cr u coord)
    then show ?thesis using Cons.IH set_and_append_inv [OF Cons.prems] by (simp add: kv case_prod_unfold Let_def)
  next
    case (Short v e ver)
    then show ?thesis using Cons.IH put [OF Cons.prems] by (simp add: kv case_prod_unfold Let_def)
  qed
qed simp

lemma delete_migrated_inv: "inv n s \<Longrightarrow> inv n (snd (delete_migrated_keys fc s now ks))"
proof (induction ks arbitrary: s)
  case (Cons k ks)
  have "inv n (s\<lparr>sg_store := snd (kv_get_with_metadata (sg_store s) now k)\<rparr>)" using Cons.prems by (rule read)
  from drop_key [OF this] Cons.IH show ?case by (simp add: case_prod_unfold Let_def)
qed simp

text \<open>Handlers of the cluster's storages.\<close>

lemma remote_value_inv: "all_inv w \<Longrightarrow> all_inv (snd (get_remote_value_for_read pe now key n w))"
  using local_read_inv [OF all_invD, of w n now "[key]"]
  by (auto simp: get_remote_value_for_read_def case_prod_unfold Let_def all_inv_upd)

lemma replicate_value_inv:
  "all_inv w \<Longrightarrow> all_inv (snd (replicate_value_to_nodes pint pflt fc pe me now key v ver m ns w))"
proof (induction ns arbitrary: w)
  case (Cons n ns)
  show ?case
  proof (cases "n = me \<or> \<not> pe_known pe n \<or> \<not> pe_alive pe n \<or> pe_repair pe n = Dropped")
    case False
    have "all_inv (w(n := snd (handle_replica_set pint pflt fc (w n) now args)))" for args
      by (intro all_inv_upd replica_set_inv all_invD Cons.prems)
    note Cons.IH [OF this]
    with False show ?thesis by (simp add: case_prod_unfold Let_def del: fun_upd_apply)
  qed (use Cons in auto)
qed simp

lemma repair_value_inv:
  assumes "all_inv w"
  shows "all_inv (repair_value pint pflt fc pe me now key v ver target m w)"
proof (cases "target = None \<or> target = Some [] \<or> target = Some me")
  case True
  then show ?thesis using assms unfolding repair_value_def by (simp add: all_inv_upd repair_data_inv all_invD [OF assms])
next
  case False
  then show ?thesis
    unfolding repair_value_def if_not_P [OF False] Let_def case_prod_unfold using assms
    by (intro replicate_value_inv) (auto simp: all_inv_upd read all_invD [OF assms] split: option.splits)
qed

lemma fan_out_items_inv: "all_inv w \<Longrightarrow> all_inv (snd (fan_out_items env now n items w))"
proof (induction items arbitrary: w)
  case (Cons x xs)
  obtain k v ver m where x: "x = (k, v, ver, m)" by (metis prod.exhaust)
  show ?case using Cons.IH [OF replicate_value_inv [OF Cons.prems]] by (simp add: x case_prod_unfold Let_def)
qed simp

lemma import_keys_inv:
  assumes "all_inv w"
  shows "all_inv (snd (handle_import_keys env now n args w))"
proof (cases "args = []")
  case False
  show ?thesis
  proof (cases "loads (me_codec env) (hd args)")
    case (Inr j)
    show ?thesis
    proof (cases j)
      case (JDict kvs)
      obtain e c s where i: "import_payload env now kvs (no_imports, w n) = (e, c, s)" by (metis prod.exhaust)
      have "inv n s" using import_payload_inv [OF all_invD [OF assms], of n env now kvs no_imports] by (simp add: i)
      then have "all_inv (w(n := s))" by (rule all_inv_upd [OF assms])
      then show ?thesis using False fan_out_items_inv
        by (cases e) (simp_all add: handle_import_keys_def Inr JDict i case_prod_unfold Let_def)
    qed (use assms False Inr in \<open>simp_all add: handle_import_keys_def\<close>)
  qed (use assms False in \<open>simp add: handle_import_keys_def\<close>)
qed (use assms in \<open>simp add: handle_import_keys_def\<close>)

text \<open>The migration callbacks.\<close>

lemma migration_callbacks_inv:
  assumes "all_inv w"
  shows "all_inv (snd (the (mc_get_local_keys (node_migration_callbacks env now me)) w))"
    and "all_inv (snd (the (mc_send_keys (node_migration_callbacks env now me)) target data w))"
    and "all_inv (snd (the (mc_delete_keys (node_migration_callbacks env now me)) ks w))"
  using assms all_invD [OF assms] import_keys_inv [OF assms]
  by (simp_all add: node_migration_callbacks_def node_send_def send_migration_keys_def kv_get_all_data_def case_prod_unfold Let_def all_inv_upd
      expire delete_migrated_inv)

text \<open>Both phases of replication, over the storages of the followers.\<close>

definition world_inv :: "world \<Rightarrow> bool" where
  "world_inv w \<longleftrightarrow> (\<forall>n. inv n (fl_storage (w n)))"

lemma handle_replicate_inv: "inv n (fl_storage fl) \<Longrightarrow> inv n (fl_storage (snd (handle_replicate fc fl now d ph)))"
  by (auto simp: handle_replicate_def Let_def case_prod_unfold apply_log_entry_inv split: sum.splits option.splits)

lemma send_phase_inv: "world_inv w \<Longrightarrow> world_inv (snd (send_phase fc now known net ph f e w))"
  by (auto simp: send_phase_def world_inv_def case_prod_unfold Let_def handle_replicate_inv)

lemma commit_inv: "world_inv w \<Longrightarrow> world_inv (snd (commit_to_followers fc now nw e fs w))"
proof (induction fs arbitrary: w)
  case (Cons f fs)
  show ?case using Cons.IH [OF send_phase_inv [OF Cons.prems]] by (simp add: case_prod_unfold Let_def)
qed simp

lemma prepare_inv: "prepared_from e w w' \<Longrightarrow> world_inv w \<Longrightarrow> world_inv w'"
  by (simp add: prepared_from_def world_inv_def)

end

text \<open>Every store of a cluster stays well formed, and a storage keeps the identity of its node.\<close>

definition storage_wf :: "node_id \<Rightarrow> storage \<Rightarrow> bool" where
  "storage_wf n s \<longleftrightarrow> kv_wf (sg_store s) \<and> sg_node_id s = n"

interpretation wf: storage_invariant storage_wf
  by unfold_locales (auto simp: storage_wf_def kv_wf_get_with_metadata kv_wf_cleanup kv_wf_set kv_wf_delete)

end
