(* ===== verification/NodeSafety.thy ===== *)
theory NodeSafety
  imports NodeIdentity StoreInvariant
begin

text \<open>
  What every command, cluster message and maintenance pass keeps: each node's tables stay consistent with each other, whatever
  arrives; commands that are not about data change nothing that any node shows.
\<close>

section \<open>Reads keep what their callbacks keep\<close>

definition callbacks_keep :: "('w \<Rightarrow> bool) \<Rightarrow> 'w read_callbacks \<Rightarrow> bool" where
  "callbacks_keep P cb \<longleftrightarrow>
     (\<forall>f key w. cb_get_local_value cb = Some f \<longrightarrow> P w \<longrightarrow> P (snd (f key w))) \<and>
     (\<forall>f key n w. cb_get_remote_value cb = Some f \<longrightarrow> P w \<longrightarrow> P (snd (f key n w))) \<and>
     (\<forall>f key v ver n m w. cb_repair_value cb = Some f \<longrightarrow> P w \<longrightarrow> P (f key v ver n m w))"

lemma read_local_keeps: "callbacks_keep P cb \<Longrightarrow> P w \<Longrightarrow> P (snd (read_local cb rc key b w))"
  by (auto simp: callbacks_keep_def read_local_def case_prod_unfold Let_def split: option.splits)

lemma read_remote_keeps:
  assumes "callbacks_keep P cb" and "P w"
  shows "P (snd (read_remote cb key b n w))"
proof (cases "cb_get_remote_value cb")
  case (Some f)
  then have "P (snd (f key n w))" using assms by (simp add: callbacks_keep_def)
  then show ?thesis by (auto simp: read_remote_def Some split: prod.splits option.splits)
qed (use assms in \<open>simp add: read_remote_def\<close>)

lemma local_results_keeps: "callbacks_keep P cb \<Longrightarrow> P w \<Longrightarrow> P (snd (local_results cb rc key rs w))"
proof (induction rs arbitrary: w)
  case (Cons r rs)
  then show ?case using read_local_keeps [OF Cons.prems, of rc key True] by (auto simp: case_prod_unfold Let_def)
qed simp

lemma collect_results_keeps: "callbacks_keep P cb \<Longrightarrow> P w \<Longrightarrow> P (snd (collect_results cb key k ns rs b w))"
proof (induction ns arbitrary: rs b w)
  case (Cons n ns)
  obtain r w' where rw: "read_remote cb key True n w = (r, w')" by fastforce
  with read_remote_keeps [OF Cons.prems, of key True n] have "P w'" by simp
  with Cons show ?case by (cases r) (auto simp: rw)
qed simp

lemma read_from_replicas_keeps:
  assumes "callbacks_keep P cb" and "P w"
  shows "P (snd (read_from_replicas order cb rc key rs k w))"
  unfolding read_from_replicas_def Let_def case_prod_unfold snd_conv
  by (rule collect_results_keeps [OF assms(1) collect_results_keeps [OF assms(1) local_results_keeps [OF assms]]])

lemma repair_results_keeps:
  assumes "\<And>v ver n m w. P w \<Longrightarrow> P (f key v ver n m w)" and "P w"
  shows "P (repair_results f key best rs w)"
  using assms(2) by (induction rs arbitrary: w) (auto simp: assms(1))

lemma decide_read_keeps:
  assumes "callbacks_keep P cb" and "P w"
  shows "P (snd (snd (decide_read cb rc key k rs w)))"
proof (cases "cb_repair_value cb")
  case (Some f)
  then have "P w' \<Longrightarrow> P (f key v ver n m w')" for v ver n m w' using assms(1) by (simp add: callbacks_keep_def)
  then have "P (repair_results f key best rs w)" for best using assms(2) by (rule repair_results_keeps)
  then show ?thesis using assms(2) by (simp add: decide_read_def trigger_read_repair_def Some Let_def)
qed (use assms in \<open>simp add: decide_read_def trigger_read_repair_def Let_def\<close>)

lemma read_first_remote_keeps: "callbacks_keep P cb \<Longrightarrow> P w \<Longrightarrow> P (snd (snd (read_first_remote cb rc key ns w)))"
proof (induction ns arbitrary: w)
  case (Cons n ns)
  obtain r w' where rw: "read_remote cb key False n w = (r, w')" by fastforce
  with read_remote_keeps [OF Cons.prems, of key False n] have "P w'" by simp
  with Cons show ?case by (cases r) (auto simp: rw)
qed simp

lemma coordinator_read_keeps:
  assumes "callbacks_keep P cb" and "P w"
  shows "P (snd (snd (coordinator_read order cb rc key level t1 t2 w)))"
proof -
  have without: "P (snd (snd (read_without_replicas cb rc' key w)))" for rc'
    using read_local_keeps [OF assms, of rc' key False] by (auto simp: read_without_replicas_def split: prod.splits option.splits)
  have strong: "P (snd (snd (read_strong cb rc' key w)))" for rc'
    using assms(2) read_local_keeps [OF assms] read_remote_keeps [OF assms]
    by (simp add: read_strong_def Let_def case_prod_unfold)
  have quorum: "P (snd (snd (read_quorum order cb rc' key w)))" for rc'
    using without decide_read_keeps [OF assms(1) read_from_replicas_keeps [OF assms]]
    by (auto simp: read_quorum_def Let_def case_prod_unfold split: option.splits)
  have all: "P (snd (snd (read_all order cb rc' key w)))" for rc'
    using without decide_read_keeps [OF assms(1) read_from_replicas_keeps [OF assms]]
    by (auto simp: read_all_def Let_def case_prod_unfold split: option.splits)
  have any: "P (snd (snd (read_any cb rc' key w)))" for rc'
    using assms(2) read_local_keeps [OF assms, of rc' key False] read_first_remote_keeps [OF assms(1)]
    by (auto simp: read_any_def Let_def case_prod_unfold split: option.splits)
  show ?thesis using strong quorum all any by (simp add: coordinator_read_def Let_def case_prod_unfold)
qed

lemma handle_get_keeps:
  "callbacks_keep P cb \<Longrightarrow> P w \<Longrightarrow> P (snd (snd (handle_get order cb level rc now args w)))"
  by (simp add: handle_get_def Let_def case_prod_unfold coordinator_read_keeps)

section \<open>Well-formed clusters\<close>

text \<open>The tables of a node agree: every component carries the node's identifier, the store is well formed, the ring has exactly
  the points of the node and the members it knows of, and the membership table has one entry per node under its own
  identifier.\<close>

definition node_wf :: "(string \<Rightarrow> nat) \<Rightarrow> node_id \<Rightarrow> db_node \<Rightarrow> bool" where
  "node_wf h n d \<longleftrightarrow> storage_wf n (node_storage d) \<and> topology_inv h n d \<and> mb_wf_of n (dn_membership d) \<and>
     cf_node_id (dn_config d) = n \<and> co_node_id (dn_cluster d) = n"

definition cluster_wf :: "(string \<Rightarrow> nat) \<Rightarrow> db_cluster \<Rightarrow> bool" where
  "cluster_wf h c \<longleftrightarrow> (\<forall>n. node_wf h n (c n))"

named_theorems cluster_wf_intros

lemma cluster_wfD: "cluster_wf h c \<Longrightarrow> node_wf h n (c n)"
  by (simp add: cluster_wf_def)

lemma cluster_wf_upd: "cluster_wf h c \<Longrightarrow> node_wf h n d \<Longrightarrow> cluster_wf h (c(n := d))"
  by (simp add: cluster_wf_def)

lemma node_wf_frame [simp]:
  "node_wf h n (d\<lparr>dn_read_coordinator := rc\<rparr>) = node_wf h n d" "node_wf h n (d\<lparr>dn_backpressure := bp\<rparr>) = node_wf h n d"
  "node_wf h n (d\<lparr>dn_migration := mg\<rparr>) = node_wf h n d" "node_wf h n (d\<lparr>dn_fault_injector := fi\<rparr>) = node_wf h n d"
  "node_wf h n (d\<lparr>dn_router := rt\<rparr>) = node_wf h n d"
  by (simp_all add: node_wf_def topology_inv_def)

lemma node_wf_storage: "node_wf h n d \<Longrightarrow> storage_wf n s \<Longrightarrow> node_wf h n (set_storage s d)"
  by (simp add: node_wf_def topology_inv_def)

lemma node_wf_follower: "node_wf h n d \<Longrightarrow> storage_wf n (fl_storage fl) \<Longrightarrow> node_wf h n (set_follower fl d)"
  by (simp add: node_wf_def topology_inv_def node_storage_def)

lemma cluster_wf_fields [cluster_wf_intros]:
  "cluster_wf h c \<Longrightarrow> cluster_wf h (c(n := (c n)\<lparr>dn_read_coordinator := rc\<rparr>))"
  "cluster_wf h c \<Longrightarrow> cluster_wf h (c(n := (c n)\<lparr>dn_backpressure := bp\<rparr>))"
  "cluster_wf h c \<Longrightarrow> cluster_wf h (c(n := (c n)\<lparr>dn_migration := mg\<rparr>))"
  "cluster_wf h c \<Longrightarrow> cluster_wf h (c(n := (c n)\<lparr>dn_fault_injector := fi\<rparr>))"
  by (simp_all add: cluster_wf_def)

lemma cluster_wf_storage: "cluster_wf h c \<Longrightarrow> storage_wf n s \<Longrightarrow> cluster_wf h (c(n := set_storage s (c n)))"
  by (simp add: cluster_wf_def node_wf_storage)

lemma cluster_stores: "cluster_wf h c \<Longrightarrow> wf.all_inv (stores_of c)"
  by (simp add: cluster_wf_def node_wf_def wf.all_inv_def stores_of_def)

lemma cluster_storage: "cluster_wf h c \<Longrightarrow> storage_wf n (node_storage (c n))"
  by (simp add: cluster_wf_def node_wf_def)

lemma cluster_world: "cluster_wf h c \<Longrightarrow> wf.world_inv (followers_of c)"
  by (simp add: cluster_wf_def node_wf_def wf.world_inv_def followers_of_def node_storage_def)

lemma cluster_wf_put_stores: "cluster_wf h c \<Longrightarrow> wf.all_inv w \<Longrightarrow> cluster_wf h (put_stores w c)"
  by (simp add: cluster_wf_def put_stores_def node_wf_storage wf.all_inv_def)

lemma cluster_wf_put_followers: "cluster_wf h c \<Longrightarrow> wf.world_inv w \<Longrightarrow> cluster_wf h (put_followers w c)"
  by (simp add: cluster_wf_def put_followers_def node_wf_follower wf.world_inv_def)

section \<open>Writes\<close>

lemma partition_write_wf:
  assumes "storage_wf (ld_node_id ld) (ld_storage ld)" and "wf.world_inv w"
    and "apply_partition_write fc t nw ld w operation key value ttl = (r, ld', w')"
  shows "storage_wf (ld_node_id ld) (ld_storage ld') \<and> wf.world_inv w'"
proof (cases "ld_is_leader ld \<and> ld_replication_factor ld \<le> ld_ring_size ld")
  case True
  let ?e = "write_entry ld t operation key value ttl"
  obtain success rp w1 where p: "prepare_write fc t nw ld w ?e = (success, rp, w1)" by (cases "prepare_write fc t nw ld w ?e")
  have w1: "wf.world_inv w1" using wf.prepare_inv [OF replicate_prepared [OF p [unfolded prepare_write_def]] assms(2)] .
  have s1: "storage_wf (ld_node_id ld) ((ld_storage ld)\<lparr>sg_store := snd (kv_get_with_metadata (sg_store (ld_storage ld)) t key)\<rparr>)"
    using assms(1) by (rule wf.read)
  show ?thesis
    using assms(3) w1 s1 wf.commit_inv [OF w1] wf.apply_log_entry_inv [OF s1]
    unfolding apply_partition_write_eq [OF True [THEN conjunct1] True [THEN conjunct2] refl refl] p
    by (auto simp: Let_def case_prod_unfold split: if_splits option.splits)
next
  case False
  with assms show ?thesis by (auto simp: apply_partition_write_def split: if_splits)
qed

lemma put_leader_wf: "node_wf h n d \<Longrightarrow> storage_wf n (ld_storage ld) \<Longrightarrow> node_wf h n (put_leader ld d)"
  by (simp add: put_leader_def Let_def node_wf_def topology_inv_def node_storage_def set_storage_def)

lemma node_apply_write_wf [cluster_wf_intros]:
  assumes "cluster_wf h c"
  shows "cluster_wf h (snd (node_apply_write ev me operation key value ttl c))"
proof -
  let ?ld = "leader_of ev (c me)"
  have ld: "ld_node_id ?ld = me" "storage_wf me (ld_storage ?ld)"
    using cluster_wfD [OF assms, of me] by (simp_all add: leader_of_def node_wf_def)
  obtain r ld' w where a: "apply_partition_write (ev_codec ev) (ev_now ev) (network_of ev (c me)) ?ld (followers_of c) operation key value ttl = (r, ld', w)"
    by (metis prod.exhaust)
  from partition_write_wf [OF _ cluster_world [OF assms] a] ld have k: "storage_wf me (ld_storage ld')" "wf.world_inv w" by simp_all
  have c1: "cluster_wf h (put_followers w c)" using assms k(2) by (rule cluster_wf_put_followers)
  then have "cluster_wf h ((put_followers w c)(me := put_leader ld' (put_followers w c me)))"
    using k(1) by (intro cluster_wf_upd put_leader_wf) (auto simp: cluster_wfD)
  then show ?thesis using cluster_wf_storage [OF assms wf.read [OF ld(2)]] by (simp add: node_apply_write_def Let_def a)
qed

lemma admit_wf: "cluster_wf h c \<Longrightarrow> cluster_wf h (snd (admit ev s n c))"
  by (simp add: admit_def case_prod_unfold Let_def cluster_wf_fields)

lemma catch_cluster [simp]: "snd (catch ev r) = snd r"
  by (auto simp: catch_def split: prod.splits sum.splits)

lemma serve_wf:
  assumes "cluster_wf h c" and "\<And>c. cluster_wf h c \<Longrightarrow> cluster_wf h (snd (handler c))"
  shows "cluster_wf h (snd (serve ev s n handler c))"
  using admit_wf [OF assms(1), of ev s n] assms(2) by (auto simp: serve_def split: prod.splits bool.splits)

lemma leader_write_wf [cluster_wf_intros]: "cluster_wf h c \<Longrightarrow> cluster_wf h (snd (handle_leader_write ev me args c))"
  by (auto simp: handle_leader_write_def node_apply_write_wf split: sum.splits)

lemma owner_write_wf [cluster_wf_intros]: "cluster_wf h c \<Longrightarrow> cluster_wf h (snd (handle_owner_write ev me args c))"
  by (auto simp: handle_owner_write_def Let_def node_apply_write_wf split: sum.splits)

lemma forward_write_wf: "cluster_wf h c \<Longrightarrow> cluster_wf h (snd (forward_write ev me depth i n operation key value ttl c))"
proof (induction depth arbitrary: i n c)
  case (Suc depth)
  have "cluster_wf h (snd (serve ev (ev_sender ev me) n (handle_leader_write ev n (write_args ev operation key value ttl)) c))"
    using Suc.prems by (rule serve_wf) (rule leader_write_wf)
  with Suc show ?case by (simp add: case_prod_unfold Let_def split: option.splits)
qed simp

lemma coordinate_wf [cluster_wf_intros]: "cluster_wf h c \<Longrightarrow> cluster_wf h (snd (coordinate_or_forward_write ev me operation key value ttl c))"
  by (simp add: coordinate_or_forward_write_def case_prod_unfold Let_def forward_write_wf node_apply_write_wf split: option.splits)

lemma write_commands_wf [cluster_wf_intros]:
  "cluster_wf h c \<Longrightarrow> cluster_wf h (snd (handle_set ev me args c))"
  "cluster_wf h c \<Longrightarrow> cluster_wf h (snd (handle_setex ev me args c))"
  "cluster_wf h c \<Longrightarrow> cluster_wf h (snd (handle_delete ev me args c))"
  by (simp_all add: handle_set_def handle_setex_def handle_delete_def Let_def coordinate_wf split: option.splits)

section \<open>Reads, listings and the other commands\<close>

lemma read_callbacks_keep: "callbacks_keep wf.all_inv (read_callbacks_of ev d)"
  by (auto simp: callbacks_keep_def read_callbacks_of_def node_read_callbacks_def case_prod_unfold Let_def wf.remote_value_inv wf.repair_value_inv
      intro!: wf.all_inv_upd wf.local_value_inv dest: wf.all_invD)

lemma read_commands_wf [cluster_wf_intros]:
  assumes "cluster_wf h c"
  shows "cluster_wf h (snd (node_get ev me args c))" and "cluster_wf h (snd (handle_exists ev me args c))"
proof -
  note w = cluster_stores [OF assms] and keep = read_callbacks_keep [of ev "c me"]
  show "cluster_wf h (snd (node_get ev me args c))"
    using cluster_wf_put_stores [OF assms handle_get_keeps [where P = wf.all_inv, OF keep w]]
    by (simp add: node_get_def case_prod_unfold Let_def cluster_wf_fields)
  show "cluster_wf h (snd (handle_exists ev me args c))"
    using assms cluster_wf_put_stores [OF assms coordinator_read_keeps [where P = wf.all_inv, OF keep w]]
    by (simp add: handle_exists_def case_prod_unfold Let_def cluster_wf_fields)
qed

lemma local_commands_wf [cluster_wf_intros]:
  assumes "cluster_wf h c"
  shows "cluster_wf h (snd (node_local_keys ev n args c))" and "cluster_wf h (snd (node_local_read ev n args c))"
    and "cluster_wf h (snd (node_replica_set ev n args c))" and "cluster_wf h (snd (node_import_keys ev n args c))"
  using cluster_wf_storage [OF assms wf.local_keys_inv [OF cluster_storage [OF assms]]]
    cluster_wf_storage [OF assms wf.local_read_inv [OF cluster_storage [OF assms]]]
    cluster_wf_storage [OF assms wf.replica_set_inv [OF cluster_storage [OF assms]]]
    cluster_wf_put_stores [OF assms wf.import_keys_inv [OF cluster_stores [OF assms]]]
  by (simp_all add: node_local_keys_def node_local_read_def node_replica_set_def node_import_keys_def case_prod_unfold Let_def)

lemma collect_remote_keys_wf: "cluster_wf h c \<Longrightarrow> cluster_wf h (snd (collect_remote_keys ev me pattern xs ks c))"
proof (induction xs arbitrary: ks c)
  case (Cons x xs)
  have "cluster_wf h (snd (serve ev (ev_sender ev me) (ni_node_id x) (node_local_keys ev (ni_node_id x) [pattern]) c))"
    using Cons.prems by (rule serve_wf) (rule local_commands_wf)
  with Cons show ?case by (simp add: case_prod_unfold Let_def)
qed simp

lemma collect_cluster_keys_wf: "cluster_wf h c \<Longrightarrow> cluster_wf h (snd (collect_cluster_keys ev me pattern c))"
  using cluster_wf_storage [OF _ wf.expire [OF cluster_storage]]
  by (simp add: collect_cluster_keys_def kv_keys_def case_prod_unfold Let_def collect_remote_keys_wf)

lemma listing_commands_wf [cluster_wf_intros]:
  "cluster_wf h c \<Longrightarrow> cluster_wf h (snd (handle_keys ev me args c))"
  "cluster_wf h c \<Longrightarrow> cluster_wf h (snd (handle_shards ev me c))"
  by (simp_all add: handle_keys_def handle_shards_def case_prod_unfold Let_def collect_cluster_keys_wf)

lemma rebalance_wf [cluster_wf_intros]:
  assumes "cluster_wf h c"
  shows "cluster_wf h (snd (handle_rebalance ev me c))"
proof -
  obtain f where f: "mc_get_local_keys (migration_callbacks_of ev c me) = Some f"
    by (simp add: migration_callbacks_of_def node_migration_callbacks_def)
  have "wf.all_inv (snd (f (stores_of c)))"
    using local_keys_of [of ev c me "stores_of c"] cluster_stores [OF assms] cluster_storage [OF assms, of me]
    by (simp add: f wf.all_inv_upd wf.expire stores_of_def)
  from cluster_wf_put_stores [OF assms this] show ?thesis
    by (simp add: handle_rebalance_def calculate_rebalance_migrations_def f case_prod_unfold Let_def cluster_wf_fields)
qed

lemma mb_wf_local_role: "mb_wf_of n mb \<Longrightarrow> mb_wf_of n (mb\<lparr>mb_local := (mb_local mb)\<lparr>ni_role := r\<rparr>\<rparr>)"
proof -
  have "ni_node_id (deref (mb\<lparr>mb_local := (mb_local mb)\<lparr>ni_role := r\<rparr>\<rparr>) m) = ni_node_id (deref mb m)" for m
    by (cases m) simp_all
  then show "mb_wf_of n mb \<Longrightarrow> ?thesis" by (auto simp: mb_wf_of_def mb_wf_def simp del: map_of_eq_Some_iff)
qed

definition coordinator_wf :: "node_id \<Rightarrow> coordinator \<Rightarrow> bool" where
  "coordinator_wf n co \<longleftrightarrow> co_node_id co = n \<and> mb_wf_of n (co_membership co) \<and> storage_wf n (fl_storage (co_follower co))"

lemma set_own_role_wf: "coordinator_wf n co \<Longrightarrow> coordinator_wf n (set_own_role role co)"
  by (simp add: coordinator_wf_def set_own_role_def Let_def mb_wf_local_role wf_table.role)

lemma node_wf_coordinator: "node_wf h n d \<longleftrightarrow> coordinator_wf n (dn_cluster d) \<and> topology_inv h n d \<and> cf_node_id (dn_config d) = n"
  by (auto simp: node_wf_def coordinator_wf_def node_storage_def)

lemma topology_inv_cluster [simp]: "topology_inv h n (d\<lparr>dn_cluster := co\<rparr>) = topology_inv h n d"
  by (simp add: topology_inv_def)

lemma step_down_wf: "node_wf h n d \<Longrightarrow> node_wf h n (node_step_down ev d)"
proof -
  assume "node_wf h n d"
  moreover from this have "coordinator_wf n ((dn_cluster d)\<lparr>co_election := el\<rparr>)" for el
    by (simp add: node_wf_coordinator coordinator_wf_def)
  ultimately show "node_wf h n (node_step_down ev d)"
    by (simp add: node_wf_coordinator node_step_down_def on_become_follower_def set_own_role_wf)
qed

lemma failover_wf [cluster_wf_intros]: "cluster_wf h c \<Longrightarrow> cluster_wf h (snd (handle_failover ev me c))"
  by (simp add: handle_failover_def Let_def cluster_wf_upd step_down_wf cluster_wfD)

lemma stop_wf: "node_wf h n d \<Longrightarrow> node_wf h n (node_stop ev gz fail d)"
proof -
  assume d: "node_wf h n d"
  then have "storage_wf n (stop_storage (ev_codec ev) gz (node_storage d) (ev_now ev) fail)"
    by (auto simp: node_wf_def storage_wf_def stop_storage_def Let_def kv_get_all_data_def kv_wf_cleanup case_prod_unfold split: option.splits)
  with d show ?thesis by (simp add: node_stop_def node_wf_storage)
qed

lemma inject_wf:
  assumes "node_wf h n d"
  shows "node_wf h n (snd (node_inject ev gz fail f d))"
proof -
  have "node_wf h n (snd (snd (inject_fault (ev_random ev) (ev_now ev) (node_fault_callbacks ev gz fail) f fi d)))" for fi
    using assms step_down_wf [OF assms] stop_wf [OF assms]
    by (cases "ft_fault_type f") (auto simp: inject_fault_def Let_def case_prod_unfold node_fault_callbacks_def call_opt_def handle_leader_kill_def
        split: option.splits)
  then show ?thesis by (simp add: node_inject_def case_prod_unfold Let_def)
qed

lemma fault_wf: "node_wf h n d \<Longrightarrow> node_wf h n (snd (handle_fault ev gz fail d args))"
  using inject_wf [of h n d] by (simp add: handle_fault_def Let_def split: option.splits)

lemma dispatch_wf:
  assumes "cluster_wf h c"
  shows "cluster_wf h (snd (dispatch ev gz fail me cmd args c))"
proof -
  have "cluster_wf h (c(me := snd (handle_fault ev gz fail (c me) args)))"
    using assms by (intro cluster_wf_upd fault_wf) (simp_all add: cluster_wfD)
  with assms show ?thesis
    by (simp add: dispatch_def report_def case_prod_unfold Let_def cluster_wf_intros)
qed

lemma client_message_wf: "cluster_wf h c \<Longrightarrow> cluster_wf h (snd (handle_client_message ev gz fail me m c))"
  unfolding handle_client_message_def
  by (rule serve_wf) (auto simp: dispatch_wf case_prod_unfold Let_def split: sum.splits)

section \<open>Cluster messages\<close>

lemma merge_gossip_wf: "coordinator_wf n co \<Longrightarrow> coordinator_wf n (snd (merge_gossip now members co))"
  by (auto simp: coordinator_wf_def merge_gossip_def case_prod_unfold Let_def wf_table.keeps_gossip split: sum.splits)

lemma coordinator_wf_frame:
  "coordinator_wf n (co\<lparr>co_election := el\<rparr>) = coordinator_wf n co"
  "coordinator_wf n co \<Longrightarrow> coordinator_wf n (co\<lparr>co_membership := update_heartbeat now m (co_membership co)\<rparr>)"
  by (simp_all add: coordinator_wf_def wf_table.heartbeat)

lemma apply_committed_wf:
  "storage_wf n s \<Longrightarrow> storage_wf n (snd (snd (apply_committed (\<lambda>e s. snd (apply_log_entry fc s now e)) el s)))"
proof (induction "\<lambda>e s. snd (apply_log_entry fc s now e)" el s rule: apply_committed.induct)
  case (1 el s)
  then show ?case by (subst apply_committed.simps) (auto simp: Let_def wf.apply_log_entry_inv split: sum.splits)
qed

lemma append_entries_wf:
  "storage_wf n s \<Longrightarrow> storage_wf n (snd (snd (handle_append_entries (\<lambda>e s. snd (apply_log_entry fc s now e)) el now rt l t pidx pt es lc s)))"
  using apply_committed_wf [of n s fc now]
  by (auto simp: handle_append_entries_def Let_def split: prod.splits option.splits) (metis snd_conv)+

lemma cluster_message_wf:
  assumes "coordinator_wf n co"
  shows "coordinator_wf n (snd (handle_cluster_message fc now rt co m))"
proof -
  have hb: "coordinator_wf n (snd (handle_heartbeat_message now rt co m))"
  proof -
    have f: "coordinator_wf n (on_become_follower (co\<lparr>co_election := el\<rparr>))" for el
      using assms unfolding on_become_follower_def by (intro set_own_role_wf) (simp add: coordinator_wf_frame)
    let ?p = "if truthy (dict_get (ms_payload m) ''leader_id'' JNull)
        then case as_str (dict_get (ms_payload m) ''leader_id'' JNull) of
               Inl e \<Rightarrow> (Some e, co)
             | Inr l \<Rightarrow> let ((_, notify), el) = receive_heartbeat (co_election co) now rt l (ms_term m); co' = co\<lparr>co_election := el\<rparr>
                       in (None, if notify then on_become_follower co' else co')
        else (None, co)"
    have p: "coordinator_wf n (snd ?p)"
      using assms f by (auto simp: case_prod_unfold Let_def coordinator_wf_frame split: sum.splits)
    obtain e1 co1 where e1: "?p = (e1, co1)" by fastforce
    with p have co1: "coordinator_wf n co1" by simp
    show ?thesis
      using co1 merge_gossip_wf [OF co1]
      unfolding handle_heartbeat_message_def Let_def [of "dict_get (ms_payload m) ''leader_id'' JNull"] e1
      by (auto simp: Let_def case_prod_unfold coordinator_wf_frame split: option.splits)
  qed
  have vote: "coordinator_wf n (snd (handle_vote_message now co m))"
    using assms by (auto simp: handle_vote_message_def case_prod_unfold Let_def coordinator_wf_frame split: sum.splits)
  have gossip: "coordinator_wf n (snd (handle_gossip_message now co m))"
    using merge_gossip_wf [OF assms] coordinator_wf_frame(2)
    by (auto simp: handle_gossip_message_def split: prod.splits option.splits) (metis snd_conv)+
  have join: "coordinator_wf n (snd (handle_join_message now co m))"
    using assms wf_table.keeps_exec [of n "co_membership co" "OpAdd x" for x]
    by (auto simp: handle_join_message_def coordinator_wf_def Let_def split: sum.splits)
  have repl: "coordinator_wf n (snd (handle_replicate_message fc now co m))"
    using assms wf.handle_replicate_inv [of n "co_follower co"]
    by (auto simp: handle_replicate_message_def coordinator_wf_def Let_def case_prod_unfold split: sum.splits)
  have app: "coordinator_wf n (snd (handle_append_message fc now rt co m))"
    using assms append_entries_wf [of n "fl_storage (co_follower co)"]
    by (auto simp: handle_append_message_def coordinator_wf_def Let_def case_prod_unfold split: sum.splits)
  show ?thesis using assms hb vote gossip join repl app by (simp add: handle_cluster_message_def split: message_type.splits)
qed

lemma node_message_wf: "node_wf h n d \<Longrightarrow> node_wf h n (snd (node_cluster_message ev d m))"
  using cluster_message_wf [of n "dn_cluster d"]
  by (auto simp: node_cluster_message_def node_wf_coordinator case_prod_unfold Let_def topology_inv_def split: sum.splits)

section \<open>Topology and maintenance\<close>

lemma sync_storage_wf: "storage_wf me (node_storage (c me)) \<Longrightarrow> storage_wf me (node_storage (sync_topology ev me c me))"
proof -
  have "storage_wf me (node_storage (fold (join_step ev me) ns c' me))" if "storage_wf me (node_storage (c' me))" for ns c'
    using that by (induction ns arbitrary: c') (simp_all add: join_step_at wf.expire)
  then show "storage_wf me (node_storage (c me)) \<Longrightarrow> ?thesis"
    using leave_fold by (simp add: sync_topology_def Let_def)
qed

lemma sync_topology_wf:
  assumes "cluster_wf (ev_hash ev) c"
  shows "cluster_wf (ev_hash ev) (sync_topology ev me c)"
proof -
  have me: "node_wf (ev_hash ev) me (c me)" using assms by (rule cluster_wfD)
  then have inv: "topology_inv (ev_hash ev) me (c me)" by (simp add: node_wf_def)
  note parts = sync_topology_parts [where ev = ev and me = me and c = c, OF inv]
  have "node_wf (ev_hash ev) me (sync_topology ev me c me)"
    using me parts(1,5,8,9) sync_storage_wf [of me c ev] by (simp add: node_wf_def)
  moreover have "node_wf (ev_hash ev) n (sync_topology ev me c n)" if "n \<noteq> me" for n
    using that parts(7) cluster_wfD [OF assms] by simp
  ultimately show ?thesis by (metis cluster_wf_def)
qed

lemma persist_wf: "storage_wf n s \<Longrightarrow> storage_wf n (maintenance_persist fc gz s now fail id)"
  by (auto simp: maintenance_persist_def storage_wf_def kv_get_all_data_def kv_wf_cleanup case_prod_unfold Let_def split: option.splits)

lemma maintenance_wf:
  assumes "cluster_wf (ev_hash ev) c"
  shows "cluster_wf (ev_hash ev) (maintenance_round ev gz fail id me c)"
proof -
  let ?s = "node_storage (c me)"
  let ?c1 = "c(me := set_storage (?s\<lparr>sg_store := kv_cleanup_expired (sg_store ?s) (ev_now ev)\<rparr>) (c me))"
  have "cluster_wf (ev_hash ev) ?c1" using cluster_wf_storage [OF assms wf.expire [OF cluster_storage [OF assms]]] .
  then have c2: "cluster_wf (ev_hash ev) (sync_topology ev me ?c1)" by (rule sync_topology_wf)
  have "node_wf (ev_hash ev) me (set_storage (maintenance_persist (ev_codec ev) gz (node_storage (sync_topology ev me ?c1 me)) (ev_now ev) fail id)
      (sync_topology ev me ?c1 me))"
    using cluster_wfD [OF c2, of me] persist_wf [OF cluster_storage [OF c2]] by (rule node_wf_storage)
  then show ?thesis using c2 by (simp add: maintenance_round_def Let_def cluster_wf_upd)
qed

section \<open>Background passes\<close>

text \<open>A task keeps what its callbacks keep.\<close>

lemma transfer_loop_keeps:
  assumes "\<And>data w. P w \<Longrightarrow> P (snd (send target data w))" and "P w"
  shows "P (snd (snd (transfer_loop se send target lk ks kd p w)))"
proof -
  have b: "P (snd (send_batch se send what target data w))" if "P w" for what data w
    using assms(1) [OF that, of data] by (auto simp: send_batch_def split: sum.splits prod.splits)
  show ?thesis
    using assms(2)
  proof (induction ks arbitrary: kd p w)
    case Nil
    then show ?case using b [of w "''final batch''" kd] by (auto split: option.splits prod.splits)
  next
    case (Cons k ks)
    then show ?case
      using b [of w "''batch''"] by (auto simp: Let_def split: option.splits prod.splits) (metis snd_conv)+
  qed
qed

lemma execute_migration_wf:
  assumes "wf.all_inv w"
  shows "wf.all_inv (snd (snd (execute_migration se h rg (migration_callbacks_of ev c me) now task mg w)))"
proof -
  let ?cb = "migration_callbacks_of ev c me"
  obtain f s d where cb: "mc_get_local_keys ?cb = Some f" "mc_send_keys ?cb = Some s" "mc_delete_keys ?cb = Some d"
    by (simp add: migration_callbacks_of_def node_migration_callbacks_def)
  have k: "wf.all_inv (snd (f v))" "wf.all_inv (snd (s t data v))" "wf.all_inv (snd (d ks v))" if "wf.all_inv v" for v t data ks
    using wf.migration_callbacks_inv [OF that, of "migration_env_of ev c me" "ev_now ev" me] cb by (simp_all add: migration_callbacks_of_def)
  let ?w2 = "snd (snd (transfer_loop se s (tk_target_node (begin_task now task)) (fst (f w)) (tk_keys (begin_task now task)) [] 0 (snd (f w))))"
  have w2: "wf.all_inv ?w2" by (rule transfer_loop_keeps [where P = wf.all_inv, OF k(2) k(1) [OF assms]])
  have "wf.all_inv (snd (delete_step se h rg mg (Some d) ks ?w2))" for ks
    using k(3) [OF w2] w2 by (simp add: delete_step_def case_prod_unfold Let_def)
  with w2 show ?thesis by (simp add: execute_migration_def cb case_prod_unfold Let_def)
qed

lemma migration_pass_wf:
  assumes "cluster_wf h c"
  shows "cluster_wf h (migration_pass ev me c)"
proof -
  have "wf.all_inv (snd (fold (\<lambda>task (mg, w). snd (execute_migration se h' rg (migration_callbacks_of ev c me) now task mg w)) ts (mg, w)))"
    if "wf.all_inv w" for ts mg w se h' rg now
    using that
  proof (induction ts arbitrary: mg w)
    case (Cons t ts)
    obtain t' mg' w' where e: "execute_migration se h' rg (migration_callbacks_of ev c me) now t mg w = (t', mg', w')"
      by (metis prod.exhaust)
    then have "wf.all_inv w'" using execute_migration_wf [OF Cons.prems, of se h' rg ev c me now t mg] by simp
    from Cons.IH [OF this] show ?case by (simp add: e)
  qed simp
  from this [OF cluster_stores [OF assms]] show ?thesis
    by (simp add: migration_pass_def migration_round_def case_prod_unfold Let_def cluster_wf_fields cluster_wf_put_stores [OF assms])
qed

lemma deliver_wf: "cluster_wf h c \<Longrightarrow> cluster_wf h (snd (deliver ev n m c))"
  by (simp add: deliver_def case_prod_unfold Let_def cluster_wf_upd node_message_wf cluster_wfD)

lemma sends_to_wf: "cluster_wf h c \<Longrightarrow> cluster_wf h (snd (sends_to ev me n c))"
  by (simp add: sends_to_def case_prod_unfold Let_def cluster_wf_fields)

lemma send_all_wf: "cluster_wf h c \<Longrightarrow> cluster_wf h (send_all ev me ms c)"
proof (induction ms arbitrary: c)
  case (Cons nm ms)
  obtain n m where "nm = (n, m)" by fastforce
  then show ?case using sends_to_wf [OF Cons.prems, of ev me n] Cons.IH by (simp add: case_prod_unfold Let_def deliver_wf)
qed simp

lemma collect_votes_wf: "cluster_wf h c \<Longrightarrow> cluster_wf h (snd (collect_votes ev me m ns c))"
proof (induction ns arbitrary: c)
  case (Cons n ns)
  then show ?case using sends_to_wf [OF Cons.prems, of ev me n] by (simp add: case_prod_unfold Let_def deliver_wf)
qed simp

lemma set_election_wf: "node_wf h n d \<Longrightarrow> node_wf h n (set_election el d)"
  by (simp add: set_election_def node_wf_coordinator coordinator_wf_frame)

lemma node_elect_wf:
  assumes "cluster_wf h c"
  shows "cluster_wf h (node_elect ev me c)"
proof -
  have l: "node_wf h me (d\<lparr>dn_cluster := on_become_leader (dn_cluster d)\<rparr>)" if "node_wf h me d" for d
    using that set_own_role_wf by (simp add: node_wf_coordinator on_become_leader_def)
  have s: "cluster_wf h (c'(me := set_election el (c' me)))" if "cluster_wf h c'" for c' el
    using that by (simp add: cluster_wf_upd set_election_wf cluster_wfD)
  show ?thesis
    unfolding node_elect_def Let_def case_prod_unfold
    using collect_votes_wf [OF s [OF assms]] l set_election_wf by (intro cluster_wf_upd) (auto simp: cluster_wfD)
qed

lemma election_pass_wf: "cluster_wf h c \<Longrightarrow> cluster_wf h (election_pass ev me c)"
  by (simp add: election_pass_def send_all_wf node_elect_wf)

lemma health_check_wf:
  assumes "cluster_wf h c"
  shows "cluster_wf h (c(n := (c n)\<lparr>dn_cluster := (dn_cluster (c n))\<lparr>co_membership := snd (check_node_health now (dn_membership (c n)))\<rparr>\<rparr>))"
proof -
  have "mb_wf_of n (mb_exec (OpHealth now) (dn_membership (c n)))"
    using cluster_wfD [OF assms, of n] by (intro wf_table.keeps_exec) (simp_all add: node_wf_def)
  then have "node_wf h n ((c n)\<lparr>dn_cluster := (dn_cluster (c n))\<lparr>co_membership := snd (check_node_health now (dn_membership (c n)))\<rparr>\<rparr>)"
    using cluster_wfD [OF assms, of n] by (simp add: node_wf_coordinator coordinator_wf_def)
  then show ?thesis using assms by (simp add: cluster_wf_upd)
qed

lemma gossip_pass_wf: "cluster_wf h c \<Longrightarrow> cluster_wf h (gossip_pass ev pick me c)"
  unfolding gossip_pass_def Let_def by (intro send_all_wf health_check_wf)

lemma node_join_wf: "cluster_wf h c \<Longrightarrow> cluster_wf h (snd (node_join ev me seed c))"
proof -
  assume c: "cluster_wf h c"
  have "cluster_wf h (c'(me := (c' me)\<lparr>dn_cluster := snd (join_with_response now (dn_cluster (c' me)) r)\<rparr>))" if "cluster_wf h c'" for c' now r
    using cluster_wfD [OF that, of me] merge_gossip_wf [of me "dn_cluster (c' me)" now] that
    by (intro cluster_wf_upd)
      (auto simp: join_with_response_def node_wf_coordinator split: option.splits prod.splits, (metis snd_conv)+)
  from this [OF deliver_wf [OF c]] show ?thesis using c
    by (auto simp: node_join_def case_prod_unfold Let_def split: option.splits)
qed

section \<open>Every run\<close>

datatype cluster_event =
    ClientCommand node_env "string \<Rightarrow> nat" nat node_id message
  | ClusterMessage node_env node_id message
  | Maintain node_env "string \<Rightarrow> nat" nat node_id
  | ElectionPass node_env node_id
  | GossipPass node_env "node_info list \<Rightarrow> nat \<Rightarrow> node_info list" node_id
  | MigrationPass node_env node_id
  | Join node_env node_id "node_id option"

fun event_env_ok :: "(string \<Rightarrow> nat) \<Rightarrow> cluster_event \<Rightarrow> bool" where
  "event_env_ok h (Maintain ev gz fail n) = (ev_hash ev = h)"
| "event_env_ok h _ = True"

fun run_event :: "cluster_event \<Rightarrow> db_cluster \<Rightarrow> db_cluster" where
  "run_event (ClientCommand ev gz fail n m) c = snd (handle_client_message ev gz fail n m c)"
| "run_event (ClusterMessage ev n m) c = snd (deliver ev n m c)"
| "run_event (Maintain ev gz fail n) c = maintenance_round ev gz fail id n c"
| "run_event (ElectionPass ev n) c = election_pass ev n c"
| "run_event (GossipPass ev pick n) c = gossip_pass ev pick n c"
| "run_event (MigrationPass ev n) c = migration_pass ev n c"
| "run_event (Join ev n seed) c = snd (node_join ev n seed c)"

lemma run_event_wf: "cluster_wf h c \<Longrightarrow> event_env_ok h e \<Longrightarrow> cluster_wf h (run_event e c)"
  by (cases e) (auto simp: client_message_wf deliver_wf maintenance_wf election_pass_wf gossip_pass_wf migration_pass_wf node_join_wf)

lemma node_init_wf: "node_wf h (cf_node_id cfg) (node_init h cfg ad sd now rt)"
proof -
  have "mb_wf_of (cf_node_id cfg) (membership_init (new_node (cf_node_id cfg) host p q now) f d g)" for host p q f d g
    using mb_wf_init by (simp add: mb_wf_of_def) (simp add: membership_init_def new_node_def)
  then have "coordinator_wf (cf_node_id cfg) (coordinator_init cfg (storage_init cfg ad sd now) now rt)"
    by (simp add: coordinator_wf_def coordinator_init_def storage_wf_def storage_init_def kv_wf_init)
  with topology_init [of h cfg ad sd now rt] show ?thesis
    by (simp add: node_wf_coordinator) (simp add: node_init_def Let_def)
qed

text \<open>No event changes an identifier of a component.\<close>

lemma run_event_id: "identities (run_event e c) = identities c"
  by (cases e) (simp_all add: keeps_identity)

text \<open>C8: The tables of a node never disagree. Start every node from its constructor and let any sequence of client commands
  (well formed or not, admitted or not), cluster messages with arbitrary payloads, passes of the maintenance, election,
  gossip and migration threads and attempts to join run, with any outcome for every message they send. In the resulting cluster every node's store is well formed,
  its ring holds exactly the points of itself and the members it last synchronised with, its membership table has one entry per
  node under its own identifier and always one for itself, and every component carries the node's identifier: storage,
  coordinator, configuration and membership table (\<open>cluster_wf\<close>), election, replication, partition manager, router, migration,
  fault injector and read coordinator (\<open>identity\<close>).\<close>

theorem cluster_stays_wf:
  assumes "\<And>n. cf_node_id (cfg n) = n" and "\<forall>e \<in> set es. event_env_ok h e"
  shows "cluster_wf h (fold run_event es (\<lambda>n. node_init h (cfg n) (ad n) (sd n) (t n) (rt n))) \<and>
    (\<forall>n. set (identity (fold run_event es (\<lambda>n. node_init h (cfg n) (ad n) (sd n) (t n) (rt n)) n)) = {n})"
proof -
  let ?c = "\<lambda>n. node_init h (cfg n) (ad n) (sd n) (t n) (rt n)"
  have "cluster_wf h ?c"
    unfolding cluster_wf_def using node_init_wf [of h "cfg n" "ad n" "sd n" "t n" "rt n" for n] assms(1) by metis
  with assms(2) have "cluster_wf h (fold run_event es ?c)"
    by (induction es arbitrary: rule: rev_induct) (simp_all add: run_event_wf)
  moreover have "identities (fold run_event es ?c) = identities ?c"
    by (induction es rule: rev_induct) (simp_all add: run_event_id)
  then have "set (identity (fold run_event es ?c n)) = {n}" for n
    using assms(1) by (simp add: identities_at node_init_id)
  ultimately show ?thesis by blast
qed

theorem cluster_stays_wf_witness:
  "let c = fold run_event
     [ClientCommand quiet_env length 9 ''a'' (create_command ''SET'' [''k'', ''v''] []),
      ClusterMessage quiet_env ''a'' (new_message JOIN [] ''b'' 0), Maintain quiet_env length 9 ''a'',
      ElectionPass quiet_env ''b'', GossipPass quiet_env (\<lambda>xs k. take k xs) ''a'', MigrationPass quiet_env ''a'', Join quiet_env ''b'' (Some ''a'')]
     (\<lambda>n. node_init length (default_node_config n) \<lparr>dir_main = None, dir_bak = None, dir_tmp = None\<rparr>
        \<lparr>sn_main = None, sn_bak = None, sn_tmp = None, sn_meta = None\<rparr> 0 2)
   in cluster_wf length c \<and> (\<forall>n. set (identity (c n)) = {n})"
  unfolding Let_def by (rule cluster_stays_wf) (simp_all add: default_node_config_def quiet_env_def)

end
