(* ===== verification/NodeListing.thy ===== *)
theory NodeListing
  imports NodeSafety
begin

text \<open>
  The listing, report and fault commands: KEYS is the union of what the reachable nodes show, no report changes what a node
  shows, and the fault commands answer whether or not they do anything.
\<close>

section \<open>KEYS\<close>

definition shown_at :: "time \<Rightarrow> db_cluster \<Rightarrow> node_id \<Rightarrow> string \<Rightarrow> bool" where
  "shown_at t c n k \<longleftrightarrow> kv_view t (sg_store (node_storage (c n))) k \<noteq> None"

text \<open>The command reaches a node that admits it, and the answer comes back.\<close>

definition answers :: "node_env \<Rightarrow> node_id \<Rightarrow> db_cluster \<Rightarrow> node_id \<Rightarrow> bool" where
  "answers ev me c n \<longleftrightarrow> ev_connect ev n \<and> ev_send ev n = Replied \<and> fst (admit ev (ev_sender ev me) n c)"

lemma json_strings_map [simp]: "json_strings (map JStr ks) = ks"
  by (induction ks) (simp_all add: json_strings_def)

lemma admit_other: "m \<noteq> n \<Longrightarrow> snd (admit ev s n c) m = c m"
  by (simp add: admit_def case_prod_unfold Let_def)

lemma admit_storage: "node_storage (snd (admit ev s n c) m) = node_storage (c m)"
  by (simp add: admit_def case_prod_unfold Let_def)

lemma serve_keys:
  assumes "kv_wf (sg_store (node_storage (c n)))"
  shows "set (listed_keys (fst (serve ev s n (node_local_keys ev n [pattern]) c))) =
      (if fst (admit ev s n c) then {k. shown_at (ev_now ev) c n k \<and> key_matches pattern k} else {})"
    and "m \<noteq> n \<Longrightarrow> snd (serve ev s n (node_local_keys ev n [pattern]) c) m = c m"
proof -
  obtain ok c1 where a: "admit ev s n c = (ok, c1)" by fastforce
  have st: "node_storage (c1 n) = node_storage (c n)" using admit_storage [of ev s n c n] by (simp add: a)
  have other: "m \<noteq> n \<Longrightarrow> c1 m = c m" for m using admit_other [of m n ev s c] by (simp add: a)
  show "set (listed_keys (fst (serve ev s n (node_local_keys ev n [pattern]) c))) =
      (if fst (admit ev s n c) then {k. shown_at (ev_now ev) c n k \<and> key_matches pattern k} else {})"
    using kv_keys_spec [OF assms, of "ev_now ev" pattern]
    by (cases ok) (simp_all add: serve_def a node_local_keys_def handle_local_keys_def catch_def listed_keys_def st case_prod_unfold Let_def shown_at_def)
  show "snd (serve ev s n (node_local_keys ev n [pattern]) c) m = c m" if "m \<noteq> n"
    using that other by (cases ok) (simp_all add: serve_def a node_local_keys_def catch_def case_prod_unfold Let_def)
qed

lemma collect_remote_keys_set:
  assumes "distinct (map ni_node_id xs)" and "\<forall>x \<in> set xs. kv_wf (sg_store (node_storage (c (ni_node_id x))))"
  shows "set (fst (collect_remote_keys ev me pattern xs ks c)) =
    set ks \<union> {k. key_matches pattern k \<and> (\<exists>x \<in> set xs. ni_node_id x \<noteq> me \<and> answers ev me c (ni_node_id x) \<and> shown_at (ev_now ev) c (ni_node_id x) k)}"
  using assms
proof (induction xs arbitrary: ks c)
  case (Cons x xs)
  let ?n = "ni_node_id x"
  let ?r = "serve ev (ev_sender ev me) ?n (node_local_keys ev ?n [pattern]) c"
  have wf: "kv_wf (sg_store (node_storage (c ?n)))" using Cons.prems(2) by simp
  note sk = serve_keys [where c = c and n = ?n and ev = ev and s = "ev_sender ev me" and pattern = pattern, OF wf]
  have fresh: "ni_node_id y \<noteq> ?n" if "y \<in> set xs" for y using Cons.prems(1) that by (auto simp: image_iff)
  show ?case
  proof (cases "?n = me \<or> \<not> ev_connect ev ?n \<or> ev_send ev ?n = Dropped")
    case True
    then show ?thesis using Cons by (auto simp: answers_def)
  next
    case False
    have same: "answers ev me (snd ?r) (ni_node_id y) = answers ev me c (ni_node_id y)"
      "shown_at (ev_now ev) (snd ?r) (ni_node_id y) k = shown_at (ev_now ev) c (ni_node_id y) k"
      "node_storage (snd ?r (ni_node_id y)) = node_storage (c (ni_node_id y))" if "y \<in> set xs" for y k
      using sk(2) [OF fresh [OF that]] by (simp_all add: answers_def admit_def shown_at_def case_prod_unfold Let_def)
    have IH: "set (fst (collect_remote_keys ev me pattern xs ks' (snd ?r))) = set ks' \<union>
        {k. key_matches pattern k \<and> (\<exists>y \<in> set xs. ni_node_id y \<noteq> me \<and> answers ev me c (ni_node_id y) \<and> shown_at (ev_now ev) c (ni_node_id y) k)}" for ks'
      using Cons.IH [of "snd ?r" ks'] Cons.prems same by (simp cong: bex_cong)
    have "ev_send ev ?n = Replied \<or> ev_send ev ?n = ReplyLost" using False by (cases "ev_send ev ?n") auto
    then show ?thesis
    proof
      assume "ev_send ev ?n = Replied"
      then show ?thesis using False by (auto simp: IH sk(1) answers_def case_prod_unfold Let_def)
    next
      assume "ev_send ev ?n = ReplyLost"
      then show ?thesis using False by (auto simp: IH answers_def case_prod_unfold Let_def)
    qed
  qed
qed simp

text \<open>C22: KEYS lists the cluster. In a well-formed cluster, the answer to KEYS is a sorted list without repetitions of exactly the
  keys that match the pattern and are shown by the node itself or by an alive member that is reached, admits the
  command and whose answer arrives; keys that have expired are left out everywhere, and unreachable members are
  left out silently.\<close>

theorem keys_lists_cluster:
  assumes "cluster_wf h c" and "pattern = (if args = [] then ''*'' else args ! 0)"
  shows "\<exists>ks c'. handle_keys ev me args c = (Inr (Success (JList (map JStr ks))), c') \<and> sorted ks \<and> distinct ks \<and>
    set ks = {k. key_matches pattern k \<and> (shown_at (ev_now ev) c me k \<or>
      (\<exists>x \<in> set (get_alive_nodes (dn_membership (c me))). ni_node_id x \<noteq> me \<and> answers ev me c (ni_node_id x) \<and>
         shown_at (ev_now ev) c (ni_node_id x) k))}"
proof -
  let ?st = "sg_store (node_storage (c me))"
  let ?c1 = "c(me := set_storage ((node_storage (c me))\<lparr>sg_store := snd (kv_keys ?st (ev_now ev) pattern)\<rparr>) (c me))"
  let ?alive = "get_alive_nodes (dn_membership (c me))"
  have wf: "kv_wf (sg_store (node_storage (c n)))" for n using cluster_storage [OF assms(1), of n] by (simp add: storage_wf_def)
  have alive1: "get_alive_nodes (dn_membership (?c1 me)) = ?alive" by simp
  have "mb_wf (dn_membership (c me))" using cluster_wfD [OF assms(1), of me] by (simp add: node_wf_def mb_wf_of_def)
  then have "distinct (map ni_node_id (all_members (dn_membership (c me))))" by (simp only: all_members_ids) (simp add: mb_wf_def)
  then have d: "distinct (map ni_node_id ?alive)" by (simp only: get_alive_nodes_def distinct_map_filter)
  have view: "kv_view (ev_now ev) (snd (kv_keys ?st (ev_now ev) pattern)) = kv_view (ev_now ev) ?st"
    using kv_view_cleanup [OF wf order_refl] by (simp add: kv_keys_def Let_def)
  have same: "answers ev me ?c1 n = answers ev me c n" "shown_at (ev_now ev) ?c1 n k = shown_at (ev_now ev) c n k" for n k
    by (simp_all add: answers_def admit_def shown_at_def view case_prod_unfold Let_def)
  have wf1: "\<forall>x \<in> set ?alive. kv_wf (sg_store (node_storage (?c1 (ni_node_id x))))" using wf by (simp add: kv_wf_keys)
  define r where "r = collect_remote_keys ev me pattern ?alive (fst (kv_keys ?st (ev_now ev) pattern)) ?c1"
  have "handle_keys ev me args c = (Inr (Success (JList (map JStr (sorted_list_of_set (set (fst r)))))), snd r)"
    unfolding r_def assms(2) by (simp add: handle_keys_def collect_cluster_keys_def case_prod_unfold Let_def)
  moreover have "set (fst r) =
      {k. key_matches pattern k \<and> (shown_at (ev_now ev) c me k \<or>
        (\<exists>x \<in> set ?alive. ni_node_id x \<noteq> me \<and> answers ev me c (ni_node_id x) \<and> shown_at (ev_now ev) c (ni_node_id x) k))}"
    unfolding r_def collect_remote_keys_set [OF d wf1] same using kv_keys_spec [OF wf, of me "ev_now ev" pattern] by (auto simp: shown_at_def)
  moreover have "set (sorted_list_of_set (set (fst r))) = set (fst r)" by simp
  ultimately show ?thesis by (metis sorted_sorted_list_of_set distinct_sorted_list_of_set)
qed

lemma sample_wf: "cluster_wf length sample_cluster"
proof -
  have "node_wf length n (sample_cluster n)" for n
  proof -
    have s: "node_wf length n (seat n)"
      using node_init_wf [of length "sample_config n"] by (simp add: seat_def sample_config_def default_node_config_def)
    then have "mb_wf_of n (mb_exec (OpAdd (new_node ''b'' ''h'' 1 2 0)) (dn_membership (seat n)))"
      by (intro wf_table.keeps_exec) (simp_all add: node_wf_def)
    with s show ?thesis
      by (simp add: sample_cluster_def Let_def node_wf_coordinator coordinator_wf_def)
  qed
  then show ?thesis by (simp add: cluster_wf_def)
qed

definition listing_cluster :: db_cluster where
  "listing_cluster = sample_cluster(''b'' := set_storage (stored ''b'' [(''k'', sample_value 1 1)]) (sample_cluster ''b''))"

theorem keys_lists_cluster_witness:
  "\<exists>ks c'. handle_keys quiet_env ''a'' [] listing_cluster = (Inr (Success (JList (map JStr ks))), c') \<and> ''k'' \<in> set ks"
proof -
  have "storage_wf ''b'' (stored ''b'' [(''k'', sample_value 1 1)])"
    by (simp add: storage_wf_def stored_def fresh_storage_def kv_wf_def kv_init_def)
  then have "cluster_wf length listing_cluster" unfolding listing_cluster_def using sample_wf by (intro cluster_wf_storage)
  from keys_lists_cluster [OF this, of "''*''" "[]" quiet_env "''a''"] obtain ks c' where
    k: "handle_keys quiet_env ''a'' [] listing_cluster = (Inr (Success (JList (map JStr ks))), c')"
    and s: "set ks = {k. key_matches ''*'' k \<and> (shown_at (ev_now quiet_env) listing_cluster ''a'' k \<or>
      (\<exists>x \<in> set (get_alive_nodes (dn_membership (listing_cluster ''a''))). ni_node_id x \<noteq> ''a'' \<and>
        answers quiet_env ''a'' listing_cluster (ni_node_id x) \<and> shown_at (ev_now quiet_env) listing_cluster (ni_node_id x) k))}" by auto
  have "new_node ''b'' ''h'' 1 2 0 \<in> set (get_alive_nodes (dn_membership (listing_cluster ''a'')))"
    by (simp add: listing_cluster_def get_alive_nodes_def all_members_def sample_members) (simp add: new_node_def)
  moreover have "shown_at (ev_now quiet_env) listing_cluster ''b'' ''k''"
    by (simp add: shown_at_def listing_cluster_def view_stored entry_view_def sample_value_def md_is_expired_def quiet_env_def)
  moreover have "answers quiet_env ''a'' listing_cluster ''b''"
    using sample_admit [of "''b''"] by (simp add: answers_def admit_def listing_cluster_def case_prod_unfold Let_def quiet_env_def)
  moreover have "ni_node_id (new_node ''b'' ''h'' 1 2 0) = ''b''" by (simp add: new_node_def)
  ultimately have "\<exists>x \<in> set (get_alive_nodes (dn_membership (listing_cluster ''a''))). ni_node_id x \<noteq> ''a'' \<and>
      answers quiet_env ''a'' listing_cluster (ni_node_id x) \<and> shown_at (ev_now quiet_env) listing_cluster (ni_node_id x) ''k''"
    by (intro bexI [of _ "new_node ''b'' ''h'' 1 2 0"]) simp_all
  then have "''k'' \<in> set ks" unfolding s by (simp add: key_matches_def)
  with k show ?thesis by blast
qed

section \<open>Reports\<close>

definition data_commands :: "string set" where
  "data_commands = {''SET'', ''SETEX'', ''GET'', ''DELETE'', ''DEL'', ''EXISTS'', ''__LEADER_WRITE'', ''__OWNER_WRITE'', ''__REPLICA_SET'', ''__IMPORT_KEYS''}"

lemma shows_same_upd: "shows_same t c c1 \<Longrightarrow> kv_view t (sg_store (node_storage d)) = kv_view t (sg_store (node_storage (c n))) \<Longrightarrow> shows_same t c (c1(n := d))"
  by (simp add: shows_same_def)

lemma collect_shows:
  assumes "cluster_wf h c" and "ev_now ev \<le> t"
  shows "shows_same t c (snd (collect_cluster_keys ev me pattern c))"
proof -
  have serve: "shows_same t c' (snd (serve ev s n (node_local_keys ev n [p]) c'))" if "cluster_wf h c'" for c' s n p
  proof -
    obtain ok c1 where a: "admit ev s n c' = (ok, c1)" by fastforce
    have st: "node_storage (c1 m) = node_storage (c' m)" for m using admit_storage [of ev s n c' m] by (simp add: a)
    have "kv_wf (sg_store (node_storage (c' n)))" using cluster_storage [OF that, of n] by (simp add: storage_wf_def)
    from kv_view_cleanup [OF this assms(2)] show ?thesis
      by (cases ok) (simp_all add: serve_def a node_local_keys_def handle_local_keys_def kv_keys_def shows_same_def st case_prod_unfold Let_def)
  qed
  have remote: "shows_same t c' (snd (collect_remote_keys ev me pattern xs ks c'))" if "cluster_wf h c'" for xs ks c'
    using that
  proof (induction xs arbitrary: ks c')
    case (Cons x xs)
    let ?r = "serve ev (ev_sender ev me) (ni_node_id x) (node_local_keys ev (ni_node_id x) [pattern]) c'"
    have "cluster_wf h (snd ?r)" using Cons.prems by (rule serve_wf) (rule local_commands_wf)
    from Cons.IH [OF this] have "shows_same t c' (snd (collect_remote_keys ev me pattern xs ks' (snd ?r)))" for ks'
      by (rule shows_same_trans [OF serve [OF Cons.prems]])
    with Cons show ?case by (simp add: case_prod_unfold Let_def)
  qed simp
  let ?s = "node_storage (c me)"
  let ?c1 = "c(me := set_storage (?s\<lparr>sg_store := kv_cleanup_expired (sg_store ?s) (ev_now ev)\<rparr>) (c me))"
  have wf: "kv_wf (sg_store ?s)" using cluster_storage [OF assms(1), of me] by (simp add: storage_wf_def)
  have "cluster_wf h ?c1" using cluster_wf_storage [OF assms(1) wf.expire [OF cluster_storage [OF assms(1)]]] .
  from remote [OF this] have "shows_same t ?c1 (snd (collect_remote_keys ev me pattern xs ks ?c1))" for xs ks .
  moreover have "shows_same t c ?c1" using kv_view_cleanup [OF wf assms(2)] by (simp add: shows_same_def)
  ultimately show ?thesis by (simp add: collect_cluster_keys_def kv_keys_def case_prod_unfold Let_def) (blast intro: shows_same_trans)
qed

lemma own_role_storage [simp]: "co_follower (set_own_role r co) = co_follower co"
  by (simp add: set_own_role_def Let_def)

lemma fault_storage: "node_storage (snd (handle_fault ev gz fail d args)) = node_storage d"
proof -
  have "node_storage (snd (node_inject ev gz fail f d)) = node_storage d"
    if "ft_fault_type f \<in> {NETWORK_PARTITION, NETWORK_DELAY, NETWORK_DROP}" for f
    using that by (auto simp: node_inject_def inject_fault_def Let_def case_prod_unfold node_storage_def split: option.splits)
  then show ?thesis
    by (simp add: handle_fault_def Let_def create_network_partition_def create_network_delay_def create_packet_drop_def new_fault_def
        split: option.splits)
qed

text \<open>C21: Only data commands change data. Every other client command, known or unknown, with any arguments, served by any node of
  a well-formed cluster and admitted or not, leaves what every node shows for every key exactly as it was, now and
  at any later time; the expiry passes they trigger remove only what was no longer shown.\<close>

theorem reports_change_no_data:
  assumes "cluster_wf h c" and "ev_now ev \<le> t" and "cmd \<notin> data_commands"
  shows "shows_same t c (snd (serve ev s me (dispatch ev gz fail me cmd args) c))"
proof -
  obtain ok c1 where a: "admit ev s me c = (ok, c1)" by fastforce
  have same1: "shows_same t c c1" using admit_storage [of ev s me c] by (simp add: a shows_same_def)
  have wf1: "cluster_wf h c1" using admit_wf [OF assms(1), of ev s me] by (simp add: a)
  have kwf: "kv_wf (sg_store (node_storage (c1 n)))" for n using cluster_storage [OF wf1, of n] by (simp add: storage_wf_def)
  note view = kv_view_cleanup [OF kwf assms(2)]
  have down: "node_storage (node_step_down ev d) = node_storage d" for d
    by (simp add: node_step_down_def node_storage_def on_become_follower_def)
  obtain f where f: "mc_get_local_keys (migration_callbacks_of ev c1 me) = Some f"
    by (simp add: migration_callbacks_of_def node_migration_callbacks_def)
  have reb: "shows_same t c1 (snd (handle_rebalance ev me c1))"
    using local_keys_of [of ev c1 me "stores_of c1"] view
    by (simp add: handle_rebalance_def calculate_rebalance_migrations_def f case_prod_unfold Let_def shows_same_def put_stores_at stores_of_def)
  have "shows_same t c1 (snd (dispatch ev gz fail me cmd args c1))"
    using assms(3) reb collect_shows [OF wf1 assms(2)] view kv_view_get_with_metadata [OF assms(2)]
    by (simp add: data_commands_def dispatch_def report_def handle_keys_def handle_shards_def handle_failover_def node_local_read_def
        node_local_keys_def handle_local_read_def handle_local_keys_def kv_keys_def case_prod_unfold Let_def fault_storage down)
       (simp add: shows_same_def fault_storage down)
  with same1 show ?thesis by (cases ok) (auto simp: serve_def a intro: shows_same_trans)
qed

theorem reports_change_no_data_witness:
  "''STATS'' \<notin> data_commands \<and> shows_same 7 sample_cluster (snd (serve quiet_env [] ''a'' (dispatch quiet_env length 9 ''a'' ''KEYS'' [''*'']) sample_cluster))"
  using reports_change_no_data [OF sample_wf, of quiet_env 7 "''KEYS''" "[]" "''a''" length 9 "[''*'']"]
  by (simp add: data_commands_def quiet_env_def)

section \<open>Fault commands\<close>

text \<open>A fault command claims success without effect. On a node whose fault injector is disabled, as every node's is after
  construction, FAULT PARTITION and FAULT DELAY with valid arguments answer success, naming the fault, and
  leave the node exactly as it was: no fault is recorded, and messages of the partitioned node are not dropped.\<close>

theorem fault_command_without_effect:
  assumes "\<not> fi_enabled (dn_fault_injector d)"
  shows "handle_fault ev gz fail d [''PARTITION'', n] = (Success (JStr (''Partitioned from '' @ n)), d) \<and>
    handle_fault ev gz fail d [''DELAY'', str_int ms] = (Success (JStr (''Injected '' @ str_int ms @ ''ms delay'')), d) \<and>
    fst (should_fail_network now draw n (dn_fault_injector d)) = False"
  using assms by (simp add: handle_fault_def node_inject_def inject_fault_def py_upper_def should_fail_network_def)

theorem fault_command_without_effect_witness:
  "handle_fault quiet_env length 9 (seat ''a'') [''PARTITION'', ''b''] = (Success (JStr ''Partitioned from b''), seat ''a'')"
  using fault_command_without_effect [of "seat ''a''" quiet_env length 9 "''b''"]
  by (simp add: seat_def node_init_def injector_init_def Let_def)

text \<open>Enabled, a partition command drops every message of the node, and only a FAULT CLEAR or DISABLE ends it.\<close>

lemma partition_command_cuts:
  assumes "fi_enabled (dn_fault_injector d)"
  shows "fst (should_fail_network now draw n (dn_fault_injector (snd (handle_fault ev gz fail d [''PARTITION'', n]))))"
  using assms
  by (simp add: handle_fault_def node_inject_def inject_fault_def py_upper_def should_fail_network_def create_network_partition_def new_fault_def
      partition_targets_def dict_get_def json_strings_def Let_def)

end
