(* ===== verification/Client.thy ===== *)
theory Client
  imports Node
begin

text \<open>
  The TCP client and the connection pool (\<^verbatim>\<open>src/minidb/network/client.py\<close>).

  \<^item> Sockets are numbered in the order they are created; the counter is threaded through the operations. What the operating
    system does to a socket during one operation is an \<open>os_link\<close>: whether connecting and sending succeed, and what the
    calls of \<^verbatim>\<open>recv\<close> return (an empty chunk when the peer has closed; running out of them is the timeout).
  \<^item> The chaos proxy is a service the client asks over HTTP; \<open>px_query\<close> is its answer, \<open>None\<close> when the request fails.
\<close>

section \<open>State\<close>

record tcp_client =
  tc_host :: string
  tc_port :: int
  tc_timeout :: time
  tc_node_id :: string
  tc_socket :: "nat option"
  tc_connected :: bool

datatype recv_event = Chunk string | RecvError

record os_link =
  lk_connects :: bool
  lk_sends :: bool
  lk_receives :: "recv_event list"

record proxy_env =
  px_port :: "string option"
  px_start_port :: string
  px_node_id :: string
  px_query :: "string \<Rightarrow> string \<Rightarrow> json option"

definition client_init :: "proxy_env \<Rightarrow> string \<Rightarrow> int \<Rightarrow> time \<Rightarrow> string \<Rightarrow> tcp_client" where
  "client_init px host port timeout node_id =
     \<lparr>tc_host = host, tc_port = port, tc_timeout = timeout, tc_node_id = (if node_id \<noteq> [] then node_id else px_node_id px),
      tc_socket = None, tc_connected = False\<rparr>"

section \<open>Connecting\<close>

text \<open>Whatever goes wrong while asking, the connection is allowed; a delay only postpones it.\<close>

definition check_proxy :: "proxy_env \<Rightarrow> tcp_client \<Rightarrow> bool" where
  "check_proxy px c =
     (if px_port px = None \<or> px_port px = Some [] then True
      else
        (case py_int_str (px_start_port px) of
           None \<Rightarrow> True
         | Some start_port \<Rightarrow>
             let target = ''node-'' @ str_int (tc_port c - start_port + 1);
                 from_node = (if tc_node_id c \<noteq> [] then tc_node_id c else px_node_id px)
             in if from_node = [] then True
                else (case px_query px from_node target of
                        Some (JDict d) \<Rightarrow> \<not> truthy (dict_get d ''blocked'' JNull)
                      | _ \<Rightarrow> True)))"

definition client_connect :: "proxy_env \<Rightarrow> (nat \<Rightarrow> os_link) \<Rightarrow> tcp_client \<Rightarrow> nat \<Rightarrow> bool \<times> tcp_client \<times> nat" where
  "client_connect px os c k =
     (if \<not> check_proxy px c then (False, c\<lparr>tc_connected := False\<rparr>, k)
      else (lk_connects (os k), c\<lparr>tc_socket := Some k, tc_connected := lk_connects (os k)\<rparr>, k + 1))"

definition client_disconnect :: "tcp_client \<Rightarrow> tcp_client" where
  "client_disconnect c = c\<lparr>tc_connected := False, tc_socket := None\<rparr>"

section \<open>Sending\<close>

text \<open>The socket an operation works on; \<^verbatim>\<open>None\<close> when the proxy blocks it or no connection can be made.\<close>

definition ready :: "proxy_env \<Rightarrow> (nat \<Rightarrow> os_link) \<Rightarrow> tcp_client \<Rightarrow> nat \<Rightarrow> bool \<times> tcp_client \<times> nat" where
  "ready px os c k =
     (if \<not> check_proxy px c then (False, client_disconnect c, k)
      else if \<not> tc_connected c then client_connect px os c k
      else (True, c, k))"

text \<open>The loop over \<^verbatim>\<open>recv\<close>; the boolean says that something raised.\<close>

fun read_reply :: "float_codec \<Rightarrow> string \<Rightarrow> recv_event list \<Rightarrow> message option \<times> bool" where
  "read_reply fc buffer [] = (None, True)"
| "read_reply fc buffer (RecvError # es) = (None, True)"
| "read_reply fc buffer (Chunk chunk # es) =
     (if chunk = [] then (None, False)
      else (case split_once newline (buffer @ chunk) of
              Some (line, _) \<Rightarrow> (case decode fc line of Inr m \<Rightarrow> (Some m, False) | Inl _ \<Rightarrow> (None, True))
            | None \<Rightarrow> read_reply fc (buffer @ chunk) es))"

definition link_of :: "(nat \<Rightarrow> os_link) \<Rightarrow> tcp_client \<Rightarrow> os_link" where
  "link_of os c = (case tc_socket c of Some s \<Rightarrow> os s | None \<Rightarrow> \<lparr>lk_connects = False, lk_sends = False, lk_receives = []\<rparr>)"

definition client_send_message ::
  "float_codec \<Rightarrow> proxy_env \<Rightarrow> (nat \<Rightarrow> os_link) \<Rightarrow> tcp_client \<Rightarrow> nat \<Rightarrow> message \<Rightarrow> message option \<times> tcp_client \<times> nat" where
  "client_send_message fc px os c k m =
     (case ready px os c k of
        (False, c1, k1) \<Rightarrow> (None, c1, k1)
      | (True, c1, k1) \<Rightarrow>
          if \<not> lk_sends (link_of os c1) then (None, c1, k1)
          else
            let (r, raised) = read_reply fc [] (lk_receives (link_of os c1))
            in (r, if raised then c1\<lparr>tc_connected := False\<rparr> else c1, k1))"

definition send_command ::
  "float_codec \<Rightarrow> proxy_env \<Rightarrow> (nat \<Rightarrow> os_link) \<Rightarrow> tcp_client \<Rightarrow> nat \<Rightarrow> string \<Rightarrow> string list \<Rightarrow> message option \<times> tcp_client \<times> nat" where
  "send_command fc px os c k command args =
     client_send_message fc px os c k (create_command command args (tc_node_id c))"

definition send_message_no_response ::
  "proxy_env \<Rightarrow> (nat \<Rightarrow> os_link) \<Rightarrow> tcp_client \<Rightarrow> nat \<Rightarrow> message \<Rightarrow> bool \<times> tcp_client \<times> nat" where
  "send_message_no_response px os c k m =
     (case ready px os c k of
        (False, c1, k1) \<Rightarrow> (False, c1, k1)
      | (True, c1, k1) \<Rightarrow> (lk_sends (link_of os c1), c1, k1))"

section \<open>The pool\<close>

record connection_pool =
  cp_timeout :: time
  cp_node_id :: string
  cp_local :: "nat \<Rightarrow> (string, tcp_client) dict"
  cp_all_clients :: "(nat \<times> string) list"

definition pool_init :: "time \<Rightarrow> string \<Rightarrow> connection_pool" where
  "pool_init timeout node_id = \<lparr>cp_timeout = timeout, cp_node_id = node_id, cp_local = (\<lambda>_. []), cp_all_clients = []\<rparr>"

definition put_client :: "nat \<Rightarrow> string \<Rightarrow> tcp_client \<Rightarrow> connection_pool \<Rightarrow> connection_pool" where
  "put_client thread key c p = p\<lparr>cp_local := (cp_local p)(thread := dset key c (cp_local p thread))\<rparr>"

definition pool_key :: "string \<Rightarrow> int \<Rightarrow> string" where
  "pool_key host port = host @ '':'' @ str_int port"

definition get_connection ::
  "proxy_env \<Rightarrow> (nat \<Rightarrow> os_link) \<Rightarrow> nat \<Rightarrow> string \<Rightarrow> int \<Rightarrow> connection_pool \<Rightarrow> nat \<Rightarrow> tcp_client \<times> connection_pool \<times> nat" where
  "get_connection px os thread host port p k =
     (let key = pool_key host port;
          (c, p1) = (case dget (cp_local p thread) key of
                       Some c \<Rightarrow> (c, p)
                     | None \<Rightarrow> (client_init px host port (cp_timeout p) (cp_node_id p),
                                p\<lparr>cp_all_clients := cp_all_clients p @ [(thread, key)]\<rparr>));
          (c1, k1) = (if tc_connected c then (c, k) else snd (client_connect px os c k))
      in (c1, put_client thread key c1 p1, k1))"

fun disconnect_all :: "(nat \<times> string) list \<Rightarrow> connection_pool \<Rightarrow> connection_pool" where
  "disconnect_all [] p = p"
| "disconnect_all ((thread, key) # cs) p =
     disconnect_all cs (case dget (cp_local p thread) key of Some c \<Rightarrow> put_client thread key (client_disconnect c) p | None \<Rightarrow> p)"

definition close_all :: "connection_pool \<Rightarrow> connection_pool" where
  "close_all p = (disconnect_all (cp_all_clients p) p)\<lparr>cp_all_clients := []\<rparr>"

text \<open>Sending through the pool, as the coordinator does for heartbeats and gossip: the client object is shared with the pool.\<close>

definition pool_send ::
  "proxy_env \<Rightarrow> (nat \<Rightarrow> os_link) \<Rightarrow> nat \<Rightarrow> string \<Rightarrow> int \<Rightarrow> message \<Rightarrow> connection_pool \<Rightarrow> nat \<Rightarrow> bool \<times> connection_pool \<times> nat" where
  "pool_send px os thread host port m p k =
     (let (c, p1, k1) = get_connection px os thread host port p k;
          (ok, c1, k2) = send_message_no_response px os c k1 m
      in (ok, put_client thread (pool_key host port) c1 p1, k2))"

section \<open>Replies\<close>

lemma read_reply_read_message:
  "[] \<notin> set pieces \<Longrightarrow> fst (read_message fc b pieces) = Some m \<Longrightarrow> read_reply fc b (map Chunk pieces @ es) = (Some m, False)"
  by (induction pieces arbitrary: b) (auto split: option.splits sum.splits prod.splits)

text \<open>A command is answered by the next message on the connection. When the proxy allows it, the client is connected or can
  connect, and the command can be sent, the command returns exactly the message the server wrote, however the
  network cuts its bytes into pieces and whatever is received after it; the client stays connected.\<close>

theorem send_command_answered:
  assumes "float_codec_ok fc" and "message_ok fc reply" and "check_proxy px c" and "ready px os c k = (True, c1, k1)"
    and "lk_sends (link_of os c1)" and "lk_receives (link_of os c1) = map Chunk pieces @ es"
    and "concat pieces = encode fc reply" and "[] \<notin> set pieces"
  shows "send_command fc px os c k command args = (Some reply, c1, k1) \<and> tc_connected c1"
proof -
  have "read_reply fc [] (map Chunk pieces @ es) = (Some reply, False)"
    using read_message_chunks [OF assms(1,2,7,8)] by (intro read_reply_read_message [OF assms(8)])
  moreover have "tc_connected c1" using assms(3,4) by (auto simp: ready_def client_connect_def split: if_splits)
  ultimately show ?thesis using assms(4-6) by (simp add: send_command_def client_send_message_def)
qed

definition no_proxy :: proxy_env where
  "no_proxy = \<lparr>px_port = None, px_start_port = ''7001'', px_node_id = [], px_query = (\<lambda>_ _. None)\<rparr>"

definition answering :: "string list \<Rightarrow> nat \<Rightarrow> os_link" where
  "answering ps s = \<lparr>lk_connects = True, lk_sends = True, lk_receives = map Chunk ps\<rparr>"

theorem send_command_answered_witness:
  "fst (send_command whole_codec no_proxy (answering [take 5 (encode whole_codec (create_gossip ''y'' [])),
       drop 5 (encode whole_codec (create_gossip ''y'' []))]) (client_init no_proxy ''h'' 7001 10 ''cli'') 0 ''GET'' [''k'']) =
   Some (create_gossip ''y'' [])"
proof -
  let ?ps = "[take 5 (encode whole_codec (create_gossip ''y'' [])), drop 5 (encode whole_codec (create_gossip ''y'' []))]"
  let ?c = "client_init no_proxy ''h'' 7001 10 ''cli''"
  have r: "ready no_proxy (answering ?ps) ?c 0 = (True, ?c\<lparr>tc_socket := Some 0, tc_connected := True\<rparr>, 1)"
    by (simp add: ready_def check_proxy_def no_proxy_def client_connect_def client_init_def answering_def)
  have "[] \<notin> set ?ps" by code_simp
  moreover have "message_ok whole_codec (create_gossip ''y'' [])" using sample_messages_ok by simp
  ultimately show ?thesis
    using send_command_answered [OF whole_codec_ok _ _ r, of "create_gossip ''y'' []" ?ps "[]" "''GET''" "[''k'']"]
    by (simp add: check_proxy_def no_proxy_def link_of_def answering_def)
qed

text \<open>An answer that nobody read is taken for the answer to the next message.\<close>

lemma unread_reply_shifts:
  assumes "float_codec_ok fc" and "message_ok fc stale" and "ready px os c k = (True, c1, k1)" and "lk_sends (link_of os c1)"
    and "lk_receives (link_of os c1) = Chunk (encode fc stale) # es"
  shows "fst (client_send_message fc px os c k m) = Some stale"
proof -
  have "fst (read_message fc [] [encode fc stale]) = Some stale"
    using assms(1,2) by (intro read_message_chunks) (simp_all add: encode_frame)
  then have "read_reply fc [] (map Chunk [encode fc stale] @ es) = (Some stale, False)"
    by (intro read_reply_read_message) (simp_all add: encode_frame)
  with assms(3-5) show ?thesis by (simp add: client_send_message_def)
qed

section \<open>Pooled connections\<close>

fun pool_sends :: "proxy_env \<Rightarrow> (nat \<Rightarrow> os_link) list \<Rightarrow> nat \<Rightarrow> string \<Rightarrow> int \<Rightarrow> message \<Rightarrow> connection_pool \<Rightarrow> nat \<Rightarrow> bool list \<times> connection_pool \<times> nat" where
  "pool_sends px [] thread host port m p k = ([], p, k)"
| "pool_sends px (os # oss) thread host port m p k =
     (let (ok, p1, k1) = pool_send px os thread host port m p k; (oks, p2, k2) = pool_sends px oss thread host port m p1 k1
      in (ok # oks, p2, k2))"

lemma put_same_client: "dget (cp_local p thread) key = Some c \<Longrightarrow> dget (cp_local (put_client thread key c p) thread) key' = dget (cp_local p thread) key'"
  by (simp add: put_client_def update_conv')

text \<open>C40: A broken pooled connection is never replaced. Once the socket of a pooled client no longer accepts data (its peer has
  closed or restarted), every later message of that thread to that peer fails, however often it is tried and although any
  new connection to the peer would succeed: the client keeps its connected flag, and neither sending nor the pool opens
  another socket.\<close>

theorem pooled_connection_never_recovers:
  assumes "dget (cp_local p thread) (pool_key host port) = Some c" and "tc_connected c" and "tc_socket c = Some s"
    and "check_proxy px c" and "\<forall>os \<in> set oss. \<not> lk_sends (os s)"
  shows "\<exists>p'. pool_sends px oss thread host port m p k = (List.replicate (length oss) False, p', k) \<and>
    dget (cp_local p' thread) (pool_key host port) = Some c"
  using assms(1,5)
proof (induction oss arbitrary: p)
  case (Cons os oss)
  let ?key = "pool_key host port"
  let ?p1 = "put_client thread ?key c (put_client thread ?key c p)"
  have "\<not> lk_sends (link_of os c)" using Cons.prems(2) assms(3) by (simp add: link_of_def)
  then have s: "pool_send px os thread host port m p k = (False, ?p1, k)"
    using Cons.prems(1) assms(2,4) by (simp add: pool_send_def get_connection_def send_message_no_response_def ready_def Let_def)
  have "dget (cp_local ?p1 thread) ?key = Some c" by (simp add: put_client_def update_conv')
  from Cons.IH [OF this] Cons.prems(2) obtain p' where
    "pool_sends px oss thread host port m ?p1 k = (List.replicate (length oss) False, p', k)" "dget (cp_local p' thread) ?key = Some c" by auto
  with s show ?case by simp
qed simp

definition restarted_peer :: "nat \<Rightarrow> os_link" where
  "restarted_peer s = \<lparr>lk_connects = True, lk_sends = (s \<noteq> 0), lk_receives = []\<rparr>"

theorem pooled_connection_never_recovers_witness:
  "fst (pool_sends no_proxy [restarted_peer, restarted_peer] 7 ''h'' 8001 (create_gossip ''y'' [])
     (put_client 7 (pool_key ''h'' 8001) ((client_init no_proxy ''h'' 8001 5 ''a'')\<lparr>tc_socket := Some 0, tc_connected := True\<rparr>) (pool_init 5 ''a'')) 1) =
   [False, False] \<and> lk_connects (restarted_peer 1) \<and> lk_sends (restarted_peer 1)"
proof -
  let ?c = "(client_init no_proxy ''h'' 8001 5 ''a'')\<lparr>tc_socket := Some 0, tc_connected := True\<rparr>"
  let ?p = "put_client 7 (pool_key ''h'' 8001) ?c (pool_init 5 ''a'')"
  have "dget (cp_local ?p 7) (pool_key ''h'' 8001) = Some ?c" by (simp add: put_client_def pool_init_def)
  from pooled_connection_never_recovers [OF this, of 0 no_proxy "[restarted_peer, restarted_peer]" "create_gossip ''y'' []" 1]
  show ?thesis by (auto simp: check_proxy_def no_proxy_def restarted_peer_def)
qed

end
