(* ===== verification/Cli.thy ===== *)
theory Cli
  imports Client
begin

text \<open>
  The command-line client (\<^verbatim>\<open>src/minidb/cli.py\<close>): splitting a line into words, executing a command, sending it with one
  retry. Reading the terminal, printing and the history file are not modelled.

  \<^item> A result is the dictionary the code builds; \<open>Inr None\<close> is the request to leave.
  \<^item> \<open>os\<close> and \<open>os'\<close> are what the operating system does during the first attempt and the retry.
\<close>

section \<open>Splitting a line\<close>

fun parse_chars :: "string list \<Rightarrow> string \<Rightarrow> char option \<Rightarrow> string \<Rightarrow> string list" where
  "parse_chars parts current quote_char [] = (if current \<noteq> [] then parts @ [current] else parts)"
| "parse_chars parts current quote_char (c # cs) =
     (if (c = CHR 34 \<or> c = CHR 39) \<and> quote_char = None then parse_chars parts current (Some c) cs
      else if quote_char = Some c then parse_chars parts current None cs
      else if c = CHR 32 \<and> quote_char = None
      then if current \<noteq> [] then parse_chars (parts @ [current]) [] quote_char cs else parse_chars parts current quote_char cs
      else parse_chars parts (current @ [c]) quote_char cs)"

definition parse_line :: "string \<Rightarrow> string list" where
  "parse_line line = parse_chars [] [] None line"

section \<open>State and results\<close>

record cli =
  cl_host :: string
  cl_port :: int
  cl_client :: tcp_client
  cl_debug_mode :: bool
  cl_default_consistency :: string

definition cli_init :: "proxy_env \<Rightarrow> string \<Rightarrow> int \<Rightarrow> cli" where
  "cli_init px host port =
     \<lparr>cl_host = host, cl_port = port, cl_client = client_init px host port 10 ''cli'', cl_debug_mode = False, cl_default_consistency = ''ANY''\<rparr>"

type_synonym cli_result = "py_error + (string, json) dict option"

definition message_result :: "string \<Rightarrow> (string, json) dict" where
  "message_result s = [(''message'', JStr s)]"

definition error_result :: "string \<Rightarrow> (string, json) dict" where
  "error_result s = [(''error'', JStr s)]"

definition cli_commands :: "(string, string) dict" where
  "cli_commands =
     [(''SET'', ''SET <key> <value> [ttl] - Set a key-value pair''),
      (''SETEX'', ''SETEX <key> <ttl> <value> - Set a key with explicit TTL''),
      (''GET'', ''GET <key> [consistency] - Get a value (consistency: ONE|ANY|QUORUM|ALL|STRONG)''),
      (''DELETE'', ''DELETE <key> - Delete a key''),
      (''DEL'', ''DEL <key> - Alias for DELETE''),
      (''EXISTS'', ''EXISTS <key> - Check if key exists''),
      (''KEYS'', ''KEYS [pattern] - List keys matching pattern''),
      (''PING'', ''PING - Check server connectivity''),
      (''NODES'', ''NODES - List all cluster nodes''),
      (''LEADER'', ''LEADER - Show current leader''),
      (''RING'', ''RING [samples] - Show consistent hash ring''),
      (''SHARDS'', ''SHARDS - Show shard distribution''),
      (''REPLICAS'', ''REPLICAS <key> - Show replicas for a key''),
      (''ROUTE'', ''ROUTE <key> - Show routing info for a key''),
      (''INFO'', ''INFO [section] - Show server information''),
      (''STATS'', ''STATS - Show statistics''),
      (''CLUSTER'', ''CLUSTER - Show cluster information''),
      (''CONSISTENCY'', ''CONSISTENCY [level] - Get/set default consistency''),
      (''REBALANCE'', ''REBALANCE - Trigger cluster rebalance''),
      (''MIGRATE'', ''MIGRATE STATUS - Show migration status''),
      (''FAILOVER'', ''FAILOVER - Force leader election''),
      (''FAULT'', ''FAULT [action] - Manage fault injection''),
      (''RATELIMIT'', ''RATELIMIT - Show rate limit statistics''),
      (''DEBUG'', ''DEBUG <on|off> - Toggle debug mode''),
      (''HELP'', ''HELP [command] - Show help''),
      (''QUIT'', ''QUIT - Exit the CLI''),
      (''EXIT'', ''EXIT - Exit the CLI'')]"

section \<open>Sending\<close>

text \<open>A missing response is retried once on a new connection; \<open>elapsed\<close> is the time of the first attempt.\<close>

definition cli_send ::
  "float_codec \<Rightarrow> proxy_env \<Rightarrow> (nat \<Rightarrow> os_link) \<Rightarrow> (nat \<Rightarrow> os_link) \<Rightarrow> time \<Rightarrow> string \<Rightarrow> string list \<Rightarrow> cli \<Rightarrow> nat \<Rightarrow>
   (string, json) dict \<times> cli \<times> nat" where
  "cli_send fc px os os' elapsed cmd args cl k =
     (let (r1, c1, k1) = send_command fc px os (cl_client cl) k cmd args;
          (r2, c2, k2) =
            (if r1 \<noteq> None then (r1, c1, k1)
             else
               let (ok, c', k') = client_connect px os' c1 k1
               in if ok then send_command fc px os' c' k' cmd args else (None, c', k'));
          cl' = cl\<lparr>cl_client := c2\<rparr>; time_ms = (''time_ms'', JFloat (elapsed * 1000))
      in (case r2 of
            None \<Rightarrow> ([(''error'', JStr ''Connection failed''), time_ms], cl', k2)
          | Some m \<Rightarrow>
              let p = ms_payload m; success = dict_get p ''success'' (JBool False)
              in ([(''success'', success), time_ms,
                   if truthy (dict_get p ''success'' JNull) then (''data'', dict_get p ''data'' JNull)
                   else (''error'', dict_get p ''error'' (JStr ''Unknown error''))], cl', k2)))"

section \<open>Commands\<close>

fun join_lines :: "string list \<Rightarrow> string" where
  "join_lines [] = []"
| "join_lines [l] = l"
| "join_lines (l # ls) = l @ newline # join_lines ls"

definition cmd_help :: "string list \<Rightarrow> (string, json) dict" where
  "cmd_help args =
     (if args \<noteq> []
      then (case dget cli_commands (py_upper (args ! 0)) of
              Some d \<Rightarrow> message_result d
            | None \<Rightarrow> error_result (''Unknown command: '' @ py_upper (args ! 0)))
      else message_result (join_lines (''Available commands:'' # [] # map (\<lambda>(c, d). ''  '' @ d) (sort_key fst cli_commands))))"

definition cmd_debug :: "string list \<Rightarrow> cli \<Rightarrow> (string, json) dict \<times> cli" where
  "cmd_debug args cl =
     (let mode = (if args \<noteq> [] then py_lower (args ! 0) \<in> {''on'', ''true'', ''1''} else \<not> cl_debug_mode cl)
      in (message_result (''Debug mode: '' @ (if mode then ''ON'' else ''OFF'')), cl\<lparr>cl_debug_mode := mode\<rparr>))"

definition cmd_consistency :: "string list \<Rightarrow> cli \<Rightarrow> (string, json) dict \<times> cli" where
  "cmd_consistency args cl =
     (if args \<noteq> []
      then let level = py_upper (args ! 0)
           in if level \<notin> {''ONE'', ''QUORUM'', ''ALL'', ''ANY'', ''STRONG''}
              then (error_result ''Invalid consistency level. Valid: ONE, QUORUM, ALL, ANY, STRONG'', cl)
              else (message_result (''Default consistency set to: '' @ level), cl\<lparr>cl_default_consistency := level\<rparr>)
      else (message_result (''Default consistency: '' @ cl_default_consistency cl), cl))"

text \<open>A left-justified format field; a null, a list or an object has no such format and raises.\<close>

definition ljust :: "nat \<Rightarrow> string \<Rightarrow> string" where
  "ljust n s = s @ List.replicate (n - length s) (CHR 32)"

fun format_left :: "float_codec \<Rightarrow> nat \<Rightarrow> json \<Rightarrow> string res" where
  "format_left fc n (JStr s) = Inr (ljust n s)"
| "format_left fc n (JInt i) = Inr (ljust n (str_int i))"
| "format_left fc n (JFloat x) = Inr (ljust n (fc_repr fc x))"
| "format_left fc n (JBool b) = Inr (ljust n (if b then ''1'' else ''0''))"
| "format_left fc n _ = Inl TypeError"

text \<open>A line of the table of nodes; a host that is not a string is rejected.\<close>

definition member_line :: "float_codec \<Rightarrow> json \<Rightarrow> string res" where
  "member_line fc m =
     (case m of
        JDict d \<Rightarrow>
          bind_res (format_left fc 20 (dict_get d ''node_id'' (JStr ''unknown''))) (\<lambda>node.
          bind_res (as_str (dict_get d ''host'' (JStr ''?''))) (\<lambda>host.
          bind_res (format_left fc 18 (dict_get d ''client_port'' (JStr ''?''))) (\<lambda>port.
          bind_res (format_left fc 12 (dict_get d ''role'' (JStr ''unknown''))) (\<lambda>role.
          bind_res (format_left fc 10 (dict_get d ''state'' (JStr ''unknown''))) (\<lambda>state.
            Inr (node @ '' '' @ host @ '':'' @ port @ '' '' @ role @ '' '' @ state))))))
      | _ \<Rightarrow> Inl AttributeError)"

fun member_lines :: "float_codec \<Rightarrow> json list \<Rightarrow> string list res" where
  "member_lines fc [] = Inr []"
| "member_lines fc (m # ms) = bind_res (member_line fc m) (\<lambda>l. bind_res (member_lines fc ms) (\<lambda>ls. Inr (l # ls)))"

definition nodes_header :: "string list" where
  "nodes_header =
     [''Cluster Nodes:'', [], ljust 20 ''NODE ID'' @ '' '' @ ljust 25 ''ADDRESS'' @ '' '' @ ljust 12 ''ROLE'' @ '' '' @ ljust 10 ''STATE'',
      List.replicate 70 (CHR ''-'')]"

text \<open>The answers to CLUSTER that \<^verbatim>\<open>_cmd_nodes\<close> and \<^verbatim>\<open>_cmd_leader\<close> turn into text. The leader in such an answer
  is a string or null; a value of another type is rejected here.\<close>

definition cmd_nodes_of :: "float_codec \<Rightarrow> (string, json) dict \<Rightarrow> cli_result" where
  "cmd_nodes_of fc result =
     (if truthy (dict_get result ''success'' JNull) \<and> dget result ''data'' \<noteq> None
      then (case dict_get result ''data'' JNull of
              JDict d \<Rightarrow>
                (case dict_get d ''members'' (JList []) of
                   JList ms \<Rightarrow> bind_res (member_lines fc ms) (\<lambda>ls. Inr (Some (message_result (join_lines (nodes_header @ ls)))))
                 | _ \<Rightarrow> Inl TypeError)
            | _ \<Rightarrow> Inl AttributeError)
      else Inr (Some result))"

definition cmd_leader_of :: "(string, json) dict \<Rightarrow> cli_result" where
  "cmd_leader_of result =
     (if truthy (dict_get result ''success'' JNull) \<and> dget result ''data'' \<noteq> None
      then (case dict_get result ''data'' JNull of
              JDict d \<Rightarrow>
                (case dict_get d ''leader_id'' JNull of
                   JStr l \<Rightarrow> Inr (Some (message_result (if l \<noteq> [] then ''Current leader: '' @ l else ''No leader elected'')))
                 | JNull \<Rightarrow> Inr (Some (message_result ''No leader elected''))
                 | _ \<Rightarrow> Inl TypeError)
            | _ \<Rightarrow> Inl AttributeError)
      else Inr (Some result))"

text \<open>The methods \<^verbatim>\<open>_cmd_...\<close>; \<open>send\<close> is \<^verbatim>\<open>_send_command\<close>.\<close>

type_synonym cli_sender = "string \<Rightarrow> string list \<Rightarrow> cli \<Rightarrow> nat \<Rightarrow> (string, json) dict \<times> cli \<times> nat"

type_synonym cli_command = "string list \<Rightarrow> cli \<Rightarrow> nat \<Rightarrow> cli_result \<times> cli \<times> nat"

definition cmd_send :: "cli_sender \<Rightarrow> string \<Rightarrow> cli_command" where
  "cmd_send send cmd args cl k = (let (r, cl', k') = send cmd args cl k in (Inr (Some r), cl', k'))"

definition cmd_get :: "cli_sender \<Rightarrow> cli_command" where
  "cmd_get send args cl k =
     (if args = [] then (Inr (Some (error_result ''GET requires key'')), cl, k)
      else cmd_send send ''GET'' [args ! 0, if length args > 1 then py_upper (args ! 1) else cl_default_consistency cl] cl k)"

definition cmd_nodes :: "float_codec \<Rightarrow> cli_sender \<Rightarrow> cli_command" where
  "cmd_nodes fc send args cl k = (let (r, cl', k') = send ''CLUSTER'' [] cl k in (cmd_nodes_of fc r, cl', k'))"

definition cmd_leader :: "cli_sender \<Rightarrow> cli_command" where
  "cmd_leader send args cl k = (let (r, cl', k') = send ''CLUSTER'' [] cl k in (cmd_leader_of r, cl', k'))"

definition cmd_ring :: "cli_sender \<Rightarrow> cli_command" where
  "cmd_ring send args cl k = cmd_send send ''RING'' args cl k"

definition cmd_shards :: "cli_sender \<Rightarrow> cli_command" where
  "cmd_shards send args cl k = cmd_send send ''SHARDS'' [] cl k"

definition cmd_replicas :: "cli_sender \<Rightarrow> cli_command" where
  "cmd_replicas send args cl k =
     (if args = [] then (Inr (Some (error_result ''REPLICAS requires key'')), cl, k) else cmd_send send ''REPLICAS'' args cl k)"

definition cmd_route :: "cli_sender \<Rightarrow> cli_command" where
  "cmd_route send args cl k =
     (if args = [] then (Inr (Some (error_result ''ROUTE requires key'')), cl, k) else cmd_send send ''ROUTE'' args cl k)"

definition cmd_stats :: "cli_sender \<Rightarrow> cli_command" where
  "cmd_stats send args cl k = cmd_send send ''STATS'' [] cl k"

definition cmd_rebalance :: "cli_sender \<Rightarrow> cli_command" where
  "cmd_rebalance send args cl k = cmd_send send ''REBALANCE'' [] cl k"

definition cmd_migrate :: "cli_sender \<Rightarrow> cli_command" where
  "cmd_migrate send args cl k = cmd_send send ''MIGRATE'' args cl k"

definition cmd_failover :: "cli_sender \<Rightarrow> cli_command" where
  "cmd_failover send args cl k = cmd_send send ''FAILOVER'' [] cl k"

text \<open>The method named after the command, if there is one; HELP and DEBUG are answered before.\<close>

definition cli_handlers :: "float_codec \<Rightarrow> cli_sender \<Rightarrow> (string, cli_command) dict" where
  "cli_handlers fc send =
     [(''GET'', cmd_get send), (''NODES'', cmd_nodes fc send), (''LEADER'', cmd_leader send), (''RING'', cmd_ring send),
      (''SHARDS'', cmd_shards send), (''REPLICAS'', cmd_replicas send), (''ROUTE'', cmd_route send), (''STATS'', cmd_stats send),
      (''CONSISTENCY'', \<lambda>args cl k. let (r, cl') = cmd_consistency args cl in (Inr (Some r), cl', k)),
      (''REBALANCE'', cmd_rebalance send), (''MIGRATE'', cmd_migrate send), (''FAILOVER'', cmd_failover send)]"

definition cli_execute ::
  "float_codec \<Rightarrow> proxy_env \<Rightarrow> (nat \<Rightarrow> os_link) \<Rightarrow> (nat \<Rightarrow> os_link) \<Rightarrow> time \<Rightarrow> string \<Rightarrow> cli \<Rightarrow> nat \<Rightarrow> cli_result \<times> cli \<times> nat" where
  "cli_execute fc px os os' elapsed line cl k =
     (case parse_line line of
        [] \<Rightarrow> (Inr (Some (error_result ''Empty command'')), cl, k)
      | p # args \<Rightarrow>
          let cmd = py_upper p; send = cli_send fc px os os' elapsed
          in if cmd = ''QUIT'' \<or> cmd = ''EXIT'' then (Inr None, cl, k)
             else if cmd = ''HELP'' then (Inr (Some (cmd_help args)), cl, k)
             else if cmd = ''DEBUG'' then (let (r, cl') = cmd_debug args cl in (Inr (Some r), cl', k))
             else (case dget (cli_handlers fc send) cmd of
                     Some handler \<Rightarrow> handler args cl k
                   | None \<Rightarrow> cmd_send send cmd args cl k))"

text \<open>What is sent for a command whose answer is shown as it comes: GET sends its level or the default one, some commands send no
  arguments, those without a method of their own are passed on as they are typed. Commands answered by the client, commands
  with a missing key, and NODES and LEADER, which rewrite an answer to CLUSTER, are not among them.\<close>

definition sent_as :: "cli \<Rightarrow> string \<Rightarrow> string list \<Rightarrow> (string \<times> string list) option" where
  "sent_as cl cmd args =
     (if cmd \<in> {''QUIT'', ''EXIT'', ''HELP'', ''DEBUG'', ''CONSISTENCY'', ''NODES'', ''LEADER''} then None
      else if cmd = ''GET''
      then (if args = [] then None
            else Some (cmd, [args ! 0, if length args > 1 then py_upper (args ! 1) else cl_default_consistency cl]))
      else if cmd \<in> {''SHARDS'', ''STATS'', ''REBALANCE'', ''FAILOVER''} then Some (cmd, [])
      else if cmd \<in> {''REPLICAS'', ''ROUTE''} \<and> args = [] then None
      else Some (cmd, args))"

lemma execute_sent:
  assumes "parse_line line = p # args" and "sent_as cl (py_upper p) args = Some (cmd, args')"
  shows "cli_execute fc px os os' elapsed line cl k = cmd_send (cli_send fc px os os' elapsed) cmd args' cl k \<and> cmd = py_upper p"
  using assms(2)
  by (auto simp: cli_execute_def assms(1) sent_as_def cli_handlers_def cmd_get_def cmd_shards_def cmd_stats_def cmd_rebalance_def cmd_failover_def
      cmd_ring_def cmd_migrate_def cmd_replicas_def cmd_route_def Let_def split: if_splits)

section \<open>Quoting\<close>

text \<open>Words as a user quotes them.\<close>

definition quoted :: "string \<Rightarrow> string" where
  "quoted w = CHR 34 # w @ [CHR 34]"

fun command_line :: "string list \<Rightarrow> string" where
  "command_line [] = []"
| "command_line [w] = quoted w"
| "command_line (w # ws) = quoted w @ CHR 32 # command_line ws"

lemma parse_quoted:
  "CHR 34 \<notin> set w \<Longrightarrow> parse_chars parts cur (Some (CHR 34)) (w @ CHR 34 # rest) = parse_chars parts (cur @ w) None rest"
  by (induction w arbitrary: cur) auto

text \<open>Quoting is undone. A line of quoted words, whatever spaces and single quotes they contain (but no double quotes), is split
  into exactly these words, in order; only empty words are lost.\<close>

theorem parse_line_quoted:
  assumes "\<forall>w \<in> set ws. CHR 34 \<notin> set w"
  shows "parse_line (command_line ws) = filter (\<lambda>w. w \<noteq> []) ws"
proof -
  have "parse_chars parts [] None (command_line ws) = parts @ filter (\<lambda>w. w \<noteq> []) ws" for parts
    using assms
  proof (induction ws arbitrary: parts rule: command_line.induct)
    case (2 w)
    then show ?case using parse_quoted [of w parts "[]" "[]"] by (simp add: quoted_def)
  next
    case (3 w v vs)
    have "parse_chars parts [] None (command_line (w # v # vs)) = parse_chars parts w None (CHR 32 # command_line (v # vs))"
      using 3 parse_quoted [of w parts "[]" "CHR 32 # command_line (v # vs)"] by (simp add: quoted_def)
    also have "\<dots> = parse_chars (parts @ filter (\<lambda>w. w \<noteq> []) [w]) [] None (command_line (v # vs))"
      by (cases "w = []") simp_all
    also have "\<dots> = parts @ filter (\<lambda>w. w \<noteq> []) (w # v # vs)" using 3 by simp
    finally show ?case .
  qed simp
  then show ?thesis by (simp add: parse_line_def)
qed

theorem parse_line_quoted_witness: "parse_line (command_line [''SET'', ''my key'', ''a value'']) = [''SET'', ''my key'', ''a value'']"
  using parse_line_quoted [of "[''SET'', ''my key'', ''a value'']"] by simp

text \<open>An empty value cannot be stored from the command line: the word is dropped and the server sees too few arguments.\<close>

lemma empty_value_dropped: "parse_line (command_line [''SET'', ''k'', []]) = [''SET'', ''k'']"
  by code_simp

end
