(* ===== verification/EndToEnd.thy ===== *)
theory EndToEnd
  imports NodeListing Cli
begin

text \<open>
  The steps between the ends of the program: what an acknowledged SET leaves on each node of a cluster, and how a command
  reaches the dispatcher of a node over a connection. The properties built on them are in the root theory.
\<close>

section \<open>What a write leaves on each node\<close>

lemma send_commit_each:
  assumes "not_stale e (w f)"
  shows "\<exists>ok fl. send_phase fc now known net ''commit'' f e w = (ok, w(f := fl)) \<and>
    (fl_storage fl = fl_storage (w f) \<or> fl_storage fl = snd (apply_log_entry fc (fl_storage (w f)) now e))"
proof (cases "known f \<and> net f \<noteq> Dropped")
  case True
  then show ?thesis by (auto simp: send_phase_def handle_commit [OF assms] fun_upd_def)
next
  case False
  then have "send_phase fc now known net ''commit'' f e w = (False, w(f := w f))" by (auto simp: send_phase_def)
  then show ?thesis by blast
qed

lemma commit_each:
  assumes "distinct fs" and "\<forall>f \<in> set fs. not_stale e (w f)"
  shows "fl_storage (snd (commit_to_followers fc now nw e fs w) g) = fl_storage (w g) \<or>
    fl_storage (snd (commit_to_followers fc now nw e fs w) g) = snd (apply_log_entry fc (fl_storage (w g)) now e)"
  using assms
proof (induction fs arbitrary: w)
  case (Cons f fs)
  from Cons.prems(2) have "not_stale e (w f)" by simp
  from send_commit_each [of e w f fc now "nw_known nw" "nw_commit nw", OF this] obtain ok fl where
    s: "send_phase fc now (nw_known nw) (nw_commit nw) ''commit'' f e w = (ok, w(f := fl))"
    and fl: "fl_storage fl = fl_storage (w f) \<or> fl_storage fl = snd (apply_log_entry fc (fl_storage (w f)) now e)" by blast
  have ns: "\<forall>g \<in> set fs. not_stale e ((w(f := fl)) g)" using Cons.prems by auto
  have frame: "fl_storage (snd (commit_to_followers fc now nw e fs (w(f := fl))) f) = fl_storage fl"
    using commit_applies [OF _ ns prod.collapse [symmetric]] Cons.prems(1) by (metis distinct.simps(2) fun_upd_same)
  define w1 where "w1 = w(f := fl)"
  have "fl_storage (snd (commit_to_followers fc now nw e fs w1) g) = fl_storage (w1 g) \<or>
      fl_storage (snd (commit_to_followers fc now nw e fs w1) g) = snd (apply_log_entry fc (fl_storage (w1 g)) now e)"
    using Cons.IH ns Cons.prems(1) by (simp only: w1_def distinct.simps)
  moreover have "g \<noteq> f \<Longrightarrow> w1 g = w g" by (simp add: w1_def)
  moreover have "commit_to_followers fc now nw e (f # fs) w = (let (n, w2) = commit_to_followers fc now nw e fs w1 in (if ok then n + 1 else n, w2))"
    by (simp add: s w1_def)
  ultimately show ?case using fl frame [folded w1_def] by (cases "g = f") (auto simp: case_prod_unfold Let_def)
qed simp

lemma write_each:
  assumes "apply_partition_write fc t nw ld w op k v ttl = (Inr (Success d), ld', w')"
    and "op = ''SET'' \<or> op = ''DELETE''" and "distinct (ld_alive ld)"
    and "\<forall>f \<in> set (ld_alive ld). dget (fl_staged (w f)) (ld_write_sequence ld + 1) = None"
    and "le_version (write_entry ld t op k v ttl) \<noteq> 0"
  shows "fl_storage (w' g) = fl_storage (w g) \<or>
    dget (kv_store (sg_store (fl_storage (w' g)))) k = entry_result (write_entry ld t op k v ttl)"
proof -
  let ?e = "write_entry ld t op k v ttl"
  have st: "ld_is_leader ld" "ld_replication_factor ld \<le> ld_ring_size ld"
    using apply_partition_write_started [OF assms(1)] by simp_all
  obtain success rp w1 where p: "prepare_write fc t nw ld w ?e = (success, rp, w1)" by (cases "prepare_write fc t nw ld w ?e")
  have w': "w' = snd (commit_to_followers fc t nw ?e (write_targets ld) w1)"
    using assms(1) unfolding apply_partition_write_eq [OF st refl refl] p
    by (auto simp: Let_def case_prod_unfold split: if_splits option.splits)
  have pf: "prepared_from ?e w w1" using replicate_prepared [OF p [unfolded prepare_write_def]] .
  have d: "distinct (write_targets ld)" "set (write_targets ld) = set (ld_alive ld) - {ld_node_id ld}"
    using assms(3) by (auto simp: write_targets_def)
  have ns: "\<forall>f \<in> set (write_targets ld). not_stale ?e (w1 f)"
    using pf assms(4) d(2) by (auto simp: prepared_from_def not_stale_def)
  have r: "dget (kv_store (sg_store (snd (apply_log_entry fc s t ?e)))) k = entry_result ?e" for s
    using applied_result [of ?e fc s t] assms(2,5) by (simp add: is_write_def)
  show ?thesis using commit_each [OF d(1) ns, of fc t nw g] pf r by (auto simp: w' prepared_from_def)
qed

section \<open>Writing through one node, reading through another\<close>

definition read_replicas :: "node_env \<Rightarrow> node_id \<Rightarrow> string \<Rightarrow> db_cluster \<Rightarrow> node_id list" where
  "read_replicas ev me k c = get_nodes (ev_hash ev) (dn_ring (c me)) k (cf_replication_factor (dn_config (c me)))"

text \<open>\<open>me\<close> reads from exactly the nodes the leader \<open>l\<close> writes to, which are as many as the replication factor both are configured
  with, and all of them answer.\<close>

definition asks_writers :: "node_env \<Rightarrow> node_id \<Rightarrow> node_id \<Rightarrow> string \<Rightarrow> db_cluster \<Rightarrow> bool" where
  "asks_writers ev me l k c \<longleftrightarrow>
     set (read_replicas ev me k c) = insert l (ni_node_id ` set (get_alive_nodes (dn_membership (c l)))) \<and>
     distinct (read_replicas ev me k c) \<and>
     int (length (read_replicas ev me k c)) = cf_replication_factor (dn_config (c l)) \<and>
     rc_replication_factor (dn_read_coordinator (c me)) = cf_replication_factor (dn_config (c l)) \<and>
     rc_local_node_id (dn_read_coordinator (c me)) = me \<and>
     all_answer (peers_of ev (c me)) me (read_replicas ev me k c)"

text \<open>No node shows a later version of the key than the leader.\<close>

definition leader_current :: "node_env \<Rightarrow> node_id \<Rightarrow> string \<Rightarrow> db_cluster \<Rightarrow> bool" where
  "leader_current ev l k c \<longleftrightarrow>
     (\<forall>y. kv_view (ev_now ev) (sg_store (node_storage (c l))) k = Some y \<longrightarrow> 0 \<le> md_version y) \<and>
     (\<forall>n x. kv_view (ev_now ev) (sg_store (node_storage (c n))) k = Some x \<longrightarrow>
        (\<exists>y. kv_view (ev_now ev) (sg_store (node_storage (c l))) k = Some y \<and> md_version x \<le> md_version y))"

text \<open>No entry waits under the index the leader uses next.\<close>

definition nothing_staged :: "node_id \<Rightarrow> db_cluster \<Rightarrow> bool" where
  "nothing_staged l c \<longleftrightarrow> (\<forall>f. dget (fl_staged (co_follower (dn_cluster (c f)))) (dn_write_sequence (c l) + 1) = None)"

lemma put_followers_frame [simp]:
  "dn_ring (put_followers w c n) = dn_ring (c n)" "dn_config (put_followers w c n) = dn_config (c n)"
  "dn_membership (put_followers w c n) = dn_membership (c n)" "dn_read_coordinator (put_followers w c n) = dn_read_coordinator (c n)"
  "node_storage (put_followers w c n) = fl_storage (w n)" "get_leader_id (dn_cluster (put_followers w c n)) = get_leader_id (dn_cluster (c n))"
  by (simp_all add: put_followers_def set_follower_def node_storage_def get_leader_id_def)

lemma put_leader_frame [simp]:
  "dn_ring (put_leader ld d) = dn_ring d" "dn_config (put_leader ld d) = dn_config d" "dn_membership (put_leader ld d) = dn_membership d"
  "dn_read_coordinator (put_leader ld d) = dn_read_coordinator d" "node_storage (put_leader ld d) = ld_storage ld"
  "get_leader_id (dn_cluster (put_leader ld d)) = get_leader_id (dn_cluster d)"
  by (simp_all add: put_leader_def set_storage_def set_follower_def node_storage_def get_leader_id_def Let_def)

text \<open>A SET the leader acknowledges is an acknowledged partition write, and changes only storages and what the leader counts.\<close>

lemma leader_set:
  assumes "dispatch ev gz fail l ''SET'' [k, v] c = (Inr (Success d), c')" and "el_is_leader (dn_election (c l))"
  shows "\<exists>ld' w'. apply_partition_write (ev_codec ev) (ev_now ev) (network_of ev (c l)) (leader_of ev (c l)) (followers_of c) ''SET'' k (JStr v) None =
      (Inr (Success d), ld', w') \<and> c' = (put_followers w' c)(l := put_leader ld' (put_followers w' c l))"
  using assms
  by (auto simp: dispatch_def handle_set_def coordinate_or_forward_write_def node_apply_write_def Let_def split: if_splits prod.splits)

lemma get_quorum_arg:
  "dispatch ev gz fail me ''GET'' [k, ''QUORUM''] c =
     (let (r, rc, w) = handle_get (ev_order ev) (read_callbacks_of ev (c me)) QUORUM (dn_read_coordinator (c me)) (ev_now ev) [k] (stores_of c);
          c1 = put_stores w c
      in (Inr r, c1(me := (c1 me)\<lparr>dn_read_coordinator := rc\<rparr>)))"
proof -
  have "py_upper ''QUORUM'' = ''QUORUM''" by (simp add: py_upper_def)
  moreover have "consistency_of ''QUORUM'' = Inr QUORUM" by code_simp
  ultimately show ?thesis by (simp add: dispatch_def node_get_def handle_get_def Let_def)
qed

lemma alive_distinct: "mb_wf mb \<Longrightarrow> distinct (map ni_node_id (get_alive_nodes mb))"
proof -
  assume m: "mb_wf mb"
  then have "distinct (map ni_node_id (all_members mb))" unfolding all_members_ids [OF m] by (simp add: mb_wf_def)
  then show ?thesis unfolding get_alive_nodes_def by (rule distinct_map_filter)
qed

lemma view_earlier: "kv_view t st k = Some x \<Longrightarrow> now \<le> t \<Longrightarrow> kv_view now st k = Some x"
  by (auto simp: kv_view_apply entry_view_def dest: md_is_expired_mono split: if_splits option.splits)

text \<open>A node that shows a version at least as high as the written one after the write shows the written value.\<close>

lemma written_value:
  assumes "apply_partition_write fc t nw ld w ''SET'' k v ttl = (Inr (Success d), ld', w')" and "distinct (ld_alive ld)"
    and "\<forall>f \<in> set (ld_alive ld). dget (fl_staged (w f)) (ld_write_sequence ld + 1) = None"
    and "le_version (write_entry ld t ''SET'' k v ttl) \<noteq> 0"
    and "\<forall>y. kv_view t (sg_store (fl_storage (w n))) k = Some y \<longrightarrow> md_version y < le_version (write_entry ld t ''SET'' k v ttl)"
    and "t \<le> now" and "kv_view now (sg_store (cluster_of (ld_node_id ld) (ld_storage ld') w' n)) k = Some x"
    and "le_version (write_entry ld t ''SET'' k v ttl) \<le> md_version x"
  shows "md_value x = v"
proof -
  let ?e = "write_entry ld t ''SET'' k v ttl" and ?s = "cluster_of (ld_node_id ld) (ld_storage ld') w' n"
  have "dget (kv_store (sg_store ?s)) k = entry_result ?e"
  proof (cases "n = ld_node_id ld")
    case True
    then show ?thesis using acknowledged_write_core [OF assms(1) _ assms(2-4)] by (auto simp: cluster_of_def)
  next
    case False
    then have "fl_storage (w' n) \<noteq> fl_storage (w n)"
      using assms(5,7,8) view_earlier [OF _ assms(6)] by (fastforce simp: cluster_of_def)
    with write_each [OF assms(1) _ assms(2-4), of n] False show ?thesis by (simp add: cluster_of_def)
  qed
  moreover have "le_value ?e = v" by (simp add: write_entry_def make_entry_def)
  ultimately show ?thesis using assms(7) by (auto simp: kv_view_apply entry_view_def entry_result_def split: if_splits)
qed

section \<open>A sample cluster\<close>

text \<open>Three nodes that know each other, with \<open>b\<close> as the leader and three replicas of every key.\<close>

definition trio_config :: "node_id \<Rightarrow> node_config" where
  "trio_config n = (default_node_config n)\<lparr>cf_aof_enabled := False, cf_snapshot_enabled := False, cf_replication_factor := 3, cf_virtual_nodes := 1\<rparr>"

definition trio :: db_cluster where
  "trio n =
     (let d = node_init length (trio_config n) \<lparr>dir_main = None, dir_bak = None, dir_tmp = None\<rparr>
                \<lparr>sn_main = None, sn_bak = None, sn_tmp = None, sn_meta = None\<rparr> 0 2;
          co = dn_cluster d; names = [''a'', ''b'', ''c'']
      in d\<lparr>dn_ring := fold (\<lambda>x r. add_node length r x) names (dn_ring d), dn_known_ring_nodes := set names,
           dn_cluster := co\<lparr>co_membership := fold (\<lambda>x. mb_exec (OpAdd (new_node x ''h'' 1 2 0))) names (co_membership co),
             co_election := (co_election co)\<lparr>el_leader_id := Some ''b'', el_role := if n = ''b'' then LEADER else FOLLOWER\<rparr>\<rparr>\<rparr>)"

lemma rg_nodes_init: "rg_nodes (ring_init v) = {}" "rg_virtual_nodes (ring_init v) = v"
  by (simp_all add: ring_init_def)

lemma trio_wf: "cluster_wf length trio"
proof -
  have "node_wf length n (trio n)" for n
  proof -
    let ?d = "node_init length (trio_config n) \<lparr>dir_main = None, dir_bak = None, dir_tmp = None\<rparr>
                \<lparr>sn_main = None, sn_bak = None, sn_tmp = None, sn_meta = None\<rparr> 0 2"
    have s: "node_wf length n ?d"
      using node_init_wf [of length "trio_config n"] by (simp add: trio_config_def default_node_config_def)
    have mb: "mb_wf_of n (fold (\<lambda>x. mb_exec (OpAdd (new_node x ''h'' 1 2 0))) xs (dn_membership ?d))" for xs
      using s by (induction xs rule: rev_induct) (auto simp: node_wf_def simp del: mb_exec.simps intro: wf_table.keeps_exec)
    have ring: "ring_wf length (fold (\<lambda>x r. add_node length r x) xs (dn_ring ?d)) \<and>
        rg_nodes (fold (\<lambda>x r. add_node length r x) xs (dn_ring ?d)) = insert n (set xs)" for xs
      by (induction xs rule: rev_induct) (auto simp: node_init_def Let_def ring_wf_add_node ring_wf_init rg_nodes_init trio_config_def default_node_config_def)
    show ?thesis using s mb [of "[''a'', ''b'', ''c'']"] ring [of "[''a'', ''b'', ''c'']"]
      unfolding trio_def Let_def node_wf_coordinator by (simp add: coordinator_wf_def topology_inv_def)
  qed
  then show ?thesis by (simp add: cluster_wf_def)
qed

lemmas trio_defs = trio_def trio_config_def default_node_config_def node_init_def coordinator_init_def storage_init_def Let_def

lemma trio_alive: "map ni_node_id (get_alive_nodes (dn_membership (trio ''b''))) = [''b'', ''a'', ''c'']"
  by (simp add: trio_defs mb_add_node_def membership_init_def new_node_def get_alive_nodes_def all_members_def member_at_def)

lemma trio_storage: "node_storage (trio n) = fresh_storage n"
  by (simp add: trio_defs node_storage_def fresh_storage_def)

lemma trio_ring: "rg_nodes (dn_ring (trio n)) = {n, ''a'', ''b'', ''c''}" "rg_virtual_nodes (dn_ring (trio n)) = 1"
  by (auto simp: trio_defs rg_nodes_init)

lemma trio_card: "n \<in> {''a'', ''b'', ''c''} \<Longrightarrow> card {n, ''a'', ''b'', ''c''} = 3"
  by (auto simp: card_insert_if)

lemma trio_known:
  "member_at (dn_membership (trio ''b'')) ''a'' \<noteq> None" "member_at (dn_membership (trio ''b'')) ''c'' \<noteq> None"
  "member_at (dn_membership (trio ''a'')) ''b'' \<noteq> None" "member_at (dn_membership (trio ''a'')) ''c'' \<noteq> None"
  by (simp_all add: trio_defs mb_add_node_def membership_init_def new_node_def member_at_def)

lemma quiet_fields [simp]:
  "ev_codec quiet_env = whole_codec" "ev_now quiet_env = 1" "ev_order quiet_env = in_order" "ev_hash quiet_env = length"
  "ev_prepare quiet_env = (\<lambda>n. Replied)" "ev_commit quiet_env = (\<lambda>n. Replied)" "ev_read quiet_env = (\<lambda>n. Replied)"
  by (simp_all add: quiet_env_def)

lemma trio_leader:
  "leader_of quiet_env (trio ''b'') =
     \<lparr>ld_node_id = ''b'', ld_is_leader = True, ld_term = 0, ld_write_sequence = 0, ld_storage = (fresh_storage ''b''), ld_replication = replication_init ''b'' 3 QUORUM 5,
      ld_replication_factor = 3, ld_consistency = QUORUM, ld_ring_size = 3, ld_alive = [''b'', ''a'', ''c''], ld_clock_skew = 0\<rparr>"
  unfolding leader_of_def trio_alive trio_storage get_node_count_def trio_ring
  by (simp add: trio_card trio_defs election_init_def el_is_leader_def clock_skew_of_def get_clock_skew_def injector_init_def)

lemma trio_followers: "followers_of trio n = \<lparr>fl_staged = [], fl_storage = fresh_storage n\<rparr>"
  by (simp add: followers_of_def trio_defs fresh_storage_def)

lemma trio_set: "\<exists>d c'. dispatch quiet_env length 0 ''b'' ''SET'' [''k'', ''v''] trio = (Inr (Success d), c')"
proof -
  let ?r = "apply_partition_write whole_codec 1 (network_of quiet_env (trio ''b'')) (leader_of quiet_env (trio ''b'')) (followers_of trio)
      ''SET'' ''k'' (JStr ''v'') None"
  have "fst ?r = Inr (Success (JStr ''OK''))"
    unfolding trio_leader using trio_known(1,2) by (auto simp: write_eval trio_followers network_of_def)
  moreover have "clock_skew_of quiet_env (trio ''b'') \<noteq> None" "el_is_leader (dn_election (trio ''b''))"
    by (simp_all add: trio_defs clock_skew_of_def get_clock_skew_def injector_init_def election_init_def el_is_leader_def)
  ultimately show ?thesis
    by (simp add: dispatch_def handle_set_def coordinate_or_forward_write_def node_apply_write_def case_prod_unfold Let_def)
qed

lemma trio_asks: "asks_writers quiet_env ''a'' ''b'' ''k'' trio"
proof -
  let ?R = "read_replicas quiet_env ''a'' ''k'' trio"
  have wf: "ring_wf length (dn_ring (trio ''a''))" using cluster_wfD [OF trio_wf, of "''a''"] by (simp add: node_wf_def topology_inv_def)
  have f: "cf_replication_factor (dn_config (trio n)) = 3" for n by (simp add: trio_defs)
  have d: "distinct ?R" "set ?R \<subseteq> {''a'', ''b'', ''c''}"
    using get_nodes_distinct [OF wf] get_nodes_subset [OF wf] by (auto simp: read_replicas_def trio_ring)
  have l: "length ?R = 3"
    using get_nodes_length [OF wf, of "''k''" 3] trio_card [of "''a''"] by (simp add: read_replicas_def f trio_ring)
  then have "card (set ?R) = card {''a'', ''b'', ''c''}" using distinct_card [OF d(1)] by simp
  then have r: "set ?R = {''a'', ''b'', ''c''}" by (intro card_subset_eq [OF _ d(2)]) simp_all
  have "ni_node_id ` set (get_alive_nodes (dn_membership (trio ''b''))) = set [''b'', ''a'', ''c'']"
    unfolding trio_alive [symmetric] by simp
  then have "set ?R = insert ''b'' (ni_node_id ` set (get_alive_nodes (dn_membership (trio ''b''))))" unfolding r by auto
  moreover have "all_answer (peers_of quiet_env (trio ''a'')) ''a'' ?R"
    using trio_known(3,4) r by (auto simp: all_answer_def peers_of_def)
  moreover have "rc_replication_factor (dn_read_coordinator (trio ''a'')) = 3" "rc_local_node_id (dn_read_coordinator (trio ''a'')) = ''a''"
    by (simp_all add: trio_defs read_coordinator_init_def)
  ultimately show ?thesis using d(1) l by (simp add: asks_writers_def f)
qed

lemma trio_current: "leader_current quiet_env ''b'' k trio" "nothing_staged ''b'' trio"
  by (simp_all add: leader_current_def trio_storage fresh_storage_def kv_init_def kv_view_apply entry_view_def nothing_staged_def)
    (simp add: trio_defs)

section \<open>From the command line to the node and back\<close>

text \<open>The node's client server: \<^verbatim>\<open>_handle_client_message\<close> as the handler of its connections.\<close>

definition node_handler :: "node_env \<Rightarrow> (string \<Rightarrow> nat) \<Rightarrow> nat \<Rightarrow> node_id \<Rightarrow> db_cluster handler" where
  "node_handler ev gz_size fail me m c =
     (let (r, c') = handle_client_message ev gz_size fail me m c in (Inr (Some (response_message r)), c'))"

text \<open>What the client makes of an answer.\<close>

definition cli_answer :: "time \<Rightarrow> response \<Rightarrow> (string, json) dict" where
  "cli_answer elapsed r =
     (case r of
        Success d \<Rightarrow> [(''success'', JBool True), (''time_ms'', JFloat (elapsed * 1000)), (''data'', d)]
      | Failure e \<Rightarrow> [(''success'', JBool False), (''time_ms'', JFloat (elapsed * 1000)), (''error'', JStr e)])"

lemma py_upper_idem [simp]: "py_upper (py_upper s) = py_upper s"
  by (auto simp: py_upper_def)

lemma string_args_strings [simp]: "string_args (JList (map JStr args)) = Inr args"
proof -
  have "json_strings (map JStr args) = args" by (induction args) (simp_all add: json_strings_def)
  then show ?thesis by (simp add: string_args_def list_all_iff)
qed

lemma handle_command:
  "handle_client_message ev gz fail me (create_command cmd args sender) c =
     serve ev sender me (dispatch ev gz fail me (py_upper cmd) args) c"
  by (simp add: handle_client_message_def create_command_def new_message_def parse_command_def dict_get_def as_str_def)

lemma served_command:
  assumes "float_codec_ok fc" and "concat request = encode fc (create_command cmd args sender)" and "[] \<notin> set request"
    and "serve ev sender me (dispatch ev gz fail me (py_upper cmd) args) c = (r, c')"
  shows "serve_connection fc et (node_handler ev gz fail me) [] request c = ([response_message r], [], c')"
proof -
  have "list_all (message_ok fc) [create_command cmd args sender]"
    by (simp add: message_ok_def create_command_def new_message_def list_all_iff)
  from process_messages [OF assms(1) this, of et "node_handler ev gz fail me" c] assms(2-4) show ?thesis
    by (simp add: serve_connection_concat node_handler_def handle_command)
qed

definition typing_cli :: cli where
  "typing_cli = cli_init no_proxy ''h'' 7001"

lemma pong: "serve quiet_env ''cli'' ''b'' (dispatch quiet_env length 0 ''b'' ''PING'' []) sample_cluster =
    (Success (JStr ''PONG''), snd (admit quiet_env ''cli'' ''b'' sample_cluster))"
proof -
  have "fst (admit quiet_env ''cli'' ''b'' sample_cluster)"
    by (simp add: admit_def sample_node_defs should_accept_request_def backpressure_init_def token_bucket_init_def tb_try_acquire_def refill_def
      get_bucket_def)
  then show ?thesis
    by (cases "admit quiet_env ''cli'' ''b'' sample_cluster") (simp add: serve_def dispatch_def report_def catch_def)
qed

lemma typing_ready:
  "ready no_proxy (answering ps) (cl_client typing_cli) 0 = (True, (cl_client typing_cli)\<lparr>tc_socket := Some 0, tc_connected := True\<rparr>, 1)"
  by (simp add: ready_def check_proxy_def no_proxy_def client_connect_def typing_cli_def cli_init_def client_init_def answering_def)

end
