(* ===== verification/NodeFailover.thy ===== *)
theory NodeFailover
  imports NodeSafety
begin

text \<open>
  A pass of the election loop against the other nodes of the cluster: which votes it collects, what a heartbeat does to the
  node that receives it. The failover property of the root theory rests on these lemmas.
\<close>

section \<open>Nodes without faults\<close>

abbreviation no_faults :: "db_node \<Rightarrow> bool" where
  "no_faults d \<equiv> \<not> fi_enabled (dn_fault_injector d)"

lemma no_faults_message:
  "no_faults d \<Longrightarrow> node_cluster_message ev d m =
     (let (r, co) = handle_cluster_message (ev_codec ev) (ev_now ev) (ev_timeout ev) (dn_cluster d) m in (r, d\<lparr>dn_cluster := co\<rparr>))"
  by (simp add: node_cluster_message_def should_fail_network_def get_network_delay_def Let_def)

lemma no_faults_sends: "no_faults (c me) \<Longrightarrow> sends_to ev me n c = (True, c)"
  by (simp add: sends_to_def should_fail_network_def)

lemma deliver_other [simp]: "n \<noteq> v \<Longrightarrow> snd (deliver ev n m c) v = c v" "v \<noteq> n \<Longrightarrow> snd (deliver ev n m c) v = c v"
  by (simp_all add: deliver_def case_prod_unfold Let_def)

section \<open>Votes\<close>

text \<open>The node answers a vote request of \<open>me\<close> for the next term with its vote.\<close>

definition willing :: "node_env \<Rightarrow> node_id \<Rightarrow> db_cluster \<Rightarrow> node_id \<Rightarrow> bool" where
  "willing ev me c v \<longleftrightarrow> ev_send ev v = Replied \<and> no_faults (c v) \<and>
     el_current_term (dn_election (c v)) \<le> el_current_term (dn_election (c me)) \<and>
     is_log_up_to_date (dn_election (c v)) (int (length (el_log (dn_election (c me))))) (last_log_term (el_log (dn_election (c me))))"

lemma vote_delivered:
  assumes "no_faults (c v)" and "el_current_term (dn_election (c v)) < term" and "is_log_up_to_date (dn_election (c v)) li lt"
  shows "vote_granted (fst (deliver ev v (create_vote_request me term li lt) c)) \<and>
    el_current_term (dn_election (snd (deliver ev v (create_vote_request me term li lt) c) v)) = term \<and>
    dn_fault_injector (snd (deliver ev v (create_vote_request me term li lt) c) v) = dn_fault_injector (c v)"
  using assms
  by (simp add: deliver_def no_faults_message handle_cluster_message_def create_vote_request_def new_message_def handle_vote_message_def
      dict_get_def as_int_def handle_vote_request_def is_log_up_to_date_def vote_granted_def create_vote_response_def Let_def)

lemma collect_votes_frame: "no_faults (c me) \<Longrightarrow> v = me \<or> v \<notin> set ns \<Longrightarrow> snd (collect_votes ev me m ns c) v = c v"
proof (induction ns arbitrary: c)
  case (Cons n ns)
  then show ?case by (auto simp: no_faults_sends case_prod_unfold Let_def)
qed simp

lemma votes_collected:
  assumes "no_faults (c me)" and "distinct ns" and "me \<notin> G"
    and "\<forall>v \<in> G \<inter> set ns. ev_send ev v = Replied \<and> no_faults (c v) \<and> el_current_term (dn_election (c v)) < term \<and>
      is_log_up_to_date (dn_election (c v)) li lt"
    and "collect_votes ev me (create_vote_request me term li lt) ns c = (votes, c')"
  shows "1 + int (card (G \<inter> set ns)) \<le> votes \<and> (\<forall>v \<in> G \<inter> set ns. el_current_term (dn_election (c' v)) = term \<and> no_faults (c' v))"
  using assms
proof (induction ns arbitrary: c votes)
  case (Cons n ns)
  let ?m = "create_vote_request me term li lt"
  show ?case
  proof (cases "n = me \<or> ev_send ev n = Dropped")
    case True
    then have "G \<inter> set (n # ns) = G \<inter> set ns" using Cons.prems(3,4) by auto
    moreover have "collect_votes ev me ?m ns c = (votes, c')" using Cons.prems(1,5) True by (auto simp: no_faults_sends split: if_splits)
    ultimately show ?thesis using Cons.IH [of c votes] Cons.prems by simp
  next
    case False
    let ?c = "snd (deliver ev n ?m c)"
    obtain vs where r: "collect_votes ev me ?m ns ?c = (vs, c')" "votes = (if ev_send ev n = Replied \<and> vote_granted (fst (deliver ev n ?m c)) then vs + 1 else vs)"
      using Cons.prems(1,5) False by (auto simp: no_faults_sends case_prod_unfold Let_def prod_eq_iff)
    have me: "no_faults (?c me)" using Cons.prems(1) False by simp
    moreover have "?c v = c v" if "v \<in> set ns" for v using that Cons.prems(2) by (cases "v = n") auto
    ultimately have IH: "1 + int (card (G \<inter> set ns)) \<le> vs \<and> (\<forall>v \<in> G \<inter> set ns. el_current_term (dn_election (c' v)) = term \<and> no_faults (c' v))"
      using Cons.prems(2-4) r(1) by (intro Cons.IH [of ?c]) auto
    have last: "c' n = ?c n" using collect_votes_frame [where c = ?c and me = me and v = n and ns = ns and ev = ev and m = ?m, OF me] Cons.prems(2) by (simp add: r(1))
    show ?thesis
    proof (cases "n \<in> G")
      case True
      then have "card (G \<inter> set (n # ns)) = Suc (card (G \<inter> set ns))" using Cons.prems(2) by simp
      with IH True vote_delivered [of c n "term" li lt ev me] Cons.prems(4) r(2) last show ?thesis by auto
    qed (use IH r(2) in auto)
  qed
qed simp

section \<open>Heartbeats\<close>

text \<open>The node follows \<open>me\<close> in the given term.\<close>

definition follows :: "node_id \<Rightarrow> int \<Rightarrow> db_node \<Rightarrow> bool" where
  "follows me term d \<longleftrightarrow> el_leader_id (dn_election d) = Some me \<and> el_role (dn_election d) = FOLLOWER \<and> el_current_term (dn_election d) = term"

lemma merge_gossip_election [simp]: "co_election (snd (merge_gossip now ms co)) = co_election co"
  by (auto simp: merge_gossip_def case_prod_unfold Let_def split: sum.splits)

lemma on_become_follower_election [simp]: "co_election (on_become_follower co) = co_election co"
  by (simp add: on_become_follower_def set_own_role_def Let_def)

lemma heartbeat_delivered:
  assumes "no_faults (c v)" and "el_current_term (dn_election (c v)) \<le> term" and "me \<noteq> []"
  shows "follows me term (snd (deliver ev v (create_heartbeat me term me members) c) v) \<and>
    dn_fault_injector (snd (deliver ev v (create_heartbeat me term me members) c) v) = dn_fault_injector (c v)"
proof -
  let ?m = "create_heartbeat me term me members"
  let ?el = "snd (receive_heartbeat (dn_election (c v)) (ev_now ev) (ev_timeout ev) me term)"
  have "co_election (snd (handle_cluster_message (ev_codec ev) (ev_now ev) (ev_timeout ev) (dn_cluster (c v)) ?m)) = ?el"
    using assms(3)
    by (simp add: handle_cluster_message_def handle_heartbeat_message_def create_heartbeat_def new_message_def dict_get_def as_str_def case_prod_unfold
        Let_def split: option.splits)
  then show ?thesis
    using assms(1,2) by (auto simp: deliver_def no_faults_message case_prod_unfold Let_def follows_def receive_heartbeat_def)
qed

lemma heartbeats_followed:
  assumes "no_faults (c me)" and "v \<noteq> me" and "no_faults (c v)" and "el_current_term (dn_election (c v)) \<le> term" and "me \<noteq> []"
    and "ev_send ev v \<noteq> Dropped" and "me \<notin> set ns" and "v \<in> set ns"
  shows "follows me term (send_all ev me (map (\<lambda>n. (n, create_heartbeat me term me members)) ns) c v)"
proof -
  let ?ms = "map (\<lambda>n. (n, create_heartbeat me term me members))"
  have keep: "follows me term (send_all ev me (?ms ns) c v)"
    if "no_faults (c me)" and "me \<notin> set ns" and "no_faults (c v)" and "el_current_term (dn_election (c v)) \<le> term"
      and "v \<in> set ns \<or> follows me term (c v)" for ns c
    using that
  proof (induction ns arbitrary: c)
    case (Cons n ns)
    let ?c = "if ev_send ev n \<noteq> Dropped then snd (deliver ev n (create_heartbeat me term me members) c) else c"
    have "no_faults (?c me)" using Cons.prems(1,2) by simp
    moreover have "no_faults (?c v) \<and> el_current_term (dn_election (?c v)) \<le> term \<and> (v \<in> set ns \<or> follows me term (?c v))"
      using Cons.prems(3-5) heartbeat_delivered [where c = c and v = v, OF Cons.prems(3,4) assms(5), of ev members] assms(6)
      by (cases "n = v") (auto simp: follows_def)
    ultimately have "follows me term (send_all ev me (?ms ns) ?c v)" using Cons.prems(2) by (intro Cons.IH) auto
    then show ?case using Cons.prems(1) by (simp add: no_faults_sends)
  qed simp
  show ?thesis using assms by (intro keep) auto
qed

section \<open>An election\<close>

lemma set_own_role_frame [simp]:
  "co_election (set_own_role r co) = co_election co" "co_node_id (set_own_role r co) = co_node_id co"
  by (simp_all add: set_own_role_def Let_def)

lemma map_update_same: "dget d k = Some y \<Longrightarrow> f (k, y') = f (k, y) \<Longrightarrow> map f (dset k y' d) = map f d"
  by (induction d) (auto split: if_splits)

lemma alive_set_own_role:
  "map ni_node_id (get_alive_nodes (co_membership (set_own_role r co))) = map ni_node_id (get_alive_nodes (co_membership co))"
proof -
  let ?p = "\<lambda>x. (ni_node_id x, ni_state x)" and ?l = "\<lambda>mb :: membership. mb\<lparr>mb_local := (mb_local mb)\<lparr>ni_role := r\<rparr>\<rparr>"
  have alive: "map ni_node_id (get_alive_nodes mb) = map fst (filter (\<lambda>q. snd q = ALIVE) (map ?p (all_members mb)))" for mb
    by (simp add: get_alive_nodes_def filter_map comp_def)
  have own: "?p (deref (?l mb) m) = ?p (deref mb m)" for mb m by (cases m) simp_all
  have local: "map ?p (all_members (?l mb)) = map ?p (all_members mb)" for mb
    using own by (simp add: all_members_def case_prod_unfold)
  have role: "map ?p (all_members (set_node_role n r mb)) = map ?p (all_members mb)" for n and mb :: membership
  proof (cases "dget (mb_members mb) n")
    case (Some m)
    have "map (\<lambda>(k, m). ?p (deref mb m)) (dset n (Own (x\<lparr>ni_role := r\<rparr>)) (mb_members mb)) = map (\<lambda>(k, m). ?p (deref mb m)) (mb_members mb)"
      if "m = Own x" for x
      using Some that by (intro map_update_same [of _ _ "Own x"]) auto
    then show ?thesis
      using Some local [of mb] own by (cases m) (simp_all add: set_node_role_def assign_member_def all_members_def case_prod_unfold comp_def)
  qed (simp add: set_node_role_def assign_member_def)
  show ?thesis unfolding alive set_own_role_def Let_def by (simp add: local role)
qed

lemma node_elect_wins:
  assumes "distinct alive" and "alive = map ni_node_id (get_alive_nodes (dn_membership (c me)))"
    and "el_node_id (dn_election (c me)) = me" and "no_faults (c me)"
    and "G \<subseteq> set alive - {me}" and "\<forall>v \<in> G. willing ev me c v"
    and "required_majority (election_cluster_size (dn_cluster (c me))) \<le> 1 + int (card G)"
    and "T = el_current_term (dn_election (c me)) + 1"
  shows "\<exists>el. node_elect ev me c me = (c me)\<lparr>dn_cluster := on_become_leader ((dn_cluster (c me))\<lparr>co_election := el\<rparr>)\<rparr> \<and>
      el_is_leader el \<and> el_leader_id el = Some me \<and> el_current_term el = T"
    and "\<forall>v \<in> G. el_current_term (dn_election (node_elect ev me c v)) = T \<and> no_faults (node_elect ev me c v)"
proof -
  obtain req el where st: "start_election (dn_election (c me)) (ev_timeout ev) = (req, el)" by fastforce
  have req: "vr_term req = T" "vr_last_log_index req = int (length (el_log (dn_election (c me))))"
    "vr_last_log_term req = last_log_term (el_log (dn_election (c me)))"
    and el: "el_role el = CANDIDATE" "el_current_term el = T" "el_node_id el = me"
    using st assms(3,8) by (auto simp: start_election_def Let_def)
  define c1 where "c1 = c(me := set_election el (c me))"
  let ?m = "create_vote_request me (vr_term req) (vr_last_log_index req) (vr_last_log_term req)"
  obtain votes c2 where v: "collect_votes ev me ?m alive c1 = (votes, c2)" by fastforce
  have f: "no_faults (c1 me)" using assms(4) by (simp add: c1_def set_election_def)
  have GI: "G \<inter> set alive = G" "me \<notin> G" using assms(5) by auto
  have "1 + int (card (G \<inter> set alive)) \<le> votes \<and> (\<forall>v \<in> G \<inter> set alive. el_current_term (dn_election (c2 v)) = vr_term req \<and> no_faults (c2 v))"
    using assms(6,8) GI by (intro votes_collected [OF f assms(1) GI(2) _ v]) (auto simp: willing_def c1_def req)
  then have won: "1 + int (card G) \<le> votes" "\<forall>v \<in> G. el_current_term (dn_election (c2 v)) = T \<and> no_faults (c2 v)"
    using GI req by auto
  have me: "c2 me = set_election el (c me)" using collect_votes_frame [where c = c1 and me = me and v = me and ns = alive and ev = ev and m = ?m, OF f] by (simp add: v) (simp add: c1_def)
  have size: "election_cluster_size (dn_cluster (c2 me)) = election_cluster_size (dn_cluster (c me))"
    by (simp add: me set_election_def election_cluster_size_def)
  have fin: "finish_election el T votes (election_cluster_size (dn_cluster (c me))) = become_leader el"
    using won(1) assms(7) el by (simp add: finish_election_def)
  have e: "node_elect ev me c = c2(me := (c me)\<lparr>dn_cluster := on_become_leader ((dn_cluster (c me))\<lparr>co_election := become_leader el\<rparr>)\<rparr>)"
    using v fin el size unfolding node_elect_def assms(2)
    by (simp add: st c1_def me req set_election_def el_is_leader_def become_leader_def)
  then show "\<exists>el. node_elect ev me c me = (c me)\<lparr>dn_cluster := on_become_leader ((dn_cluster (c me))\<lparr>co_election := el\<rparr>)\<rparr> \<and>
      el_is_leader el \<and> el_leader_id el = Some me \<and> el_current_term el = T"
    using el by (intro exI [of _ "become_leader el"]) (simp add: become_leader_def el_is_leader_def)
  show "\<forall>v \<in> G. el_current_term (dn_election (node_elect ev me c v)) = T \<and> no_faults (node_elect ev me c v)"
    using won(2) GI(2) by (auto simp: e)
qed

lemma send_all_self: "no_faults (c me) \<Longrightarrow> me \<notin> fst ` set ms \<Longrightarrow> send_all ev me ms c me = c me"
proof (induction ms arbitrary: c)
  case (Cons nm ms)
  obtain n m where "nm = (n, m)" by fastforce
  with Cons show ?case by (simp add: no_faults_sends Let_def)
qed simp

lemma heartbeat_messages_eq:
  assumes "co_node_id (dn_cluster d) = me"
  shows "heartbeat_messages me d =
    map (\<lambda>n. (n, create_heartbeat me (el_current_term (dn_election d)) me (get_members_data (dn_membership d))))
      (filter (\<lambda>n. n \<noteq> me) (map ni_node_id (get_alive_nodes (dn_membership d))))"
  using assms by (simp add: heartbeat_messages_def send_heartbeats_def filter_map comp_def)

end
