(* ===== verification/Server.thy ===== *)
theory Server
  imports Protocol "HOL-Library.Sublist"
begin

text \<open>
  The TCP server (\<^verbatim>\<open>src/minidb/network/server.py\<close>): its table of clients, one thread per accepted connection with its own
  buffer, and stopping. What the operating system and the peers do is a sequence of events, so that the threads interleave in any order.

  \<^item> Sockets are numbered in the order they are accepted; \<open>sv_threads\<close> holds the sockets whose thread is still in its loop, with the
    client identifier, the buffer and the handler call of the thread.
  \<^item> The handler works on a state shared by all connections and is called without a lock, so a call is a sequence of atomic actions
    (\<open>proc\<close>) and other threads run between any two of them. What is atomic (a critical section of the callee) is up to the handler.
  \<^item> One step of a thread is one action of the running call, or its end with the answer, or taking the next complete line of the buffer, or
    receiving data.
  \<^item> \<^verbatim>\<open>Protocol.send_message\<close> never raises: an answer that cannot be sent is dropped without ending the thread, so the answers
    below are those passed to it.
\<close>

section \<open>Handlers\<close>

text \<open>A call of \<^verbatim>\<open>self.handler\<close>: it has returned or raised, or its next action maps the shared state to the rest of the call and
  the new state.\<close>

datatype 's proc = Finish "py_error + message option" | Action "'s \<Rightarrow> 's proc \<times> 's"

text \<open>The results a call can end with, whatever other threads do to the state between its actions.\<close>

inductive may_finish :: "'s proc \<Rightarrow> py_error + message option \<Rightarrow> bool" where
  "may_finish (Finish r) r"
| "may_finish (fst (f s)) r \<Longrightarrow> may_finish (Action f) r"

inductive_simps may_finish_Finish [simp]: "may_finish (Finish r) r'"

text \<open>What is sent for a result.\<close>

definition answer :: "(py_error \<Rightarrow> string) \<Rightarrow> py_error + message option \<Rightarrow> message list" where
  "answer err_text r = (case r of Inl e \<Rightarrow> [error_response err_text e] | Inr None \<Rightarrow> [] | Inr (Some m) \<Rightarrow> [m])"

section \<open>State\<close>

record 's connection =
  cn_client_id :: string
  cn_buffer :: string
  cn_call :: "'s proc option"

record 's tcp_server =
  sv_host :: string
  sv_port :: int
  sv_running :: bool
  sv_clients :: "(string, nat) dict"
  sv_next :: nat
  sv_threads :: "(nat, 's connection) dict"

definition server_init :: "string \<Rightarrow> int \<Rightarrow> 's tcp_server" where
  "server_init host port =
     \<lparr>sv_host = host, sv_port = port, sv_running = False, sv_clients = [], sv_next = 0, sv_threads = []\<rparr>"

text \<open>\<^verbatim>\<open>start\<close> raises when the address cannot be bound; the server then does not run.\<close>

definition server_start :: "bool \<Rightarrow> 's tcp_server \<Rightarrow> 's tcp_server option" where
  "server_start binds sv = (if binds then Some (sv\<lparr>sv_running := True\<rparr>) else None)"

text \<open>A turn of \<^verbatim>\<open>_accept_loop\<close> with the beginning of \<^verbatim>\<open>_handle_client\<close>; the identifier is the address of the peer. A thread
  started after the server stopped ends without a step.\<close>

definition server_accept :: "string \<Rightarrow> 's tcp_server \<Rightarrow> 's tcp_server" where
  "server_accept client_id sv =
     (if sv_running sv
      then sv\<lparr>sv_clients := dset client_id (sv_next sv) (sv_clients sv),
              sv_threads := dset (sv_next sv) \<lparr>cn_client_id = client_id, cn_buffer = [], cn_call = None\<rparr> (sv_threads sv), sv_next := Suc (sv_next sv)\<rparr>
      else sv)"

text \<open>The end of \<^verbatim>\<open>_handle_client\<close>.\<close>

definition end_client :: "nat \<Rightarrow> string \<Rightarrow> 's tcp_server \<Rightarrow> 's tcp_server" where
  "end_client sock client_id sv =
     sv\<lparr>sv_clients := ddel client_id (sv_clients sv), sv_threads := ddel sock (sv_threads sv)\<rparr>"

section \<open>One step of a connection\<close>

datatype recv_outcome = Received string | TimedOut | RecvFails

text \<open>A step of \<^verbatim>\<open>_handle_client\<close>, with what was received and what is answered. The flag is only read
  between two calls of \<^verbatim>\<open>recv\<close>: a running call and lines already in the buffer are completed also after the server stopped.\<close>

definition client_step ::
  "float_codec \<Rightarrow> (py_error \<Rightarrow> string) \<Rightarrow> (message \<Rightarrow> 's proc) \<Rightarrow> nat \<Rightarrow> recv_outcome \<Rightarrow> 's tcp_server \<Rightarrow> 's \<Rightarrow>
     string \<times> message list \<times> 's tcp_server \<times> 's" where
  "client_step fc err_text handler sock outcome sv s =
     (case dget (sv_threads sv) sock of
        None \<Rightarrow> ([], [], sv, s)
      | Some cn \<Rightarrow>
          let continue = (\<lambda>cn'. sv\<lparr>sv_threads := dset sock cn' (sv_threads sv)\<rparr>)
          in (case cn_call cn of
                Some (Finish r) \<Rightarrow> ([], answer err_text r, continue (cn\<lparr>cn_call := None\<rparr>), s)
              | Some (Action f) \<Rightarrow> (let (p, s') = f s in ([], [], continue (cn\<lparr>cn_call := Some p\<rparr>), s'))
              | None \<Rightarrow>
                  (case split_once newline (cn_buffer cn) of
                     Some (line, rest) \<Rightarrow>
                       if line = [] then ([], [], continue (cn\<lparr>cn_buffer := rest\<rparr>), s)
                       else (case decode fc line of
                               Inl e \<Rightarrow> ([], [error_response err_text e], continue (cn\<lparr>cn_buffer := rest\<rparr>), s)
                             | Inr m \<Rightarrow> ([], [], continue (cn\<lparr>cn_buffer := rest, cn_call := Some (handler m)\<rparr>), s))
                   | None \<Rightarrow>
                       if \<not> sv_running sv then ([], [], end_client sock (cn_client_id cn) sv, s)
                       else
                         (case outcome of
                            TimedOut \<Rightarrow> ([], [], sv, s)
                          | RecvFails \<Rightarrow> ([], [], end_client sock (cn_client_id cn) sv, s)
                          | Received chunk \<Rightarrow>
                              if chunk = [] then ([], [], end_client sock (cn_client_id cn) sv, s)
                              else (chunk, [], continue (cn\<lparr>cn_buffer := cn_buffer cn @ chunk\<rparr>), s)))))"

text \<open>\<^verbatim>\<open>stop\<close> closes the sockets and empties the table; the threads notice before their next \<^verbatim>\<open>recv\<close>.\<close>

definition server_stop :: "'s tcp_server \<Rightarrow> 's tcp_server" where
  "server_stop sv = sv\<lparr>sv_running := False, sv_clients := []\<rparr>"

definition get_client_count :: "'s tcp_server \<Rightarrow> nat" where
  "get_client_count sv = length (sv_clients sv)"

section \<open>Runs\<close>

datatype server_event = Accept string | Turn nat recv_outcome | Stop

text \<open>What was received and what was answered, each with its socket, and the final states.\<close>

fun run_server ::
  "float_codec \<Rightarrow> (py_error \<Rightarrow> string) \<Rightarrow> (message \<Rightarrow> 's proc) \<Rightarrow> server_event list \<Rightarrow> 's tcp_server \<Rightarrow> 's \<Rightarrow>
     (nat \<times> string) list \<times> (nat \<times> message) list \<times> 's tcp_server \<times> 's" where
  "run_server fc et h [] sv s = ([], [], sv, s)"
| "run_server fc et h (Accept client_id # es) sv s = run_server fc et h es (server_accept client_id sv) s"
| "run_server fc et h (Stop # es) sv s = run_server fc et h es (server_stop sv) s"
| "run_server fc et h (Turn sock outcome # es) sv s =
     (let (chunk, out, sv1, s1) = client_step fc et h sock outcome sv s;
          (got, sent, sv2, s2) = run_server fc et h es sv1 s1
      in ((sock, chunk) # got, map (Pair sock) out @ sent, sv2, s2))"

text \<open>The part of a tagged list that belongs to a socket, and the buffer of its thread.\<close>

definition of_conn :: "nat \<Rightarrow> (nat \<times> 'a) list \<Rightarrow> 'a list" where
  "of_conn k xs = map snd (filter (\<lambda>p. fst p = k) xs)"

lemma of_conn_simps [simp]:
  "of_conn k [] = []" "of_conn k ((j, x) # xs) = (if j = k then x # of_conn k xs else of_conn k xs)"
  by (simp_all add: of_conn_def)

definition buffer_of :: "'s tcp_server \<Rightarrow> nat \<Rightarrow> string" where
  "buffer_of sv k = (case dget (sv_threads sv) k of None \<Rightarrow> [] | Some cn \<Rightarrow> cn_buffer cn)"

definition call_of :: "'s tcp_server \<Rightarrow> nat \<Rightarrow> 's proc option" where
  "call_of sv k = (case dget (sv_threads sv) k of None \<Rightarrow> None | Some cn \<Rightarrow> cn_call cn)"

definition serving :: "'s tcp_server \<Rightarrow> nat \<Rightarrow> bool" where
  "serving sv k \<longleftrightarrow> dget (sv_threads sv) k \<noteq> None"

section \<open>Sessions\<close>

text \<open>The server without bytes: every connection is a list of messages still to be handled and the running call. One step of a
  session is one action of its call, its end, or the call of the handler with the next message; a schedule says whose turn it is.\<close>

type_synonym 's session = "message list \<times> 's proc option"

definition session_step :: "(py_error \<Rightarrow> string) \<Rightarrow> (message \<Rightarrow> 's proc) \<Rightarrow> 's session \<Rightarrow> 's \<Rightarrow> message list \<times> 's session \<times> 's" where
  "session_step err_text handler q s =
     (case snd q of
        Some (Finish r) \<Rightarrow> (answer err_text r, (fst q, None), s)
      | Some (Action f) \<Rightarrow> (let (p, s') = f s in ([], (fst q, Some p), s'))
      | None \<Rightarrow> (case fst q of [] \<Rightarrow> ([], ([], None), s) | m # todo \<Rightarrow> ([], (todo, Some (handler m)), s)))"

fun run_sessions ::
  "(py_error \<Rightarrow> string) \<Rightarrow> (message \<Rightarrow> 's proc) \<Rightarrow> nat list \<Rightarrow> (nat \<Rightarrow> 's session) \<Rightarrow> 's \<Rightarrow> (nat \<times> message) list \<times> (nat \<Rightarrow> 's session) \<times> 's" where
  "run_sessions et h [] qs s = ([], qs, s)"
| "run_sessions et h (k # ks) qs s =
     (let (out, q, s1) = session_step et h (qs k) s; (sent, qs', s2) = run_sessions et h ks (qs(k := q)) s1
      in (map (Pair k) out @ sent, qs', s2))"

text \<open>The calls a session still has to finish. The answers of a session are, in order, results of the calls it finished.\<close>

definition calls :: "(message \<Rightarrow> 's proc) \<Rightarrow> 's session \<Rightarrow> 's proc list" where
  "calls h q = (case snd q of None \<Rightarrow> [] | Some p \<Rightarrow> [p]) @ map h (fst q)"

lemma of_conn_append [simp]: "of_conn k (xs @ ys) = of_conn k xs @ of_conn k ys"
  by (simp add: of_conn_def)

lemma of_conn_pairs [simp]: "of_conn k (map (Pair j) xs) = (if j = k then xs else [])"
  by (induction xs) auto

lemma session_step_answers:
  assumes "session_step et h q s = (out, q', s')" and "list_all2 may_finish (take (length rs) (calls h q')) rs"
    and "length rs + n = length (calls h q')"
  shows "\<exists>rs'. out @ concat (map (answer et) rs) = concat (map (answer et) rs') \<and>
    list_all2 may_finish (take (length rs') (calls h q)) rs' \<and> length rs' + n = length (calls h q)"
proof -
  obtain todo c where q: "q = (todo, c)" by fastforce
  show ?thesis
  proof (cases c)
    case None
    with assms q have "out = [] \<and> calls h q' = calls h q" by (cases todo) (auto simp: session_step_def calls_def)
    with assms(2,3) show ?thesis by auto
  next
    case (Some p)
    show ?thesis
    proof (cases p)
      case (Finish r)
      with Some q assms show ?thesis by (intro exI [of _ "r # rs"]) (auto simp: session_step_def calls_def)
    next
      case (Action f)
      with Some q assms have e: "out = []" "calls h q' = fst (f s) # map h todo" "calls h q = Action f # map h todo"
        by (auto simp: session_step_def calls_def case_prod_unfold Let_def)
      with assms(2) have "list_all2 may_finish (take (length rs) (calls h q)) rs"
        by (cases rs) (auto intro: may_finish.intros)
      with e assms(3) show ?thesis by auto
    qed
  qed
qed

lemma run_sessions_answers:
  "run_sessions et h ks qs s = (sent, qs', s') \<Longrightarrow>
   \<exists>rs. of_conn k sent = concat (map (answer et) rs) \<and> list_all2 may_finish (take (length rs) (calls h (qs k))) rs \<and>
     length rs + length (calls h (qs' k)) = length (calls h (qs k))"
proof (induction ks arbitrary: qs s sent)
  case Nil
  then show ?case by (intro exI [of _ "[]"]) simp
next
  case (Cons j ks)
  obtain out q s1 where a: "session_step et h (qs j) s = (out, q, s1)" by (metis prod.exhaust)
  obtain sent1 where r: "run_sessions et h ks (qs(j := q)) s1 = (sent1, qs', s')" and o: "sent = map (Pair j) out @ sent1"
    using Cons.prems a by (auto split: prod.splits)
  from Cons.IH [OF r] obtain rs where rs: "of_conn k sent1 = concat (map (answer et) rs)"
    "list_all2 may_finish (take (length rs) (calls h ((qs(j := q)) k))) rs"
    "length rs + length (calls h (qs' k)) = length (calls h ((qs(j := q)) k))" by blast
  show ?case
  proof (cases "j = k")
    case True
    with rs session_step_answers [OF a, of rs "length (calls h (qs' k))"] o show ?thesis by auto
  next
    case False
    with rs o show ?thesis by auto
  qed
qed

section \<open>Threads\<close>

definition threads_ok :: "'s tcp_server \<Rightarrow> bool" where
  "threads_ok sv \<longleftrightarrow> (\<forall>k. serving sv k \<longrightarrow> k < sv_next sv)"

lemma serving_step:
  "serving (fst (snd (snd (client_step fc et h j r sv s)))) k \<Longrightarrow> serving sv k"
  "sv_next (fst (snd (snd (client_step fc et h j r sv s)))) = sv_next sv"
  by (auto simp: client_step_def serving_def end_client_def delete_conv' update_conv' case_prod_unfold Let_def
      split: option.splits recv_outcome.splits if_splits proc.splits sum.splits)

lemma serving_accept:
  "serving (server_accept c sv) k \<longleftrightarrow> serving sv k \<or> sv_running sv \<and> k = sv_next sv"
  "sv_next (server_accept c sv) = (if sv_running sv then Suc (sv_next sv) else sv_next sv)"
  by (auto simp: serving_def server_accept_def update_conv')

lemma serving_stop [simp]: "serving (server_stop sv) k = serving sv k" "sv_next (server_stop sv) = sv_next sv"
  by (simp_all add: serving_def server_stop_def)

lemma threads_ok_step: "threads_ok sv \<Longrightarrow> threads_ok (fst (snd (snd (client_step fc et h j r sv s))))"
  unfolding threads_ok_def using serving_step by metis

lemma threads_ok_accept: "threads_ok sv \<Longrightarrow> threads_ok (server_accept c sv)"
  by (auto simp: threads_ok_def serving_accept intro: less_SucI)

lemma threads_ok_stop: "threads_ok (server_stop sv) = threads_ok sv"
  by (simp add: threads_ok_def)

lemma run_server_turn:
  assumes "run_server fc et h (Turn j r # es) sv s = (got, sent, sv', s')"
  obtains chunk out sv1 s1 got1 sent1 where "client_step fc et h j r sv s = (chunk, out, sv1, s1)"
    and "run_server fc et h es sv1 s1 = (got1, sent1, sv', s')" and "got = (j, chunk) # got1" and "sent = map (Pair j) out @ sent1"
  using assms by (auto split: prod.splits)

text \<open>The thread of a closed connection never runs again.\<close>

lemma closed_stays_closed:
  "run_server fc et h es sv s = (got, sent, sv', s') \<Longrightarrow> \<not> serving sv k \<Longrightarrow> k < sv_next sv \<Longrightarrow> \<not> serving sv' k"
proof (induction es arbitrary: sv s got sent)
  case (Cons e es)
  show ?case
  proof (cases e)
    case (Turn j r)
    from run_server_turn [OF Cons.prems(1) [unfolded Turn]] obtain chunk out sv1 s1 got1 sent1
      where "client_step fc et h j r sv s = (chunk, out, sv1, s1)" "run_server fc et h es sv1 s1 = (got1, sent1, sv', s')" .
    with Cons.IH [of sv1 s1] serving_step [of fc et h j r sv s] Cons.prems(2,3) show ?thesis by auto
  qed (use Cons in \<open>auto simp: serving_accept split: if_splits\<close>)
qed simp

text \<open>A stopped server receives nothing more.\<close>

lemma stopped_receives_nothing:
  "run_server fc et h es sv s = (got, sent, sv', s') \<Longrightarrow> \<not> sv_running sv \<Longrightarrow> concat (of_conn k got) = [] \<and> \<not> sv_running sv'"
proof (induction es arbitrary: sv s got sent)
  case (Cons e es)
  show ?case
  proof (cases e)
    case (Turn j r)
    from run_server_turn [OF Cons.prems(1) [unfolded Turn]] obtain chunk out sv1 s1 got1 sent1
      where c: "client_step fc et h j r sv s = (chunk, out, sv1, s1)" and "run_server fc et h es sv1 s1 = (got1, sent1, sv', s')"
        and "got = (j, chunk) # got1" .
    moreover have "chunk = [] \<and> \<not> sv_running sv1" using c Cons.prems(2)
      by (auto simp: client_step_def end_client_def case_prod_unfold Let_def
          split: option.splits if_splits proc.splits sum.splits)
    ultimately show ?thesis using Cons.IH [of sv1 s1] by auto
  qed (use Cons in \<open>auto simp: server_accept_def server_stop_def\<close>)
qed simp

section \<open>Interleaving\<close>

text \<open>The first line of a stream of messages.\<close>

lemma stream_head:
  assumes "float_codec_ok fc" and "list_all (message_ok fc) ms" and "prefix (b @ d) (concat (map (encode fc) ms))"
    and "split_once newline b = Some (line, rest)"
  obtains m ms' where "ms = m # ms'" "line = frame fc m" "prefix (rest @ d) (concat (map (encode fc) ms'))"
proof -
  from assms(3) obtain z where z: "concat (map (encode fc) ms) = b @ d @ z" by (auto elim: prefixE)
  have s: "split_once newline (concat (map (encode fc) ms)) = Some (line, rest @ d @ z)"
    using split_once_append [OF assms(4), of "d @ z"] z by simp
  then obtain m ms' where ms: "ms = m # ms'" by (cases ms) auto
  then have "newline \<notin> set (frame fc m)" using frame_one_line [OF assms(1)] assms(2) by simp
  with s ms have "line = frame fc m" "rest @ d @ z = concat (map (encode fc) ms')"
    by (simp_all add: encode_frame split_once_fresh)
  then show thesis using that ms by (metis append_assoc prefixI)
qed

lemma split_once_eq: "split_once c a = Some (x, y) \<Longrightarrow> a = x @ c # y"
  by (induction a arbitrary: x) (auto split: if_splits)

lemma buffer_of_accept: "threads_ok sv \<Longrightarrow> buffer_of (server_accept c sv) k = buffer_of sv k"
  by (auto simp: buffer_of_def server_accept_def update_conv' threads_ok_def serving_def split: option.splits)

lemma call_of_accept: "threads_ok sv \<Longrightarrow> call_of (server_accept c sv) k = call_of sv k"
  by (auto simp: call_of_def server_accept_def update_conv' threads_ok_def serving_def split: option.splits)

lemma of_stop [simp]: "buffer_of (server_stop sv) k = buffer_of sv k" "call_of (server_stop sv) k = call_of sv k"
  by (simp_all add: buffer_of_def call_of_def server_stop_def)

text \<open>What a step does, seen from the streams of messages the peers send: it is a step of the running call, or takes the next line,
  or does nothing but lengthen its buffer by what it received, or it ends its connection.\<close>

lemma client_step_cases:
  assumes "client_step fc et h j r sv s = (chunk, out, sv1, s1)"
  obtains (work) p where "call_of sv j = Some p" "serving sv j" "chunk = []"
      "\<And>todo. session_step et h (todo, Some p) s = (out, (todo, call_of sv1 j), s1)"
      "\<And>k. serving sv1 k = serving sv k" "\<And>k. buffer_of sv1 k = buffer_of sv k" "\<And>k. k \<noteq> j \<Longrightarrow> call_of sv1 k = call_of sv k"
  | (line) line rest where "call_of sv j = None" "serving sv j" "split_once newline (buffer_of sv j) = Some (line, rest)" "chunk = []" "s1 = s"
      "(out, call_of sv1 j) = (if line = [] then ([], None)
         else (case decode fc line of Inl e \<Rightarrow> ([error_response et e], None) | Inr m \<Rightarrow> ([], Some (h m))))"
      "\<And>k. serving sv1 k = serving sv k" "\<And>k. buffer_of sv1 k = (if k = j then rest else buffer_of sv k)"
      "\<And>k. k \<noteq> j \<Longrightarrow> call_of sv1 k = call_of sv k"
  | (receive) "out = []" "s1 = s" "serving sv j \<or> chunk = []" "\<And>k. serving sv1 k = serving sv k"
      "\<And>k. buffer_of sv1 k = (if k = j then buffer_of sv k @ chunk else buffer_of sv k)" "\<And>k. call_of sv1 k = call_of sv k"
  | (close) "out = []" "s1 = s" "chunk = []" "\<not> serving sv1 j" "serving sv j"
      "\<And>k. k \<noteq> j \<Longrightarrow> serving sv1 k = serving sv k \<and> buffer_of sv1 k = buffer_of sv k \<and> call_of sv1 k = call_of sv k"
proof (cases "dget (sv_threads sv) j")
  case None
  with assms show thesis by (intro receive) (auto simp: client_step_def)
next
  case cn: (Some cn)
  have b: "buffer_of sv j = cn_buffer cn" "call_of sv j = cn_call cn" "serving sv j"
    using cn by (simp_all add: buffer_of_def call_of_def serving_def)
  note d = client_step_def serving_def buffer_of_def call_of_def end_client_def delete_conv' update_conv'
  show thesis
  proof (cases "cn_call cn")
    case (Some p)
    show thesis
      by (rule work [of p]) (use cn b Some assms in \<open>auto simp: d session_step_def case_prod_unfold Let_def split: proc.splits if_splits\<close>)
  next
    case idle: None
    show thesis
    proof (cases "split_once newline (cn_buffer cn)")
      case None
      show thesis
      proof (cases "\<exists>chunk. sv_running sv \<and> (r = Received chunk \<and> chunk \<noteq> [] \<or> r = TimedOut)")
        case True
        with None idle cn assms show thesis by (intro receive) (auto simp: d Let_def split: if_splits)
      next
        case False
        with None idle cn assms show thesis by (intro close) (auto simp: d Let_def split: recv_outcome.splits if_splits)
      qed
    next
      case (Some q)
      obtain x y where q: "q = (x, y)" by fastforce
      show thesis
        by (rule line [of x y]) (use Some q b idle cn assms in \<open>auto simp: d Let_def split: if_splits sum.splits\<close>)
    qed
  qed
qed

text \<open>Where a session and its connection agree.\<close>

definition session_of :: "'s tcp_server \<Rightarrow> (nat \<Rightarrow> 's session) \<Rightarrow> bool" where
  "session_of sv qs \<longleftrightarrow> (\<forall>k. serving sv k \<or> sv_next sv \<le> k \<longrightarrow> snd (qs k) = call_of sv k)"

lemma interleaving:
  assumes "float_codec_ok fc" and "run_server fc et h es sv s = (got, sent, sv', s')" and "threads_ok sv"
    and "session_of sv qs" and "\<And>k. list_all (message_ok fc) (fst (qs k))"
    and "\<And>k. serving sv k \<or> sv_next sv \<le> k \<Longrightarrow> prefix (buffer_of sv k @ concat (of_conn k got)) (concat (map (encode fc) (fst (qs k))))"
  shows "\<exists>ks qs'. run_sessions et h ks qs s = (sent, qs', s') \<and>
    (\<forall>k. \<exists>begun. fst (qs k) = begun @ fst (qs' k) \<and>
      (serving sv' k \<longrightarrow> snd (qs' k) = call_of sv' k \<and>
        buffer_of sv k @ concat (of_conn k got) = concat (map (encode fc) begun) @ buffer_of sv' k))"
  using assms(2-)
proof (induction es arbitrary: sv s got sent qs)
  case Nil
  then show ?case by (intro exI [of _ "[]"] exI [of _ qs]) (auto simp: session_of_def)
next
  case (Cons e es)
  show ?case
  proof (cases e)
    case (Accept c)
    have "run_server fc et h es (server_accept c sv) s = (got, sent, sv', s')" using Cons.prems(1) Accept by simp
    moreover have old: "serving sv k \<or> sv_next sv \<le> k" if "serving (server_accept c sv) k \<or> sv_next (server_accept c sv) \<le> k" for k
      using that by (auto simp: serving_accept split: if_splits)
    moreover have "session_of (server_accept c sv) qs"
      using Cons.prems(2,3) old unfolding session_of_def by (metis call_of_accept)
    ultimately show ?thesis
      using Cons.IH [of "server_accept c sv" s got sent qs] Cons.prems(2,4,5) threads_ok_accept [of sv c] by (simp add: buffer_of_accept)
  next
    case Stop
    then show ?thesis using Cons.IH [of "server_stop sv" s got sent qs] Cons.prems by (simp add: threads_ok_stop session_of_def)
  next
    case (Turn j r)
    from run_server_turn [OF Cons.prems(1) [unfolded Turn]] obtain chunk out sv1 s1 got1 sent1
      where c: "client_step fc et h j r sv s = (chunk, out, sv1, s1)" and r: "run_server fc et h es sv1 s1 = (got1, sent1, sv', s')"
        and g: "got = (j, chunk) # got1" and o: "sent = map (Pair j) out @ sent1" .
    have ok: "threads_ok sv1" and nx: "sv_next sv1 = sv_next sv"
      using threads_ok_step [OF Cons.prems(2), of fc et h j r s] serving_step(2) [of fc et h j r sv s] c by simp_all
    note IH = Cons.IH [OF r ok]
    have S: "snd (qs k) = call_of sv k" if "serving sv k \<or> sv_next sv \<le> k" for k
      using Cons.prems(3) that by (auto simp: session_of_def)
    \<comment> \<open>a step of session \<open>j\<close> that begins the messages \<open>b\<close>\<close>
    have step: ?thesis
      if q: "session_step et h (qs j) s = (out, q, s1)" "fst (qs j) = b @ fst q" "snd q = call_of sv1 j" "serving sv j" "chunk = []"
        and same: "\<And>k. serving sv1 k = serving sv k" "\<And>k. k \<noteq> j \<Longrightarrow> buffer_of sv1 k = buffer_of sv k" "\<And>k. k \<noteq> j \<Longrightarrow> call_of sv1 k = call_of sv k"
        and b: "buffer_of sv j = concat (map (encode fc) b) @ buffer_of sv1 j" for b q
    proof -
      have s1: "session_of sv1 (qs(j := q))" using S q(3) same(1,3) nx by (auto simp: session_of_def)
      have oks: "list_all (message_ok fc) (fst ((qs(j := q)) k))" for k
        using Cons.prems(4) [of k] Cons.prems(4) [of j] q(2) by auto
      have "prefix (buffer_of sv1 k @ concat (of_conn k got1)) (concat (map (encode fc) (fst ((qs(j := q)) k))))"
        if "serving sv1 k \<or> sv_next sv1 \<le> k" for k
        using Cons.prems(5) [of k] that same nx g b q(2,5) by (cases "k = j") auto
      from IH [OF s1 oks this] obtain ks qs' where rs: "run_sessions et h ks (qs(j := q)) s1 = (sent1, qs', s')" and
        f: "\<And>k. \<exists>begun. fst ((qs(j := q)) k) = begun @ fst (qs' k) \<and> (serving sv' k \<longrightarrow> snd (qs' k) = call_of sv' k \<and>
          buffer_of sv1 k @ concat (of_conn k got1) = concat (map (encode fc) begun) @ buffer_of sv' k)" by blast
      have "run_sessions et h (j # ks) qs s = (sent, qs', s')" using q(1) rs o by simp
      moreover have "\<exists>begun. fst (qs k) = begun @ fst (qs' k) \<and> (serving sv' k \<longrightarrow> snd (qs' k) = call_of sv' k \<and>
          buffer_of sv k @ concat (of_conn k got) = concat (map (encode fc) begun) @ buffer_of sv' k)" for k
      proof -
        obtain begun where "fst ((qs(j := q)) k) = begun @ fst (qs' k)" "serving sv' k \<longrightarrow> snd (qs' k) = call_of sv' k \<and>
          buffer_of sv1 k @ concat (of_conn k got1) = concat (map (encode fc) begun) @ buffer_of sv' k" using f by blast
        then show ?thesis using q(2,5) same(2) b g by (intro exI [of _ "if k = j then b @ begun else begun"]) auto
      qed
      ultimately show ?thesis by blast
    qed
    from c show ?thesis
    proof (cases rule: client_step_cases)
      case (work p)
      have "qs j = (fst (qs j), Some p)" using S [of j] work(1,2) by (simp add: prod_eq_iff)
      with work(4) have "session_step et h (qs j) s = (out, (fst (qs j), call_of sv1 j), s1)" by metis
      then show ?thesis by (rule step [where b = "[]"]) (use work in simp_all)
    next
      case (line l rest)
      obtain m ms' where m: "fst (qs j) = m # ms'" "l = frame fc m" "prefix (rest @ concat (of_conn j got1)) (concat (map (encode fc) ms'))"
        using stream_head [OF assms(1) Cons.prems(4) [of j] _ line(3), of "concat (of_conn j got1)"] Cons.prems(5) [of j] line(2,4) g by auto
      have ok_m: "message_ok fc m" using Cons.prems(4) [of j] m(1) by simp
      have "decode fc l = Inr m" "l \<noteq> []" using decode_frame [OF assms(1) ok_m] m(2) by (simp_all add: frame_def)
      then have o: "out = []" "call_of sv1 j = Some (h m)" using line(6) by simp_all
      have "qs j = (m # ms', None)" using S [of j] line(1,2) m(1) by (simp add: prod_eq_iff)
      then have "session_step et h (qs j) s = (out, (ms', call_of sv1 j), s1)" using o line(5) by (simp add: session_step_def)
      moreover have "buffer_of sv j = concat (map (encode fc) [m]) @ buffer_of sv1 j"
        using split_once_eq [OF line(3)] m(2) line(8) by (simp add: encode_frame)
      ultimately show ?thesis
        by - (rule step [where b = "[m]" and q = "(ms', call_of sv1 j)"], use line(2,4,7,8,9) m(1) in simp_all)
    next
      case receive
      have same: "buffer_of sv1 k @ concat (of_conn k got1) = buffer_of sv k @ concat (of_conn k got)" for k
        using receive(5) g by (cases "k = j") auto
      have "session_of sv1 qs" using Cons.prems(3) receive(4,6) nx by (simp add: session_of_def)
      from IH [OF this Cons.prems(4)] show ?thesis using Cons.prems(5) receive(1,2,4) nx o by (simp add: same)
    next
      case close
      have dead: "\<not> serving sv' j" using closed_stays_closed [OF r close(4)] Cons.prems(2) close(5) nx by (auto simp: threads_ok_def)
      have s1: "session_of sv1 qs" using S close(4-6) nx Cons.prems(2) by (force simp: session_of_def threads_ok_def)
      have "prefix (buffer_of sv1 k @ concat (of_conn k got1)) (concat (map (encode fc) (fst (qs k))))"
        if "serving sv1 k \<or> sv_next sv1 \<le> k" for k
        using Cons.prems(2) Cons.prems(5) [of k] that close(3-6) nx g by (cases "k = j") (auto simp: threads_ok_def)
      from IH [OF s1 Cons.prems(4) this] obtain ks qs' where rs: "run_sessions et h ks qs s = (sent1, qs', s')" and
        f: "\<And>k. \<exists>begun. fst (qs k) = begun @ fst (qs' k) \<and> (serving sv' k \<longrightarrow> snd (qs' k) = call_of sv' k \<and>
          buffer_of sv1 k @ concat (of_conn k got1) = concat (map (encode fc) begun) @ buffer_of sv' k)" using close(2) by blast
      have "serving sv' k \<Longrightarrow> buffer_of sv k @ concat (of_conn k got) = buffer_of sv1 k @ concat (of_conn k got1)" for k
        using dead close(3,6) g by (cases "k = j") auto
      with f have "\<exists>begun. fst (qs k) = begun @ fst (qs' k) \<and> (serving sv' k \<longrightarrow> snd (qs' k) = call_of sv' k \<and>
          buffer_of sv k @ concat (of_conn k got) = concat (map (encode fc) begun) @ buffer_of sv' k)" for k by metis
      with rs show ?thesis using close(1) o by auto
    qed
  qed
qed

text \<open>C24: Concurrent connections. Take any sequence of accepted connections, steps of the connection threads in any order (also between
  two actions of a handler call, which runs without a lock), timeouts, failed or closed sockets and stops, in which each socket delivers,
  in any pieces, a part of the stream of the messages its peer sends. Then the shared state and all answers, in their order, are
  those of the sessions that handle these messages without any framing, under some schedule: of every connection the messages begun are
  the first ones sent, each handed to the handler once and only when the call before it ended; the answers on the connection are results of
  those calls in the order of the messages, with at most one call still running. A connection still served has begun exactly
  what it received but for its buffer, and all its messages once all have arrived and no line is waiting.\<close>

theorem server_interleaving:
  assumes "float_codec_ok fc" and "\<And>k. list_all (message_ok fc) (ms k)" and "server_start True (server_init host port) = Some sv"
    and "run_server fc et h es sv s = (got, sent, sv', s')"
    and "\<And>k. prefix (concat (of_conn k got)) (concat (map (encode fc) (ms k)))"
  shows "\<exists>schedule sessions. run_sessions et h schedule (\<lambda>k. (ms k, None)) s = (sent, sessions, s') \<and>
    (\<forall>k. \<exists>begun results. ms k = begun @ fst (sessions k) \<and>
      of_conn k sent = concat (map (answer et) results) \<and> list_all2 (\<lambda>m. may_finish (h m)) (take (length results) begun) results \<and>
      length begun = length results + (if snd (sessions k) = None then 0 else 1) \<and>
      (serving sv' k \<longrightarrow> snd (sessions k) = call_of sv' k \<and> concat (of_conn k got) = concat (map (encode fc) begun) @ buffer_of sv' k \<and>
        (concat (of_conn k got) = concat (map (encode fc) (ms k)) \<and> newline \<notin> set (buffer_of sv' k) \<longrightarrow> begun = ms k)))"
proof -
  let ?qs = "\<lambda>k. (ms k, None)"
  have sv: "\<not> serving sv k" "buffer_of sv k = []" "call_of sv k = None" for k
    using assms(3) by (auto simp: server_start_def server_init_def serving_def buffer_of_def call_of_def)
  then have "threads_ok sv" "session_of sv ?qs" by (simp_all add: threads_ok_def session_of_def)
  from interleaving [OF assms(1,4) this] assms(2,5) sv(2) obtain ks qs' where rs: "run_sessions et h ks ?qs s = (sent, qs', s')" and
    f: "\<And>k. \<exists>begun. ms k = begun @ fst (qs' k) \<and>
      (serving sv' k \<longrightarrow> snd (qs' k) = call_of sv' k \<and> concat (of_conn k got) = concat (map (encode fc) begun) @ buffer_of sv' k)" by auto
  have "\<exists>begun results. ms k = begun @ fst (qs' k) \<and>
      of_conn k sent = concat (map (answer et) results) \<and> list_all2 (\<lambda>m. may_finish (h m)) (take (length results) begun) results \<and>
      length begun = length results + (if snd (qs' k) = None then 0 else 1) \<and>
      (serving sv' k \<longrightarrow> snd (qs' k) = call_of sv' k \<and> concat (of_conn k got) = concat (map (encode fc) begun) @ buffer_of sv' k \<and>
        (concat (of_conn k got) = concat (map (encode fc) (ms k)) \<and> newline \<notin> set (buffer_of sv' k) \<longrightarrow> begun = ms k))" for k
  proof -
    obtain begun where b: "ms k = begun @ fst (qs' k)" "serving sv' k \<longrightarrow> snd (qs' k) = call_of sv' k \<and>
      concat (of_conn k got) = concat (map (encode fc) begun) @ buffer_of sv' k" using f by blast
    obtain results where r: "of_conn k sent = concat (map (answer et) results)"
      "list_all2 may_finish (take (length results) (map h (ms k))) results"
      "length results + length (calls h (qs' k)) = length (ms k)"
      using run_sessions_answers [OF rs, of k] by (auto simp: calls_def)
    have l: "length begun = length results + (if snd (qs' k) = None then 0 else 1)"
      using r(3) b(1) by (auto simp: calls_def)
    then have "take (length results) (ms k) = take (length results) begun" using b(1) by simp
    with r(2) have "list_all2 (\<lambda>m. may_finish (h m)) (take (length results) begun) results"
      by (simp add: take_map list_all2_map1)
    moreover have "begun = ms k" if "serving sv' k" "concat (of_conn k got) = concat (map (encode fc) (ms k))" "newline \<notin> set (buffer_of sv' k)"
    proof -
      have "buffer_of sv' k = concat (map (encode fc) (fst (qs' k)))" using b that(1,2) by simp
      with that(3) have "fst (qs' k) = []" by (cases "fst (qs' k)") (simp_all add: encode_frame)
      with b(1) show ?thesis by simp
    qed
    ultimately show ?thesis using b r(1) l by blast
  qed
  with rs show ?thesis by blast
qed

text \<open>Two requests whose handler reads the shared state in one action and writes it in another: the second read comes before the
  first write, and one of the two is lost.\<close>

definition counting :: "message \<Rightarrow> nat proc" where
  "counting m = Action (\<lambda>n. (Action (\<lambda>_. (Finish (Inr (Some m)), Suc n)), n))"

definition sample_events :: "server_event list" where
  "sample_events =
     [Accept ''a'', Accept ''b'', Turn 0 (Received (take 9 (encode whole_codec (create_command ''get'' [''k''] ''x'')))),
      Turn 1 (Received (encode whole_codec (create_gossip ''y'' []))),
      Turn 0 (Received (drop 9 (encode whole_codec (create_command ''get'' [''k''] ''x''))))] @
     map (\<lambda>k. Turn k TimedOut) [0, 1, 0, 1, 0, 1, 0, 1] @ [Stop]"

lemma handlers_interleave:
  "(let (got, sent, sv, n) = run_server whole_codec (\<lambda>_. []) counting sample_events (the (server_start True (server_init ''h'' 7000))) 0
    in (got, sent, map (\<lambda>(k, cn). (k, cn_buffer cn, Option.is_none (cn_call cn))) (sv_threads sv), n)) =
   (let c = create_command ''get'' [''k''] ''x''; g = create_gossip ''y'' []; b = encode whole_codec c
    in ([(0, take 9 b), (1, encode whole_codec g), (0, drop 9 b)] @ map (\<lambda>k. (k, [])) [0, 1, 0, 1, 0, 1, 0, 1],
        [(0, c), (1, g)], [(0, [], True), (1, [], True)], 1))"
  by code_simp

theorem server_interleaving_witness:
  "\<exists>schedule sessions. run_sessions (\<lambda>_. []) counting schedule
      (\<lambda>k. (if k = 0 then [create_command ''get'' [''k''] ''x''] else if k = 1 then [create_gossip ''y'' []] else [], None)) 0 =
     ([(0, create_command ''get'' [''k''] ''x''), (1, create_gossip ''y'' [])], sessions, 1) \<and>
     sessions 0 = ([], None) \<and> sessions 1 = ([], None)"
proof -
  let ?c = "create_command ''get'' [''k''] ''x''" and ?g = "create_gossip ''y'' []"
  let ?ms = "\<lambda>k::nat. if k = 0 then [?c] else if k = 1 then [?g] else []"
  let ?sv = "the (server_start True (server_init ''h'' 7000))"
  obtain got sent sv' s' where run: "run_server whole_codec (\<lambda>_. []) counting sample_events ?sv 0 = (got, sent, sv', s')"
    by (metis prod.exhaust)
  then have g: "got = [(0, take 9 (encode whole_codec ?c)), (1, encode whole_codec ?g), (0, drop 9 (encode whole_codec ?c))] @
      map (\<lambda>k. (k, [])) [0, 1, 0, 1, 0, 1, 0, 1]"
    and e: "sent = [(0, ?c), (1, ?g)]" "s' = 1"
    and t: "map (\<lambda>(k, cn). (k, cn_buffer cn, Option.is_none (cn_call cn))) (sv_threads sv') = [(0, [], True), (1, [], True)]"
    using handlers_interleave by (auto simp: Let_def)
  then obtain x y where "sv_threads sv' = [(0, x), (1, y)]" "cn_buffer x = []" "cn_buffer y = []" "cn_call x = None" "cn_call y = None"
    by (auto simp: Option.is_none_def)
  then have idle: "serving sv' k \<and> buffer_of sv' k = [] \<and> call_of sv' k = None" if "k < 2" for k
    using that by (auto simp: serving_def buffer_of_def call_of_def less_2_cases_iff)
  have d: "concat (of_conn k got) = concat (map (encode whole_codec) (?ms k))" for k using g by simp
  have ok: "list_all (message_ok whole_codec) (?ms k)" for k using sample_messages_ok by simp
  have st: "server_start True (server_init ''h'' 7000) = Some ?sv" by (simp add: server_start_def)
  have "prefix (concat (of_conn k got)) (concat (map (encode whole_codec) (?ms k)))" for k unfolding d by simp
  from server_interleaving [where ms = ?ms, OF whole_codec_ok ok st run this] obtain schedule qs where
    q: "run_sessions (\<lambda>_. []) counting schedule (\<lambda>k. (?ms k, None)) 0 = (sent, qs, s')" and
    f: "\<And>k. \<exists>begun. ?ms k = begun @ fst (qs k) \<and> (serving sv' k \<longrightarrow> snd (qs k) = call_of sv' k \<and>
       (newline \<notin> set (buffer_of sv' k) \<longrightarrow> begun = ?ms k))" using d by fast
  have "qs k = ([], None)" if "k < 2" for k
    using f [of k] idle [OF that] by (auto simp: prod_eq_iff)
  from this [of 0] this [of 1] show ?thesis using q e by (intro exI [of _ schedule] exI [of _ qs]) simp
qed

end
