(* ===== verification/Startup.thy ===== *)
theory Startup
  imports NodeFailover EndToEnd
begin

text \<open>
  Starting a node (\<^verbatim>\<open>src/minidb/main.py\<close>) and stopping it: the configuration from the parsed arguments, the list of peers, joining through
  the first peer that answers.

  \<^item> \<open>main_args\<close> is the result of \<^verbatim>\<open>parse_args\<close>; \<^verbatim>\<open>argparse\<close> itself is not modelled.
  \<^item> \<open>listens host port\<close> is the node whose cluster port is at that address, if any.
\<close>

section \<open>Arguments\<close>

record main_args =
  ma_node_id :: string
  ma_host :: string
  ma_port :: int
  ma_cluster_port :: int
  ma_peers :: string
  ma_seed :: string
  ma_data_dir :: string
  ma_replication_factor :: int
  ma_consistency :: string

definition default_args :: "string \<Rightarrow> main_args" where
  "default_args n =
     \<lparr>ma_node_id = n, ma_host = ''localhost'', ma_port = 7001, ma_cluster_port = 8001, ma_peers = [], ma_seed = [],
      ma_data_dir = ''./data'', ma_replication_factor = 3, ma_consistency = ''QUORUM''\<rparr>"

definition main_config :: "main_args \<Rightarrow> node_config res" where
  "main_config args =
     bind_res (consistency_of (ma_consistency args)) (\<lambda>level.
       Inr ((default_node_config (ma_node_id args))
         \<lparr>cf_host := ma_host args, cf_client_port := ma_port args, cf_cluster_port := ma_cluster_port args,
          cf_data_dir := ma_data_dir args, cf_replication_factor := ma_replication_factor args, cf_default_consistency := level\<rparr>))"

text \<open>\<^verbatim>\<open>create_node\<close>; further keyword arguments change the configuration.\<close>

definition create_node ::
  "(string \<Rightarrow> nat) \<Rightarrow> aof_dir \<Rightarrow> snapshot_dir \<Rightarrow> time \<Rightarrow> time \<Rightarrow> node_id \<Rightarrow> int \<Rightarrow> int \<Rightarrow> (node_config \<Rightarrow> node_config) \<Rightarrow> db_node" where
  "create_node h ad sd now rt n client_port cluster_port kwargs =
     node_init h (kwargs ((default_node_config n)\<lparr>cf_client_port := client_port, cf_cluster_port := cluster_port\<rparr>)) ad sd now rt"

text \<open>\<^verbatim>\<open>str.split\<close> at a character.\<close>

fun py_split :: "char \<Rightarrow> string \<Rightarrow> string list" where
  "py_split sep [] = [[]]"
| "py_split sep (c # cs) =
     (if c = sep then [] # py_split sep cs
      else (case py_split sep cs of [] \<Rightarrow> [[c]] | p # ps \<Rightarrow> (c # p) # ps))"

text \<open>The peers \<^verbatim>\<open>main\<close> tries, in order; empty ones are skipped.\<close>

definition main_peers :: "main_args \<Rightarrow> string list" where
  "main_peers args =
     (let of_list = (\<lambda>s. if s = [] then [] else map py_strip (py_split (CHR '','') s))
      in filter (\<lambda>p. p \<noteq> []) (map py_strip (of_list (ma_peers args) @ of_list (ma_seed args))))"

section \<open>Joining\<close>

text \<open>The address of a seed: exactly one colon and a number, otherwise \<^verbatim>\<open>join_cluster\<close> catches the exception and fails.\<close>

definition seed_address :: "string \<Rightarrow> (string \<times> int) option" where
  "seed_address s =
     (case py_split (CHR '':'') s of
        [host, port] \<Rightarrow> map_option (Pair host) (py_int_str port)
      | _ \<Rightarrow> None)"

definition join_via :: "node_env \<Rightarrow> (string \<Rightarrow> int \<Rightarrow> node_id option) \<Rightarrow> node_id \<Rightarrow> string \<Rightarrow> db_cluster \<Rightarrow> bool \<times> db_cluster" where
  "join_via ev listens me address c =
     (case seed_address address of
        None \<Rightarrow> (False, c)
      | Some (host, port) \<Rightarrow> node_join ev me (listens host port) c)"

text \<open>The loop over the peers, with the peer that was joined.\<close>

fun join_first :: "node_env \<Rightarrow> (string \<Rightarrow> int \<Rightarrow> node_id option) \<Rightarrow> node_id \<Rightarrow> string list \<Rightarrow> db_cluster \<Rightarrow> string option \<times> db_cluster" where
  "join_first ev listens me [] c = (None, c)"
| "join_first ev listens me (peer # peers) c =
     (let (ok, c1) = join_via ev listens me peer c in if ok then (Some peer, c1) else join_first ev listens me peers c1)"

section \<open>The main function\<close>

text \<open>Up to the point where the node only waits; \<open>ad\<close> and \<open>sd\<close> are the files found in the data directory.\<close>

definition main_start ::
  "node_env \<Rightarrow> (string \<Rightarrow> int \<Rightarrow> node_id option) \<Rightarrow> aof_dir \<Rightarrow> snapshot_dir \<Rightarrow> main_args \<Rightarrow> db_cluster \<Rightarrow>
   (py_error + string option) \<times> db_cluster" where
  "main_start ev listens ad sd args c =
     (case main_config args of
        Inl e \<Rightarrow> (Inl e, c)
      | Inr cfg \<Rightarrow>
          let me = cf_node_id cfg;
              (err, c1) = node_start ev me (c(me := node_init (ev_hash ev) cfg ad sd (ev_now ev) (ev_timeout ev)))
          in (case err of
                Some e \<Rightarrow> (Inl e, c1)
              | None \<Rightarrow> (let (peer, c2) = join_first ev listens me (main_peers args) c1 in (Inr peer, c2))))"

text \<open>A signal stops the node in its handler, whose \<^verbatim>\<open>sys.exit\<close> then runs the \<^verbatim>\<open>finally\<close> of the waiting loop, which stops it again.\<close>

definition main_shutdown :: "node_env \<Rightarrow> node_env \<Rightarrow> (string \<Rightarrow> nat) \<Rightarrow> nat \<Rightarrow> nat \<Rightarrow> db_node \<Rightarrow> db_node" where
  "main_shutdown ev ev' gz_size fail fail' d = node_stop ev' gz_size fail' (node_stop ev gz_size fail d)"

section \<open>A peer that cannot be joined\<close>

definition unreachable :: "node_env \<Rightarrow> (string \<Rightarrow> int \<Rightarrow> node_id option) \<Rightarrow> string \<Rightarrow> bool" where
  "unreachable ev listens address =
     (case seed_address address of
        None \<Rightarrow> True
      | Some (host, port) \<Rightarrow> (case listens host port of None \<Rightarrow> True | Some n \<Rightarrow> \<not> ev_connect ev n \<or> ev_send ev n = Dropped))"

lemma join_via_unreachable: "unreachable ev listens a \<Longrightarrow> join_via ev listens me a c = (False, c)"
  by (auto simp: unreachable_def join_via_def node_join_def split: option.splits)

lemma join_first_skips:
  "\<forall>a \<in> set bad. unreachable ev listens a \<Longrightarrow> join_first ev listens me (bad @ ps) c = join_first ev listens me ps c"
  by (induction bad) (simp_all add: join_via_unreachable)

section \<open>The seed\<close>

text \<open>The effect of a JOIN on the seed.\<close>

definition joined :: "time \<Rightarrow> node_info \<Rightarrow> db_node \<Rightarrow> db_node" where
  "joined now x d =
     d\<lparr>dn_cluster := (dn_cluster d)\<lparr>co_membership := snd (mb_add_node (x\<lparr>ni_joined_at := now\<rparr>) (dn_membership d))\<rparr>\<rparr>"

lemma joined_wf:
  assumes "mb_wf_of n (dn_membership d)" and "ni_node_id x \<noteq> n"
  shows "mb_wf_of n (dn_membership (joined now x d))"
  using assms mb_wf_put [of "dn_membership d" "x\<lparr>ni_joined_at := now\<rparr>"]
  by (auto simp: joined_def mb_add_node_def mb_wf_of_def split: option.splits)

lemma node_join_seed:
  assumes "no_faults (c n)" and "ev_connect ev n" and "ev_send ev n = Replied" and "n \<noteq> me"
  shows "node_join ev me (Some n) c = (True, c(n := joined (ev_now ev) (mb_local (dn_membership (c me))) (c n)))"
proof -
  let ?m = "join_message (dn_cluster (c me))"
  let ?h = "handle_cluster_message (ev_codec ev) (ev_now ev) (ev_timeout ev) (dn_cluster (c n)) ?m"
  let ?mb = "snd (mb_add_node ((mb_local (dn_membership (c me)))\<lparr>ni_joined_at := ev_now ev\<rparr>) (dn_membership (c n)))"
  let ?r = "create_response True (JDict [(''members'', JList (map JDict (get_members_data ?mb)))]) JNull"
  have h: "?h = (Inr (Some ?r), (dn_cluster (c n))\<lparr>co_membership := ?mb\<rparr>)"
    by (simp add: handle_cluster_message_def join_message_def new_message_def handle_join_message_def node_from_to_dict Let_def)
  then have d: "deliver ev n ?m c = (Inr (Some ?r), c(n := joined (ev_now ev) (mb_local (dn_membership (c me))) (c n)))"
    by (simp add: deliver_def no_faults_message [OF assms(1)] joined_def)
  from join_learns_nothing [OF h] assms show ?thesis by (simp add: node_join_def d fun_upd_twist [of n me])
qed

section \<open>Gossip of the seed\<close>

lemma assign_member_known [simp]: "member_at (assign_member mb n f) k = None \<longleftrightarrow> member_at mb k = None"
  by (auto simp: member_at_def assign_member_def update_conv' split: option.splits member.splits)

lemma gossip_one_known: "member_at (gossip_one u mb) k = None \<longleftrightarrow> member_at mb k = None \<and> (k \<noteq> ni_node_id (snd u) \<or> k = ni_node_id (mb_local mb))"
  by (cases u) (auto simp: gossip_one_at split: option.splits)

lemma gossip_fold_known:
  "member_at (fold gossip_one us mb) k = None \<longleftrightarrow>
     member_at mb k = None \<and> (k \<notin> (\<lambda>u. ni_node_id (snd u)) ` set us \<or> k = ni_node_id (mb_local mb))"
  by (induction us arbitrary: mb) (auto simp: gossip_one_known)

lemma handle_gossip_no_error: "fst (fst (handle_gossip t (map Membership.node_to_dict xs) mb)) = None"
  by (induction xs arbitrary: mb) (simp_all add: node_to_dict_id node_from_to_dict case_prod_unfold Let_def)

lemma gossip_delivered:
  assumes "no_faults (c v)"
  shows "dn_membership (snd (deliver ev v (send_gossip_message co (map Membership.node_to_dict xs)) c) v) =
      update_heartbeat (ev_now ev) (co_node_id co) (fold gossip_one (map (Pair (ev_now ev)) xs) (dn_membership (c v)))"
    and "dn_fault_injector (snd (deliver ev v m c) v) = dn_fault_injector (c v)"
proof -
  let ?m = "send_gossip_message co (map Membership.node_to_dict xs)"
  have m: "ms_type ?m = GOSSIP" "ms_sender ?m = co_node_id co"
    "dict_get (ms_payload ?m) ''members'' (JList []) = JList (map JDict (map Membership.node_to_dict xs))"
    by (simp_all add: send_gossip_message_def create_gossip_def new_message_def dict_get_def Let_def)
  have "as_dict_list (JList (map JDict ds)) = Inr ds" for ds by (simp add: as_dict_list_def list_all_iff comp_def)
  then have g: "merge_gossip now (JList (map JDict (map Membership.node_to_dict xs))) co' =
      (None, co'\<lparr>co_membership := fold gossip_one (map (Pair now) xs) (co_membership co')\<rparr>)" for now co'
    unfolding merge_gossip_def by (simp add: handle_gossip_no_error handle_gossip_fold case_prod_unfold Let_def del: map_map)
  show "dn_membership (snd (deliver ev v ?m c) v) =
      update_heartbeat (ev_now ev) (co_node_id co) (fold gossip_one (map (Pair (ev_now ev)) xs) (dn_membership (c v)))"
    by (simp add: deliver_def no_faults_message [OF assms] handle_cluster_message_def m handle_gossip_message_def g del: map_map)
  show "dn_fault_injector (snd (deliver ev v m c) v) = dn_fault_injector (c v)"
    by (simp add: deliver_def no_faults_message [OF assms] case_prod_unfold Let_def)
qed

text \<open>A node that a table is sent to knows every member of that table.\<close>

lemma table_sent:
  assumes "no_faults (c n)" and "no_faults (c v)" and "v \<noteq> n" and "ev_send ev v \<noteq> Dropped"
    and "member_at (dn_membership (c v)) (ni_node_id (mb_local (dn_membership (c v)))) \<noteq> None"
    and "k \<in> ni_node_id ` set xs" and "v \<in> set ts" and "n \<notin> set ts"
  shows "member_at (dn_membership (send_all ev n (map (\<lambda>t. (t, send_gossip_message co (map Membership.node_to_dict xs))) ts) c v)) k \<noteq> None"
proof -
  let ?ms = "map (\<lambda>t. (t, send_gossip_message co (map Membership.node_to_dict xs)))"
  have "member_at (dn_membership (send_all ev n (?ms ts) c v)) k \<noteq> None"
    if "no_faults (c n)" "no_faults (c v)" "n \<notin> set ts" "v \<in> set ts \<or> member_at (dn_membership (c v)) k \<noteq> None"
      and "member_at (dn_membership (c v)) (ni_node_id (mb_local (dn_membership (c v)))) \<noteq> None" for c ts
    using that
  proof (induction ts arbitrary: c)
    case (Cons t ts)
    let ?c = "if ev_send ev t \<noteq> Dropped then snd (deliver ev t (send_gossip_message co (map Membership.node_to_dict xs)) c) else c"
    have step: "no_faults (?c v) \<and> (v \<in> set ts \<or> member_at (dn_membership (?c v)) k \<noteq> None) \<and>
        member_at (dn_membership (?c v)) (ni_node_id (mb_local (dn_membership (?c v)))) \<noteq> None"
    proof (cases "t = v")
      case True
      have l: "ni_node_id (mb_local (update_heartbeat now s mb)) = ni_node_id (mb_local mb)" for now s mb
        by (simp add: update_heartbeat_def)
      have "\<not> (k \<notin> ni_node_id ` set xs)" using assms(6) by simp
      then show ?thesis using True assms(4) Cons.prems(2,5)
        by (cases "k = ni_node_id (mb_local (dn_membership (c v)))")
          (auto simp: gossip_delivered [where c = c and v = v, OF Cons.prems(2)] l update_heartbeat_def gossip_fold_known image_comp comp_def)
    qed (use Cons.prems in auto)
    moreover have "no_faults (?c n)" using Cons.prems(1,3) by simp
    ultimately have "member_at (dn_membership (send_all ev n (?ms ts) ?c v)) k \<noteq> None" using Cons.prems(3) by (intro Cons.IH) auto
    then show ?case using Cons.prems(1) by (simp add: no_faults_sends)
  qed simp
  from this [OF assms(1,2,8) _ assms(5)] assms(7) show ?thesis by simp
qed

text \<open>A choice of gossip targets that includes the node whenever it may be chosen.\<close>

definition samples :: "node_id \<Rightarrow> (node_info list \<Rightarrow> nat \<Rightarrow> node_info list) \<Rightarrow> bool" where
  "samples v pick \<longleftrightarrow>
     (\<forall>xs k. set (pick xs k) \<subseteq> set xs \<and> (0 < k \<and> v \<in> ni_node_id ` set xs \<longrightarrow> v \<in> ni_node_id ` set (pick xs k)))"

lemma member_listed: "mb_wf mb \<Longrightarrow> member_at mb k = Some x \<Longrightarrow> x \<in> set (all_members mb) \<and> ni_node_id x = k"
  by (fastforce simp: member_at_def all_members_def mb_wf_def dest: map_of_SomeD)

lemma health_known:
  assumes "mb_wf mb"
  shows "member_at (snd (check_node_health now mb)) k = None \<longleftrightarrow> member_at mb k = None"
proof (cases "k = ni_node_id (mb_local mb)")
  case True
  then show ?thesis using assms check_node_health_frame [of now mb] by (auto simp: mb_wf_def member_at_def)
next
  case False
  then show ?thesis by (simp add: check_node_health_at [OF assms])
qed

lemma gossip_pass_introduces:
  assumes "mb_wf_of n (dn_membership (c n))" and "co_node_id (dn_cluster (c n)) = n" and "no_faults (c n)" and "no_faults (c v)" and "v \<noteq> n"
    and "ev_send ev v \<noteq> Dropped" and "mb_wf (dn_membership (c v))" and "samples v pick"
    and "member_at (dn_membership (c n)) v = Some x" and "ni_state x = ALIVE" and "member_at (dn_membership (c n)) k \<noteq> None"
  shows "member_at (dn_membership (gossip_pass ev pick n c v)) k \<noteq> None"
proof -
  let ?mb = "snd (check_node_health (ev_now ev) (dn_membership (c n)))"
  let ?co = "(dn_cluster (c n))\<lparr>co_membership := ?mb\<rparr>" and ?c = "c(n := (c n)\<lparr>dn_cluster := (dn_cluster (c n))\<lparr>co_membership := ?mb\<rparr>\<rparr>)"
  let ?ts = "map ni_node_id (pick (gossip_candidates ?mb) (min 3 (length (gossip_candidates ?mb))))"
  have wf: "mb_wf (dn_membership (c n))" "ni_node_id (mb_local (dn_membership (c n))) = n" using assms(1) by (auto simp: mb_wf_of_def)
  have wf1: "mb_wf ?mb" "ni_node_id (mb_local ?mb) = n" using check_node_health_frame [of "ev_now ev" "dn_membership (c n)"] wf by auto
  obtain y where y: "member_at ?mb v = Some y" "ni_state y \<noteq> DEAD"
    using assms(5,9,10) check_node_health_at [OF wf(1), of v] wf(2) by (auto simp: health_def)
  then have cand: "y \<in> set (gossip_candidates ?mb)" "ni_node_id y = v"
    using member_listed [OF wf1(1) y(1)] assms(5) wf1(2) by (auto simp: gossip_candidates_def)
  then have "gossip_messages pick ?mb = map (\<lambda>t. (t, get_members_data ?mb)) (pick (gossip_candidates ?mb) (min 3 (length (gossip_candidates ?mb))))"
    by (auto simp: gossip_messages_def Let_def)
  then have pass: "gossip_pass ev pick n c = send_all ev n (map (\<lambda>t. (t, send_gossip_message ?co (map Membership.node_to_dict (all_members ?mb)))) ?ts) ?c"
    by (simp add: gossip_pass_def Let_def get_members_data_def comp_def)
  have s: "set (pick xs i) \<subseteq> set xs" "0 < i \<Longrightarrow> v \<in> ni_node_id ` set xs \<Longrightarrow> v \<in> ni_node_id ` set (pick xs i)" for xs i
    using assms(8) unfolding samples_def by blast+
  have "0 < min 3 (length (gossip_candidates ?mb))" using cand(1) by (cases "gossip_candidates ?mb") auto
  moreover have "v \<in> ni_node_id ` set (gossip_candidates ?mb)" using cand by blast
  ultimately have "v \<in> set ?ts" unfolding set_map by (rule s(2))
  moreover have "n \<notin> ni_node_id ` set (gossip_candidates ?mb)" using wf1(2) by (auto simp: gossip_candidates_def)
  then have "n \<notin> set ?ts" unfolding set_map using s(1) by blast
  moreover have "k \<in> ni_node_id ` set (all_members ?mb)"
    using assms(11) health_known [OF wf(1), of "ev_now ev" k] member_listed [OF wf1(1), of k] by force
  moreover have "member_at (dn_membership (c v)) (ni_node_id (mb_local (dn_membership (c v)))) \<noteq> None"
    using assms(7) by (auto simp: mb_wf_def member_at_def)
  ultimately show ?thesis unfolding pass using assms(3-6) by (intro table_sent) auto
qed

section \<open>The new node\<close>

lemma node_start_fresh:
  assumes "node_start ev (cf_node_id cfg) (c(cf_node_id cfg := node_init (ev_hash ev) cfg ad sd now rt)) = (None, c1)"
  shows "c1 n = c n \<or> n = cf_node_id cfg"
    and "dn_membership (c1 (cf_node_id cfg)) = dn_membership (node_init (ev_hash ev) cfg ad sd now rt)"
    and "no_faults (c1 (cf_node_id cfg))"
proof -
  let ?d = "node_init (ev_hash ev) cfg ad sd now rt" and ?me = "cf_node_id cfg"
  obtain s where c1: "c1 = sync_topology ev ?me (c(?me := set_storage s ?d))"
    using assms by (auto simp: node_start_def split: prod.splits option.splits)
  have "active_node_ids (dn_membership (set_storage s ?d)) = {?me}" "dn_known_ring_nodes (set_storage s ?d) = {?me}"
    by (simp_all add: node_init_def coordinator_init_def membership_init_def active_node_ids_def all_members_def new_node_def Let_def)
  then have c1: "c1 = c(?me := (set_storage s ?d)\<lparr>dn_router := sync_router (all_members (dn_membership (set_storage s ?d))) (dn_router (set_storage s ?d)),
      dn_known_ring_nodes := {?me}\<rparr>)" unfolding c1 by (simp add: sync_topology_def)
  show "c1 n = c n \<or> n = ?me" "dn_membership (c1 ?me) = dn_membership ?d" "no_faults (c1 ?me)"
    unfolding c1 by (simp_all add: node_init_def injector_init_def Let_def)
qed

lemma main_start_cases:
  assumes "main_start ev listens ad sd args c = (Inr peer, c')"
  obtains cfg c1 where "main_config args = Inr cfg" "cf_node_id cfg = ma_node_id args" "cf_host cfg = ma_host args"
    "cf_client_port cfg = ma_port args" "cf_cluster_port cfg = ma_cluster_port args"
    "node_start ev (cf_node_id cfg) (c(cf_node_id cfg := node_init (ev_hash ev) cfg ad sd (ev_now ev) (ev_timeout ev))) = (None, c1)"
    "join_first ev listens (cf_node_id cfg) (main_peers args) c1 = (peer, c')"
proof -
  obtain cfg where cfg: "main_config args = Inr cfg" using assms by (auto simp: main_start_def split: sum.splits)
  obtain c1 where c1: "node_start ev (cf_node_id cfg) (c(cf_node_id cfg := node_init (ev_hash ev) cfg ad sd (ev_now ev) (ev_timeout ev))) = (None, c1)"
    and j: "join_first ev listens (cf_node_id cfg) (main_peers args) c1 = (peer, c')"
    using assms by (auto simp: main_start_def cfg Let_def split: prod.splits option.splits)
  show thesis
    by (rule that [OF cfg _ _ _ _ c1 j])
      (use cfg in \<open>auto simp: main_config_def bind_res_def default_node_config_def split: sum.splits\<close>)
qed

text \<open>C25: Starting a node introduces it to the cluster. When \<^verbatim>\<open>main\<close> starts a node whose recovery succeeds, it passes over every peer in its
  list that has no valid address, has no listener or cannot be reached, joins through the first one that answers and asks no other.
  A seed without injected faults that did not know the node then holds a record of it, alive and with its addresses; a seed that
  still has a record of the node keeps it, whatever its state, unless its incarnation is lower than that of a new node. The other
  members of the seed and all other running nodes are unchanged. The
  node itself learns nothing from joining, but as soon as a gossip round of the seed picks it, and the record the seed holds of it is alive,
  it knows every member the seed knows, even when the round makes the seed suspect it.\<close>

theorem startup_introduces_node:
  assumes "cluster_wf h c" and "main_start ev listens ad sd args c = (Inr peer, c')" and "me = ma_node_id args"
    and "main_peers args = bad @ address # rest" and "\<forall>a \<in> set bad. unreachable ev listens a"
    and "seed_address address = Some (host, port)" and "listens host port = Some n" and "n \<noteq> me"
    and "ev_connect ev n" and "ev_send ev n = Replied" and "no_faults (c n)" and "samples me pick" and "ev_send ev' me \<noteq> Dropped"
    and "x = new_node me (ma_host args) (ma_port args) (ma_cluster_port args) (ev_now ev)"
  shows "peer = Some address \<and>
    member_at (dn_membership (c' n)) me =
      (case member_at (dn_membership (c n)) me of
         None \<Rightarrow> Some x | Some y \<Rightarrow> Some (if ni_incarnation y < ni_incarnation x then x else y)) \<and>
    (\<forall>k. k \<noteq> me \<longrightarrow> member_at (dn_membership (c' n)) k = member_at (dn_membership (c n)) k) \<and> (\<forall>v. v \<noteq> n \<and> v \<noteq> me \<longrightarrow> c' v = c v) \<and>
    (\<forall>y. member_at (dn_membership (c' n)) me = Some y \<and> ni_state y = ALIVE \<longrightarrow>
      (\<forall>k. member_at (dn_membership (c' n)) k \<noteq> None \<longrightarrow> member_at (dn_membership (gossip_pass ev' pick n c' me)) k \<noteq> None))"
proof -
  obtain cfg c1 where cfg: "cf_node_id cfg = me" "cf_host cfg = ma_host args" "cf_client_port cfg = ma_port args" "cf_cluster_port cfg = ma_cluster_port args"
    and st: "node_start ev (cf_node_id cfg) (c(cf_node_id cfg := node_init (ev_hash ev) cfg ad sd (ev_now ev) (ev_timeout ev))) = (None, c1)"
    and j: "join_first ev listens (cf_node_id cfg) (main_peers args) c1 = (peer, c')"
    using main_start_cases [OF assms(2)] assms(3) by metis
  note fresh = node_start_fresh [OF st, unfolded cfg(1)]
  have xi: "ni_node_id x = me" "ni_node_id (x\<lparr>ni_joined_at := ev_now ev\<rparr>) = me" "x\<lparr>ni_joined_at := ev_now ev\<rparr> = x"
    by (simp_all add: assms(14) new_node_def)
  have mb: "dn_membership (c1 me) = membership_init x (cf_failure_timeout cfg) (cf_dead_timeout cfg) (cf_heartbeat_interval cfg)"
    by (simp add: fresh(2) node_init_def coordinator_init_def cfg assms(14) Let_def)
  have n: "c1 n = c n" using fresh(1) [of n] assms(8) by simp
  have "join_via ev listens me address c1 = (True, c1(n := joined (ev_now ev) x (c n)))"
    using assms(6-11) n by (simp add: join_via_def node_join_seed mb) (simp add: membership_init_def)
  then have "peer = Some address" and c': "c' = c1(n := joined (ev_now ev) x (c n))"
    using j join_first_skips [OF assms(5), of me "address # rest" c1] by (simp_all add: cfg assms(4))
  moreover have "member_at (dn_membership (c' n)) me =
      (case member_at (dn_membership (c n)) me of
         None \<Rightarrow> Some x | Some y \<Rightarrow> Some (if ni_incarnation y < ni_incarnation x then x else y))"
    by (simp add: c' joined_def mb_add_node_def xi member_at_put split: option.split)
  moreover have "member_at (dn_membership (c' n)) k = member_at (dn_membership (c n)) k" if "k \<noteq> me" for k
    using that by (simp add: c' joined_def mb_add_node_def xi member_at_put split: option.split)
  moreover have "c' v = c v" if "v \<noteq> n" "v \<noteq> me" for v using that fresh(1) [of v] by (simp add: c')
  moreover have "member_at (dn_membership (gossip_pass ev' pick n c' me)) k \<noteq> None"
    if "member_at (dn_membership (c' n)) k \<noteq> None" and y: "member_at (dn_membership (c' n)) me = Some y" "ni_state y = ALIVE" for k y
  proof (rule gossip_pass_introduces [where c = c' and n = n and v = me, OF _ _ _ _ _ assms(13) _ assms(12) y that(1)])
    have "mb_wf_of n (dn_membership (c n))" "co_node_id (dn_cluster (c n)) = n" using cluster_wfD [OF assms(1), of n] by (auto simp: node_wf_def)
    then show "mb_wf_of n (dn_membership (c' n))" "co_node_id (dn_cluster (c' n)) = n"
      using assms(8) by (simp_all add: c' joined_wf xi) (simp add: joined_def)
  qed (use assms(8,11) fresh(3) in \<open>auto simp: c' joined_def mb mb_wf_init new_node_def\<close>)
  ultimately show ?thesis by blast
qed

definition new_args :: main_args where
  "new_args = (default_args ''d'')\<lparr>ma_peers := ''nowhere, localhost:8009'', ma_seed := ''localhost:8001''\<rparr>"

definition one_listener :: "string \<Rightarrow> int \<Rightarrow> node_id option" where
  "one_listener host port = (if host = ''localhost'' \<and> port = 8001 then Some ''b'' else None)"

theorem startup_introduces_node_witness:
  "let r = main_start quiet_env one_listener \<lparr>dir_main = None, dir_bak = None, dir_tmp = None\<rparr>
       \<lparr>sn_main = None, sn_bak = None, sn_tmp = None, sn_meta = None\<rparr> new_args trio
   in fst r = Inr (Some ''localhost:8001'') \<and>
     member_at (dn_membership (gossip_pass quiet_env (\<lambda>xs k. xs) ''b'' (snd r) ''d'')) ''c'' \<noteq> None"
proof -
  let ?ad = "\<lparr>dir_main = None, dir_bak = None, dir_tmp = None\<rparr>" and ?sd = "\<lparr>sn_main = None, sn_bak = None, sn_tmp = None, sn_meta = None\<rparr>"
  have peers: "main_peers new_args = [''nowhere'', ''localhost:8009''] @ ''localhost:8001'' # []" by code_simp
  have addr: "seed_address ''localhost:8001'' = Some (''localhost'', 8001)" "seed_address ''nowhere'' = None"
    "seed_address ''localhost:8009'' = Some (''localhost'', 8009)" by code_simp+
  define r where "r = main_start quiet_env one_listener ?ad ?sd new_args trio"
  obtain cfg where cfg: "main_config new_args = Inr cfg" by (simp add: main_config_def new_args_def default_args_def consistency_of_def)
  have "snapshot_load k whole_codec 1 ?sd = (None, ?sd)" for k by (cases k) simp_all
  then have "fst (recover_data whole_codec (storage_init cfg ?ad ?sd 1) 1) = None"
    by (simp add: recover_data_def recover_snapshot_def storage_init_def aof_init_def snapshot_init_def aof_replay_def aof_open_file_def py_strip_def Let_def)
  then obtain s where "recover_data whole_codec (storage_init cfg ?ad ?sd 1) 1 = (None, s)" by (metis prod.collapse)
  moreover have "node_storage (node_init length cfg ?ad ?sd 1 (ev_timeout quiet_env)) = storage_init cfg ?ad ?sd 1"
    by (simp add: node_storage_def node_init_def coordinator_init_def Let_def)
  ultimately obtain c1 where "node_start quiet_env (cf_node_id cfg) (trio(cf_node_id cfg := node_init length cfg ?ad ?sd 1 (ev_timeout quiet_env))) = (None, c1)"
    by (simp add: node_start_def)
  then have r: "main_start quiet_env one_listener ?ad ?sd new_args trio = (Inr (projr (fst r)), snd r)"
    by (simp add: r_def main_start_def cfg case_prod_unfold Let_def)
  have "member_at (dn_membership (trio ''b'')) ''d'' = None" "no_faults (trio ''b'')"
    by (simp_all add: trio_defs mb_add_node_def membership_init_def new_node_def member_at_def injector_init_def)
  moreover have "ni_state (new_node ''d'' (ma_host new_args) (ma_port new_args) (ma_cluster_port new_args) (ev_now quiet_env)) = ALIVE"
    by (simp add: new_node_def)
  moreover have d: "ma_node_id new_args = ''d''" by (simp add: new_args_def default_args_def)
  moreover have "\<forall>a \<in> set [''nowhere'', ''localhost:8009'']. unreachable quiet_env one_listener a"
    by (simp add: unreachable_def addr one_listener_def)
  moreover have "samples ''d'' (\<lambda>xs k. xs)" by (simp add: samples_def)
  ultimately have s: "projr (fst r) = Some ''localhost:8001''"
    "member_at (dn_membership (snd r ''b'')) ''c'' = member_at (dn_membership (trio ''b'')) ''c''"
    "member_at (dn_membership (snd r ''b'')) ''c'' \<noteq> None \<Longrightarrow> member_at (dn_membership (gossip_pass quiet_env (\<lambda>xs k. xs) ''b'' (snd r) ''d'')) ''c'' \<noteq> None"
    using startup_introduces_node [OF trio_wf r d [symmetric] peers _ addr(1), of "''b''" "\<lambda>xs k. xs" quiet_env]
    by (simp_all add: one_listener_def quiet_env_def)
  then show ?thesis using r trio_known(2) by (simp add: Let_def)
qed

end
