(* ===== verification/CliSession.thy ===== *)
theory CliSession
  imports Cli
begin

text \<open>
  A session of the command-line client (\<^verbatim>\<open>run\<close> and \<^verbatim>\<open>_print_result\<close> of \<^verbatim>\<open>src/minidb/cli.py\<close>): what is typed, what is printed and when the
  connection is closed. The prompt and the history file are not modelled.

  \<^item> What the user does at the prompt is a list of \<open>terminal_event\<close>s; a typed line comes with what the operating system does while it
    is executed.
  \<^item> Printed text is the list of the lines passed to \<^verbatim>\<open>print\<close>.
\<close>

section \<open>Printing\<close>

text \<open>\<^verbatim>\<open>json.dumps(..., indent=2)\<close>, at a depth of \<open>n\<close> spaces.\<close>

fun dumps_indent :: "float_codec \<Rightarrow> nat \<Rightarrow> json \<Rightarrow> string" where
  "dumps_indent fc n (JList vs) =
     (if vs = [] then ''[]''
      else ''['' @ newline # List.replicate (n + 2) (CHR 32) @
             join ('','' @ newline # List.replicate (n + 2) (CHR 32)) (map (dumps_indent fc (n + 2)) vs) @
             newline # List.replicate n (CHR 32) @ '']'')"
| "dumps_indent fc n (JDict kvs) =
     (if kvs = [] then ''{}''
      else ''{'' @ newline # List.replicate (n + 2) (CHR 32) @
             join ('','' @ newline # List.replicate (n + 2) (CHR 32))
               (map (\<lambda>kv. quote (fst kv) @ '': '' @ dumps_indent fc (n + 2) (snd kv)) kvs) @
             newline # List.replicate n (CHR 32) @ ''}'')"
| "dumps_indent fc n v = dumps fc v"

text \<open>\<^verbatim>\<open>str\<close> of a decoded scalar. The texts of lists and objects are only needed for an error that is one, which no handler sends;
  it is rejected here.\<close>

fun scalar_text :: "float_codec \<Rightarrow> json \<Rightarrow> string res" where
  "scalar_text fc JNull = Inr ''None''"
| "scalar_text fc (JBool b) = Inr (if b then ''True'' else ''False'')"
| "scalar_text fc (JInt i) = Inr (str_int i)"
| "scalar_text fc (JFloat x) = Inr (fc_repr fc x)"
| "scalar_text fc (JStr s) = Inr s"
| "scalar_text fc _ = Inl TypeError"

text \<open>The format \<^verbatim>\<open>.2f\<close>: rounded to even on a tie.\<close>

definition round_half_even :: "rat \<Rightarrow> int" where
  "round_half_even x =
     (let f = \<lfloor>x\<rfloor>; d = x - of_int f in if d < 1 / 2 \<or> d = 1 / 2 \<and> even f then f else f + 1)"

definition fixed2 :: "rat \<Rightarrow> string" where
  "fixed2 x =
     (let n = round_half_even (\<bar>x\<bar> * 100); cents = nat (n mod 100)
      in (if x < 0 then ''-'' else []) @ str_int (n div 100) @ ''.'' @ (if cents < 10 then ''0'' else []) @ str_nat cents)"

definition printed_body :: "float_codec \<Rightarrow> (string, json) dict \<Rightarrow> string res" where
  "printed_body fc result =
     (case dget result ''error'' of
        Some e \<Rightarrow> bind_res (scalar_text fc e) (\<lambda>s. Inr (''ERROR: '' @ s))
      | None \<Rightarrow>
          (case dget result ''data'' of
             Some (JDict d) \<Rightarrow> Inr (dumps_indent fc 0 (JDict d))
           | Some (JList l) \<Rightarrow> Inr (dumps_indent fc 0 (JList l))
           | Some v \<Rightarrow> scalar_text fc v
           | None \<Rightarrow>
               (case dget result ''message'' of
                  Some m \<Rightarrow> scalar_text fc m
                | None \<Rightarrow> Inr (dumps_indent fc 0 (JDict result)))))"

definition print_result :: "float_codec \<Rightarrow> cli \<Rightarrow> (string, json) dict \<Rightarrow> string list res" where
  "print_result fc cl result =
     bind_res (printed_body fc result) (\<lambda>body.
       Inr (body # (case (cl_debug_mode cl, dget result ''time_ms'') of
                      (True, Some (JFloat ms)) \<Rightarrow> [''(took '' @ fixed2 ms @ ''ms)'']
                    | _ \<Rightarrow> [])))"

section \<open>The session\<close>

datatype terminal_event =
    Typed string "nat \<Rightarrow> os_link" "nat \<Rightarrow> os_link" time
  | Interrupted
  | EndOfInput

definition cli_connect :: "proxy_env \<Rightarrow> (nat \<Rightarrow> os_link) \<Rightarrow> cli \<Rightarrow> nat \<Rightarrow> bool \<times> string list \<times> cli \<times> nat" where
  "cli_connect px os cl k =
     (let (ok, c, k') = client_connect px os (cl_client cl) k; address = cl_host cl @ '':'' @ str_int (cl_port cl)
      in (ok, [(if ok then ''Connected to '' else ''Failed to connect to '') @ address], cl\<lparr>cl_client := c\<rparr>, k'))"

text \<open>The loop at the prompt: what is printed, whether an exception left it, and the client. Without further events the input has ended.\<close>

fun cli_loop :: "float_codec \<Rightarrow> proxy_env \<Rightarrow> terminal_event list \<Rightarrow> cli \<Rightarrow> nat \<Rightarrow> string list \<times> py_error option \<times> cli \<times> nat" where
  "cli_loop fc px [] cl k = ([], None, cl, k)"
| "cli_loop fc px (EndOfInput # es) cl k = ([], None, cl, k)"
| "cli_loop fc px (Interrupted # es) cl k = (let (out, r) = cli_loop fc px es cl k in ([] # out, r))"
| "cli_loop fc px (Typed text os os' elapsed # es) cl k =
     (let line = py_strip text
      in if line = [] then cli_loop fc px es cl k
         else
           (case cli_execute fc px os os' elapsed line cl k of
              (Inl e, cl1, k1) \<Rightarrow> ([], Some e, cl1, k1)
            | (Inr None, cl1, k1) \<Rightarrow> ([], None, cl1, k1)
            | (Inr (Some result), cl1, k1) \<Rightarrow>
                (case print_result fc cl1 result of
                   Inl e \<Rightarrow> ([], Some e, cl1, k1)
                 | Inr lines \<Rightarrow> (let (out, r) = cli_loop fc px es cl1 k1 in (lines @ out, r)))))"

definition cli_run ::
  "float_codec \<Rightarrow> proxy_env \<Rightarrow> (nat \<Rightarrow> os_link) \<Rightarrow> terminal_event list \<Rightarrow> cli \<Rightarrow> nat \<Rightarrow> string list \<times> py_error option \<times> cli \<times> nat" where
  "cli_run fc px os es cl k =
     (let (ok, out1, cl1, k1) = cli_connect px os cl k
      in if \<not> ok then (out1, None, cl1, k1)
         else
           let (out2, err, cl2, k2) = cli_loop fc px es cl1 k1
           in (out1 @ [''Mini-Redis/Cassandra CLI. Type '' @ CHR 39 # ''HELP'' @ CHR 39 # '' for commands.'', []] @ out2 @ [''Goodbye!''],
               err, cl2\<lparr>cl_client := client_disconnect (cl_client cl2)\<rparr>, k2))"

definition run_cli ::
  "float_codec \<Rightarrow> proxy_env \<Rightarrow> (nat \<Rightarrow> os_link) \<Rightarrow> terminal_event list \<Rightarrow> string \<Rightarrow> int \<Rightarrow> string list \<times> py_error option \<times> cli \<times> nat" where
  "run_cli fc px os es host port = cli_run fc px os es (cli_init px host port) 0"

section \<open>Ending a session\<close>

text \<open>Nothing typed after QUIT is executed or printed.\<close>

definition leaves :: "terminal_event \<Rightarrow> bool" where
  "leaves e =
     (case e of
        Typed text _ _ _ \<Rightarrow> (case parse_line (py_strip text) of w # _ \<Rightarrow> py_upper w \<in> {''QUIT'', ''EXIT''} | [] \<Rightarrow> False)
      | EndOfInput \<Rightarrow> True
      | Interrupted \<Rightarrow> False)"

lemma leaves_loop: "leaves e \<Longrightarrow> cli_loop fc px (e # es) cl k = ([], None, cl, k)"
  by (cases e) (auto simp: leaves_def cli_execute_def parse_line_def Let_def split: list.splits)

lemma loop_ends: "leaves e \<Longrightarrow> cli_loop fc px (es @ e # rest) cl k = cli_loop fc px es cl k"
proof (induction fc px es cl k rule: cli_loop.induct)
  case (4 fc px line os os' elapsed es cl k)
  then show ?case by (auto simp: Let_def split: sum.splits option.splits prod.splits)
qed (simp_all add: leaves_loop)

text \<open>However a session goes, it ends with the connection closed.\<close>

lemma session_closes:
  assumes "cli_run fc px os es cl k = (out, err, cl', k')"
  shows "\<not> tc_connected (cl_client cl')"
  using assms
  by (auto simp: cli_run_def cli_connect_def client_connect_def client_disconnect_def Let_def split: prod.splits if_splits)

end
