(* ===== verification/Spec2Isabelle.thy ===== *)
theory Spec2Isabelle
  imports Durability Partition ElectionSafety WritePath NodeReads Coordinator RateLimiter VersionVector AntiEntropy MigrationNode
    FaultInjection EndToEnd NodeFailover Server Startup CliSession
begin

text \<open>
  MiniDB (\<^verbatim>\<open>src/minidb\<close>): a verification development of a replicated key-value store in Python.

  \<^bold>\<open>The program.\<close> A node (\<^verbatim>\<open>node.py\<close>) keeps its keys in a \<^verbatim>\<open>KVStore\<close> with expiry, logs every change to an
  append-only file and saves snapshots. Nodes form a cluster: membership and gossip say who is alive, an
  election chooses a leader, the leader replicates a write in two phases and commits it on enough nodes,
  reads ask the replicas of the key on a consistent hash ring and repair stale ones. Keys move between
  nodes when the ring changes, Merkle trees serve to find differences, limiters guard the client port, and
  all messages are framed JSON over TCP.

  \<^bold>\<open>Common ground.\<close>
  \<^item> Prelude: Python dictionaries as association lists (locale \<open>py_dict\<close>), exceptions as values, sequences,
    decimal text. Bisect: \<^verbatim>\<open>bisect\<close> and \<^verbatim>\<open>insort\<close>.
  \<^item> Json, Json_Roundtrip: \<^verbatim>\<open>json.dumps\<close> and \<^verbatim>\<open>json.loads\<close>. The parser has fuel \<open>2 * length s + 1\<close>, shown never
    to run out (\<open>loads_decides\<close>); \<open>loads\<close> undoes \<open>dumps\<close>, and no proper prefix of an object parses.
  \<^item> Config, Log: \<^verbatim>\<open>config.py\<close>, and the log entries of \<^verbatim>\<open>cluster/election.py\<close> with their dictionary form.

  \<^bold>\<open>Storage.\<close>
  \<^item> KVStore (\<^verbatim>\<open>storage/kv_store.py\<close>): a trace refinement against an unpurged map that hides expired
    entries, key patterns, dump and load.
  \<^item> AOF (\<^verbatim>\<open>storage/aof.py\<close>), Snapshot (\<^verbatim>\<open>storage/snapshot.py\<close>): files as text with an unsynced tail, operations as
    sequences of file-system calls that may stop anywhere; what every crash leaves behind. A snapshot is never flushed, so a
    power failure may cut it (\<open>snapshot_crash\<close>).
  \<^item> NodeStore, Durability (storage part of \<^verbatim>\<open>node.py\<close>): applying entries to store and log, last-writer-wins
    application (locales of LWW), and that recovery restores exactly what the node held.

  \<^bold>\<open>Placement.\<close>
  \<^item> Ring (\<^verbatim>\<open>sharding/consistent_hash.py\<close>), Partition (\<^verbatim>\<open>sharding/partition.py\<close>, \<^verbatim>\<open>sharding/router.py\<close>): the hash is a parameter.
    History independence, minimal movement, the replica list as the first distinct nodes clockwise.
  \<^item> Migration (\<^verbatim>\<open>sharding/migration.py\<close>), MigrationNode (\<^verbatim>\<open>node.py\<close>): which keys move, batches, the import handler with
    its fan-out, deletion after transfer.

  \<^bold>\<open>Cluster.\<close>
  \<^item> Election, ElectionSafety (\<^verbatim>\<open>cluster/election.py\<close>): the handlers, and a step relation over a lossy network with
    at most one leader per term. Coordinator (\<^verbatim>\<open>cluster/coordinator.py\<close>): message dispatch, election rounds, joining.
  \<^item> Membership (\<^verbatim>\<open>cluster/membership.py\<close>): failure detection and gossip.
  \<^item> Replication, WritePath (\<^verbatim>\<open>cluster/replication.py\<close>, write coordination of \<^verbatim>\<open>node.py\<close>): prepare and commit with lost
    messages; an acknowledged write is on its quorum.
  \<^item> ReadCoordinator, NodeReads (\<^verbatim>\<open>cluster/read_coordinator.py\<close>, GET in \<^verbatim>\<open>node.py\<close>): answers in any order, read repair;
    a quorum read sees every majority write.

  \<^bold>\<open>Repair, limits, wire.\<close>
  \<^item> VersionVector, Merkle, AntiEntropy (\<^verbatim>\<open>repair/\<close>): causality, root hashes and comparison, repair with a peer.
  \<^item> RateLimiter (\<^verbatim>\<open>chaos/rate_limiter.py\<close>): admission bounds of the limiters, adaptation, backpressure.
  \<^item> FaultInjection (\<^verbatim>\<open>chaos/fault_injection.py\<close>): the active faults, the partitioned peers, what a fault makes fail.
  \<^item> Protocol (\<^verbatim>\<open>network/protocol.py\<close>, the receive loop of \<^verbatim>\<open>network/server.py\<close>): a stream of messages is handled in order
    however it is chunked. Server (\<^verbatim>\<open>network/server.py\<close>): accepting, one thread per connection, stopping; handler calls are
    sequences of atomic actions, and the threads of all connections interleave in any order, also inside these calls
    (\<open>handlers_interleave\<close>: an unlocked read and write loses an update). It refines sessions without bytes, buffers and timeouts.

  \<^bold>\<open>The composed node\<close> (\<^verbatim>\<open>node.py\<close>).
  \<^item> Node: one record \<open>db_node\<close> holds the state of every component of a \<^verbatim>\<open>DatabaseNode\<close>; construction, start with
    recovery, stop, the maintenance round, the topology synchronisation, fault and cluster messages.
  \<^item> NodeCommands: the client port: admission by limiter and backpressure, the dispatch of every command, and
    each handler over a cluster of nodes. \<open>node_env\<close> holds the clock and the outcome of every message of one request.
  \<^item> NodeRounds: one pass of the election, gossip and migration threads over the whole cluster, and joining.
  \<^item> NodeWrites: a write sent to any node has the effect of the write sent to the leader; forwarding ends.
    Its fuel is Python's recursion limit; the theorem gives the depth that is enough.
  \<^item> NodeTopology: the ring, the followers and the read peers after a synchronisation are functions of membership.
  \<^item> StoreInvariant, NodeSafety: the locale \<open>storage_invariant\<close> lists what an invariant of one storage must
    survive; interpreted on \<open>storage_wf\<close> it gives the type invariant of a whole cluster under every event. NodeIdentity: no
    operation changes the identifier a component was built with.
  \<^item> NodeListing: KEYS over the cluster, the reporting commands, the FAULT commands.

  \<^bold>\<open>The client side.\<close>
  \<^item> Client (\<^verbatim>\<open>network/client.py\<close>): the connection, partial reads, proxies, the pool. Cli (\<^verbatim>\<open>cli.py\<close>): words of a line,
    commands, the retry. CliSession: the loop at the prompt and what it prints.
  \<^item> Startup (\<^verbatim>\<open>main.py\<close>): configuration, start, joining through the first peer that answers, and how the node and the
    cluster come to know each other.
  \<^item> EndToEnd, NodeFailover and the properties at the end of this theory: SET through the leader followed by GET through
    another node, a typed line that travels to the dispatcher and back, the replacement of a silent leader.

  \<^bold>\<open>Conventions.\<close> Definitions are translated function by function and are executable; an operation takes the
  clock reading, random draws and the fate of the messages it sends as arguments. Floats are exact
  rationals. In the composed node one client command, one cluster message and one pass of a thread is one step. The code has no lock
  around a whole handler: components lock single operations, and the write lock covers one coordinated write. Interleavings inside a
  handler of the node are therefore outside the theorems about the node; Server models them for an arbitrary handler.

  A request a node sends to the client port of another one while it handles a command is admitted there by that node's limiter
  in the forwarded writes and the listings (\<open>serve\<close>); in the read, repair and import requests (\<open>get_remote_value_for_read\<close>,
  \<open>replicate_value_to_nodes\<close>, \<open>send_migration_keys\<close>) a refusal is one of the delivery outcomes, which are arbitrary, and the
  state of the remote limiter is not kept.

  Commands carry strings, as every client in the repository sends them; the text of an exception is a parameter
  (\<open>ev_show\<close>).

  \<^bold>\<open>Not modelled.\<close> The start and join of threads (their passes are), messages to the console other than those of the
  command-line client, its prompt and history file, \<^verbatim>\<open>argparse\<close>, commands whose arguments are not strings, rounding of floats, characters
  beyond code point 255, direct calls of \<^verbatim>\<open>apply_backpressure\<close> (only the manager calls it, with its own factors), and the demonstration scripts under \<^verbatim>\<open>src/examples\<close>, which only call the modelled components, sleep and print.
\<close>

section \<open>Properties of the whole program\<close>

text \<open>C1: GET returns what SET wrote. In a well-formed cluster, let the leader \<open>l\<close> acknowledge SET of a key at a synchronous consistency
  level, with nothing staged under its next index and no node showing a later version of the key than the leader. Then,
  whatever prepare and commit messages were lost, a GET at QUORUM through any node that reads from the nodes the leader
  writes to, all of which answer, in any order, returns exactly the written value; it can fail only when an answer missed
  the timeout.\<close>

theorem set_then_get:
  assumes "cluster_wf h c" and "dispatch ev gz fail l ''SET'' [k, v] c = (Inr (Success d), c')"
    and "el_is_leader (dn_election (c l))" and "is_sync_level (cf_default_consistency (dn_config (c l)))" and "l \<noteq> []"
    and "nothing_staged l c" and "leader_current ev l k c"
    and "ev_now ev \<le> ev_now ev'" and "fair_order (ev_order ev')" and "asks_writers ev' me l k c"
  shows "fst (dispatch ev' gz' fail' me ''GET'' [k, ''QUORUM''] c') \<in>
    insert (Inr (Success (JStr v)))
      (if snd (ev_order ev' (filter (\<lambda>n. n \<noteq> me) (read_replicas ev' me k c))) = [] then {}
       else {Inr (Failure (''Quorum read failed for key '' @ k))})"
proof -
  let ?ld = "leader_of ev (c l)" and ?R = "read_replicas ev' me k c" and ?t = "ev_now ev'"
  let ?e = "write_entry ?ld (ev_now ev) ''SET'' k (JStr v) None"
  obtain ld' w' where p: "apply_partition_write (ev_codec ev) (ev_now ev) (network_of ev (c l)) ?ld (followers_of c) ''SET'' k (JStr v) None =
      (Inr (Success d), ld', w')" and c': "c' = (put_followers w' c)(l := put_leader ld' (put_followers w' c l))"
    using leader_set [OF assms(2,3)] by blast
  have wf: "mb_wf (dn_membership (c l))" "cf_node_id (dn_config (c l)) = l"
    using cluster_wfD [OF assms(1), of l] by (auto simp: node_wf_def mb_wf_of_def)
  have ld: "ld_node_id ?ld = l" "ld_alive ?ld = map ni_node_id (get_alive_nodes (dn_membership (c l)))"
    "ld_write_sequence ?ld = dn_write_sequence (c l)" "ld_storage ?ld = node_storage (c l)"
    "ld_consistency ?ld = cf_default_consistency (dn_config (c l))" "ld_replication_factor ?ld = cf_replication_factor (dn_config (c l))"
    using wf(2) by (simp_all add: leader_of_def)
  have alive: "distinct (ld_alive ?ld)" using alive_distinct [OF wf(1)] by (simp add: ld)
  have staged: "\<forall>f \<in> set (ld_alive ?ld). dget (fl_staged (followers_of c f)) (ld_write_sequence ?ld + 1) = None"
    using assms(6) by (simp add: nothing_staged_def followers_of_def ld)
  have ver: "le_version ?e = (case kv_view (ev_now ev) (sg_store (node_storage (c l))) k of Some m \<Rightarrow> md_version m + 1 | None \<Rightarrow> 1)"
    by (simp add: write_entry_def make_entry_def ld)
  then have v0: "le_version ?e \<noteq> 0" using assms(7) by (auto simp: leader_current_def split: option.splits)
  obtain m where m: "entry_result ?e = Some m" "md_value m = JStr v" "md_version m = le_version ?e" "\<not> md_is_expired ?t m"
    by (simp add: entry_result_def write_entry_def make_entry_def md_is_expired_def)
  let ?S = "cluster_of l (ld_storage ld') w'"
  have st: "stores_of c' = ?S" by (auto simp: stores_of_def cluster_of_def c')
  have me: "dn_ring (c' me) = dn_ring (c me)" "dn_config (c' me) = dn_config (c me)" "dn_read_coordinator (c' me) = dn_read_coordinator (c me)"
    "peers_of ev' (c' me) = peers_of ev' (c me)" by (auto simp: c' peers_of_def)
  have cb: "read_callbacks_of ev' (c' me) = node_read_callbacks py_int_str (ev_float ev') (ev_codec ev') (peers_of ev' (c me)) me ?t
      (\<lambda>k. read_replicas ev' me k c) (\<lambda>k. get_leader_id (dn_cluster (c' me)))"
    using cluster_wfD [OF assms(1), of me] by (simp add: read_callbacks_of_def me read_replicas_def node_wf_def)
  have older: "\<forall>y. kv_view (ev_now ev) (sg_store (fl_storage (followers_of c n))) k = Some y \<longrightarrow> md_version y < le_version ?e" for n
    using assms(7) ver by (fastforce simp: leader_current_def followers_of_def node_storage_def)
  have written: "md_value x = JStr v"
    if "kv_view ?t (sg_store (?S n)) k = Some x" and "metadata_sort_key m \<le> result_sort_key (result_at n (Some x))" for n x
    using that m(3) by (intro written_value [OF p alive staged v0 older [of n] assms(8)])
      (auto simp: ld(1) metadata_sort_key_def result_sort_key_def result_at_def)
  have "fst (handle_get (ev_order ev') (read_callbacks_of ev' (c' me)) QUORUM (dn_read_coordinator (c me)) ?t [k] ?S) \<in>
    (if snd (ev_order ev' (filter (\<lambda>n. n \<noteq> me) ?R)) = [] then {} else {Failure (''Quorum read failed for key '' @ k)}) \<union>
    {Success (md_value x) | n x. n \<in> set ?R \<and> kv_view ?t (sg_store (?S n)) k = Some x \<and>
       metadata_sort_key m \<le> result_sort_key (result_at n (Some x))}"
    unfolding cb using assms(4,5,10)
    by (intro read_after_acknowledged_write [OF p _ alive staged v0 _ m(1,4) assms(9), where replicas = "\<lambda>k. read_replicas ev' me k c", unfolded ld(1)])
      (auto simp: ld asks_writers_def)
  then show ?thesis using written by (auto simp: get_quorum_arg me st case_prod_unfold Let_def)
qed

theorem set_then_get_witness:
  "\<exists>d c'. dispatch quiet_env length 0 ''b'' ''SET'' [''k'', ''v''] trio = (Inr (Success d), c') \<and>
     fst (dispatch quiet_env length 0 ''a'' ''GET'' [''k'', ''QUORUM''] c') = Inr (Success (JStr ''v''))"
proof -
  obtain d c' where w: "dispatch quiet_env length 0 ''b'' ''SET'' [''k'', ''v''] trio = (Inr (Success d), c')" using trio_set by blast
  have "el_is_leader (dn_election (trio ''b''))" "is_sync_level (cf_default_consistency (dn_config (trio ''b'')))"
    by (simp_all add: trio_defs election_init_def el_is_leader_def is_sync_level_def)
  from set_then_get [OF trio_wf w this _ trio_current(2,1) order_refl _ trio_asks, of length 0]
  have "fst (dispatch quiet_env length 0 ''a'' ''GET'' [''k'', ''QUORUM''] c') = Inr (Success (JStr ''v''))"
    by (simp add: fair_in_order) (simp add: in_order_def)
  with w show ?thesis by blast
qed

text \<open>C23: A typed command is executed once and its answer shown. Take a line of words in double quotes (and without one inside) whose
  first word is a command the client sends, in any case: empty words are dropped, GET sends its key and the level typed or set as the
  default, SHARDS, STATS, REBALANCE and FAILOVER send no arguments, any other command its arguments as typed. On a connection that works,
  cut into pieces at will in both directions, the node runs exactly its handler for this
  command with these arguments, through admission and dispatch, once; the result the user sees is the node's
  answer, success and data or error, and the node is left in the state of that handler.\<close>

theorem command_line_reaches_node:
  assumes "float_codec_ok fc" and "\<forall>w \<in> set ws. CHR 34 \<notin> set w" and "filter (\<lambda>w. w \<noteq> []) ws = word # typed"
    and "sent_as cl (py_upper word) typed = Some (cmd, args)"
    and "ready px os (cl_client cl) k = (True, c1, k1)" and "lk_sends (link_of os c1)"
    and "concat request = encode fc (create_command cmd args (tc_node_id (cl_client cl)))" and "[] \<notin> set request"
    and "serve ev (tc_node_id (cl_client cl)) me (dispatch ev gz fail me cmd args) c = (r, c')"
    and "message_ok fc (response_message r)"
    and "lk_receives (link_of os c1) = map Chunk pieces @ es" and "[] \<notin> set pieces"
    and "concat pieces = concat (map (encode fc) (fst (serve_connection fc et (node_handler ev gz fail me) [] request c)))"
  shows "cli_execute fc px os os' elapsed (command_line ws) cl k =
      (Inr (Some (cli_answer elapsed r)), cl\<lparr>cl_client := c1\<rparr>, k1) \<and>
    snd (snd (serve_connection fc et (node_handler ev gz fail me) [] request c)) = c'"
proof -
  have line: "parse_line (command_line ws) = word # typed"
    using parse_line_quoted [OF assms(2)] assms(3) by simp
  note sent = execute_sent [OF line assms(4)]
  have s: "serve_connection fc et (node_handler ev gz fail me) [] request c = ([response_message r], [], c')"
    using sent assms(9) by (intro served_command [OF assms(1,7,8)]) simp
  have "check_proxy px (cl_client cl)" using assms(5) by (auto simp: ready_def split: if_splits)
  from send_command_answered [OF assms(1,10) this assms(5,6,11) _ assms(12)] s assms(13)
  have reply: "send_command fc px os (cl_client cl) k cmd args = (Some (response_message r), c1, k1)" by simp
  have "cli_send fc px os os' elapsed cmd args cl k = (cli_answer elapsed r, cl\<lparr>cl_client := c1\<rparr>, k1)"
    by (cases r) (simp_all add: cli_send_def reply cli_answer_def response_message_def create_response_def new_message_def dict_get_def)
  with sent s show ?thesis by (simp add: cmd_send_def)
qed

theorem command_line_reaches_node_witness:
  "cli_execute whole_codec no_proxy (answering [encode whole_codec (response_message (Success (JStr ''PONG'')))]) restarted_peer 1
     (command_line [''ping'']) typing_cli 0 =
   (Inr (Some (cli_answer 1 (Success (JStr ''PONG'')))),
    typing_cli\<lparr>cl_client := (cl_client typing_cli)\<lparr>tc_socket := Some 0, tc_connected := True\<rparr>\<rparr>, 1)"
proof -
  let ?q = "[encode whole_codec (create_command ''PING'' [] ''cli'')]"
  let ?p = "[encode whole_codec (response_message (Success (JStr ''PONG'')))]"
  have u: "py_upper ''ping'' = ''PING''" "py_upper ''PING'' = ''PING''" by code_simp+
  have id: "tc_node_id (cl_client typing_cli) = ''cli''" by (simp add: typing_cli_def cli_init_def client_init_def)
  have "serve_connection whole_codec (\<lambda>_. []) (node_handler quiet_env length 0 ''b'') [] ?q sample_cluster =
      ([response_message (Success (JStr ''PONG''))], [], snd (admit quiet_env ''cli'' ''b'' sample_cluster))"
    by (rule served_command [OF whole_codec_ok, where cmd = "''PING''" and args = "[]" and sender = "''cli''", unfolded u, OF _ _ pong])
      (simp_all add: encode_frame)
  then show ?thesis
    using command_line_reaches_node [OF whole_codec_ok _ _ _ typing_ready, of "[''ping'']" "''ping''" "[]" "''PING''" "[]" ?p ?q quiet_env "''b''" length 0
        sample_cluster "Success (JStr ''PONG'')" _ ?p "[]" "\<lambda>_. []" restarted_peer 1] pong
    by (simp add: id u sent_as_def link_of_def answering_def encode_frame message_ok_def response_message_def create_response_def new_message_def)
qed

text \<open>C2: A silent leader is replaced. When a node that is not the leader has heard no heartbeat for longer than its election timeout, and
  members it believes alive that, with itself, are a majority of them answer, are not ahead of it in term and have logs
  no newer than its own, then one pass of its election loop makes it the leader of the next term, and after one more
  pass, whose heartbeats reach them, each of these members follows it in that term: writes sent to any of them are
  forwarded to the new leader. No assumption is made about the other members.\<close>

theorem failover:
  assumes "cluster_wf h c" and "me \<noteq> []" and "el_node_id (dn_election (c me)) = me"
    and "should_start_election (dn_election (c me)) (ev_now ev)" and "no_faults (c me)"
    and "G \<subseteq> ni_node_id ` set (get_alive_nodes (dn_membership (c me))) - {me}" and "\<forall>v \<in> G. willing ev me c v"
    and "required_majority (election_cluster_size (dn_cluster (c me))) \<le> 1 + int (card G)"
    and "\<forall>v \<in> G. ev_send ev' v \<noteq> Dropped"
    and "c' = election_pass ev' me (election_pass ev me c)"
  shows "el_is_leader (dn_election (c' me)) \<and> el_current_term (dn_election (c' me)) = el_current_term (dn_election (c me)) + 1 \<and>
    (\<forall>v \<in> G. follows me (el_current_term (dn_election (c me)) + 1) (c' v))"
proof -
  let ?T = "el_current_term (dn_election (c me)) + 1" and ?alive = "map ni_node_id (get_alive_nodes (dn_membership (c me)))"
  define c1 where "c1 = node_elect ev me c"
  have wf: "mb_wf (dn_membership (c me))" "co_node_id (dn_cluster (c me)) = me"
    using cluster_wfD [OF assms(1), of me] by (auto simp: node_wf_def mb_wf_of_def)
  have G: "G \<subseteq> set ?alive - {me}" using assms(6) by auto
  note elect = node_elect_wins [OF alive_distinct [OF wf(1)] refl assms(3,5) G assms(7,8) refl, folded c1_def]
  obtain el where me: "c1 me = (c me)\<lparr>dn_cluster := on_become_leader ((dn_cluster (c me))\<lparr>co_election := el\<rparr>)\<rparr>"
    and el: "el_is_leader el" "el_current_term el = ?T" using elect(1) by blast
  have e1: "dn_election (c1 me) = el" "co_node_id (dn_cluster (c1 me)) = me" "no_faults (c1 me)"
    using wf(2) assms(5) by (simp_all add: me on_become_leader_def)
  have alive: "map ni_node_id (get_alive_nodes (dn_membership (c1 me))) = ?alive"
    using alive_set_own_role [of LEADER "(dn_cluster (c me))\<lparr>co_election := el\<rparr>"] by (simp add: me on_become_leader_def)
  let ?ms = "heartbeat_messages me (c1 me)"
  have ms: "?ms = map (\<lambda>n. (n, create_heartbeat me ?T me (get_members_data (dn_membership (c1 me))))) (filter (\<lambda>n. n \<noteq> me) ?alive)"
    unfolding heartbeat_messages_eq [OF e1(2)] alive e1(1) el(2) by simp
  have c': "c' = send_all ev' me ?ms c1"
    using assms(4) el(1) e1(1) unfolding assms(10) election_pass_def c1_def [symmetric]
    by (simp add: should_start_election_def el_is_leader_def split: if_splits)
  have "c' me = c1 me" unfolding c' using e1(3) by (intro send_all_self) (auto simp: ms)
  moreover have "follows me ?T (c' v)" if "v \<in> G" for v
    unfolding c' ms using that elect(2) assms(2,9) G e1(3) by (intro heartbeats_followed) auto
  ultimately show ?thesis using e1(1) el by simp
qed

theorem failover_witness:
  "let ev = quiet_env\<lparr>ev_now := 10\<rparr>; c' = election_pass ev ''a'' (election_pass ev ''a'' trio)
   in el_is_leader (dn_election (c' ''a'')) \<and> follows ''a'' 1 (c' ''b'') \<and> follows ''a'' 1 (c' ''c'')"
proof -
  let ?ev = "quiet_env\<lparr>ev_now := 10\<rparr>"
  have el: "dn_election (trio n) = (election_init n (3 / 2) 3 1 0 2)\<lparr>el_leader_id := Some ''b'', el_role := if n = ''b'' then LEADER else FOLLOWER\<rparr>" for n
    by (simp add: trio_defs)
  have f: "no_faults (trio n)" for n by (simp add: trio_defs injector_init_def)
  have m: "map ni_node_id (get_alive_nodes (dn_membership (trio ''a''))) = [''a'', ''b'', ''c'']" "election_cluster_size (dn_cluster (trio ''a'')) = 3"
    by (simp_all add: trio_defs mb_add_node_def membership_init_def new_node_def get_alive_nodes_def all_members_def member_at_def
        election_cluster_size_def node_count_def)
  have G: "{''b'', ''c''} \<subseteq> ni_node_id ` set (get_alive_nodes (dn_membership (trio ''a''))) - {''a''}"
    unfolding set_map [symmetric] m(1) by simp
  have w: "\<forall>v \<in> {''b'', ''c''}. willing ?ev ''a'' trio v"
    using f by (simp add: willing_def el election_init_def is_log_up_to_date_def quiet_env_def)
  have s: "should_start_election (dn_election (trio ''a'')) (ev_now ?ev)" "\<forall>v \<in> {''b'', ''c''}. ev_send ?ev v \<noteq> Dropped"
    "el_node_id (dn_election (trio ''a'')) = ''a''" "el_current_term (dn_election (trio ''a'')) = 0"
    by (simp_all add: el election_init_def should_start_election_def quiet_env_def)
  have "required_majority (election_cluster_size (dn_cluster (trio ''a''))) \<le> 1 + int (card {''b'', ''c''})"
    by (simp add: m(2) required_majority_def)
  from failover [where me = "''a''", OF trio_wf _ s(3,1) f G w this s(2) refl] show ?thesis by (simp add: s(4) Let_def)
qed

end
